(* ===== verification/Prelude.thy ===== *)
theory Prelude
  imports Main "HOL-Library.AList" "HOL-Library.Char_ord" "HOL-Library.List_Lexorder"
    "HOL-Library.Sublist"
begin

text \<open>
  Shared vocabulary of the development: the pieces of the JavaScript language and standard library
  that the modelled files use (string trimming and splitting, \<open>new Set\<close>, JSON values, object
  spread, \<open>Array.prototype.sort\<close> on strings), and generic lemmas on lists and association lists.

  A string is a list of characters, one character per UTF-16 code unit below 256. Object literals
  and \<open>Map\<close>s are association lists in insertion order; a JSON number is an integer that \<open>JSON.stringify\<close>
  prints digit by digit (\<open>JInt\<close>, below \<open>10 ^ 21\<close> in size), or any other finite number, kept as the literal it
  prints (\<open>JFrac\<close>).
\<close>

named_theorems caracal_defs \<open>definitions unfolded by the component proofs\<close>

type_synonym time = int
type_synonym zone = string

subsection \<open>JSON values\<close>

datatype json =
    JNull
  | JBool bool
  | JInt int
  | JFrac string
  | JStr string
  | JArr "json list"
  | JObj "(string \<times> json) list"

text \<open>A property read \<open>o[k]\<close>: \<open>None\<close> is \<open>undefined\<close>.\<close>

definition jget :: "(string \<times> json) list \<Rightarrow> string \<Rightarrow> json option" where
  "jget ob k = map_of ob k"

text \<open>The spread \<open>{...a, ...b}\<close>: later properties overwrite earlier ones in place.\<close>

definition jspread :: "(string \<times> json) list \<Rightarrow> (string \<times> json) list \<Rightarrow> (string \<times> json) list" where
  "jspread a b = fold (\<lambda>(k, v) m. AList.update k v m) b a"

lemma jget_update [simp]: "jget (AList.update k v m) k' = (if k' = k then Some v else jget m k')"
  by (simp add: jget_def update_conv)

lemma jget_spread: "jget (jspread a b) k = (case map_of (rev b) k of None \<Rightarrow> jget a k | Some v \<Rightarrow> Some v)"
proof (induction b arbitrary: a)
  case Nil
  then show ?case by (simp add: jspread_def)
next
  case (Cons p b)
  obtain k' v' where p: "p = (k', v')" by (cases p)
  have step: "jspread a (p # b) = jspread (AList.update k' v' a) b"
    by (simp add: jspread_def p)
  show ?case
    unfolding step Cons.IH by (auto simp: p map_add_def split: option.splits)
qed

lemma jget_spread_Nil [simp]: "jspread a [] = a"
  by (simp add: jspread_def)

subsection \<open>Strings\<close>

definition is_space :: "char \<Rightarrow> bool" where
  "is_space c = (let n = (of_char c :: nat) in (9 \<le> n \<and> n \<le> 13) \<or> n = 32 \<or> n = 160)"

definition trim_start :: "string \<Rightarrow> string" where
  "trim_start s = dropWhile is_space s"

definition trim :: "string \<Rightarrow> string" where
  "trim s = rev (dropWhile is_space (rev (trim_start s)))"

text \<open>\<open>s.split(/\s+/)\<close>.\<close>

function split_ws :: "string \<Rightarrow> string list" where
  "split_ws s = (case dropWhile (\<lambda>c. \<not> is_space c) s of
       [] \<Rightarrow> [s]
     | c # r \<Rightarrow> takeWhile (\<lambda>c. \<not> is_space c) s # split_ws (dropWhile is_space r))"
  by pat_completeness auto
termination
proof (relation "measure length", goal_cases)
  case 1
  then show ?case by simp
next
  case (2 s c r)
  have "length (dropWhile (\<lambda>c. \<not> is_space c) s) \<le> length s"
    by (rule length_dropWhile_le)
  moreover have "length (dropWhile is_space r) \<le> length r"
    by (rule length_dropWhile_le)
  ultimately show ?case using 2 by simp
qed

declare split_ws.simps [simp del]

text \<open>\<open>s.split(c)\<close> for a one-character separator.\<close>

fun split_on :: "char \<Rightarrow> string \<Rightarrow> string list" where
  "split_on c [] = [[]]"
| "split_on c (x # xs) =
     (if x = c then [] # split_on c xs
      else case split_on c xs of [] \<Rightarrow> [[x]] | p # ps \<Rightarrow> (x # p) # ps)"

definition starts_with :: "string \<Rightarrow> string \<Rightarrow> bool" where
  "starts_with p s = (take (length p) s = p)"

definition to_lower_char :: "char \<Rightarrow> char" where
  "to_lower_char c = (let n = (of_char c :: nat) in
     if (65 \<le> n \<and> n \<le> 90) \<or> (192 \<le> n \<and> n \<le> 222 \<and> n \<noteq> 215) then char_of (n + 32) else c)"

definition to_lower :: "string \<Rightarrow> string" where
  "to_lower s = map to_lower_char s"

text \<open>Decimal rendering of a number, \<open>String(n)\<close>.\<close>

definition digit_char :: "nat \<Rightarrow> char" where
  "digit_char d = char_of (48 + d)"

function show_nat :: "nat \<Rightarrow> string" where
  "show_nat n = (if n < 10 then [digit_char n] else show_nat (n div 10) @ [digit_char (n mod 10)])"
  by pat_completeness auto
termination
  by (relation "measure id") auto

declare show_nat.simps [simp del]

definition show_int :: "int \<Rightarrow> string" where
  "show_int i = (if i < 0 then CHR ''-'' # show_nat (nat (- i)) else show_nat (nat i))"

text \<open>\<open>[...new Set(xs)]\<close>: first occurrences, in order.\<close>

definition uniq :: "'a list \<Rightarrow> 'a list" where
  "uniq xs = rev (remdups (rev xs))"

lemma set_uniq [simp]: "set (uniq xs) = set xs"
  by (simp add: uniq_def)

lemma distinct_uniq [simp]: "distinct (uniq xs)"
  by (simp add: uniq_def)

lemma uniq_distinct: "distinct xs \<Longrightarrow> uniq xs = xs"
  by (simp add: uniq_def distinct_remdups_id)

lemma length_uniq: "length (uniq xs) \<le> length xs"
  by (simp add: uniq_def) (metis length_remdups_leq length_rev)

lemma find_SomeD: "find P xs = Some x \<Longrightarrow> x \<in> set xs \<and> P x"
  by (auto simp: find_Some_iff)

subsection \<open>Exceptions as values\<close>

text \<open>A computation that may throw: \<open>Inl\<close> is the thrown error, \<open>Inr\<close> the value.\<close>

definition ebind :: "'e + 'a \<Rightarrow> ('a \<Rightarrow> 'e + 'b) \<Rightarrow> 'e + 'b" where
  "ebind m f = (case m of Inl e \<Rightarrow> Inl e | Inr a \<Rightarrow> f a)"

definition eguard :: "bool \<Rightarrow> 'e \<Rightarrow> 'e + unit" where
  "eguard ok e = (if ok then Inr () else Inl e)"

lemma ebind_simps [simp]: "ebind (Inl e) f = Inl e" "ebind (Inr a) f = f a"
  by (simp_all add: ebind_def)

lemma ebind_Inr [simp]: "ebind m f = Inr b \<longleftrightarrow> (\<exists>a. m = Inr a \<and> f a = Inr b)"
  by (cases m) auto

lemma eguard_Inr [simp]: "eguard ok e = Inr u \<longleftrightarrow> ok"
  by (simp add: eguard_def)

lemma eguard_Inl [simp]: "eguard ok e = Inl e' \<longleftrightarrow> \<not> ok \<and> e' = e"
  by (auto simp: eguard_def)

text \<open>An early return: \<open>if (bad) return ...\<close>, and the test of a row or value that may be missing.\<close>

definition reject :: "bool \<Rightarrow> 'e \<Rightarrow> 'e + 'a \<Rightarrow> 'e + 'a" where
  "reject bad e k = (if bad then Inl e else k)"

definition expect :: "'b option \<Rightarrow> 'e \<Rightarrow> ('b \<Rightarrow> 'e + 'a) \<Rightarrow> 'e + 'a" where
  "expect m e k = (case m of None \<Rightarrow> Inl e | Some x \<Rightarrow> k x)"

lemma reject_simps [simp]: "reject True e k = Inl e" "reject False e k = k"
  by (simp_all add: reject_def)

lemma reject_Inr [simp]: "reject bad e k = Inr x \<longleftrightarrow> \<not> bad \<and> k = Inr x"
  by (simp add: reject_def)

lemma reject_Inl: "reject bad e k = Inl x \<longleftrightarrow> bad \<and> x = e \<or> \<not> bad \<and> k = Inl x"
  by (auto simp: reject_def)

lemma expect_simps [simp]: "expect None e k = Inl e" "expect (Some x) e k = k x"
  by (simp_all add: expect_def)

lemma expect_Inr [simp]: "expect m e k = Inr x \<longleftrightarrow> (\<exists>a. m = Some a \<and> k a = Inr x)"
  by (cases m) auto

lemma expect_Inl: "expect m e k = Inl x \<longleftrightarrow> m = None \<and> x = e \<or> (\<exists>a. m = Some a \<and> k a = Inl x)"
  by (cases m) auto

lemma ebind_Inl: "ebind m f = Inl x \<longleftrightarrow> m = Inl x \<or> (\<exists>a. m = Inr a \<and> f a = Inl x)"
  by (cases m) auto

text \<open>A string is falsy when absent or empty.\<close>

definition truthy :: "string option \<Rightarrow> bool" where
  "truthy v = (case v of None \<Rightarrow> False | Some s \<Rightarrow> s \<noteq> [])"

lemma truthy_iff: "truthy v \<longleftrightarrow> (\<exists>s. v = Some s \<and> s \<noteq> [])"
  by (auto simp: truthy_def split: option.splits)

subsection \<open>Dates\<close>

text \<open>
  \<open>new Date(t).toISOString()\<close> for a time value in milliseconds: the proleptic Gregorian calendar
  date of the day number, and the time of day.
\<close>

definition civil_of_days :: "int \<Rightarrow> int \<times> int \<times> int" where
  "civil_of_days z =
    (let z' = z + 719468; era = z' div 146097; doe = z' mod 146097;
         yoe = (doe - doe div 1460 + doe div 36524 - doe div 146096) div 365;
         doy = doe - (365 * yoe + yoe div 4 - yoe div 100);
         mp = (5 * doy + 2) div 153;
         d = doy - (153 * mp + 2) div 5 + 1;
         m = (if mp < 10 then mp + 3 else mp - 9);
         y = yoe + era * 400 + (if m \<le> 2 then 1 else 0)
     in (y, m, d))"

definition pad :: "nat \<Rightarrow> int \<Rightarrow> string" where
  "pad w n = (let s = show_nat (nat n) in replicate (w - length s) (CHR ''0'') @ s)"

definition toISOString :: "time \<Rightarrow> string" where
  "toISOString t =
    (let days = t div 86400000; ms = t mod 86400000; (y, m, d) = civil_of_days days;
         year = (if 0 \<le> y \<and> y \<le> 9999 then pad 4 y
                 else if y < 0 then CHR ''-'' # pad 6 (- y) else CHR ''+'' # pad 6 y)
     in year @ ''-'' @ pad 2 m @ ''-'' @ pad 2 d @ ''T'' @ pad 2 (ms div 3600000) @ '':'' @
        pad 2 (ms div 60000 mod 60) @ '':'' @ pad 2 (ms div 1000 mod 60) @ ''.'' @ pad 3 (ms mod 1000) @ ''Z'')"

subsection \<open>Whitespace splitting: the tokens hold no space and none is lost\<close>

lemma split_ws_tokens: "t \<in> set (split_ws s) \<Longrightarrow> c \<in> set t \<Longrightarrow> \<not> is_space c"
proof (induction s rule: split_ws.induct)
  case (1 s)
  show ?case
  proof (cases "dropWhile (\<lambda>c. \<not> is_space c) s")
    case Nil
    with "1.prems" show ?thesis by (auto simp: split_ws.simps [of s])
  next
    case (Cons d r)
    from "1.prems"(1) Cons consider "t = takeWhile (\<lambda>c. \<not> is_space c) s"
      | "t \<in> set (split_ws (dropWhile is_space r))"
      by (auto simp: split_ws.simps [of s])
    then show ?thesis
      using "1.IH" [OF Cons] "1.prems"(2) by cases (auto dest: set_takeWhileD)
  qed
qed

lemma filter_dropWhile_not: "filter (\<lambda>c. \<not> P c) (dropWhile P xs) = filter (\<lambda>c. \<not> P c) xs"
  by (induction xs) auto

lemma concat_split_ws: "concat (split_ws s) = filter (\<lambda>c. \<not> is_space c) s"
proof (induction s rule: split_ws.induct)
  case (1 s)
  let ?t = "takeWhile (\<lambda>c. \<not> is_space c) s" and ?d = "dropWhile (\<lambda>c. \<not> is_space c) s"
  have s: "filter (\<lambda>c. \<not> is_space c) s = filter (\<lambda>c. \<not> is_space c) ?t @ filter (\<lambda>c. \<not> is_space c) ?d"
    by (metis filter_append takeWhile_dropWhile_id)
  have t: "filter (\<lambda>c. \<not> is_space c) ?t = ?t"
    by (auto intro!: filter_True dest: set_takeWhileD)
  show ?case
  proof (cases ?d)
    case Nil
    then have "filter (\<lambda>c. \<not> is_space c) s = s" by (auto intro: filter_True)
    with Nil show ?thesis by (simp add: split_ws.simps [of s] del: dropWhile_eq_Nil_conv)
  next
    case (Cons d r)
    have "is_space d" using hd_dropWhile [of "\<lambda>c. \<not> is_space c" s] Cons by simp
    with "1.IH" [OF Cons] Cons s t show ?thesis
      by (simp add: split_ws.simps [of s] filter_dropWhile_not)
  qed
qed

end
