(* ===== verification/Scope.thy ===== *)
theory Scope
  imports Prelude
begin

text \<open>
  Scope strings and scope sets: \<open>packages/core/ts/src/scope.ts\<close>. \<open>parseScope\<close> reads an OAuth scope
  string, \<open>hasScope\<close> asks for one scope of it and \<open>scopesAllowed\<close> decides that a requested scope
  list stays inside an available one. The last one is a preorder, which is what makes delegation
  chains narrow: the locale \<open>narrowing_order\<close> states that contract once and the delegation theory
  uses it along whole chains.
\<close>

text \<open>The loop of \<open>parseScope\<close>: \<open>seen\<close> is the Set, \<open>out\<close> the array.\<close>

fun parseScope_loop :: "string list \<Rightarrow> string set \<Rightarrow> string list \<Rightarrow> string list" where
  "parseScope_loop [] seen out = out"
| "parseScope_loop (token # tokens) seen out =
     (if token = [] \<or> token \<in> seen then parseScope_loop tokens seen out
      else parseScope_loop tokens (insert token seen) (out @ [token]))"

definition parseScope :: "string option \<Rightarrow> string list" where
  "parseScope scope =
     (case scope of
        None \<Rightarrow> []
      | Some s \<Rightarrow> if s = [] then [] else parseScope_loop (split_ws s) {} [])"

definition hasScope :: "string option \<Rightarrow> string \<Rightarrow> bool" where
  "hasScope scope required = (if required = [] then False else required \<in> set (parseScope scope))"

definition scopesAllowed :: "string list \<Rightarrow> string list \<Rightarrow> bool" where
  "scopesAllowed requested available = list_all (\<lambda>s. s \<in> set available) requested"

subsection \<open>What the loop computes\<close>

lemma parseScope_loop_set:
  "set (parseScope_loop tokens seen out) = set out \<union> {t \<in> set tokens. t \<noteq> [] \<and> t \<notin> seen}"
  by (induction tokens seen out rule: parseScope_loop.induct) auto

lemma parseScope_loop_distinct:
  "distinct out \<Longrightarrow> set out = seen \<Longrightarrow> distinct (parseScope_loop tokens seen out)"
  by (induction tokens seen out rule: parseScope_loop.induct) auto

lemma parseScope_loop_subseq:
  "\<exists>new. parseScope_loop tokens seen out = out @ new \<and> subseq new tokens"
proof (induction tokens seen out rule: parseScope_loop.induct)
  case (1 seen out)
  then show ?case by simp
next
  case (2 token tokens seen out)
  then show ?case by (auto simp: subseq_Cons')
qed

lemma set_parseScope:
  "set (parseScope scope) = (case scope of None \<Rightarrow> {} | Some s \<Rightarrow> set (split_ws s) - {[]})"
proof (cases scope)
  case (Some s)
  have "set (split_ws []) - {[]} = {}" by (simp add: split_ws.simps)
  with Some show ?thesis by (auto simp: parseScope_def parseScope_loop_set)
qed (simp add: parseScope_def)

lemma scopesAllowed_iff [simp]: "scopesAllowed requested available \<longleftrightarrow> set requested \<subseteq> set available"
  by (auto simp: scopesAllowed_def list_all_iff)

subsection \<open>Narrowing as a preorder\<close>

text \<open>
  The contract a delegation hop relies on: a reflexive, transitive "stays within" relation. Inside
  the locale it is lifted to chains of grants: if every link stays within its predecessor, the last
  grant stays within the first.
\<close>

locale narrowing_order =
  fixes within :: "'a \<Rightarrow> 'a \<Rightarrow> bool"
  assumes within_refl: "within a a"
    and within_trans: "within a b \<Longrightarrow> within b c \<Longrightarrow> within a c"
begin

lemma chain_within:
  "successively (\<lambda>x y. within y x) (a # as) \<Longrightarrow> b \<in> set (a # as) \<Longrightarrow> within b a"
proof (induction as arbitrary: a)
  case Nil
  then show ?case by (simp add: within_refl)
next
  case (Cons c as)
  from Cons.prems(1) have ca: "within c a" and rest: "successively (\<lambda>x y. within y x) (c # as)"
    by simp_all
  show ?case
  proof (cases "b = a")
    case True
    then show ?thesis by (simp add: within_refl)
  next
    case False
    with Cons.prems(2) have "within b c" by (intro Cons.IH [OF rest]) simp
    then show ?thesis using ca by (rule within_trans)
  qed
qed

end

interpretation scopes: narrowing_order scopesAllowed
  by unfold_locales auto

text \<open>
  The scope parser returns the non-empty whitespace-separated tokens of its input, each once and
  in the order of their first occurrence, and a token never contains whitespace.
\<close>

theorem parseScope_tokens:
  "set (parseScope (Some s)) = set (split_ws s) - {[]} \<and> distinct (parseScope (Some s)) \<and>
   subseq (parseScope (Some s)) (split_ws s) \<and>
   concat (split_ws s) = filter (\<lambda>c. \<not> is_space c) s \<and>
   \<not> (\<exists>t \<in> set (parseScope (Some s)). \<exists>c \<in> set t. is_space c)"
proof -
  have "set (parseScope (Some s)) = set (split_ws s) - {[]}" by (simp add: set_parseScope)
  moreover have "distinct (parseScope (Some s))"
    by (simp add: parseScope_def parseScope_loop_distinct)
  moreover have "subseq (parseScope (Some s)) (split_ws s)"
    using parseScope_loop_subseq [of "split_ws s" "{}" "[]"] by (auto simp: parseScope_def)
  moreover have "\<not> (\<exists>t \<in> set (parseScope (Some s)). \<exists>c \<in> set t. is_space c)"
    using calculation(1) by (auto dest: split_ws_tokens)
  ultimately show ?thesis by (simp add: concat_split_ws)
qed

end
