(* ===== verification/CoordDb.thy ===== *)
theory CoordDb
  imports Prelude Scope
begin

text \<open>
  The coordinator's store: one record per table of the schema with the columns the coordinator reads
  or writes, the constraints an \<open>INSERT\<close> is checked against, and the transaction wrapper every
  mutating route uses. The transactional outbox (\<open>apps/coordinator/src/outbox.ts\<close>) and the
  delegation epochs (\<open>apps/coordinator/src/delegationEpochs.ts\<close>) are modelled here because every
  route writes through them.

  Times are milliseconds. A table is a list of rows in insertion order; \<open>UPDATE ... WHERE\<close> maps
  over it, and \<open>RETURNING\<close> lists the changed rows in table order. What lies outside the source (the
  clock, the UUID generator, hash functions, the date-time parser of the validation library, the
  size of a stored JSON document) is the record \<open>env\<close>, an argument of the definitions that use it.
\<close>

subsection \<open>Rows\<close>

datatype lifecycle = Task | Service
datatype session_status = SActive | SSuspended | STerminated | SExpired
datatype edge_status = EActive | ERevoked | EExpired
datatype authority_status = AActive | ARevoked | AExpired
datatype outbox_status = OPending | OPublished | ODead
datatype registration = Managed | Dcr

record session =
  s_id :: string
  s_zone :: zone
  s_app :: string
  s_parent :: "string option"
  s_subject :: string
  s_lifecycle :: lifecycle
  s_status :: session_status
  s_depth :: int
  s_labels :: "string list"
  s_max_children :: int
  s_child_count :: int
  s_ttl :: "int option"
  s_metadata :: json
  s_started :: time
  s_active_at :: time
  s_terminated :: "time option"
  s_reason :: "string option"
  s_heartbeat :: "time option"
  s_deadline :: "time option"
  s_lease :: int
  s_updated :: time

record edge =
  e_id :: string
  e_zone :: zone
  e_source :: string
  e_target :: string
  e_issuer :: string
  e_receiver :: string
  e_parent :: "string option"
  e_resource :: "string option"
  e_scopes :: "string list"
  e_constraints :: json
  e_status :: edge_status
  e_expires :: time
  e_version :: int
  e_revoked :: "time option"
  e_created :: time
  e_updated :: time

record application =
  a_id :: string
  a_zone :: zone
  a_method :: registration
  a_expires :: "time option"
  a_archived :: "time option"

record authority =
  r_id :: string
  r_zone :: zone
  r_type :: string
  r_subject :: "string option"
  r_parent :: "string option"
  r_status :: authority_status
  r_expires :: time
  r_created :: time
  r_revoked :: "time option"
  r_reason :: "string option"

record resource =
  res_id :: string
  res_zone :: zone
  res_identifier :: string
  res_scopes :: "string list"
  res_archived :: "time option"

record outbox_row =
  o_id :: string
  o_producer :: string
  o_topic :: string
  o_key :: string
  o_payload :: json
  o_status :: outbox_status
  o_attempts :: int
  o_available :: time
  o_published :: "time option"
  o_created :: time
  o_updated :: time

record receipt =
  rc_id :: string
  rc_operation :: string
  rc_zone :: zone
  rc_scope :: string
  rc_key :: string
  rc_request :: string
  rc_type :: string
  rc_resource :: string
  rc_status :: int
  rc_response :: json
  rc_created :: time
  rc_expires :: time

record service =
  v_id :: string
  v_zone :: zone
  v_app :: string
  v_endpoint :: string
  v_protocols :: "string list"
  v_framework :: "string option"
  v_version :: "string option"
  v_capabilities :: "string list"
  v_health :: string
  v_metadata :: "(string \<times> json) list"
  v_heartbeat :: "time option"
  v_updated :: time

datatype invocation_status =
  IPending | IRunning | ISucceeded | IFailed | ICancelRequested | ICanceled | ITimedOut | IDead

record invocation =
  i_id :: string
  i_zone :: zone
  i_service :: string
  i_source :: "string option"
  i_target :: "string option"
  i_method :: string
  i_params :: json
  i_metadata :: "(string \<times> json) list"
  i_status :: invocation_status
  i_attempts :: int
  i_max_attempts :: int
  i_timeout :: int
  i_policy :: json
  i_error :: "json option"
  i_deadline :: "time option"
  i_cancel :: "time option"
  i_started :: "time option"
  i_completed :: "time option"
  i_created :: time
  i_updated :: time

record db =
  sessions :: "session list"
  topology :: "(string \<times> string) list"
  edges :: "edge list"
  epochs :: "(zone \<times> int) list"
  outbox :: "outbox_row list"
  receipts :: "receipt list"
  applications :: "application list"
  authorities :: "authority list"
  resources :: "resource list"
  services :: "service list"
  invocations :: "invocation list"
  uuids :: nat

text \<open>What the routes take from outside the source, and the configuration values they read.\<close>

record env =
  now :: time
  uuidv7 :: "nat \<Rightarrow> string"
  sha256 :: "string \<Rightarrow> string"
  hmac256 :: "string \<Rightarrow> string \<Rightarrow> string"
  datetime :: "string \<Rightarrow> time option"
  url_ok :: "string \<Rightarrow> bool"
  jsonb_octets :: "json \<Rightarrow> nat"

record cfg =
  maxSessionsPerZone :: int
  maxSessionsPerApp :: int
  serviceSessionLeaseSeconds :: int
  idempotencyHmacKeys :: "string list"
  idempotencyRetentionSeconds :: int
  generatedIdempotencyRetentionSeconds :: int
  idempotencyMaxReceiptsPerScope :: int
  invocationRateLimitPerMin :: int
  sweeperBatchSize :: nat
  retentionCleanupBatchSize :: nat
  sessionRetentionDays :: int
  delegationRetentionDays :: int
  outboxRetentionDays :: int

text \<open>The identity the bearer check attaches to a request, \<open>req.caracalAuth\<close>.\<close>

record auth =
  au_zone :: zone
  au_scopes :: "string list"
  au_subject :: string
  au_client :: string
  au_session :: "string option"
  au_edge :: "string option"
  au_authority :: "string option"

definition requireScope :: "auth \<Rightarrow> string \<Rightarrow> bool" where
  "requireScope req scope = (scope \<in> set (au_scopes req))"

definition ownsApplication :: "auth \<Rightarrow> string \<Rightarrow> bool" where
  "ownsApplication req applicationId = (au_client req = applicationId)"

subsection \<open>Replies and transactions\<close>

record reply =
  code :: int
  replayed :: bool
  payload :: json

definition send :: "int \<Rightarrow> json \<Rightarrow> reply" where
  "send c p = \<lparr>code = c, replayed = False, payload = p\<rparr>"

definition err :: "int \<Rightarrow> string \<Rightarrow> reply" where
  "err c e = send c (JObj [(''error'', JStr e)])"

text \<open>
  The reply of the error handler to an unexpected exception (here: a violated constraint, or a
  recursive statement that the statement timeout stops) and to a body that fails validation.
\<close>

definition internal_error :: reply where
  "internal_error = err 500 ''internal_error''"

definition invalid_body :: reply where
  "invalid_body = err 400 ''invalid_body''"

text \<open>
  \<open>BEGIN\<close> ... \<open>COMMIT\<close>: \<open>Inl\<close> is a reply sent after \<open>ROLLBACK\<close>, which leaves the store as it was;
  \<open>Inr\<close> is a reply sent after \<open>COMMIT\<close>.
\<close>

definition transact :: "(db \<Rightarrow> reply + (reply \<times> db)) \<Rightarrow> db \<Rightarrow> reply \<times> db" where
  "transact f d = (case f d of Inl r \<Rightarrow> (r, d) | Inr rd \<Rightarrow> rd)"

definition is_success :: "reply \<Rightarrow> bool" where
  "is_success r = (200 \<le> code r \<and> code r < 300)"

lemma code_send [simp]: "code (send c p) = c" "payload (send c p) = p" "replayed (send c p) = False"
  by (simp_all add: send_def)

lemma code_err [simp]: "code (err c e) = c" "replayed (err c e) = False"
  by (simp_all add: err_def)

lemma code_fixed [simp]: "code internal_error = 500" "code invalid_body = 400"
  by (simp_all add: internal_error_def invalid_body_def)

lemma transact_cases:
  "transact f d = (r, d') \<longleftrightarrow> f d = Inl r \<and> d' = d \<or> f d = Inr (r, d')"
  by (auto simp: transact_def split: sum.splits)

text \<open>A computation whose early returns all carry an error status.\<close>

definition errs :: "reply + 'a \<Rightarrow> bool" where
  "errs m \<longleftrightarrow> (\<forall>r. m = Inl r \<longrightarrow> 400 \<le> code r \<and> \<not> replayed r)"

lemma errs_Inr [intro!, simp]: "errs (Inr x)"
  by (simp add: errs_def)

lemma errs_Inl [simp]: "errs (Inl r) \<longleftrightarrow> 400 \<le> code r \<and> \<not> replayed r"
  by (simp add: errs_def)

lemma errs_reject [intro!]: "400 \<le> code r \<Longrightarrow> \<not> replayed r \<Longrightarrow> errs k \<Longrightarrow> errs (reject b r k)"
  by (simp add: errs_def reject_Inl)

lemma errs_expect [intro!]: "400 \<le> code r \<Longrightarrow> \<not> replayed r \<Longrightarrow> (\<And>x. m = Some x \<Longrightarrow> errs (k x)) \<Longrightarrow> errs (expect m r k)"
  by (auto simp: errs_def expect_Inl)

lemma errs_ebind [intro!]: "errs m \<Longrightarrow> (\<And>x. m = Inr x \<Longrightarrow> errs (k x)) \<Longrightarrow> errs (ebind m k)"
  by (auto simp: errs_def ebind_Inl)

lemma errs_eguard [intro!]: "400 \<le> code r \<Longrightarrow> \<not> replayed r \<Longrightarrow> errs (eguard b r)"
  by (simp add: errs_def)

lemma replayed_fixed [simp]: "\<not> replayed internal_error" "\<not> replayed invalid_body"
  by (simp_all add: internal_error_def invalid_body_def)

lemma transact_success:
  assumes "transact f d = (r, d')" "errs (f d)"
  shows "is_success r \<Longrightarrow> f d = Inr (r, d')" "d' \<noteq> d \<Longrightarrow> f d = Inr (r, d')"
  using assms by (auto simp: transact_cases is_success_def errs_def)

subsection \<open>Path parameters\<close>

definition id_char :: "char \<Rightarrow> bool" where
  "id_char c = (let n = (of_char c :: nat) in
     (65 \<le> n \<and> n \<le> 90) \<or> (97 \<le> n \<and> n \<le> 122) \<or> (48 \<le> n \<and> n \<le> 57) \<or>
     c \<in> {CHR ''_'', CHR ''.'', CHR ''-'', CHR '':''})"

definition CoordinatorIdPattern :: "string \<Rightarrow> bool" where
  "CoordinatorIdPattern s = (1 \<le> length s \<and> length s \<le> 128 \<and> list_all id_char s)"

definition parseParams :: "string list \<Rightarrow> reply + unit" where
  "parseParams ids = eguard (list_all CoordinatorIdPattern ids) (err 400 ''invalid_params'')"

lemma errs_parseParams [intro!, simp]: "errs (parseParams ids)"
  unfolding parseParams_def by (intro errs_eguard) simp_all

lemma parsed_success:
  assumes "(case parseParams ids of Inl r \<Rightarrow> (r, d) | Inr _ \<Rightarrow> transact f d) = (r, d')" "errs (f d)"
  shows "is_success r \<Longrightarrow> f d = Inr (r, d')" "d' \<noteq> d \<Longrightarrow> f d = Inr (r, d')"
  using assms transact_success [of f d r d'] errs_parseParams [of ids]
  by (cases "parseParams ids"; auto simp: is_success_def simp del: errs_parseParams)+

subsection \<open>Rows as JSON\<close>

definition jopt :: "('a \<Rightarrow> json) \<Rightarrow> 'a option \<Rightarrow> json" where
  "jopt f v = (case v of None \<Rightarrow> JNull | Some x \<Rightarrow> f x)"

definition jtime :: "time \<Rightarrow> json" where
  "jtime t = JStr (toISOString t)"

definition jstrs :: "string list \<Rightarrow> json" where
  "jstrs xs = JArr (map JStr xs)"

fun show_lifecycle :: "lifecycle \<Rightarrow> string" where
  "show_lifecycle Task = ''task''"
| "show_lifecycle Service = ''service''"

fun show_session_status :: "session_status \<Rightarrow> string" where
  "show_session_status SActive = ''active''"
| "show_session_status SSuspended = ''suspended''"
| "show_session_status STerminated = ''terminated''"
| "show_session_status SExpired = ''expired''"

fun show_edge_status :: "edge_status \<Rightarrow> string" where
  "show_edge_status EActive = ''active''"
| "show_edge_status ERevoked = ''revoked''"
| "show_edge_status EExpired = ''expired''"

fun show_invocation_status :: "invocation_status \<Rightarrow> string" where
  "show_invocation_status IPending = ''pending''"
| "show_invocation_status IRunning = ''running''"
| "show_invocation_status ISucceeded = ''succeeded''"
| "show_invocation_status IFailed = ''failed''"
| "show_invocation_status ICancelRequested = ''cancel_requested''"
| "show_invocation_status ICanceled = ''canceled''"
| "show_invocation_status ITimedOut = ''timed_out''"
| "show_invocation_status IDead = ''dead''"

lemma show_invocation_status_inj: "show_invocation_status x = show_invocation_status y \<Longrightarrow> x = y"
  by (cases x; cases y) simp_all

subsection \<open>The transactional outbox\<close>

definition AgentsLifecycle :: string where "AgentsLifecycle = ''caracal.agents.lifecycle''"
definition SessionsRevoke :: string where "SessionsRevoke = ''caracal.sessions.revoke''"
definition InvocationsLifecycle :: string where "InvocationsLifecycle = ''caracal.invocations.lifecycle''"
definition DelegationsInvalidate :: string where "DelegationsInvalidate = ''caracal.delegations.invalidate''"

text \<open>An outbox item: its topic, its dedupe key and its payload.\<close>

type_synonym outbox_item = "string \<times> string \<times> json"

definition outbox_has :: "outbox_row list \<Rightarrow> string \<Rightarrow> string \<Rightarrow> string \<Rightarrow> bool" where
  "outbox_has rows producer topic key =
     list_ex (\<lambda>r. o_producer r = producer \<and> o_topic r = topic \<and> o_key r = key) rows"

definition enqueue :: "env \<Rightarrow> string \<Rightarrow> string \<Rightarrow> json \<Rightarrow> db \<Rightarrow> db" where
  "enqueue e topic dedupeKey pl d =
    (let d' = d\<lparr>uuids := Suc (uuids d)\<rparr> in
     if outbox_has (outbox d) ''coordinator'' topic dedupeKey then d'
     else d'\<lparr>outbox := outbox d @
       [\<lparr>o_id = uuidv7 e (uuids d), o_producer = ''coordinator'', o_topic = topic, o_key = dedupeKey,
         o_payload = pl, o_status = OPending, o_attempts = 0, o_available = now e,
         o_published = None, o_created = now e, o_updated = now e\<rparr>]\<rparr>)"

definition enqueueMany :: "env \<Rightarrow> outbox_item list \<Rightarrow> db \<Rightarrow> db" where
  "enqueueMany e items d = fold (\<lambda>(topic, key, pl). enqueue e topic key pl) items d"

subsection \<open>Delegation epochs\<close>

definition epoch_of :: "db \<Rightarrow> zone \<Rightarrow> int" where
  "epoch_of d z = (case map_of (epochs d) z of None \<Rightarrow> 0 | Some n \<Rightarrow> n)"

definition bumpDelegationEpoch :: "zone \<Rightarrow> db \<Rightarrow> int \<times> db" where
  "bumpDelegationEpoch z d =
     (let n = (case map_of (epochs d) z of None \<Rightarrow> 1 | Some n \<Rightarrow> n + 1)
      in (n, d\<lparr>epochs := AList.update z n (epochs d)\<rparr>))"

subsection \<open>What enqueueing and bumping leave alone\<close>

lemma enqueue_frame [simp]:
  "sessions (enqueue e t k p d) = sessions d"
  "topology (enqueue e t k p d) = topology d"
  "edges (enqueue e t k p d) = edges d"
  "receipts (enqueue e t k p d) = receipts d"
  "applications (enqueue e t k p d) = applications d"
  "authorities (enqueue e t k p d) = authorities d"
  "resources (enqueue e t k p d) = resources d"
  "services (enqueue e t k p d) = services d"
  "invocations (enqueue e t k p d) = invocations d"
  "epochs (enqueue e t k p d) = epochs d"
  by (simp_all add: enqueue_def Let_def)

lemma enqueueMany_Nil [simp]: "enqueueMany e [] d = d"
  by (simp add: enqueueMany_def)

lemma enqueueMany_Cons [simp]: "enqueueMany e (i # is) d = enqueueMany e is (enqueue e (fst i) (fst (snd i)) (snd (snd i)) d)"
  by (simp add: enqueueMany_def split_beta)

lemma enqueueMany_append: "enqueueMany e (is @ js) d = enqueueMany e js (enqueueMany e is d)"
  by (simp add: enqueueMany_def)

lemma enqueueMany_frame [simp]:
  "sessions (enqueueMany e is d) = sessions d"
  "topology (enqueueMany e is d) = topology d"
  "edges (enqueueMany e is d) = edges d"
  "receipts (enqueueMany e is d) = receipts d"
  "applications (enqueueMany e is d) = applications d"
  "authorities (enqueueMany e is d) = authorities d"
  "resources (enqueueMany e is d) = resources d"
  "services (enqueueMany e is d) = services d"
  "invocations (enqueueMany e is d) = invocations d"
  "epochs (enqueueMany e is d) = epochs d"
  by (induction "is" arbitrary: d) simp_all

lemma bump_frame [simp]:
  "sessions (snd (bumpDelegationEpoch z d)) = sessions d"
  "topology (snd (bumpDelegationEpoch z d)) = topology d"
  "edges (snd (bumpDelegationEpoch z d)) = edges d"
  "receipts (snd (bumpDelegationEpoch z d)) = receipts d"
  "applications (snd (bumpDelegationEpoch z d)) = applications d"
  "authorities (snd (bumpDelegationEpoch z d)) = authorities d"
  "resources (snd (bumpDelegationEpoch z d)) = resources d"
  "services (snd (bumpDelegationEpoch z d)) = services d"
  "invocations (snd (bumpDelegationEpoch z d)) = invocations d"
  "outbox (snd (bumpDelegationEpoch z d)) = outbox d"
  "uuids (snd (bumpDelegationEpoch z d)) = uuids d"
  by (simp_all add: bumpDelegationEpoch_def Let_def)

lemma bump_epoch [simp]:
  "epoch_of (snd (bumpDelegationEpoch z d)) z' = epoch_of d z' + (if z' = z then 1 else 0)"
  by (simp add: bumpDelegationEpoch_def epoch_of_def Let_def update_conv split: option.splits)

lemma bump_value [simp]: "fst (bumpDelegationEpoch z d) = epoch_of d z + 1"
  by (simp add: bumpDelegationEpoch_def epoch_of_def Let_def split: option.splits)

lemma epoch_of_frame [simp]:
  "epoch_of (enqueue e t k p d) z = epoch_of d z" "epoch_of (enqueueMany e is d) z = epoch_of d z"
  by (simp_all add: epoch_of_def)

subsection \<open>The outbox as a first-writer-wins log\<close>

text \<open>
  The contract the routes rely on: a key once written keeps its first value, and writing one key
  leaves every other alone. The lemmas say what a batch of writes leaves under each key.
\<close>

locale first_writer_log =
  fixes lookup :: "'s \<Rightarrow> 'k \<Rightarrow> 'v option" and put :: "'k \<Rightarrow> 'v \<Rightarrow> 's \<Rightarrow> 's"
  assumes lookup_put_same: "lookup (put k v s) k = (case lookup s k of None \<Rightarrow> Some v | Some w \<Rightarrow> Some w)"
    and lookup_put_other: "k' \<noteq> k \<Longrightarrow> lookup (put k v s) k' = lookup s k'"
begin

lemma lookup_put_all:
  "lookup (fold (\<lambda>(k, v). put k v) kvs s) k =
     (case lookup s k of Some w \<Rightarrow> Some w | None \<Rightarrow> map_of kvs k)"
proof (induction kvs arbitrary: s)
  case Nil
  then show ?case by (simp split: option.splits)
next
  case (Cons kv kvs)
  obtain k' v where kv: "kv = (k', v)" by (cases kv)
  show ?case
    using Cons.IH lookup_put_same [of k v s] lookup_put_other [of k k' v s]
    by (cases "k = k'") (auto simp: kv split: option.splits)
qed

lemma put_all_present: "k \<in> fst ` set kvs \<Longrightarrow> lookup (fold (\<lambda>(k, v). put k v) kvs s) k \<noteq> None"
  unfolding lookup_put_all by (cases "lookup s k") (simp_all add: map_of_eq_None_iff del: not_None_eq)

lemma put_all_keeps: "lookup s k = Some w \<Longrightarrow> lookup (fold (\<lambda>(k, v). put k v) kvs s) k = Some w"
  unfolding lookup_put_all by simp

end

definition outbox_lookup :: "db \<Rightarrow> string \<times> string \<Rightarrow> json option" where
  "outbox_lookup d tk = map_option o_payload
     (find (\<lambda>r. o_producer r = ''coordinator'' \<and> o_topic r = fst tk \<and> o_key r = snd tk) (outbox d))"

definition outbox_put :: "env \<Rightarrow> string \<times> string \<Rightarrow> json \<Rightarrow> db \<Rightarrow> db" where
  "outbox_put e tk pl d = enqueue e (fst tk) (snd tk) pl d"

lemma find_append: "find P (xs @ ys) = (case find P xs of None \<Rightarrow> find P ys | Some x \<Rightarrow> Some x)"
  by (induction xs) auto

lemma outbox_has_find:
  "outbox_has rows p t k \<longleftrightarrow> find (\<lambda>r. o_producer r = p \<and> o_topic r = t \<and> o_key r = k) rows \<noteq> None"
  by (auto simp: outbox_has_def list_ex_iff find_None_iff simp del: not_None_eq)

lemma outbox_has_lookup:
  "outbox_has (outbox d) ''coordinator'' t k \<longleftrightarrow> outbox_lookup d (t, k) \<noteq> None"
  by (simp add: outbox_has_find outbox_lookup_def)

interpretation outbox_log: first_writer_log outbox_lookup "outbox_put e" for e :: env
proof
  show "outbox_lookup (outbox_put e k v s) k = (case outbox_lookup s k of None \<Rightarrow> Some v | Some w \<Rightarrow> Some w)"
    for k v s
    by (cases k) (auto simp: outbox_put_def enqueue_def Let_def outbox_has_find outbox_lookup_def
        find_append split: option.splits)
  show "outbox_lookup (outbox_put e k v s) k' = outbox_lookup s k'" if "k' \<noteq> k" for k v s k'
    using that by (cases k; cases k') (auto simp: outbox_put_def enqueue_def Let_def outbox_lookup_def
        find_append split: option.splits)
qed

lemma enqueueMany_put_all:
  "enqueueMany e items d = fold (\<lambda>(k, v). outbox_put e k v) (map (\<lambda>(t, k, p). ((t, k), p)) items) d"
  by (induction items arbitrary: d) (auto simp: outbox_put_def)

lemma enqueue_lookup:
  "outbox_lookup (enqueue e t k p d) tk =
     (if tk = (t, k) then case outbox_lookup d tk of None \<Rightarrow> Some p | Some q \<Rightarrow> Some q else outbox_lookup d tk)"
  using outbox_log.lookup_put_same [of e "(t, k)" p d] outbox_log.lookup_put_other [of tk "(t, k)" e p d]
  by (auto simp: outbox_put_def)

lemma enqueueMany_present:
  "(t, k, p) \<in> set items \<Longrightarrow> outbox_lookup (enqueueMany e items d) (t, k) \<noteq> None"
  unfolding enqueueMany_put_all by (rule outbox_log.put_all_present) force

lemma enqueueMany_keeps: "outbox_lookup d tk = Some q \<Longrightarrow> outbox_lookup (enqueueMany e items d) tk = Some q"
  unfolding enqueueMany_put_all by (rule outbox_log.put_all_keeps)

lemma enqueueMany_present_iff:
  "outbox_lookup (enqueueMany e items d) (t, k) \<noteq> None \<longleftrightarrow> outbox_lookup d (t, k) \<noteq> None \<or> (\<exists>p. (t, k, p) \<in> set items)"
proof -
  have "map_of (map (\<lambda>(t, k, p). ((t, k), p)) items) (t, k) \<noteq> None \<longleftrightarrow> (\<exists>p. (t, k, p) \<in> set items)"
    by (induction items) auto
  then show ?thesis
    unfolding enqueueMany_put_all outbox_log.lookup_put_all by (cases "outbox_lookup d (t, k)") simp_all
qed

lemma enqueueMany_payload:
  "outbox_lookup (enqueueMany e items d) (t, k) = Some p \<Longrightarrow> outbox_lookup d (t, k) = Some p \<or> (t, k, p) \<in> set items"
  unfolding enqueueMany_put_all outbox_log.lookup_put_all
  by (cases "outbox_lookup d (t, k)") (auto dest: map_of_SomeD)

lemma bump_outbox_lookup [simp]: "outbox_lookup (snd (bumpDelegationEpoch z d)) tk = outbox_lookup d tk"
  by (simp add: outbox_lookup_def)

text \<open>The unique constraint on (producer, topic, dedupe key) as an invariant of the table.\<close>

definition outbox_keys :: "db \<Rightarrow> (string \<times> string \<times> string) list" where
  "outbox_keys d = map (\<lambda>r. (o_producer r, o_topic r, o_key r)) (outbox d)"

lemma enqueue_unique: "distinct (outbox_keys d) \<Longrightarrow> distinct (outbox_keys (enqueue e t k p d))"
  by (auto simp: enqueue_def Let_def outbox_keys_def outbox_has_def list_ex_iff)

lemma enqueueMany_unique: "distinct (outbox_keys d) \<Longrightarrow> distinct (outbox_keys (enqueueMany e items d))"
  by (induction items arbitrary: d) (auto simp: enqueue_unique)

lemma bump_unique [simp]: "outbox_keys (snd (bumpDelegationEpoch z d)) = outbox_keys d"
  by (simp add: outbox_keys_def)

lemma outbox_lookup_cong: "outbox d' = outbox d \<Longrightarrow> outbox_lookup d' = outbox_lookup d"
  by (rule ext) (simp add: outbox_lookup_def)

lemma outbox_keys_cong: "outbox d' = outbox d \<Longrightarrow> outbox_keys d' = outbox_keys d"
  by (simp add: outbox_keys_def)

lemma epoch_of_cong: "epochs d' = epochs d \<Longrightarrow> epoch_of d' = epoch_of d"
  by (rule ext) (simp add: epoch_of_def)

lemma epoch_of_update [simp]:
  "epoch_of (d\<lparr>sessions := x0\<rparr>) = epoch_of d"
  "epoch_of (d\<lparr>topology := x1\<rparr>) = epoch_of d"
  "epoch_of (d\<lparr>edges := x2\<rparr>) = epoch_of d"
  "epoch_of (d\<lparr>receipts := x3\<rparr>) = epoch_of d"
  "epoch_of (d\<lparr>applications := x4\<rparr>) = epoch_of d"
  "epoch_of (d\<lparr>authorities := x5\<rparr>) = epoch_of d"
  "epoch_of (d\<lparr>resources := x6\<rparr>) = epoch_of d"
  "epoch_of (d\<lparr>services := x7\<rparr>) = epoch_of d"
  "epoch_of (d\<lparr>invocations := x8\<rparr>) = epoch_of d"
  "epoch_of (d\<lparr>uuids := x9\<rparr>) = epoch_of d"
  "epoch_of (d\<lparr>outbox := x10\<rparr>) = epoch_of d"
  by (simp_all add: epoch_of_def [abs_def])

lemma outbox_update [simp]:
  "outbox_lookup (d\<lparr>sessions := x0\<rparr>) = outbox_lookup d"
  "outbox_lookup (d\<lparr>topology := x1\<rparr>) = outbox_lookup d"
  "outbox_lookup (d\<lparr>edges := x2\<rparr>) = outbox_lookup d"
  "outbox_lookup (d\<lparr>receipts := x3\<rparr>) = outbox_lookup d"
  "outbox_lookup (d\<lparr>applications := x4\<rparr>) = outbox_lookup d"
  "outbox_lookup (d\<lparr>authorities := x5\<rparr>) = outbox_lookup d"
  "outbox_lookup (d\<lparr>resources := x6\<rparr>) = outbox_lookup d"
  "outbox_lookup (d\<lparr>services := x7\<rparr>) = outbox_lookup d"
  "outbox_lookup (d\<lparr>invocations := x8\<rparr>) = outbox_lookup d"
  "outbox_lookup (d\<lparr>uuids := x9\<rparr>) = outbox_lookup d"
  "outbox_keys (d\<lparr>sessions := x0\<rparr>) = outbox_keys d"
  "outbox_keys (d\<lparr>topology := x1\<rparr>) = outbox_keys d"
  "outbox_keys (d\<lparr>edges := x2\<rparr>) = outbox_keys d"
  "outbox_keys (d\<lparr>receipts := x3\<rparr>) = outbox_keys d"
  "outbox_keys (d\<lparr>applications := x4\<rparr>) = outbox_keys d"
  "outbox_keys (d\<lparr>authorities := x5\<rparr>) = outbox_keys d"
  "outbox_keys (d\<lparr>resources := x6\<rparr>) = outbox_keys d"
  "outbox_keys (d\<lparr>services := x7\<rparr>) = outbox_keys d"
  "outbox_keys (d\<lparr>invocations := x8\<rparr>) = outbox_keys d"
  "outbox_keys (d\<lparr>uuids := x9\<rparr>) = outbox_keys d"
  by (simp_all add: outbox_lookup_def [abs_def] outbox_keys_def)

end
