(* ===== verification/Idempotency.thy ===== *)
theory Idempotency
  imports CoordDb
begin

text \<open>
  Durable idempotency receipts (\<open>apps/coordinator/src/idempotency.ts\<close>): validation of the
  \<open>Idempotency-Key\<close> header, the canonical JSON rendering whose digest identifies a request, and the
  lookup and recording of receipts. The hash functions are the parameters \<open>sha256\<close> and \<open>hmac256\<close> of
  the environment; the in-process counters of the file only feed metrics and are left out.
\<close>

subsection \<open>The key header\<close>

datatype header = HAbsent | HSingle string | HMultiple "string list"

definition IDEMPOTENCY_KEY_MAX_BYTES :: nat where "IDEMPOTENCY_KEY_MAX_BYTES = 255"

definition utf8_length :: "string \<Rightarrow> nat" where
  "utf8_length s = sum_list (map (\<lambda>c. if (of_char c :: nat) < 128 then 1 else 2) s)"

definition is_control :: "char \<Rightarrow> bool" where
  "is_control c = (let n = (of_char c :: nat) in n \<le> 31 \<or> n = 127)"

definition parseIdempotencyKey :: "header \<Rightarrow> reply + string option" where
  "parseIdempotencyKey v = (case v of
       HAbsent \<Rightarrow> Inr None
     | HMultiple _ \<Rightarrow> Inl (err 400 ''idempotency_key_multiple'')
     | HSingle value \<Rightarrow>
         reject (value = [] \<or> value \<noteq> trim value) (err 400 ''idempotency_key_invalid'')
         (reject (IDEMPOTENCY_KEY_MAX_BYTES < utf8_length value \<or> list_ex is_control value)
            (err 400 ''idempotency_key_invalid'')
         (Inr (Some value))))"

subsection \<open>Canonical JSON\<close>

definition hex4 :: "nat \<Rightarrow> char" where
  "hex4 n = (if n < 10 then char_of (48 + n) else char_of (87 + n))"

text \<open>\<open>JSON.stringify\<close> of a string.\<close>

definition json_escape :: "char \<Rightarrow> string" where
  "json_escape c = (let n = (of_char c :: nat) in
     if n = 34 then [CHR 0x5C, CHR 0x22]
     else if n = 92 then [CHR 0x5C, CHR 0x5C]
     else if n = 8 then [CHR 0x5C, CHR ''b'']
     else if n = 9 then [CHR 0x5C, CHR ''t'']
     else if n = 10 then [CHR 0x5C, CHR ''n'']
     else if n = 12 then [CHR 0x5C, CHR ''f'']
     else if n = 13 then [CHR 0x5C, CHR ''r'']
     else if n < 32 then [CHR 0x5C, CHR ''u'', CHR ''0'', CHR ''0'', hex4 (n div 16), hex4 (n mod 16)]
     else [c])"

definition json_string :: "string \<Rightarrow> string" where
  "json_string s = CHR 0x22 # concat (map json_escape s) @ [CHR 0x22]"

fun join :: "string \<Rightarrow> string list \<Rightarrow> string" where
  "join sep [] = []"
| "join sep [x] = x"
| "join sep (x # y # ys) = x @ sep @ join sep (y # ys)"

fun canonicalJson :: "json \<Rightarrow> string" where
  "canonicalJson JNull = ''null''"
| "canonicalJson (JBool b) = (if b then ''true'' else ''false'')"
| "canonicalJson (JStr s) = json_string s"
| "canonicalJson (JInt i) = show_int i"
| "canonicalJson (JFrac l) = l"
| "canonicalJson (JArr xs) = ''['' @ join '','' (map canonicalJson xs) @ '']''"
| "canonicalJson (JObj kvs) =
     ''{'' @ join '','' (map (\<lambda>(k, c). json_string k @ '':'' @ c)
       (sort_key fst (map (\<lambda>(k, v). (k, canonicalJson v)) kvs))) @ ''}''"

subsection \<open>Digests\<close>

definition requestDigest :: "env \<Rightarrow> json \<Rightarrow> string" where
  "requestDigest e v = sha256 e (canonicalJson v)"

definition keyDigest :: "env \<Rightarrow> string \<Rightarrow> string \<Rightarrow> string" where
  "keyDigest e key hmacKey = hmac256 e hmacKey (''caracal:coordinator:idempotency:v1'' @ [CHR 0x00] @ key)"

subsection \<open>Receipts\<close>

datatype istart =
    New string string
  | Replayed int json string
  | Conflict
  | Limit

record istart_input =
  in_operation :: string
  in_zone :: zone
  in_scope :: string
  in_key :: string
  in_request :: json

definition in_scope_of :: "istart_input \<Rightarrow> receipt \<Rightarrow> bool" where
  "in_scope_of i r = (rc_operation r = in_operation i \<and> rc_zone r = in_zone i \<and> rc_scope r = in_scope i)"

text \<open>The digests of the key under the current and, when configured, the previous HMAC key.\<close>

definition key_hashes :: "env \<Rightarrow> cfg \<Rightarrow> istart_input \<Rightarrow> string \<times> string" where
  "key_hashes e c i =
     (let hs = map (keyDigest e (in_key i)) (idempotencyHmacKeys c)
      in (hs ! 0, if 1 < length hs then hs ! 1 else hs ! 0))"

definition receipt_matches :: "env \<Rightarrow> cfg \<Rightarrow> istart_input \<Rightarrow> receipt \<Rightarrow> bool" where
  "receipt_matches e c i r = (in_scope_of i r \<and>
     (rc_key r = fst (key_hashes e c i) \<or> rc_key r = snd (key_hashes e c i)))"

definition startIdempotency :: "env \<Rightarrow> cfg \<Rightarrow> istart_input \<Rightarrow> db \<Rightarrow> istart \<times> db" where
  "startIdempotency e c i d =
    (let bodyHash = requestDigest e (in_request i);
         d' = d\<lparr>receipts := filter (\<lambda>r. \<not> (receipt_matches e c i r \<and> rc_expires r \<le> now e)) (receipts d)\<rparr>
     in case find (\<lambda>r. receipt_matches e c i r \<and> now e < rc_expires r) (receipts d') of
          None \<Rightarrow>
            (if idempotencyMaxReceiptsPerScope c
                  \<le> int (length (filter (\<lambda>r. in_scope_of i r \<and> now e < rc_expires r) (receipts d')))
             then (Limit, d')
             else (New (fst (key_hashes e c i)) bodyHash, d'))
        | Some r \<Rightarrow>
            (if rc_request r \<noteq> bodyHash then (Conflict, d')
             else (Replayed (rc_status r) (rc_response r) (rc_resource r), d')))"

record icomplete_input =
  ic_operation :: string
  ic_zone :: zone
  ic_scope :: string
  ic_key :: string
  ic_request :: string
  ic_type :: string
  ic_resource :: string
  ic_status :: int
  ic_response :: json
  ic_retention :: int

text \<open>The table constraints of \<open>coordinator_idempotency_receipts\<close>.\<close>

definition receipt_allowed :: "env \<Rightarrow> receipt \<Rightarrow> db \<Rightarrow> bool" where
  "receipt_allowed e r d =
     (list_all (\<lambda>q. rc_id q \<noteq> rc_id r) (receipts d) \<and>
      list_all (\<lambda>q. \<not> (rc_operation q = rc_operation r \<and> rc_zone q = rc_zone r \<and>
                       rc_scope q = rc_scope r \<and> rc_key q = rc_key r)) (receipts d) \<and>
      rc_operation r \<in> {''session.start.v2'', ''delegation.create.v2'', ''invocation.create.v2''} \<and>
      length (rc_key r) = 32 \<and> length (rc_request r) = 32 \<and>
      200 \<le> rc_status r \<and> rc_status r \<le> 299 \<and>
      jsonb_octets e (rc_response r) \<le> 65536 \<and> rc_created r < rc_expires r)"

definition completeIdempotency :: "env \<Rightarrow> icomplete_input \<Rightarrow> db \<Rightarrow> reply + db" where
  "completeIdempotency e i d =
    (let r = \<lparr>rc_id = uuidv7 e (uuids d), rc_operation = ic_operation i, rc_zone = ic_zone i,
              rc_scope = ic_scope i, rc_key = ic_key i, rc_request = ic_request i, rc_type = ic_type i,
              rc_resource = ic_resource i, rc_status = ic_status i, rc_response = ic_response i,
              rc_created = now e, rc_expires = now e + ic_retention i * 1000\<rparr>
     in reject (\<not> receipt_allowed e r d) internal_error
        (Inr (d\<lparr>receipts := receipts d @ [r], uuids := Suc (uuids d)\<rparr>)))"

lemma errs_parseIdempotencyKey [intro!, simp]: "errs (parseIdempotencyKey h)"
  unfolding parseIdempotencyKey_def by (cases h) (auto simp: reject_def)

lemma errs_completeIdempotency [intro!, simp]: "errs (completeIdempotency e i d)"
  unfolding completeIdempotency_def Let_def by (intro errs_reject) simp_all

text \<open>The table constraint on the recorded status, as an invariant.\<close>

definition receipts_ok :: "db \<Rightarrow> bool" where
  "receipts_ok d = list_all (\<lambda>r. 200 \<le> rc_status r \<and> rc_status r \<le> 299) (receipts d)"

lemma startIdempotency_receipts_ok: "receipts_ok d \<Longrightarrow> startIdempotency e c i d = (x, d') \<Longrightarrow> receipts_ok d'"
  by (auto simp: startIdempotency_def Let_def receipts_ok_def list_all_iff split: option.splits if_splits)

lemma completeIdempotency_receipts_ok: "receipts_ok d \<Longrightarrow> completeIdempotency e i d = Inr d' \<Longrightarrow> receipts_ok d'"
  by (auto simp: completeIdempotency_def Let_def receipt_allowed_def receipts_ok_def)

lemma replayed_status:
  "receipts_ok d \<Longrightarrow> startIdempotency e c i d = (Replayed st resp res, d') \<Longrightarrow> 200 \<le> st \<and> st \<le> 299"
  by (auto simp: startIdempotency_def Let_def receipts_ok_def list_all_iff dest!: find_SomeD split: option.splits if_splits)

subsection \<open>Canonical JSON identifies a value up to the order of its keys\<close>

text \<open>The normal form of a value sorts the keys of every object, at every level.\<close>

fun jnorm :: "json \<Rightarrow> json" where
  "jnorm (JArr xs) = JArr (map jnorm xs)"
| "jnorm (JObj kvs) = JObj (sort_key fst (map (\<lambda>(k, v). (k, jnorm v)) kvs))"
| "jnorm v = v"

text \<open>The rendering of a value whose keys are already in order.\<close>

fun render :: "json \<Rightarrow> string" where
  "render JNull = ''null''"
| "render (JBool b) = (if b then ''true'' else ''false'')"
| "render (JStr s) = json_string s"
| "render (JInt i) = show_int i"
| "render (JFrac l) = l"
| "render (JArr xs) = ''['' @ join '','' (map render xs) @ '']''"
| "render (JObj kvs) = ''{'' @ join '','' (map (\<lambda>(k, v). json_string k @ '':'' @ render v) kvs) @ ''}''"

text \<open>The values a JSON document denotes: number literals are number tokens, and a non-integral one
  has a point or an exponent.\<close>

definition num_char :: "char \<Rightarrow> bool" where
  "num_char c = (let n = (of_char c :: nat) in (48 \<le> n \<and> n \<le> 57) \<or> n = 43 \<or> n = 45 \<or> n = 46 \<or> n = 101)"

definition frac_token :: "string \<Rightarrow> bool" where
  "frac_token l = (l \<noteq> [] \<and> list_all num_char l \<and> (CHR ''.'' \<in> set l \<or> CHR ''e'' \<in> set l))"

fun json_ok :: "json \<Rightarrow> bool" where
  "json_ok (JFrac l) = frac_token l"
| "json_ok (JArr xs) = list_all json_ok xs"
| "json_ok (JObj kvs) = list_all (\<lambda>(k, v). json_ok v) kvs"
| "json_ok _ = True"

lemma insort_key_map_snd:
  "insort_key fst (k, f v) (map (\<lambda>(k, v). (k, f v)) xs) = map (\<lambda>(k, v). (k, f v)) (insort_key fst (k, v) xs)"
  by (induction xs) auto

lemma sort_key_map_snd:
  "sort_key fst (map (\<lambda>(k, v). (k, f v)) xs) = map (\<lambda>(k, v). (k, f v)) (sort_key fst xs)"
  by (induction xs) (auto simp: insort_key_map_snd)

lemma canonicalJson_render: "canonicalJson v = render (jnorm v)"
proof (induction v)
  case (JArr xs)
  then have "map canonicalJson xs = map (render \<circ> jnorm) xs" by simp
  then show ?case by (simp only: canonicalJson.simps jnorm.simps render.simps map_map)
next
  case (JObj kvs)
  have "map (\<lambda>(k, v). (k, canonicalJson v)) kvs
    = map (\<lambda>(k, v). (k, render v)) (map (\<lambda>(k, v). (k, jnorm v)) kvs)"
    using JObj by (auto simp: prod_set_simps)
  then have "sort_key fst (map (\<lambda>(k, v). (k, canonicalJson v)) kvs)
    = map (\<lambda>(k, v). (k, render v)) (sort_key fst (map (\<lambda>(k, v). (k, jnorm v)) kvs))"
    by (simp only: sort_key_map_snd)
  then show ?case by (simp add: comp_def case_prod_unfold)
qed simp_all

lemma json_ok_jnorm: "json_ok v \<Longrightarrow> json_ok (jnorm v)"
proof (induction v)
  case (JObj kvs)
  then show ?case by (fastforce simp: list_all_iff)
qed (auto simp: list_all_iff)

text \<open>
  The rendering is uniquely decodable: in a text where a value is followed by a delimiter, the value
  and the rest are determined.
\<close>

definition delim :: "string \<Rightarrow> bool" where
  "delim r = (r = [] \<or> hd r \<in> {CHR '','', CHR '']'', CHR ''}''})"

text \<open>A decoder for one escaped character.\<close>

definition hex4_value :: "char \<Rightarrow> nat" where
  "hex4_value h = (let k = (of_char h :: nat) in if k < 58 then k - 48 else k - 87)"

fun unescape :: "string \<Rightarrow> (char \<times> string) option" where
  "unescape [] = None"
| "unescape (a # r) =
    (if a \<noteq> CHR 0x5C then Some (a, r)
     else case r of [] \<Rightarrow> None
       | b # r' \<Rightarrow>
          if b = CHR 0x22 then Some (char_of (34 :: nat), r')
          else if b = CHR 0x5C then Some (char_of (92 :: nat), r')
          else if b = CHR ''b'' then Some (char_of (8 :: nat), r')
          else if b = CHR ''t'' then Some (char_of (9 :: nat), r')
          else if b = CHR ''n'' then Some (char_of (10 :: nat), r')
          else if b = CHR ''f'' then Some (char_of (12 :: nat), r')
          else if b = CHR ''r'' then Some (char_of (13 :: nat), r')
          else Some (char_of (hex4_value (r' ! 2) * 16 + hex4_value (r' ! 3)), drop 4 r'))"

lemma hex4_value_hex4: "n < 16 \<Longrightarrow> hex4_value (hex4 n) = n"
  by (simp add: hex4_value_def hex4_def Let_def)

lemma char_of_code: "(of_char c :: nat) = n \<Longrightarrow> char_of n = c"
  by (metis char_of_char)

lemma unescape_escape: "unescape (json_escape c @ x) = Some (c, x)"
proof -
  consider "(of_char c :: nat) \<in> {34, 92, 8, 9, 10, 12, 13}"
    | "(of_char c :: nat) \<notin> {34, 92, 8, 9, 10, 12, 13}" "(of_char c :: nat) < 32"
    | "(of_char c :: nat) \<notin> {34, 92, 8, 9, 10, 12, 13}" "\<not> (of_char c :: nat) < 32" by blast
  then show ?thesis
  proof cases
    case 1
    then show ?thesis by (auto simp: json_escape_def Let_def char_of_code)
  next
    case 2
    then have "(of_char c :: nat) div 16 < 16" by simp
    with 2 show ?thesis
      by (simp add: json_escape_def Let_def hex4_value_hex4 char_of_code)
  next
    case 3
    have "c \<noteq> CHR 0x5C" using 3(1) by auto
    with 3 show ?thesis by (simp add: json_escape_def Let_def)
  qed
qed

lemma esc_prefix: "json_escape c @ x = json_escape d @ y \<longleftrightarrow> c = d \<and> x = y"
  by (metis option.inject prod.inject unescape_escape)

lemma esc_not_quote: "json_escape c @ x \<noteq> CHR 0x22 # y"
  by (auto simp: json_escape_def Let_def)

lemma json_string_decode:
  "concat (map json_escape s) @ CHR 0x22 # x = concat (map json_escape t) @ CHR 0x22 # y \<Longrightarrow> s = t \<and> x = y"
proof (induction s arbitrary: t)
  case Nil
  then show ?case using esc_not_quote by (cases t) (auto dest: sym)
next
  case (Cons c s)
  then show ?case using esc_not_quote by (cases t) (auto simp: esc_prefix)
qed

lemma json_string_prefix: "json_string s @ x = json_string t @ y \<Longrightarrow> s = t \<and> x = y"
  using json_string_decode [of s x t y] by (simp add: json_string_def)

lemma show_nat_digits: "c \<in> set (show_nat n) \<Longrightarrow> \<exists>k<10. c = digit_char k"
proof (induction n rule: show_nat.induct)
  case (1 n)
  then show ?case
    by (cases "n < 10") (auto simp: show_nat.simps [of n] intro: exI [of _ "n mod 10"])
qed

lemma digit_num_char: "k < 10 \<Longrightarrow> num_char (digit_char k)"
  by (simp add: num_char_def digit_char_def Let_def)

lemma digit_not_frac: "k < 10 \<Longrightarrow> digit_char k \<noteq> CHR ''.'' \<and> digit_char k \<noteq> CHR ''e'' \<and> digit_char k \<noteq> CHR ''-''"
  unfolding digit_char_def
  by (auto dest!: arg_cong [where f = "of_char :: char \<Rightarrow> nat"])

lemma digit_inj: "j < 10 \<Longrightarrow> k < 10 \<Longrightarrow> digit_char j = digit_char k \<Longrightarrow> j = k"
  unfolding digit_char_def
  by (auto dest!: arg_cong [where f = "of_char :: char \<Rightarrow> nat"])

lemma show_nat_ne [simp]: "show_nat n \<noteq> []" "[] \<noteq> show_nat n"
  by (subst show_nat.simps, simp)+

lemma show_nat_inj: "show_nat m = show_nat n \<Longrightarrow> m = n"
proof (induction m arbitrary: n rule: show_nat.induct)
  case (1 m)
  show ?case
  proof (cases "m < 10")
    case True
    then show ?thesis using 1(2) digit_inj
      by (cases "n < 10") (auto simp: show_nat.simps [of m] show_nat.simps [of n])
  next
    case False
    then have n: "\<not> n < 10" using 1(2) by (auto simp: show_nat.simps [of m] show_nat.simps [of n])
    then have "show_nat (m div 10) = show_nat (n div 10)" "digit_char (m mod 10) = digit_char (n mod 10)"
      using 1(2) False by (auto simp: show_nat.simps [of m] show_nat.simps [of n])
    then have "m div 10 = n div 10" "m mod 10 = n mod 10"
      using 1(1) [OF False] by (auto intro: digit_inj)
    then show ?thesis by (metis div_mult_mod_eq)
  qed
qed

lemma show_nat_no_minus [simp]: "show_nat n \<noteq> CHR ''-'' # s" "CHR ''-'' # s \<noteq> show_nat n"
proof -
  have "CHR ''-'' \<notin> set (show_nat n)"
    using show_nat_digits [of "CHR ''-''" n] digit_not_frac by metis
  then show "show_nat n \<noteq> CHR ''-'' # s" "CHR ''-'' # s \<noteq> show_nat n"
    by (metis list.set_intros(1))+
qed

lemma show_int_inj: "show_int i = show_int j \<Longrightarrow> i = j"
  by (cases "i < 0"; cases "j < 0") (auto simp: show_int_def dest!: show_nat_inj)

lemma show_nat_num:
  assumes "c \<in> set (show_nat n)"
  shows "num_char c \<and> c \<noteq> CHR ''.'' \<and> c \<noteq> CHR ''e''"
proof -
  obtain k where "k < 10" "c = digit_char k" using show_nat_digits [OF assms] by blast
  then show ?thesis using digit_num_char [of k] digit_not_frac [of k] by simp
qed

lemma minus_num_char [simp]: "num_char (CHR ''-'')"
  by (simp add: num_char_def)

lemma show_int_num: "c \<in> set (show_int i) \<Longrightarrow> num_char c \<and> c \<noteq> CHR ''.'' \<and> c \<noteq> CHR ''e''"
  using show_nat_num [of c "nat (- i)"] show_nat_num [of c "nat i"]
  by (cases "i < 0") (auto simp: show_int_def)

lemma num_token_prefix:
  assumes "list_all num_char u" "list_all num_char v" "u @ x = v @ y" "delim x" "delim y"
  shows "u = v \<and> x = y"
proof -
  have d: "takeWhile num_char (w @ z) = w" if "list_all num_char w" "delim z" for w z
  proof -
    have "takeWhile num_char z = []"
      using that(2) by (cases z) (auto simp: delim_def num_char_def)
    then show ?thesis using that(1) by (simp add: takeWhile_append2 list_all_iff)
  qed
  have "u = v" using d [OF assms(1,4)] d [OF assms(2,5)] assms(3) by simp
  then show ?thesis using assms(3) by simp
qed

text \<open>The items of a list with their separators and closing bracket.\<close>

fun items_end :: "char \<Rightarrow> string list \<Rightarrow> string" where
  "items_end c [] = [c]"
| "items_end c (x # xs) = CHR '','' # x @ items_end c xs"

fun bracketed :: "char \<Rightarrow> string list \<Rightarrow> string" where
  "bracketed c [] = [c]"
| "bracketed c (x # xs) = x @ items_end c xs"

lemma join_items_end: "join '','' (x # xs) @ c # r = x @ items_end c xs @ r"
  by (induction xs arbitrary: x) auto

lemma join_items: "join '','' xs @ c # r = bracketed c xs @ r"
  by (cases xs) (simp_all only: join_items_end bracketed.simps join.simps append.simps append_assoc)

text \<open>\<open>decodable f P\<close>: the rendering \<open>f\<close> of a value satisfying \<open>P\<close> determines value and rest.\<close>

definition decodes :: "('a \<Rightarrow> string) \<Rightarrow> ('a \<Rightarrow> bool) \<Rightarrow> 'a \<Rightarrow> bool" where
  "decodes f P a \<longleftrightarrow> (\<forall>b x y. P b \<longrightarrow> delim x \<longrightarrow> delim y \<longrightarrow> f a @ x = f b @ y \<longrightarrow> a = b \<and> x = y)"

lemma decodesD:
  assumes "decodes f P a" "P b" "delim x" "delim y" "f a @ x = f b @ y"
  shows "a = b" "x = y"
  using assms unfolding decodes_def by metis+

lemma delim_items_end: "c \<in> {CHR '']'', CHR ''}''} \<Longrightarrow> delim (items_end c xs @ r)"
  by (cases xs) (auto simp: delim_def)

lemma items_end_decode:
  assumes c: "c \<in> {CHR '']'', CHR ''}''}"
    and "list_all (decodes f P) us" "list_all P vs"
    and "items_end c (map f us) @ x = items_end c (map f vs) @ y"
  shows "us = vs \<and> x = y"
  using assms(2-4)
proof (induction us arbitrary: vs)
  case Nil
  then show ?case using c by (cases vs) auto
next
  case (Cons u us)
  then obtain v vs' where vs: "vs = v # vs'" using c by (cases vs) auto
  have eq: "f u @ items_end c (map f us) @ x = f v @ items_end c (map f vs') @ y"
    and dec: "decodes f P u" "P v" using Cons.prems vs by simp_all
  note decodesD [OF dec delim_items_end [OF c] delim_items_end [OF c] eq]
  then show ?case using Cons.IH [of vs'] Cons.prems vs by simp
qed

lemma items_decode:
  assumes c: "c \<in> {CHR '']'', CHR ''}''}"
    and us: "list_all (decodes f P) us" "list_all P us" and vs: "list_all P vs"
    and ne: "\<And>a r y. P a \<Longrightarrow> f a @ r \<noteq> c # y"
    and eq: "bracketed c (map f us) @ x = bracketed c (map f vs) @ y"
  shows "us = vs \<and> x = y"
proof (cases us)
  case Nil
  have "vs = []"
  proof (cases vs)
    case (Cons v vs')
    then show ?thesis using ne [of v "items_end c (map f vs') @ y" x] vs eq Nil by simp
  qed
  then show ?thesis using eq Nil by simp
next
  case (Cons u us')
  obtain v vs' where vs': "vs = v # vs'"
    using eq ne [of u "items_end c (map f us') @ x" y] us(2) Cons by (cases vs) auto
  have eq': "f u @ items_end c (map f us') @ x = f v @ items_end c (map f vs') @ y"
    and dec: "decodes f P u" "P v" using eq vs vs' us Cons by simp_all
  note decodesD [OF dec delim_items_end [OF c] delim_items_end [OF c] eq']
  then show ?thesis using items_end_decode [OF c, of f P us' vs'] us vs vs' Cons by simp
qed

text \<open>The first character of a rendering tells the kind of value.\<close>

fun json_tag :: "json \<Rightarrow> nat" where
  "json_tag JNull = 0"
| "json_tag (JBool b) = (if b then 1 else 2)"
| "json_tag (JStr _) = 3"
| "json_tag (JInt _) = 4"
| "json_tag (JFrac _) = 4"
| "json_tag (JArr _) = 5"
| "json_tag (JObj _) = 6"

definition char_tag :: "char \<Rightarrow> nat" where
  "char_tag c = (if c = CHR ''n'' then 0 else if c = CHR ''t'' then 1 else if c = CHR ''f'' then 2
     else if c = CHR 0x22 then 3 else if num_char c then 4 else if c = CHR ''['' then 5
     else if c = CHR ''{'' then 6 else 7)"

lemma num_char_tag: "num_char c \<Longrightarrow> char_tag c = 4"
  by (auto simp: char_tag_def num_char_def)

lemma show_int_ne: "show_int i \<noteq> []"
  by (simp add: show_int_def)

lemma bracket_tags [simp]: "char_tag (CHR ''['') = 5" "char_tag (CHR ''{'') = 6" "char_tag (CHR '']'') = 7" "char_tag (CHR ''}'') = 7"
  by (simp_all add: char_tag_def num_char_def)

lemma render_tag:
  assumes "json_ok v"
  shows "\<exists>c r. render v = c # r \<and> char_tag c = json_tag v"
proof (cases v)
  case (JInt i)
  then show ?thesis using show_int_num [of "hd (show_int i)" i] show_int_ne [of i]
    by (cases "show_int i") (auto simp: num_char_tag)
next
  case (JFrac l)
  then show ?thesis using assms by (cases l) (auto simp: frac_token_def num_char_tag)
qed (auto simp: char_tag_def json_string_def num_char_def)

lemma render_tag_eq:
  assumes "json_ok v" "json_ok w" "render v @ x = render w @ y"
  shows "json_tag v = json_tag w"
  using render_tag [OF assms(1)] render_tag [OF assms(2)] assms(3) by auto

lemma render_not_closer:
  assumes "json_ok v" "c = CHR '']'' \<or> c = CHR ''}''"
  shows "render v @ r \<noteq> c # y"
proof -
  have "json_tag v \<noteq> 7" by (cases v) auto
  then show ?thesis using render_tag [OF assms(1)] assms(2) by auto
qed

lemma json_string_not_closer: "json_string k @ z \<noteq> CHR ''}'' # y"
  by (simp add: json_string_def)

definition render_pair :: "string \<times> json \<Rightarrow> string" where
  "render_pair p = json_string (fst p) @ '':'' @ render (snd p)"

lemma render_obj: "render (JObj kvs) @ x = CHR ''{'' # bracketed (CHR ''}'') (map render_pair kvs) @ x"
  by (simp add: join_items render_pair_def [abs_def] case_prod_unfold)

lemma render_arr: "render (JArr xs) @ x = CHR ''['' # bracketed (CHR '']'') (map render xs) @ x"
  by (simp add: join_items)

lemma render_pair_decodes:
  assumes "decodes render json_ok (snd p)"
  shows "decodes render_pair (\<lambda>q. json_ok (snd q)) p"
  unfolding decodes_def
proof (intro allI impI)
  fix q x y
  assume "json_ok (snd q)" "delim x" "delim y" and eq: "render_pair p @ x = render_pair q @ y"
  from eq have 1: "fst p = fst q" and 2: "render (snd p) @ x = render (snd q) @ y"
    using json_string_prefix [of "fst p" _ "fst q"] by (fastforce simp: render_pair_def)+
  from decodesD [OF assms \<open>json_ok (snd q)\<close> \<open>delim x\<close> \<open>delim y\<close> 2] 1
  show "p = q \<and> x = y" by (simp add: prod_eq_iff)
qed

lemma number_decode:
  assumes "json_tag v = 4" "json_tag w = 4" "json_ok v" "json_ok w"
    and "delim x" "delim y" "render v @ x = render w @ y"
  shows "v = w \<and> x = y"
proof -
  have num: "list_all num_char (render u)" if "json_tag u = 4" "json_ok u" for u
    using that by (cases u) (auto simp: frac_token_def list_all_iff show_int_num split: if_splits)
  have eq: "render v = render w \<and> x = y"
    using num_token_prefix [OF num num] assms by blast
  have frac: "CHR ''.'' \<in> set (render u) \<or> CHR ''e'' \<in> set (render u) \<longleftrightarrow> (\<exists>l. u = JFrac l)"
    if "json_tag u = 4" "json_ok u" for u
    using that show_int_num by (cases u) (auto simp: frac_token_def split: if_splits)
  from frac [of v] frac [of w] eq assms(1-4) show ?thesis
    by (cases v; cases w) (auto dest: show_int_inj split: if_splits)
qed

lemma decodes_same_tag:
  assumes "json_ok v"
    and "\<And>w x y. json_ok w \<Longrightarrow> json_tag w = json_tag v \<Longrightarrow> delim x \<Longrightarrow> delim y \<Longrightarrow>
      render v @ x = render w @ y \<Longrightarrow> v = w \<and> x = y"
  shows "decodes render json_ok v"
  unfolding decodes_def
proof (intro allI impI)
  fix w x y
  assume w: "json_ok w" and d: "delim x" "delim y" and eq: "render v @ x = render w @ y"
  then show "v = w \<and> x = y" using assms(2) [OF w _ d eq] render_tag_eq [OF assms(1) w eq] by simp
qed

lemma json_tag_cases:
  "json_tag w = 0 \<longleftrightarrow> w = JNull" "json_tag w = (if b then 1 else 2) \<longleftrightarrow> w = JBool b"
  "json_tag w = 3 \<longleftrightarrow> (\<exists>t. w = JStr t)" "json_tag w = 5 \<longleftrightarrow> (\<exists>xs. w = JArr xs)"
  "json_tag w = 6 \<longleftrightarrow> (\<exists>kvs. w = JObj kvs)"
  by (cases w; auto)+

lemma arr_decodes:
  assumes "list_all (decodes render json_ok) xs" "list_all json_ok xs"
  shows "decodes render json_ok (JArr xs)"
proof (rule decodes_same_tag)
  fix w x y
  assume w: "json_ok w" "json_tag w = json_tag (JArr xs)" and eq: "render (JArr xs) @ x = render w @ y"
  then obtain ys where ys: "w = JArr ys" by (auto simp: json_tag_cases)
  show "JArr xs = w \<and> x = y"
    using items_decode [OF _ assms, of "CHR '']''" ys x y] eq w render_not_closer
    unfolding ys render_arr by auto
qed (use assms in simp)

lemma obj_decodes:
  assumes "list_all (\<lambda>p. decodes render json_ok (snd p)) kvs" "list_all (\<lambda>p. json_ok (snd p)) kvs"
  shows "decodes render json_ok (JObj kvs)"
proof (rule decodes_same_tag)
  fix w x y
  assume w: "json_ok w" "json_tag w = json_tag (JObj kvs)" and eq: "render (JObj kvs) @ x = render w @ y"
  then obtain ys where ys: "w = JObj ys" by (auto simp: json_tag_cases)
  have us: "list_all (decodes render_pair (\<lambda>q. json_ok (snd q))) kvs"
    using assms(1) by (auto simp: list_all_iff intro!: render_pair_decodes)
  have "list_all (\<lambda>q. json_ok (snd q)) ys" using w ys by (simp add: case_prod_unfold)
  then show "JObj kvs = w \<and> x = y"
    using items_decode [OF _ us assms(2), of "CHR ''}''" ys x y] eq
    unfolding ys render_obj by (simp add: render_pair_def json_string_not_closer)
qed (use assms in \<open>simp add: case_prod_unfold\<close>)

lemma render_decodes: "json_ok v \<Longrightarrow> decodes render json_ok v"
proof (induction v)
  case (JArr xs)
  then show ?case by (intro arr_decodes) (auto simp: list_all_iff)
next
  case (JObj kvs)
  then show ?case by (intro obj_decodes) (auto simp: list_all_iff case_prod_unfold)
next
  case (JStr t)
  then show ?case
    by (rule decodes_same_tag) (auto simp: json_tag_cases dest: json_string_prefix)
next
  case (JInt i)
  then show ?case by (intro decodes_same_tag number_decode) auto
next
  case (JFrac l)
  then show ?case by (intro decodes_same_tag number_decode) auto
next
  case JNull
  then show ?case by (rule decodes_same_tag) (auto simp: json_tag_cases)
next
  case (JBool b)
  then show ?case by (rule decodes_same_tag) (simp only: json_tag.simps json_tag_cases, simp)
qed

lemma render_inj:
  assumes "json_ok v" "json_ok w" "render v = render w"
  shows "v = w"
  using decodesD(1) [OF render_decodes [OF assms(1)] assms(2), of "[]" "[]"] assms(3)
  by (simp add: delim_def)

lemma canonicalJson_eq:
  assumes "json_ok v" "json_ok w"
  shows "canonicalJson v = canonicalJson w \<longleftrightarrow> jnorm v = jnorm w"
  using render_inj [OF json_ok_jnorm [OF assms(1)] json_ok_jnorm [OF assms(2)]]
  by (auto simp: canonicalJson_render)

text \<open>
  C38: two requests have the same canonical text, and therefore the same digest input, exactly when
  they are equal as JSON values up to the order of object keys. The request digest is thus neither
  confused by different requests nor sensitive to key order.
\<close>

theorem canonicalJson_iff:
  assumes "json_ok v" "json_ok w"
  shows "canonicalJson v = canonicalJson w \<longleftrightarrow> jnorm v = jnorm w"
  using assms by (rule canonicalJson_eq)

theorem canonicalJson_iff_witness:
  "canonicalJson (JObj [(''b'', JInt 1), (''a'', JArr [JNull])]) = canonicalJson (JObj [(''a'', JArr [JNull]), (''b'', JInt 1)])
   \<longleftrightarrow> jnorm (JObj [(''b'', JInt 1), (''a'', JArr [JNull])]) = jnorm (JObj [(''a'', JArr [JNull]), (''b'', JInt 1)])"
  by (rule canonicalJson_iff) simp_all

subsection \<open>Receipts govern repeats\<close>

lemma startIdempotency_frame [simp]:
  "sessions (snd (startIdempotency e c i d)) = sessions d"
  "topology (snd (startIdempotency e c i d)) = topology d"
  "edges (snd (startIdempotency e c i d)) = edges d"
  "applications (snd (startIdempotency e c i d)) = applications d"
  "authorities (snd (startIdempotency e c i d)) = authorities d"
  "resources (snd (startIdempotency e c i d)) = resources d"
  "services (snd (startIdempotency e c i d)) = services d"
  "invocations (snd (startIdempotency e c i d)) = invocations d"
  "epochs (snd (startIdempotency e c i d)) = epochs d"
  "outbox (snd (startIdempotency e c i d)) = outbox d"
  "uuids (snd (startIdempotency e c i d)) = uuids d"
  by (simp_all add: startIdempotency_def Let_def split: option.split)

lemma start_receipts:
  "receipts (snd (startIdempotency e c i d))
     = filter (\<lambda>r. \<not> (receipt_matches e c i r \<and> rc_expires r \<le> now e)) (receipts d)"
  by (simp add: startIdempotency_def Let_def split: option.split)

lemma start_New:
  assumes "startIdempotency e c i d = (New k q, d')"
  shows "k = fst (key_hashes e c i)" "q = requestDigest e (in_request i)"
    "list_all (\<lambda>r. \<not> receipt_matches e c i r) (receipts d')"
    "int (length (filter (\<lambda>r. in_scope_of i r \<and> now e < rc_expires r) (receipts d'))) < idempotencyMaxReceiptsPerScope c"
  using assms start_receipts [of e c i d]
  by (auto simp: startIdempotency_def Let_def find_None_iff list_all_iff not_le split: option.splits if_splits)

lemma start_frame_New:
  assumes "startIdempotency e c i d = (x, d')"
  shows "sessions d' = sessions d" "topology d' = topology d" "edges d' = edges d" "applications d' = applications d" "authorities d' = authorities d" "resources d' = resources d" "services d' = services d" "invocations d' = invocations d" "epochs d' = epochs d" "outbox d' = outbox d" "uuids d' = uuids d"
  using startIdempotency_frame [of e c i d] assms by simp_all

lemma complete_receipts:
  assumes "completeIdempotency e i d = Inr d'"
  shows "receipts d' = receipts d @
     [\<lparr>rc_id = uuidv7 e (uuids d), rc_operation = ic_operation i, rc_zone = ic_zone i,
       rc_scope = ic_scope i, rc_key = ic_key i, rc_request = ic_request i, rc_type = ic_type i,
       rc_resource = ic_resource i, rc_status = ic_status i, rc_response = ic_response i,
       rc_created = now e, rc_expires = now e + ic_retention i * 1000\<rparr>]"
    "0 < ic_retention i"
  using assms by (auto simp: completeIdempotency_def Let_def receipt_allowed_def)

lemma complete_frame:
  assumes "completeIdempotency e i d = Inr d'"
  shows "sessions d' = sessions d" "topology d' = topology d" "edges d' = edges d" "applications d' = applications d" "authorities d' = authorities d" "resources d' = resources d" "services d' = services d" "invocations d' = invocations d" "epochs d' = epochs d" "outbox d' = outbox d"
  using assms by (auto simp: completeIdempotency_def Let_def)

text \<open>A completion that records the outcome of a given start.\<close>

definition completes :: "istart_input \<Rightarrow> string \<Rightarrow> string \<Rightarrow> icomplete_input \<Rightarrow> bool" where
  "completes i k q ic = (ic_operation ic = in_operation i \<and> ic_zone ic = in_zone i \<and>
     ic_scope ic = in_scope i \<and> ic_key ic = k \<and> ic_request ic = q)"

lemma key_hashes_request [simp]: "key_hashes e c (i\<lparr>in_request := v\<rparr>) = key_hashes e c i"
  by (simp add: key_hashes_def)

lemma key_hashes_env: "hmac256 e' = hmac256 e \<Longrightarrow> key_hashes e' c i = key_hashes e c i"
  by (simp add: key_hashes_def keyDigest_def [abs_def])

lemma receipt_matches_again:
  "hmac256 e' = hmac256 e \<Longrightarrow> receipt_matches e' c (i\<lparr>in_request := v\<rparr>) r = receipt_matches e c i r"
  by (simp add: receipt_matches_def in_scope_of_def key_hashes_env [of e' e])

subsection \<open>A concrete run\<close>

text \<open>
  A store with one empty table of everything, and an environment whose digests are injective
  stand-ins of the right length on the short inputs used here.
\<close>

definition empty_db :: db where
  "empty_db = \<lparr>sessions = [], topology = [], edges = [], epochs = [], outbox = [], receipts = [],
     applications = [], authorities = [], resources = [], services = [], invocations = [], uuids = 0\<rparr>"

definition pad32 :: "string \<Rightarrow> string" where
  "pad32 s = take 32 (s @ replicate 32 (CHR ''0''))"

definition sample_env :: "time \<Rightarrow> env" where
  "sample_env t = \<lparr>now = t, uuidv7 = (\<lambda>n. CHR ''u'' # show_nat n), sha256 = pad32, hmac256 = (\<lambda>k m. pad32 (k @ drop 35 m)),
     datetime = (\<lambda>s. None), url_ok = (\<lambda>s. True), jsonb_octets = (\<lambda>j. 2)\<rparr>"

definition sample_cfg :: cfg where
  "sample_cfg = \<lparr>maxSessionsPerZone = 50, maxSessionsPerApp = 200, serviceSessionLeaseSeconds = 120,
     idempotencyHmacKeys = [''k''], idempotencyRetentionSeconds = 604800, generatedIdempotencyRetentionSeconds = 86400,
     idempotencyMaxReceiptsPerScope = 10000, invocationRateLimitPerMin = 120, sweeperBatchSize = 500,
     retentionCleanupBatchSize = 500, sessionRetentionDays = 90, delegationRetentionDays = 90, outboxRetentionDays = 7\<rparr>"

definition sample_start :: istart_input where
  "sample_start = \<lparr>in_operation = ''session.start.v2'', in_zone = ''z1'', in_scope = ''app'', in_key = ''op-1'',
     in_request = JObj [(''a'', JInt 1)]\<rparr>"

definition sample_complete :: icomplete_input where
  "sample_complete = \<lparr>ic_operation = ''session.start.v2'', ic_zone = ''z1'', ic_scope = ''app'',
     ic_key = fst (key_hashes (sample_env 0) sample_cfg sample_start),
     ic_request = requestDigest (sample_env 0) (JObj [(''a'', JInt 1)]),
     ic_type = ''session'', ic_resource = ''s1'', ic_status = 201, ic_response = JNull, ic_retention = 604800\<rparr>"

definition sample_done :: db where
  "sample_done = (case completeIdempotency (sample_env 0) sample_complete empty_db of Inr d \<Rightarrow> d | Inl _ \<Rightarrow> empty_db)"

lemma length_pad32 [simp]: "length (pad32 s) = 32"
  by (simp add: pad32_def)

lemma sample_new:
  "startIdempotency (sample_env 0) sample_cfg sample_start empty_db =
     (New (ic_key sample_complete) (ic_request sample_complete), empty_db)"
  by (simp add: startIdempotency_def Let_def empty_db_def sample_cfg_def sample_start_def sample_complete_def)

lemma sample_complete_ok: "completeIdempotency (sample_env 0) sample_complete empty_db = Inr sample_done"
  by (simp add: sample_done_def completeIdempotency_def Let_def receipt_allowed_def sample_complete_def
      sample_env_def empty_db_def sample_cfg_def sample_start_def key_hashes_def keyDigest_def requestDigest_def)

lemma sample_digests:
  "inj_on (sha256 (sample_env 0)) {canonicalJson (JObj [(''a'', JInt 2)]), canonicalJson (in_request sample_start)}"
proof -
  have "pad32 (canonicalJson (JObj [(''a'', JInt 2)])) \<noteq> pad32 (canonicalJson (JObj [(''a'', JInt 1)]))"
    by code_simp
  then show ?thesis by (simp add: sample_env_def sample_start_def inj_on_def)
qed

end
