(* ===== verification/Schema.thy ===== *)
theory Schema
  imports CoordDb "HOL-Library.Monad_Syntax"
begin

text \<open>
  Readers for the request schemas the routes declare: each takes the JSON value of a field (or its
  absence) and yields the parsed value, or \<open>None\<close> when validation fails. They follow the documented
  behaviour of the schema combinators the source uses: \<open>string().min(1)\<close>, \<open>number().int().min().max()\<close>,
  \<open>array()\<close>, \<open>enum()\<close>, \<open>record()\<close>, \<open>nullable()\<close>, \<open>optional()\<close> and \<open>default()\<close>. Unknown keys of an
  object are dropped unless the schema is strict.
\<close>

fun z_string :: "json \<Rightarrow> string option" where
  "z_string (JStr s) = Some s"
| "z_string _ = None"

fun z_nonempty :: "json \<Rightarrow> string option" where
  "z_nonempty (JStr s) = (if s \<noteq> [] then Some s else None)"
| "z_nonempty _ = None"

definition z_text :: "nat \<Rightarrow> json \<Rightarrow> string option" where
  "z_text n j = (case z_nonempty j of Some s \<Rightarrow> if length s \<le> n then Some s else None | None \<Rightarrow> None)"

fun z_int :: "int \<Rightarrow> int \<Rightarrow> json \<Rightarrow> int option" where
  "z_int lo hi (JInt n) = (if lo \<le> n \<and> n \<le> hi then Some n else None)"
| "z_int lo hi _ = None"

definition MAX_SAFE_INTEGER :: int where "MAX_SAFE_INTEGER = 9007199254740991"

fun z_bool :: "json \<Rightarrow> bool option" where
  "z_bool (JBool b) = Some b"
| "z_bool _ = None"

fun z_record :: "json \<Rightarrow> (string \<times> json) list option" where
  "z_record (JObj kvs) = Some kvs"
| "z_record _ = None"

fun z_enum :: "(string \<times> 'a) list \<Rightarrow> json \<Rightarrow> 'a option" where
  "z_enum alts (JStr s) = map_of alts s"
| "z_enum alts _ = None"

definition z_array :: "(json \<Rightarrow> 'a option) \<Rightarrow> json \<Rightarrow> 'a list option" where
  "z_array f j = (case j of JArr xs \<Rightarrow> those (map f xs) | _ \<Rightarrow> None)"

definition z_array_max :: "nat \<Rightarrow> (json \<Rightarrow> 'a option) \<Rightarrow> json \<Rightarrow> 'a list option" where
  "z_array_max n f j = (case z_array f j of Some xs \<Rightarrow> if length xs \<le> n then Some xs else None | None \<Rightarrow> None)"

text \<open>Fields of an object: required, \<open>optional()\<close>, \<open>default(d)\<close>, and \<open>nullable().default(null)\<close>.\<close>

definition z_field :: "(json \<Rightarrow> 'a option) \<Rightarrow> json option \<Rightarrow> 'a option" where
  "z_field f v = (case v of None \<Rightarrow> None | Some j \<Rightarrow> f j)"

definition z_optional :: "(json \<Rightarrow> 'a option) \<Rightarrow> json option \<Rightarrow> 'a option option" where
  "z_optional f v = (case v of None \<Rightarrow> Some None | Some j \<Rightarrow> map_option Some (f j))"

definition z_default :: "'a \<Rightarrow> (json \<Rightarrow> 'a option) \<Rightarrow> json option \<Rightarrow> 'a option" where
  "z_default a f v = (case v of None \<Rightarrow> Some a | Some j \<Rightarrow> f j)"

definition z_nullable :: "(json \<Rightarrow> 'a option) \<Rightarrow> json option \<Rightarrow> 'a option option" where
  "z_nullable f v = (case v of None \<Rightarrow> Some None | Some JNull \<Rightarrow> Some None | Some j \<Rightarrow> map_option Some (f j))"

lemma z_int_Some: "z_int lo hi j = Some n \<longleftrightarrow> j = JInt n \<and> lo \<le> n \<and> n \<le> hi"
  by (cases j) auto

lemma z_optional_Some:
  "z_optional f v = Some w \<longleftrightarrow> (v = None \<and> w = None) \<or> (\<exists>j x. v = Some j \<and> f j = Some x \<and> w = Some x)"
  by (cases v) (auto simp: z_optional_def)

lemma z_optional_int:
  "z_optional (z_int lo hi) v = Some (Some n) \<Longrightarrow> lo \<le> n \<and> n \<le> hi"
  by (auto simp: z_optional_Some z_int_Some)

lemma z_nonempty_Some: "z_nonempty j = Some s \<Longrightarrow> s \<noteq> []"
  by (cases j) (auto split: if_splits)

end
