(* ===== verification/Agents.thy ===== *)
theory Agents
  imports Idempotency Schema
begin

text \<open>
  Session lifecycle (\<open>apps/coordinator/src/routes/agents.ts\<close>): start with inherited delegation,
  listing, suspend, resume and cascade termination. A recursive statement over \<open>parent_id\<close> is the
  iteration of its step, level by level; its fuel exceeds the length of any chain of distinct rows,
  so \<open>None\<close> is a statement that would not end (it runs into the statement timeout).
\<close>

definition MAX_DEPTH :: int where "MAX_DEPTH = 10"
definition MAX_CHILDREN :: int where "MAX_CHILDREN = 10"
definition DEFAULT_TTL :: int where "DEFAULT_TTL = 3600"

subsection \<open>The start request\<close>

datatype parent_authority = Inherit | NoAuthority

record start_body =
  b_app :: string
  b_subject :: "string option"
  b_parent :: "string option"
  b_lifecycle :: "lifecycle option"
  b_labels :: "string list"
  b_ttl :: "int option"
  b_authority :: parent_authority
  b_inherit :: "string option"
  b_metadata :: "(string \<times> json) list"

definition z_label :: "json \<Rightarrow> string option" where
  "z_label j = (case j of JStr s \<Rightarrow> let t = trim s in if t \<noteq> [] \<and> length t \<le> 64 then Some t else None | _ \<Rightarrow> None)"

definition lifecycles :: "(string \<times> lifecycle) list" where
  "lifecycles = [(''task'', Task), (''service'', Service)]"

definition parse_start_body :: "json \<Rightarrow> start_body option" where
  "parse_start_body j = do {
     ob \<leftarrow> z_record j;
     app \<leftarrow> z_field z_nonempty (jget ob ''application_id'');
     subject \<leftarrow> z_optional z_nonempty (jget ob ''subject_session_id'');
     parent \<leftarrow> z_nullable z_string (jget ob ''parent_id'');
     lifecycle \<leftarrow> z_optional (z_enum lifecycles) (jget ob ''lifecycle'');
     labels \<leftarrow> z_default [] (z_array_max 32 z_label) (jget ob ''labels'');
     ttl \<leftarrow> z_optional (z_int 1 86400) (jget ob ''ttl_seconds'');
     authority \<leftarrow> z_default Inherit (z_enum [(''inherit'', Inherit), (''none'', NoAuthority)]) (jget ob ''parent_authority'');
     inherit \<leftarrow> z_optional z_nonempty (jget ob ''inherit_parent_edge_id'');
     metadata \<leftarrow> z_default [] z_record (jget ob ''metadata'');
     if lifecycle = Some Service \<and> ttl \<noteq> None then None
     else Some \<lparr>b_app = app, b_subject = subject, b_parent = parent, b_lifecycle = lifecycle, b_labels = labels,
            b_ttl = ttl, b_authority = authority, b_inherit = inherit, b_metadata = metadata\<rparr> }"

text \<open>The defaults the route fills in.\<close>

definition body_lifecycle :: "start_body \<Rightarrow> lifecycle" where
  "body_lifecycle b = (case b_lifecycle b of None \<Rightarrow> Task | Some l \<Rightarrow> l)"

definition body_ttl :: "start_body \<Rightarrow> int option" where
  "body_ttl b = (case b_ttl b of Some t \<Rightarrow> Some t
     | None \<Rightarrow> if body_lifecycle b = Service then None else Some DEFAULT_TTL)"

definition start_request :: "auth \<Rightarrow> start_body \<Rightarrow> string \<Rightarrow> json" where
  "start_request req b subject = JObj
    [(''principal'', JObj [(''client_id'', JStr (au_client req)), (''subject'', JStr (au_subject req))]),
     (''application_id'', JStr (b_app b)),
     (''subject_authority_record_id'', JStr subject),
     (''parent_id'', jopt JStr (b_parent b)),
     (''lifecycle'', JStr (show_lifecycle (body_lifecycle b))),
     (''labels'', jstrs (b_labels b)),
     (''ttl_seconds'', jopt JInt (body_ttl b)),
     (''parent_authority'', JStr (case b_authority b of Inherit \<Rightarrow> ''inherit'' | NoAuthority \<Rightarrow> ''none'')),
     (''inherit_parent_edge_id'', jopt JStr (b_inherit b)),
     (''metadata'', JObj (b_metadata b))]"

subsection \<open>Which sessions hold a slot\<close>

definition live_status :: "session_status \<Rightarrow> bool" where
  "live_status st = (st = SActive \<or> st = SSuspended)"

definition holds_slot :: "env \<Rightarrow> session \<Rightarrow> bool" where
  "holds_slot e s = (live_status (s_status s) \<and>
     (case s_lifecycle s of
        Service \<Rightarrow> s_status s = SSuspended \<or> (case s_deadline s of None \<Rightarrow> False | Some t \<Rightarrow> now e < t)
      | Task \<Rightarrow> now e < s_started s + (case s_ttl s of None \<Rightarrow> DEFAULT_TTL | Some t \<Rightarrow> t) * 1000))"

definition find_session :: "db \<Rightarrow> zone \<Rightarrow> string \<Rightarrow> session option" where
  "find_session d z i = find (\<lambda>s. s_id s = i \<and> s_zone s = z) (sessions d)"

definition usable_application :: "env \<Rightarrow> application \<Rightarrow> bool" where
  "usable_application e a = (a_archived a = None \<and> (case a_expires a of None \<Rightarrow> True | Some t \<Rightarrow> now e < t))"

definition find_application :: "env \<Rightarrow> db \<Rightarrow> zone \<Rightarrow> string \<Rightarrow> application option" where
  "find_application e d z i = find (\<lambda>a. a_id a = i \<and> a_zone a = z \<and> usable_application e a) (applications d)"

definition authority_live :: "env \<Rightarrow> db \<Rightarrow> zone \<Rightarrow> string \<Rightarrow> bool" where
  "authority_live e d z i =
     list_ex (\<lambda>r. r_id r = i \<and> r_zone r = z \<and> r_status r = AActive \<and> now e < r_expires r) (authorities d)"

subsection \<open>Inserts and their constraints\<close>

definition session_exists :: "db \<Rightarrow> zone \<Rightarrow> string \<Rightarrow> bool" where
  "session_exists d z i = list_ex (\<lambda>s. s_id s = i \<and> s_zone s = z) (sessions d)"

definition application_exists :: "db \<Rightarrow> zone \<Rightarrow> string \<Rightarrow> bool" where
  "application_exists d z i = list_ex (\<lambda>a. a_id a = i \<and> a_zone a = z) (applications d)"

definition session_fields_ok :: "session \<Rightarrow> bool" where
  "session_fields_ok s =
     ((case s_lifecycle s of
         Task \<Rightarrow> (case s_ttl s of None \<Rightarrow> False | Some t \<Rightarrow> 0 < t) \<and> s_heartbeat s = None \<and> s_deadline s = None
       | Service \<Rightarrow> s_ttl s = None \<and> s_heartbeat s \<noteq> None \<and> s_deadline s \<noteq> None) \<and>
      (live_status (s_status s) \<longleftrightarrow> s_terminated s = None) \<and> 0 \<le> s_lease s)"

definition insert_session :: "session \<Rightarrow> db \<Rightarrow> reply + db" where
  "insert_session s d =
     reject (\<not> (list_all (\<lambda>q. s_id q \<noteq> s_id s) (sessions d) \<and> session_fields_ok s \<and>
                application_exists d (s_zone s) (s_app s) \<and>
                (case s_parent s of None \<Rightarrow> True | Some p \<Rightarrow> session_exists d (s_zone s) p) \<and>
                list_ex (\<lambda>r. r_id r = s_subject s \<and> r_zone r = s_zone s) (authorities d)))
       internal_error
     (Inr (d\<lparr>sessions := sessions d @ [s]\<rparr>))"

definition edge_fields_ok :: "edge \<Rightarrow> bool" where
  "edge_fields_ok g = (e_source g \<noteq> e_target g \<and> (e_status g = ERevoked \<longleftrightarrow> e_revoked g \<noteq> None))"

definition insert_edge :: "edge \<Rightarrow> db \<Rightarrow> reply + db" where
  "insert_edge g d =
     reject (\<not> (list_all (\<lambda>h. e_id h \<noteq> e_id g) (edges d) \<and> edge_fields_ok g \<and>
                session_exists d (e_zone g) (e_source g) \<and> session_exists d (e_zone g) (e_target g) \<and>
                application_exists d (e_zone g) (e_issuer g) \<and> application_exists d (e_zone g) (e_receiver g) \<and>
                (case e_parent g of None \<Rightarrow> True
                   | Some p \<Rightarrow> list_ex (\<lambda>h. e_id h = p \<and> e_zone h = e_zone g) (edges d)) \<and>
                (case e_resource g of None \<Rightarrow> True
                   | Some r \<Rightarrow> list_ex (\<lambda>h. res_id h = r \<and> res_zone h = e_zone g) (resources d))))
       internal_error
     (Inr (d\<lparr>edges := edges d @ [g]\<rparr>))"

definition live_edge :: "env \<Rightarrow> edge \<Rightarrow> bool" where
  "live_edge e g = (e_status g = EActive \<and> now e < e_expires g)"

subsection \<open>Inheriting the parent's delegation\<close>

definition inherit_candidates :: "db \<Rightarrow> zone \<Rightarrow> start_body \<Rightarrow> string \<Rightarrow> edge list" where
  "inherit_candidates d z b parent =
     filter (\<lambda>g. e_zone g = z \<and> e_target g = parent \<and> e_receiver g = b_app b \<and>
       (case b_inherit b of None \<Rightarrow> True | Some i \<Rightarrow> e_id g = i)) (edges d)"

definition inherited_edge :: "env \<Rightarrow> zone \<Rightarrow> start_body \<Rightarrow> string \<Rightarrow> string \<Rightarrow> string \<Rightarrow> edge \<Rightarrow> edge" where
  "inherited_edge e z b parent childId edgeId p =
     \<lparr>e_id = edgeId, e_zone = z, e_source = parent, e_target = childId, e_issuer = e_receiver p,
      e_receiver = b_app b, e_parent = Some (e_id p), e_resource = e_resource p, e_scopes = e_scopes p,
      e_constraints = e_constraints p, e_status = EActive, e_expires = e_expires p, e_version = 0,
      e_revoked = None, e_created = now e, e_updated = now e\<rparr>"

definition edge_create_event :: "zone \<Rightarrow> string \<Rightarrow> string \<Rightarrow> string \<Rightarrow> int \<Rightarrow> json" where
  "edge_create_event z edgeId src tgt epoch = JObj
    [(''event'', JStr ''edge_create''), (''zone_id'', JStr z), (''edge_id'', JStr edgeId),
     (''source_session_id'', JStr src), (''target_session_id'', JStr tgt), (''epoch'', JInt epoch)]"

definition inheritParentEdge :: "env \<Rightarrow> zone \<Rightarrow> start_body \<Rightarrow> string \<Rightarrow> db \<Rightarrow> reply + (string option \<times> db)" where
  "inheritParentEdge e z b childId d =
    (if \<not> truthy (b_parent b) \<or> b_authority b = NoAuthority then Inr (None, d)
     else let parent = the (b_parent b); rows = inherit_candidates d z b parent;
              liveEdges = filter (live_edge e) rows
       in case liveEdges of
            [] \<Rightarrow> (if b_inherit b \<noteq> None \<or> rows \<noteq> [] then Inl (err 409 ''inherit_parent_edge_not_active'')
                  else Inr (None, d))
          | [p] \<Rightarrow>
              let edgeId = uuidv7 e (uuids d) in
              ebind (insert_edge (inherited_edge e z b parent childId edgeId p) (d\<lparr>uuids := Suc (uuids d)\<rparr>)) (\<lambda>d1.
              let (epoch, d2) = bumpDelegationEpoch z d1 in
              Inr (Some edgeId, enqueue e DelegationsInvalidate (''edge_create:'' @ edgeId)
                     (edge_create_event z edgeId parent childId epoch) d2))
          | _ # _ # _ \<Rightarrow> Inl (err 409 ''inherit_parent_edge_ambiguous''))"

subsection \<open>Starting a session\<close>

text \<open>The checks on the parent, which give the depth of the new session.\<close>

definition parent_depth :: "auth \<Rightarrow> zone \<Rightarrow> start_body \<Rightarrow> db \<Rightarrow> reply + int" where
  "parent_depth req z b d =
    (if \<not> truthy (b_parent b) then Inr 0
     else expect (find (\<lambda>s. s_id s = the (b_parent b) \<and> s_zone s = z \<and> s_status s = SActive \<and>
                    application_exists d (s_zone s) (s_app s)) (sessions d))
            (err 404 ''parent_not_found'') (\<lambda>p.
          reject (list_ex (\<lambda>a. a_id a = s_app p \<and> a_zone a = s_zone p \<and> a_method a = Dcr) (applications d))
            (err 409 ''dcr_application_cannot_start_child'')
         (reject (s_lifecycle p = Task \<and> body_lifecycle b = Service)
            (err 409 ''task_session_cannot_start_service'')
         (reject (s_app p \<noteq> b_app b \<and> \<not> requireScope req (''coordinator.spawn_under:'' @ s_app p))
            (err 403 ''parent_ownership_required'')
         (reject (s_max_children p \<le> s_child_count p)
            (err 429 ''session_children_limit_exceeded'')
         (reject (MAX_DEPTH < s_depth p + 1)
            (err 429 ''session_depth_limit_exceeded'')
         (Inr (s_depth p + 1))))))))"

definition new_session :: "env \<Rightarrow> cfg \<Rightarrow> zone \<Rightarrow> start_body \<Rightarrow> string \<Rightarrow> string \<Rightarrow> int \<Rightarrow> session" where
  "new_session e c z b subject i depth =
     \<lparr>s_id = i, s_zone = z, s_app = b_app b, s_parent = b_parent b, s_subject = subject,
      s_lifecycle = body_lifecycle b, s_status = SActive, s_depth = depth, s_labels = b_labels b,
      s_max_children = MAX_CHILDREN, s_child_count = 0, s_ttl = body_ttl b, s_metadata = JObj (b_metadata b),
      s_started = now e, s_active_at = now e, s_terminated = None, s_reason = None,
      s_heartbeat = (if body_lifecycle b = Service then Some (now e) else None),
      s_deadline = (if body_lifecycle b = Service then Some (now e + serviceSessionLeaseSeconds c * 1000) else None),
      s_lease = (if body_lifecycle b = Service then 1 else 0), s_updated = now e\<rparr>"

definition link_child :: "string option \<Rightarrow> string \<Rightarrow> db \<Rightarrow> db" where
  "link_child parent child d =
    (if \<not> truthy parent then d
     else d\<lparr>topology := topology d @ [(the parent, child)],
            sessions := map (\<lambda>s. if s_id s = the parent then s\<lparr>s_child_count := s_child_count s + 1\<rparr> else s)
              (sessions d)\<rparr>)"

definition spawn_event :: "zone \<Rightarrow> start_body \<Rightarrow> string \<Rightarrow> json" where
  "spawn_event z b i = JObj [(''event'', JStr ''spawn''), (''zone_id'', JStr z), (''agent_session_id'', JStr i),
     (''parent_id'', jopt JStr (b_parent b)), (''application_id'', JStr (b_app b))]"

definition session_response :: "session \<Rightarrow> string option \<Rightarrow> json" where
  "session_response s edgeId = JObj
    [(''agent_session_id'', JStr (s_id s)), (''zone_id'', JStr (s_zone s)), (''application_id'', JStr (s_app s)),
     (''parent_id'', jopt JStr (s_parent s)), (''subject_authority_record_id'', JStr (s_subject s)),
     (''lifecycle'', JStr (show_lifecycle (s_lifecycle s))), (''labels'', jstrs (s_labels s)),
     (''status'', JStr (show_session_status (s_status s))), (''depth'', JInt (s_depth s)),
     (''ttl_seconds'', jopt JInt (s_ttl s)), (''started_at'', jtime (s_started s)),
     (''last_heartbeat_at'', jopt jtime (s_heartbeat s)), (''heartbeat_deadline_at'', jopt jtime (s_deadline s)),
     (''lease_generation'', JInt (s_lease s)), (''delegation_edge_id'', jopt JStr edgeId)]"

text \<open>The admission checks before the insert: application, authority record and capacity.\<close>

definition admit_session :: "env \<Rightarrow> cfg \<Rightarrow> zone \<Rightarrow> start_body \<Rightarrow> string \<Rightarrow> db \<Rightarrow> reply + unit" where
  "admit_session e c z b subject d =
     expect (find_application e d z (b_app b)) (err 404 ''application_not_found'') (\<lambda>a.
     reject (a_method a = Dcr \<and> body_lifecycle b \<noteq> Task) (err 409 ''dcr_application_cannot_host_service'')
    (reject (a_method a = Dcr \<and> truthy (b_parent b)) (err 409 ''dcr_application_cannot_be_child'')
    (reject (\<not> authority_live e d z subject) (err 404 ''session_not_found'')
    (let held = filter (\<lambda>s. s_zone s = z \<and> holds_slot e s) (sessions d);
         zone_n = int (length held);
         app_n = int (length (filter (\<lambda>s. s_app s = b_app b) held))
     in reject (maxSessionsPerZone c \<le> zone_n) (err 429 ''session_zone_limit_exceeded'')
       (reject (a_method a = Dcr \<and> 0 < app_n) (err 409 ''dcr_application_already_bound'')
       (reject (maxSessionsPerApp c \<le> app_n) (err 429 ''session_limit_exceeded'')
       (Inr ())))))))"

definition start_receipt :: "zone \<Rightarrow> start_body \<Rightarrow> string \<Rightarrow> string \<Rightarrow> string \<Rightarrow> json \<Rightarrow> int \<Rightarrow> icomplete_input" where
  "start_receipt z b k q i response retention =
     \<lparr>ic_operation = ''session.start.v2'', ic_zone = z, ic_scope = b_app b, ic_key = k, ic_request = q,
      ic_type = ''session'', ic_resource = i, ic_status = 201, ic_response = response, ic_retention = retention\<rparr>"

text \<open>The spawn event, the response and, for a keyed request, its receipt.\<close>

definition start_finish :: "env \<Rightarrow> zone \<Rightarrow> start_body \<Rightarrow> session \<Rightarrow> string option \<Rightarrow> (string \<times> string) option \<Rightarrow> int \<Rightarrow>
    db \<Rightarrow> reply + (reply \<times> db)" where
  "start_finish e z b row edgeId receipt retention d =
    (let d1 = enqueue e AgentsLifecycle (''spawn:'' @ s_id row) (spawn_event z b (s_id row)) d;
         response = session_response row edgeId
     in case receipt of
          None \<Rightarrow> Inr (send 201 response, d1)
        | Some (k, q) \<Rightarrow>
            ebind (completeIdempotency e (start_receipt z b k q (s_id row) response retention) d1)
              (\<lambda>d2. Inr (send 201 response, d2)))"

definition start_new :: "env \<Rightarrow> cfg \<Rightarrow> auth \<Rightarrow> zone \<Rightarrow> start_body \<Rightarrow> string \<Rightarrow> string \<Rightarrow>
    (string \<times> string) option \<Rightarrow> int \<Rightarrow> db \<Rightarrow> reply + (reply \<times> db)" where
  "start_new e c req z b subject i receipt retention d =
     ebind (admit_session e c z b subject d) (\<lambda>_.
     ebind (parent_depth req z b d) (\<lambda>depth.
     ebind (insert_session (new_session e c z b subject i depth) d) (\<lambda>d1.
     ebind (inheritParentEdge e z b i (link_child (b_parent b) i d1)) (\<lambda>(edgeId, d2).
     start_finish e z b (new_session e c z b subject i depth) edgeId receipt retention d2))))"

definition start_idempotency_input :: "auth \<Rightarrow> zone \<Rightarrow> start_body \<Rightarrow> string \<Rightarrow> string \<Rightarrow> istart_input" where
  "start_idempotency_input req z b subject key =
     \<lparr>in_operation = ''session.start.v2'', in_zone = z, in_scope = b_app b, in_key = key,
      in_request = start_request req b subject\<rparr>"

definition start_tx :: "env \<Rightarrow> cfg \<Rightarrow> auth \<Rightarrow> zone \<Rightarrow> start_body \<Rightarrow> string \<Rightarrow> string option \<Rightarrow> int \<Rightarrow>
    db \<Rightarrow> reply + (reply \<times> db)" where
  "start_tx e c req z b subject key retention d =
    (let i = uuidv7 e (uuids d); d0 = d\<lparr>uuids := Suc (uuids d)\<rparr> in
     case key of
       None \<Rightarrow> start_new e c req z b subject i None retention d0
     | Some k \<Rightarrow>
        (case startIdempotency e c (start_idempotency_input req z b subject k) d0 of
           (Conflict, _) \<Rightarrow> Inl (err 409 ''idempotency_key_conflict'')
         | (Limit, _) \<Rightarrow> Inl (err 429 ''idempotency_receipt_limit_exceeded'')
         | (Replayed status response resourceId, d1) \<Rightarrow>
             reject (\<not> list_ex (\<lambda>s. s_id s = resourceId \<and> s_zone s = z \<and> s_app s = b_app b \<and> holds_slot e s) (sessions d1))
               (err 409 ''idempotency_result_inactive'')
             (Inr (\<lparr>code = status, replayed = True, payload = response\<rparr>, d1))
         | (New kd qd, d1) \<Rightarrow> start_new e c req z b subject i (Some (kd, qd)) retention d1))"

definition start_subject :: "auth \<Rightarrow> start_body \<Rightarrow> string option" where
  "start_subject req b = (case b_subject b of Some s \<Rightarrow> Some s | None \<Rightarrow> au_authority req)"

definition start_checks :: "auth \<Rightarrow> zone \<Rightarrow> header \<Rightarrow> json \<Rightarrow> reply + (start_body \<times> string \<times> string option)" where
  "start_checks req z hdr body =
     ebind (parseParams [z]) (\<lambda>_.
     expect (parse_start_body body) invalid_body (\<lambda>b.
     reject (\<not> truthy (start_subject req b)) (err 400 ''subject_session_id_required'')
    (reject (\<not> ownsApplication req (b_app b) \<and> \<not> requireScope req (''coordinator.spawn_for:'' @ b_app b))
       (err 403 ''application_ownership_required'')
    (ebind (parseIdempotencyKey hdr) (\<lambda>key. Inr (b, the (start_subject req b), key))))))"

definition start_session :: "env \<Rightarrow> cfg \<Rightarrow> auth \<Rightarrow> zone \<Rightarrow> header \<Rightarrow> bool \<Rightarrow> json \<Rightarrow> db \<Rightarrow> reply \<times> db" where
  "start_session e c req z hdr generated body d =
    (case start_checks req z hdr body of
       Inl r \<Rightarrow> (r, d)
     | Inr (b, subject, key) \<Rightarrow>
         transact (start_tx e c req z b subject key
           (if generated then generatedIdempotencyRetentionSeconds c else idempotencyRetentionSeconds c)) d)"

subsection \<open>Subtrees\<close>

definition children :: "db \<Rightarrow> zone \<Rightarrow> (session_status \<Rightarrow> bool) \<Rightarrow> string list \<Rightarrow> string list" where
  "children d z ok ids =
     concat (map (\<lambda>t. map s_id (filter (\<lambda>s. s_parent s = Some t \<and> s_zone s = z \<and> ok (s_status s)) (sessions d))) ids)"

fun tree_levels :: "nat \<Rightarrow> (string list \<Rightarrow> string list) \<Rightarrow> string list \<Rightarrow> string list option" where
  "tree_levels 0 step ids = (if ids = [] then Some [] else None)"
| "tree_levels (Suc n) step ids =
     (if ids = [] then Some [] else map_option (append ids) (tree_levels n step (step ids)))"

definition tree_roots :: "db \<Rightarrow> zone \<Rightarrow> (session_status \<Rightarrow> bool) \<Rightarrow> string list \<Rightarrow> string list" where
  "tree_roots d z ok roots =
     map s_id (filter (\<lambda>s. s_id s \<in> set roots \<and> s_zone s = z \<and> ok (s_status s)) (sessions d))"

definition tree :: "db \<Rightarrow> zone \<Rightarrow> (session_status \<Rightarrow> bool) \<Rightarrow> string list \<Rightarrow> string list option" where
  "tree d z ok roots =
     tree_levels (length (sessions d) + 12) (children d z ok) (tree_roots d z ok roots)"

subsection \<open>Suspend and terminate cascades\<close>

text \<open>
  A repeatable transition is keyed by the row's \<open>updated_at\<close>, which the transition sets to the
  transaction's clock.
\<close>

definition occurrenceOf :: "time \<Rightarrow> string" where
  "occurrenceOf updatedAt = toISOString updatedAt"

definition revocationExemptSessions :: "db \<Rightarrow> zone \<Rightarrow> session list \<Rightarrow> string list" where
  "revocationExemptSessions d z affected =
    (let records = map s_subject affected; ids = map s_id affected in
     map s_subject (filter (\<lambda>s. s_zone s = z \<and> s_subject s \<in> set records \<and> s_id s \<notin> set ids \<and>
                                live_status (s_status s)) (sessions d)) @
     map r_id (filter (\<lambda>r. r_zone r = z \<and> r_id r \<in> set records \<and> r_type r = ''application'') (authorities d)))"

definition lifecycle_event :: "string \<Rightarrow> zone \<Rightarrow> session \<Rightarrow> string \<Rightarrow> json" where
  "lifecycle_event ev z s reason = JObj
    [(''event'', JStr ev), (''zone_id'', JStr z), (''agent_session_id'', JStr (s_id s)),
     (''parent_id'', jopt JStr (s_parent s)), (''reason'', JStr reason)]"

definition revoke_event :: "zone \<Rightarrow> session \<Rightarrow> string \<Rightarrow> json" where
  "revoke_event z s reason = JObj
    [(''zone_id'', JStr z), (''session_id'', JStr (s_subject s)), (''agent_session_id'', JStr (s_id s)),
     (''reason'', JStr reason)]"

definition suspend_items :: "env \<Rightarrow> zone \<Rightarrow> string \<Rightarrow> string list \<Rightarrow> session \<Rightarrow> outbox_item list" where
  "suspend_items e z reason exempt s =
    (AgentsLifecycle, ''suspend:'' @ s_id s @ '':'' @ occurrenceOf (now e), lifecycle_event ''suspend'' z s reason) #
    (if s_subject s \<in> set exempt then []
     else [(SessionsRevoke, ''agent_suspend:'' @ s_id s @ '':'' @ occurrenceOf (now e), revoke_event z s reason)])"

definition suspendSubtree :: "env \<Rightarrow> zone \<Rightarrow> string list \<Rightarrow> string \<Rightarrow> db \<Rightarrow> reply + (nat \<times> db)" where
  "suspendSubtree e z rootIds reason d =
    (if rootIds = [] then Inr (0, d)
     else expect (tree d z (\<lambda>st. st = SActive) rootIds) internal_error (\<lambda>ids.
       let hit = (\<lambda>s. s_id s \<in> set ids \<and> s_zone s = z);
           rows = filter hit (sessions d);
           d1 = d\<lparr>sessions := map (\<lambda>s. if hit s then s\<lparr>s_status := SSuspended, s_updated := now e\<rparr> else s) (sessions d)\<rparr>
       in if rows = [] then Inr (0, d)
          else Inr (length rows,
            enqueueMany e (concat (map (suspend_items e z reason (revocationExemptSessions d1 z rows)) rows)) d1)))"

definition terminated_session :: "env \<Rightarrow> string list \<Rightarrow> string \<Rightarrow> session_status \<Rightarrow> session \<Rightarrow> session" where
  "terminated_session e rootIds reason rootStatus s =
     s\<lparr>s_status := (if s_id s \<in> set rootIds then rootStatus else STerminated),
       s_terminated := Some (now e), s_updated := now e,
       s_reason := Some (if s_id s \<in> set rootIds then reason else ''parent_terminated'')\<rparr>"

text \<open>How many of the given rows have the session as their parent, when it is not one of them.\<close>

definition lost_children :: "session list \<Rightarrow> session \<Rightarrow> int" where
  "lost_children rows s =
    (if s_id s \<in> set (map s_id rows) then 0
     else int (length (filter (\<lambda>t. s_parent t = Some (s_id s)) rows)))"

definition terminate_rows :: "env \<Rightarrow> zone \<Rightarrow> string list \<Rightarrow> string list \<Rightarrow> string \<Rightarrow> session_status \<Rightarrow> session list \<Rightarrow> session list" where
  "terminate_rows e z ids rootIds reason rootStatus ss =
    (let hit = (\<lambda>s. s_id s \<in> set ids \<and> s_zone s = z); rows = filter hit ss in
     map (\<lambda>s. if hit s then terminated_session e rootIds reason rootStatus s
              else if s_zone s = z \<and> 0 < lost_children rows s
              then s\<lparr>s_child_count := max (s_child_count s - lost_children rows s) 0, s_updated := now e\<rparr>
              else s) ss)"

definition touches :: "zone \<Rightarrow> string list \<Rightarrow> edge \<Rightarrow> bool" where
  "touches z ids g = (e_zone g = z \<and> e_status g = EActive \<and> (e_source g \<in> set ids \<or> e_target g \<in> set ids))"

definition revoked_edge :: "env \<Rightarrow> edge \<Rightarrow> edge" where
  "revoked_edge e g = g\<lparr>e_status := ERevoked, e_revoked := Some (now e), e_version := e_version g + 1, e_updated := now e\<rparr>"

definition revoke_edge_item :: "zone \<Rightarrow> string \<Rightarrow> int \<Rightarrow> edge \<Rightarrow> outbox_item" where
  "revoke_edge_item z reason epoch g = (DelegationsInvalidate, ''edge_revoke:'' @ e_id g, JObj
    [(''event'', JStr ''edge_revoke''), (''zone_id'', JStr z), (''edge_id'', JStr (e_id g)),
     (''reason'', JStr reason), (''epoch'', JInt epoch)])"

definition terminate_items :: "zone \<Rightarrow> string \<Rightarrow> string list \<Rightarrow> session \<Rightarrow> outbox_item list" where
  "terminate_items z reason exempt s =
    (AgentsLifecycle, ''terminate:'' @ s_id s, lifecycle_event ''terminate'' z s reason) #
    (if s_subject s \<in> set exempt then []
     else [(SessionsRevoke, ''agent_terminate:'' @ s_id s, revoke_event z s reason)])"

definition terminateSubtree :: "env \<Rightarrow> zone \<Rightarrow> string list \<Rightarrow> string \<Rightarrow> session_status \<Rightarrow> db \<Rightarrow> reply + (nat \<times> db)" where
  "terminateSubtree e z rootIds reason rootStatus d =
    (if rootIds = [] then Inr (0, d)
     else expect (tree d z live_status rootIds) internal_error (\<lambda>ids.
       let rows = filter (\<lambda>s. s_id s \<in> set ids \<and> s_zone s = z) (sessions d);
           d1 = d\<lparr>sessions := terminate_rows e z ids rootIds reason rootStatus (sessions d)\<rparr>
       in if rows = [] then Inr (0, d)
          else let dead = map s_id rows;
                   revokedEdges = filter (touches z dead) (edges d1);
                   d2 = d1\<lparr>edges := map (\<lambda>g. if touches z dead g then revoked_edge e g else g) (edges d1)\<rparr>;
                   exempt = revocationExemptSessions d2 z rows;
                   (epoch, d3) = (if revokedEdges \<noteq> [] then bumpDelegationEpoch z d2 else (0, d2));
                   edgeItems = map (revoke_edge_item z reason epoch) revokedEdges;
                   rowItems = concat (map (terminate_items z reason exempt) rows)
               in Inr (length rows, enqueueMany e (edgeItems @ rowItems) d3)))"

subsection \<open>Suspend, resume and terminate routes\<close>

definition may_manage :: "auth \<Rightarrow> string \<Rightarrow> bool" where
  "may_manage req app = (ownsApplication req app \<or> requireScope req ''coordinator.admin'' \<or>
     requireScope req (''coordinator.spawn_for:'' @ app))"

definition suspend_tx :: "env \<Rightarrow> auth \<Rightarrow> zone \<Rightarrow> string \<Rightarrow> db \<Rightarrow> reply + (reply \<times> db)" where
  "suspend_tx e req z i d =
     expect (find_session d z i) (err 404 ''session_not_found'') (\<lambda>own.
     reject (\<not> may_manage req (s_app own)) (err 403 ''application_ownership_required'')
    (ebind (suspendSubtree e z [i] ''requested'' d) (\<lambda>(n, d1).
     reject (n = 0) (err 409 ''session_not_found_or_not_active'')
    (Inr (send 200 (JObj [(''suspended'', JInt (int n))]), d1)))))"

definition suspend_session :: "env \<Rightarrow> auth \<Rightarrow> zone \<Rightarrow> string \<Rightarrow> db \<Rightarrow> reply \<times> db" where
  "suspend_session e req z i d =
    (case parseParams [z, i] of Inl r \<Rightarrow> (r, d) | Inr _ \<Rightarrow> transact (suspend_tx e req z i) d)"

definition resumed_session :: "env \<Rightarrow> cfg \<Rightarrow> session \<Rightarrow> session" where
  "resumed_session e c s = s\<lparr>s_status := SActive,
     s_deadline := (if s_lifecycle s = Service then Some (now e + serviceSessionLeaseSeconds c * 1000) else s_deadline s),
     s_updated := now e\<rparr>"

definition resume_item :: "env \<Rightarrow> zone \<Rightarrow> session \<Rightarrow> outbox_item" where
  "resume_item e z s = (AgentsLifecycle, ''resume:'' @ s_id s @ '':'' @ occurrenceOf (now e), JObj
    [(''event'', JStr ''resume''), (''zone_id'', JStr z), (''agent_session_id'', JStr (s_id s)),
     (''parent_id'', jopt JStr (s_parent s))])"

definition resume_tx :: "env \<Rightarrow> cfg \<Rightarrow> auth \<Rightarrow> zone \<Rightarrow> string \<Rightarrow> db \<Rightarrow> reply + (reply \<times> db)" where
  "resume_tx e c req z i d =
     expect (find_session d z i) (err 404 ''session_not_found'') (\<lambda>own.
     reject (\<not> may_manage req (s_app own)) (err 403 ''application_ownership_required'')
    (expect (tree d z (\<lambda>st. st = SSuspended) [i]) internal_error (\<lambda>ids.
     let hit = (\<lambda>s. s_id s \<in> set ids \<and> s_zone s = z); rows = filter hit (sessions d);
         d1 = d\<lparr>sessions := map (\<lambda>s. if hit s then resumed_session e c s else s) (sessions d)\<rparr>
     in reject (rows = []) (err 409 ''session_not_found_or_not_suspended'')
       (Inr (send 200 (JObj [(''resumed'', JInt (int (length rows)))]),
             enqueueMany e (map (resume_item e z) rows) d1)))))"

definition resume_session :: "env \<Rightarrow> cfg \<Rightarrow> auth \<Rightarrow> zone \<Rightarrow> string \<Rightarrow> db \<Rightarrow> reply \<times> db" where
  "resume_session e c req z i d =
    (case parseParams [z, i] of Inl r \<Rightarrow> (r, d) | Inr _ \<Rightarrow> transact (resume_tx e c req z i) d)"

text \<open>The query and body of the terminate route.\<close>

definition parse_reason :: "(string \<times> json) list \<Rightarrow> string option" where
  "parse_reason q = z_default ''requested'' (z_text 256) (jget q ''reason'')"

definition parse_terminate_body :: "json option \<Rightarrow> int option option" where
  "parse_terminate_body body = (case body of
      None \<Rightarrow> Some None
    | Some JNull \<Rightarrow> Some None
    | Some (JObj ob) \<Rightarrow> z_optional (z_int 1 MAX_SAFE_INTEGER) (jget ob ''lease_generation'')
    | Some _ \<Rightarrow> None)"

definition terminate_tx :: "env \<Rightarrow> auth \<Rightarrow> zone \<Rightarrow> string \<Rightarrow> string \<Rightarrow> int option \<Rightarrow> db \<Rightarrow> reply + (reply \<times> db)" where
  "terminate_tx e req z i reason generation d =
     expect (find_session d z i) (err 404 ''session_not_found'') (\<lambda>own.
     reject (\<not> may_manage req (s_app own)) (err 403 ''application_ownership_required'')
    (reject (s_lifecycle own = Service \<and> \<not> requireScope req ''coordinator.admin'' \<and> generation = None)
       (err 400 ''lease_generation_required'')
    (reject (s_lifecycle own = Service \<and> \<not> requireScope req ''coordinator.admin'' \<and> generation \<noteq> Some (s_lease own))
       (err 409 ''session_lease_fenced'')
    (ebind (terminateSubtree e z [i] reason STerminated d) (\<lambda>(n, d1).
     reject (n = 0) (err 404 ''session_not_found'')
    (Inr (send 204 JNull, d1)))))))"

definition terminate_session :: "env \<Rightarrow> auth \<Rightarrow> zone \<Rightarrow> string \<Rightarrow> (string \<times> json) list \<Rightarrow> json option \<Rightarrow> db \<Rightarrow> reply \<times> db" where
  "terminate_session e req z i query body d =
    (case ebind (parseParams [z, i]) (\<lambda>_.
          expect (parse_reason query) (err 400 ''invalid_query'') (\<lambda>reason.
          expect (parse_terminate_body body) (err 400 ''invalid_body'') (\<lambda>g. Inr (reason, g)))) of
       Inl r \<Rightarrow> (r, d)
     | Inr (reason, g) \<Rightarrow> transact (terminate_tx e req z i reason g) d)"

subsection \<open>Subtrees: what the recursive statement computes\<close>

inductive in_subtree :: "db \<Rightarrow> zone \<Rightarrow> (session_status \<Rightarrow> bool) \<Rightarrow> string list \<Rightarrow> string \<Rightarrow> bool"
  for d z ok roots where
  root: "s \<in> set (sessions d) \<Longrightarrow> s_id s \<in> set roots \<Longrightarrow> s_zone s = z \<Longrightarrow> ok (s_status s) \<Longrightarrow>
    in_subtree d z ok roots (s_id s)"
| child: "in_subtree d z ok roots t \<Longrightarrow> s \<in> set (sessions d) \<Longrightarrow> s_parent s = Some t \<Longrightarrow> s_zone s = z \<Longrightarrow>
    ok (s_status s) \<Longrightarrow> in_subtree d z ok roots (s_id s)"

lemma set_children:
  "x \<in> set (children d z ok ids) \<longleftrightarrow>
     (\<exists>s\<in>set (sessions d). s_id s = x \<and> (\<exists>t\<in>set ids. s_parent s = Some t) \<and> s_zone s = z \<and> ok (s_status s))"
  by (auto simp: children_def)

lemma children_append: "children d z ok (xs @ ys) = children d z ok xs @ children d z ok ys"
  by (simp add: children_def)

lemma set_tree_roots:
  "x \<in> set (tree_roots d z ok roots) \<longleftrightarrow>
     (\<exists>s\<in>set (sessions d). s_id s = x \<and> x \<in> set roots \<and> s_zone s = z \<and> ok (s_status s))"
  by (auto simp: tree_roots_def)

lemma tree_levels_sound:
  assumes "tree_levels n (children d z ok) ids = Some r" "\<forall>x\<in>set ids. in_subtree d z ok roots x"
  shows "\<forall>x\<in>set r. in_subtree d z ok roots x"
  using assms
proof (induction n arbitrary: ids r)
  case 0
  then show ?case by (auto split: if_splits)
next
  case (Suc n)
  have "\<forall>x\<in>set (children d z ok ids). in_subtree d z ok roots x"
    using Suc.prems(2) by (metis in_subtree.child set_children)
  then show ?case using Suc by (auto split: if_splits)
qed

lemma tree_levels_closed:
  assumes "tree_levels n (children d z ok) ids = Some r"
  shows "set ids \<subseteq> set r" "set (children d z ok r) \<subseteq> set r"
proof -
  have "set ids \<subseteq> set r \<and> set (children d z ok r) \<subseteq> set r"
    using assms
  proof (induction n arbitrary: ids r)
    case 0
    then show ?case by (auto simp: children_def split: if_splits)
  next
    case (Suc n)
    show ?case
    proof (cases "ids = []")
      case True
      then show ?thesis using Suc.prems by (simp add: children_def)
    next
      case False
      then obtain r' where r': "tree_levels n (children d z ok) (children d z ok ids) = Some r'" "r = ids @ r'"
        using Suc.prems by auto
      have "set (children d z ok ids) \<subseteq> set r'" "set (children d z ok r') \<subseteq> set r'"
        using Suc.IH [OF r'(1)] by auto
      then show ?thesis by (auto simp: r'(2) children_append)
    qed
  qed
  then show "set ids \<subseteq> set r" "set (children d z ok r) \<subseteq> set r" by simp_all
qed

lemma tree_iff:
  assumes "tree d z ok roots = Some ids"
  shows "x \<in> set ids \<longleftrightarrow> in_subtree d z ok roots x"
proof
  assume "x \<in> set ids"
  moreover have "\<forall>x\<in>set (tree_roots d z ok roots). in_subtree d z ok roots x"
    by (auto simp: set_tree_roots intro: in_subtree.root)
  ultimately show "in_subtree d z ok roots x"
    using tree_levels_sound [OF assms [unfolded tree_def]] by blast
next
  note c = tree_levels_closed [OF assms [unfolded tree_def]]
  assume "in_subtree d z ok roots x"
  then show "x \<in> set ids"
  proof induction
    case (root s)
    then have "s_id s \<in> set (tree_roots d z ok roots)" by (auto simp: set_tree_roots)
    then show ?case using c(1) by blast
  next
    case (child t s)
    then have "s_id s \<in> set (children d z ok ids)" by (auto simp: set_children)
    then show ?case using c(2) by blast
  qed
qed

lemma tree_members:
  assumes "tree d z ok roots = Some ids" "x \<in> set ids"
  obtains s where "s \<in> set (sessions d)" "s_id s = x" "s_zone s = z" "ok (s_status s)"
  using assms(2) unfolding tree_iff [OF assms(1)] by (cases rule: in_subtree.cases) auto

lemma tree_closed:
  assumes "tree d z ok roots = Some ids" "t \<in> set ids"
    and "s \<in> set (sessions d)" "s_parent s = Some t" "s_zone s = z" "ok (s_status s)"
  shows "s_id s \<in> set ids"
  using assms(2-) unfolding tree_iff [OF assms(1)] by (rule in_subtree.child)

subsection \<open>The session invariant\<close>

definition live :: "session \<Rightarrow> bool" where
  "live s = live_status (s_status s)"

definition live_children :: "session list \<Rightarrow> string \<Rightarrow> session list" where
  "live_children ss p = filter (\<lambda>s. s_parent s = Some p \<and> live s) ss"

definition session_ok :: "session list \<Rightarrow> session \<Rightarrow> bool" where
  "session_ok ss s \<longleftrightarrow> s_id s \<noteq> [] \<and> session_fields_ok s \<and> 0 \<le> s_depth s \<and> s_depth s \<le> MAX_DEPTH \<and>
     (case s_parent s of None \<Rightarrow> s_depth s = 0
      | Some p \<Rightarrow> list_ex (\<lambda>q. s_id q = p \<and> s_zone q = s_zone s \<and> s_depth s = s_depth q + 1 \<and> (live s \<longrightarrow> live q)) ss) \<and>
     (live s \<longrightarrow> int (length (live_children ss (s_id s))) \<le> s_child_count s \<and> s_child_count s \<le> s_max_children s)"

definition session_inv :: "db \<Rightarrow> bool" where
  "session_inv d \<longleftrightarrow> distinct (map s_id (sessions d)) \<and> list_all (session_ok (sessions d)) (sessions d)"

lemma session_inv_cong: "sessions d' = sessions d \<Longrightarrow> session_inv d' = session_inv d"
  by (simp add: session_inv_def)

lemma session_ok_parent:
  assumes "session_ok ss s" "s_parent s = Some p"
  obtains q where "q \<in> set ss" "s_id q = p" "s_zone q = s_zone s" "s_depth s = s_depth q + 1" "live s \<Longrightarrow> live q"
  using assms by (auto simp: session_ok_def list_ex_iff)

lemma session_inv_ok: "session_inv d \<Longrightarrow> s \<in> set (sessions d) \<Longrightarrow> session_ok (sessions d) s"
  by (simp add: session_inv_def list_all_iff)

lemma session_id_unique:
  "distinct (map s_id ss) \<Longrightarrow> s \<in> set ss \<Longrightarrow> t \<in> set ss \<Longrightarrow> s_id s = s_id t \<Longrightarrow> s = t"
  by (auto simp: distinct_map inj_on_def)

lemma tree_levels_total:
  assumes "list_all (session_ok ss) (sessions d)"
    and "\<forall>x\<in>set ids. \<exists>s\<in>set (sessions d). s_id s = x \<and> k \<le> s_depth s"
    and "distinct (map s_id (sessions d))" "ss = sessions d" "12 \<le> int n + k"
  shows "tree_levels n (children d z ok) ids \<noteq> None"
  using assms(2,5)
proof (induction n arbitrary: ids k)
  case 0
  have "ids = []"
  proof (rule ccontr)
    assume "ids \<noteq> []"
    then obtain s where "s \<in> set (sessions d)" "k \<le> s_depth s" using 0(1) by (cases ids) auto
    then show False using assms(1) 0(2) by (auto simp: list_all_iff session_ok_def MAX_DEPTH_def)
  qed
  then show ?case by simp
next
  case (Suc n)
  have "\<exists>s\<in>set (sessions d). s_id s = x \<and> k + 1 \<le> s_depth s" if "x \<in> set (children d z ok ids)" for x
  proof -
    from that obtain s t where s: "s \<in> set (sessions d)" "s_id s = x" "t \<in> set ids" "s_parent s = Some t"
      by (auto simp: set_children)
    have "session_ok ss s" using assms(1) s(1) by (simp add: list_all_iff)
    then obtain q where q: "q \<in> set (sessions d)" "s_id q = t" "s_depth s = s_depth q + 1"
      using s(4) assms(4) by (auto elim: session_ok_parent)
    obtain q' where "q' \<in> set (sessions d)" "s_id q' = t" "k \<le> s_depth q'" using Suc.prems(1) s(3) by blast
    moreover have "q' = q" using session_id_unique [OF assms(3)] q calculation by simp
    ultimately show ?thesis using s q by auto
  qed
  then have "tree_levels n (children d z ok) (children d z ok ids) \<noteq> None"
    using Suc.IH [of "children d z ok ids" "k + 1"] Suc.prems(2) by simp
  then show ?case by auto
qed

lemma tree_total: "session_inv d \<Longrightarrow> tree d z ok roots \<noteq> None"
  unfolding tree_def
  by (rule tree_levels_total [where k = 0])
     (auto simp: session_inv_def set_tree_roots list_all_iff session_ok_def)

subsection \<open>Row updates keep the invariant\<close>

text \<open>An update that keeps identity, position in the tree, child counts and liveness.\<close>

definition same_place :: "session \<Rightarrow> session \<Rightarrow> bool" where
  "same_place s t \<longleftrightarrow> s_id t = s_id s \<and> s_zone t = s_zone s \<and> s_parent t = s_parent s \<and> s_depth t = s_depth s \<and>
     s_max_children t = s_max_children s"

lemma same_placeD:
  "same_place s t \<Longrightarrow> s_id t = s_id s" "same_place s t \<Longrightarrow> s_zone t = s_zone s"
  "same_place s t \<Longrightarrow> s_parent t = s_parent s" "same_place s t \<Longrightarrow> s_depth t = s_depth s"
  "same_place s t \<Longrightarrow> s_max_children t = s_max_children s"
  by (simp_all add: same_place_def)

lemma live_children_map:
  assumes "\<And>s. s \<in> set ss \<Longrightarrow> same_place s (f s)"
  shows "length (live_children (map f ss) p) = length (filter (\<lambda>s. s_parent s = Some p \<and> live (f s)) ss)"
  using assms unfolding live_children_def
  by (induction ss) (auto simp: same_place_def)

lemma session_inv_map:
  assumes inv: "session_inv d" and d': "sessions d' = map f (sessions d)"
    and place: "\<And>s. s \<in> set (sessions d) \<Longrightarrow> same_place s (f s)"
    and fields: "\<And>s. s \<in> set (sessions d) \<Longrightarrow> session_fields_ok (f s)"
    and up: "\<And>s q. s \<in> set (sessions d) \<Longrightarrow> q \<in> set (sessions d) \<Longrightarrow> s_parent s = Some (s_id q) \<Longrightarrow>
      s_zone q = s_zone s \<Longrightarrow> live s \<Longrightarrow> live q \<Longrightarrow> live (f s) \<Longrightarrow> live (f q)"
    and dies: "\<And>s. s \<in> set (sessions d) \<Longrightarrow> live (f s) \<Longrightarrow> live s"
    and count: "\<And>s. s \<in> set (sessions d) \<Longrightarrow> live (f s) \<Longrightarrow>
      int (length (filter (\<lambda>t. s_parent t = Some (s_id s) \<and> live (f t)) (sessions d))) \<le> s_child_count (f s)
      \<and> s_child_count (f s) \<le> s_child_count s"
  shows "session_inv d'"
proof -
  have ok: "session_ok (sessions d') (f s)" if s: "s \<in> set (sessions d)" for s
  proof -
    note P = same_placeD [OF place [OF s]] and ok = session_inv_ok [OF inv s]
    have parent: "list_ex (\<lambda>q. s_id q = p \<and> s_zone q = s_zone (f s) \<and> s_depth (f s) = s_depth q + 1 \<and> (live (f s) \<longrightarrow> live q)) (sessions d')"
      if p: "s_parent (f s) = Some p" for p
    proof -
      have "s_parent s = Some p" using p P(3) by simp
      from session_ok_parent [OF ok this]
      obtain q where q: "q \<in> set (sessions d)" "s_id q = p" "s_zone q = s_zone s" "s_depth s = s_depth q + 1" "live s \<Longrightarrow> live q"
        by metis
      then have "live (f s) \<longrightarrow> live (f q)" using up [OF s q(1)] dies [OF s] \<open>s_parent s = Some p\<close> by auto
      then show ?thesis using q same_placeD [OF place [OF q(1)]] P unfolding d' list_ex_iff by (intro bexI [of _ "f q"]) auto
    qed
    have "live (f s) \<Longrightarrow> int (length (live_children (sessions d') (s_id (f s)))) \<le> s_child_count (f s)
        \<and> s_child_count (f s) \<le> s_max_children (f s)"
      using count [OF s] dies [OF s] ok P live_children_map [OF place, where p = "s_id s"] unfolding d' session_ok_def by auto
    then show ?thesis
      using parent P ok fields [OF s] unfolding session_ok_def by (auto split: option.splits)
  qed
  have "map s_id (sessions d') = map s_id (sessions d)"
    using same_placeD(1) [OF place] unfolding d' by simp
  then have "distinct (map s_id (sessions d'))" using inv by (simp add: session_inv_def)
  moreover have "list_all (session_ok (sessions d')) (sessions d')" using ok unfolding list_all_iff by (auto simp: d')
  ultimately show ?thesis by (simp add: session_inv_def)
qed

lemma session_inv_map_live:
  assumes inv: "session_inv d" and d': "sessions d' = map f (sessions d)"
    and "\<And>s. s \<in> set (sessions d) \<Longrightarrow> same_place s (f s)"
    and "\<And>s. s \<in> set (sessions d) \<Longrightarrow> session_fields_ok (f s)"
    and lv: "\<And>s. s \<in> set (sessions d) \<Longrightarrow> live (f s) = live s"
    and cc: "\<And>s. s \<in> set (sessions d) \<Longrightarrow> s_child_count (f s) = s_child_count s"
  shows "session_inv d'"
proof (rule session_inv_map [OF inv d' assms(3,4)])
  fix s assume s: "s \<in> set (sessions d)" "live (f s)"
  have "filter (\<lambda>t. s_parent t = Some (s_id s) \<and> live (f t)) (sessions d) = live_children (sessions d) (s_id s)"
    unfolding live_children_def by (rule filter_cong) (auto simp: lv)
  then show "int (length (filter (\<lambda>t. s_parent t = Some (s_id s) \<and> live (f t)) (sessions d))) \<le> s_child_count (f s)
      \<and> s_child_count (f s) \<le> s_child_count s"
    using session_inv_ok [OF inv s(1)] s cc lv by (simp add: session_ok_def)
qed (auto simp: lv)

text \<open>Terminating a set of live sessions closed under live children.\<close>

lemma filter_split_length:
  "length (filter P xs) = length (filter (\<lambda>x. P x \<and> Q x) xs) + length (filter (\<lambda>x. P x \<and> \<not> Q x) xs)"
  by (induction xs) auto

lemma tree_member_live:
  assumes "session_inv d" "tree d z ok roots = Some ids" "s \<in> set (sessions d)" "s_id s \<in> set ids"
  shows "ok (s_status s)" "s_zone s = z"
proof -
  obtain t where t: "t \<in> set (sessions d)" "s_id t = s_id s" "s_zone t = z" "ok (s_status t)"
    using tree_members [OF assms(2,4)] by metis
  then have "t = s" using session_id_unique [of "sessions d" t s] assms(1,3) by (simp add: session_inv_def)
  then show "ok (s_status s)" "s_zone s = z" using t by simp_all
qed

lemma child_same_zone:
  assumes "session_inv d" "s \<in> set (sessions d)" "t \<in> set (sessions d)" "s_parent t = Some (s_id s)"
  shows "s_zone t = s_zone s"
proof -
  obtain q where "q \<in> set (sessions d)" "s_id q = s_id s" "s_zone q = s_zone t"
    using session_ok_parent [OF session_inv_ok [OF assms(1,3)] assms(4)] by metis
  then show ?thesis
    using session_id_unique [of "sessions d" q s] assms(1,2) by (auto simp: session_inv_def)
qed

lemma lost_children_count:
  assumes inv: "session_inv d" and tree: "tree d z live_status roots = Some ids"
    and s: "s \<in> set (sessions d)" "s_id s \<notin> set ids"
  shows "int (length (filter (\<lambda>t. (s_parent t = Some (s_id s) \<and> live t) \<and> s_id t \<in> set ids) (sessions d)))
    = lost_children (filter (\<lambda>s. s_id s \<in> set ids \<and> s_zone s = z) (sessions d)) s"
proof -
  have "filter (\<lambda>t. (s_parent t = Some (s_id s) \<and> live t) \<and> s_id t \<in> set ids) (sessions d) =
      filter (\<lambda>t. (s_id t \<in> set ids \<and> s_zone t = z) \<and> s_parent t = Some (s_id s)) (sessions d)"
    using tree_member_live [OF inv tree] by (intro filter_cong) (auto simp: live_def)
  moreover have "s_id s \<notin> s_id ` {t \<in> set (sessions d). s_id t \<in> set ids \<and> s_zone t = z}" using s(2) by auto
  ultimately show ?thesis by (simp add: lost_children_def)
qed

lemma session_inv_terminate:
  assumes inv: "session_inv d" and tree: "tree d z live_status roots = Some ids"
    and st: "rootStatus = STerminated \<or> rootStatus = SExpired"
    and d': "sessions d' = terminate_rows e z ids roots' reason rootStatus (sessions d)"
  shows "session_inv d'"
proof -
  define rows where "rows = filter (\<lambda>s. s_id s \<in> set ids \<and> s_zone s = z) (sessions d)"
  define f where "f s = (if s_id s \<in> set ids \<and> s_zone s = z then terminated_session e roots' reason rootStatus s
      else if s_zone s = z \<and> 0 < lost_children rows s
      then s\<lparr>s_child_count := max (s_child_count s - lost_children rows s) 0, s_updated := now e\<rparr> else s)" for s
  have d'': "sessions d' = map f (sessions d)"
    unfolding d' terminate_rows_def Let_def f_def rows_def by simp
  note zone = tree_member_live(2) [OF inv tree]
  have liv: "live (f s) \<longleftrightarrow> live s \<and> s_id s \<notin> set ids" if "s \<in> set (sessions d)" for s
    using st zone [OF that] by (auto simp: f_def live_def live_status_def terminated_session_def)
  show ?thesis
  proof (rule session_inv_map [OF inv d''])
    fix s assume s: "s \<in> set (sessions d)"
    show "same_place s (f s)" by (simp add: same_place_def f_def terminated_session_def)
    show "session_fields_ok (f s)"
      using session_inv_ok [OF inv s] st
      by (auto simp: f_def terminated_session_def session_ok_def session_fields_ok_def live_status_def split: lifecycle.splits)
    show "live (f s) \<Longrightarrow> live s" using liv [OF s] by simp
    fix q assume q: "q \<in> set (sessions d)" "s_parent s = Some (s_id q)" "s_zone q = s_zone s" "live q" and l: "live s" "live (f s)"
    have "s_id q \<notin> set ids"
      using tree_closed [OF tree _ s q(2)] zone [OF q(1)] q(3) l liv [OF s] by (auto simp: live_def)
    then show "live (f q)" using q liv by simp
  next
    fix s assume s: "s \<in> set (sessions d)" "live (f s)"
    let ?P = "\<lambda>t. s_parent t = Some (s_id s) \<and> live t"
    have nh: "s_id s \<notin> set ids" "live s" using s liv by simp_all
    have cc: "int (length (filter ?P (sessions d))) \<le> s_child_count s"
      using session_inv_ok [OF inv s(1)] nh by (simp add: session_ok_def live_children_def)
    have rest: "filter (\<lambda>t. s_parent t = Some (s_id s) \<and> live (f t)) (sessions d) = filter (\<lambda>t. ?P t \<and> s_id t \<notin> set ids) (sessions d)"
      by (rule filter_cong) (auto simp: liv)
    have zone0: "s_zone s \<noteq> z \<Longrightarrow> lost_children rows s = 0"
      using child_same_zone [OF inv s(1)] by (auto simp: lost_children_def rows_def filter_empty_conv)
    note lost = lost_children_count [OF inv tree s(1) nh(1), folded rows_def]
      and split = filter_split_length [of ?P "sessions d" "\<lambda>t. s_id t \<in> set ids"]
    have "0 \<le> lost_children rows s" "lost_children rows s \<le> s_child_count s"
      using lost split cc by linarith+
    then have "s_child_count (f s) = s_child_count s - lost_children rows s"
      using zone0 nh(1) by (cases "s_zone s = z") (auto simp: f_def)
    then show "int (length (filter (\<lambda>t. s_parent t = Some (s_id s) \<and> live (f t)) (sessions d))) \<le> s_child_count (f s)
      \<and> s_child_count (f s) \<le> s_child_count s"
      unfolding rest using lost split cc by linarith
  qed
qed

text \<open>Adding a session under an active parent with room for it.\<close>

definition count_child :: "string option \<Rightarrow> session \<Rightarrow> session" where
  "count_child p s = (if p = Some (s_id s) then s\<lparr>s_child_count := s_child_count s + 1\<rparr> else s)"

lemma count_child_simps [simp]:
  "s_id (count_child p s) = s_id s" "s_zone (count_child p s) = s_zone s" "s_parent (count_child p s) = s_parent s"
  "s_depth (count_child p s) = s_depth s" "s_max_children (count_child p s) = s_max_children s"
  "live (count_child p s) = live s" "session_fields_ok (count_child p s) = session_fields_ok s"
  "s_child_count (count_child p s) = s_child_count s + (if p = Some (s_id s) then 1 else 0)"
  by (auto simp: count_child_def live_def session_fields_ok_def split: lifecycle.splits)

lemma live_children_count:
  "length (live_children (map (count_child p) ss @ [n]) q) =
     length (live_children ss q) + (if s_parent n = Some q \<and> live n then 1 else 0)"
proof -
  have "length (live_children (map (count_child p) ss) q) = length (live_children ss q)"
    unfolding live_children_def by (induction ss) auto
  then show ?thesis by (auto simp: live_children_def)
qed

lemma list_ex_count_child [simp]:
  "list_ex (\<lambda>q. s_id q = a \<and> s_zone q = b \<and> x = s_depth q + 1 \<and> (l \<longrightarrow> live q)) (map (count_child p) ss)
   = list_ex (\<lambda>q. s_id q = a \<and> s_zone q = b \<and> x = s_depth q + 1 \<and> (l \<longrightarrow> live q)) ss"
  "list_ex (\<lambda>q. s_id q = a \<and> s_zone q = b \<and> x = s_depth q + 1 \<and> live q) (map (count_child p) ss)
   = list_ex (\<lambda>q. s_id q = a \<and> s_zone q = b \<and> x = s_depth q + 1 \<and> live q) ss"
  by (induction ss) auto

lemma count_child_None [simp]: "map (count_child None) ss = ss"
  by (simp add: count_child_def map_idI)

definition parent_room :: "session list \<Rightarrow> session \<Rightarrow> bool" where
  "parent_room ss n \<longleftrightarrow> (case s_parent n of None \<Rightarrow> s_depth n = 0
     | Some p \<Rightarrow> list_ex (\<lambda>q. s_id q = p \<and> s_zone q = s_zone n \<and> s_depth n = s_depth q + 1 \<and> live q \<and>
         s_child_count q < s_max_children q) ss)"

lemma session_inv_insert:
  assumes inv: "session_inv d" and fresh: "\<forall>q\<in>set (sessions d). s_id q \<noteq> s_id n"
    and n: "live n" "s_child_count n = 0" "0 \<le> s_max_children n" "s_id n \<noteq> []" "session_fields_ok n"
      "0 \<le> s_depth n" "s_depth n \<le> MAX_DEPTH"
    and room: "parent_room (sessions d) n"
    and d': "sessions d' = map (count_child (s_parent n)) (sessions d) @ [n]"
  shows "session_inv d'"
proof -
  let ?p = "s_parent n" and ?ss = "sessions d"
  have old: "session_ok (sessions d') (count_child ?p s)" if s: "s \<in> set ?ss" for s
  proof -
    note ok = session_inv_ok [OF inv s]
    have "s_child_count s + 1 \<le> s_max_children s" if p: "?p = Some (s_id s)"
    proof -
      obtain q where "q \<in> set ?ss" "s_id q = s_id s" "s_child_count q < s_max_children q"
        using room p by (auto simp: parent_room_def list_ex_iff)
      then show ?thesis using session_id_unique [of ?ss q s] inv s by (simp add: session_inv_def)
    qed
    then show ?thesis
      using ok n(1) unfolding session_ok_def d' count_child_simps live_children_count
      by (auto split: option.splits)
  qed
  have "s_parent t \<noteq> Some (s_id n)" if t: "t \<in> set ?ss" for t
  proof
    assume "s_parent t = Some (s_id n)"
    from session_ok_parent [OF session_inv_ok [OF inv t] this]
    obtain q where "q \<in> set ?ss" "s_id q = s_id n" by metis
    then show False using fresh by simp
  qed
  then have "live_children ?ss (s_id n) = []" by (auto simp: live_children_def filter_empty_conv)
  moreover have "?p \<noteq> Some (s_id n)" using room fresh by (auto simp: parent_room_def list_ex_iff)
  moreover have "case ?p of None \<Rightarrow> s_depth n = 0
     | Some p \<Rightarrow> list_ex (\<lambda>q. s_id q = p \<and> s_zone q = s_zone n \<and> s_depth n = s_depth q + 1 \<and> (live n \<longrightarrow> live q)) ?ss"
    using room by (auto simp: parent_room_def list_ex_iff split: option.splits)
  ultimately have "session_ok (sessions d') n"
    using n unfolding session_ok_def d' live_children_count by (simp split: option.splits)
  moreover have "distinct (map s_id (sessions d'))"
    using inv fresh unfolding d' session_inv_def by (auto simp: comp_def)
  moreover have "list_all (session_ok (sessions d')) (map (count_child ?p) ?ss)"
    using old by (auto simp: list_all_iff)
  ultimately show ?thesis unfolding session_inv_def by (simp add: d')
qed

lemma insert_session_Inr:
  assumes "insert_session n d = Inr d1"
  shows "d1 = d\<lparr>sessions := sessions d @ [n]\<rparr>" "\<forall>q\<in>set (sessions d). s_id q \<noteq> s_id n" "session_fields_ok n"
    "\<And>p. s_parent n = Some p \<Longrightarrow> session_exists d (s_zone n) p"
  using assms by (auto simp: insert_session_def list_all_iff)

lemma link_child_sessions:
  assumes "\<forall>q\<in>set (sessions d). s_id q \<noteq> s_id n" "truthy (s_parent n) \<or> s_parent n = None"
    and "s_parent n \<noteq> Some (s_id n)"
  shows "sessions (link_child (s_parent n) i (d\<lparr>sessions := sessions d @ [n]\<rparr>)) = map (count_child (s_parent n)) (sessions d) @ [n]"
proof (cases "s_parent n")
  case None
  then show ?thesis by (simp add: link_child_def truthy_def)
next
  case (Some p)
  have "map (\<lambda>s. if s_id s = p then s\<lparr>s_child_count := s_child_count s + 1\<rparr> else s) (sessions d)
      = map (count_child (Some p)) (sessions d)"
    by (auto simp: count_child_def)
  then show ?thesis using Some assms(2,3) by (simp add: link_child_def)
qed

lemma parent_depth_Inr:
  assumes "parent_depth req z b d = Inr depth" "n = new_session e c z b subject i depth"
    and "truthy (b_parent b) \<or> b_parent b = None" "session_inv d"
  shows "parent_room (sessions d) n" "0 \<le> s_depth n" "s_depth n \<le> MAX_DEPTH"
proof -
  have "parent_room (sessions d) n \<and> 0 \<le> depth \<and> depth \<le> MAX_DEPTH"
  proof (cases "truthy (b_parent b)")
    case False
    then show ?thesis using assms
      by (auto simp: parent_depth_def parent_room_def new_session_def MAX_DEPTH_def truthy_def split: option.splits)
  next
    case True
    then obtain p where p: "b_parent b = Some p" by (auto simp: truthy_iff)
    from True assms(1) obtain q where f: "find (\<lambda>s. s_id s = p \<and> s_zone s = z \<and> s_status s = SActive \<and>
        application_exists d (s_zone s) (s_app s)) (sessions d) = Some q"
      and q': "\<not> s_max_children q \<le> s_child_count q" "depth = s_depth q + 1" "\<not> MAX_DEPTH < s_depth q + 1"
      unfolding parent_depth_def p by auto
    have q: "q \<in> set (sessions d)" "s_id q = p" "s_zone q = z" "s_status q = SActive"
      using find_SomeD [OF f] by simp_all
    note q' q p
    moreover have "0 \<le> s_depth q" using session_inv_ok [OF assms(4) q(1)] by (simp add: session_ok_def)
    ultimately show ?thesis using assms(2)
      by (auto simp: parent_room_def new_session_def list_ex_iff live_def live_status_def)
  qed
  then show "parent_room (sessions d) n" "0 \<le> s_depth n" "s_depth n \<le> MAX_DEPTH"
    by (simp_all add: assms(2) new_session_def)
qed

subsection \<open>What a cascade does\<close>

lemma suspendSubtree_Inr:
  assumes "suspendSubtree e z roots reason d = Inr (n, d')" "roots \<noteq> []"
  obtains ids where "tree d z (\<lambda>st. st = SActive) roots = Some ids"
    "n = length (filter (\<lambda>s. s_id s \<in> set ids \<and> s_zone s = z) (sessions d))"
    "sessions d' = map (\<lambda>s. if s_id s \<in> set ids \<and> s_zone s = z then s\<lparr>s_status := SSuspended, s_updated := now e\<rparr> else s) (sessions d)"
    "edges d' = edges d" "epochs d' = epochs d" "receipts d' = receipts d"
proof -
  from assms obtain ids where ids: "tree d z (\<lambda>st. st = SActive) roots = Some ids"
    by (auto simp: suspendSubtree_def)
  let ?hit = "\<lambda>s. s_id s \<in> set ids \<and> s_zone s = z"
  have none: "map (\<lambda>s. if ?hit s then s\<lparr>s_status := SSuspended, s_updated := now e\<rparr> else s) (sessions d) = sessions d"
    if "filter ?hit (sessions d) = []"
    using that by (auto simp: filter_empty_conv intro!: map_idI)
  show thesis
    by (rule that [OF ids])
       (use assms ids none in \<open>auto simp: suspendSubtree_def Let_def simp del: filter_empty_conv split: if_splits\<close>)
qed

lemma session_inv_suspend:
  assumes inv: "session_inv d" and t: "tree d z (\<lambda>st. st = SActive) roots = Some ids"
    and d': "sessions d' = map (\<lambda>s. if s_id s \<in> set ids \<and> s_zone s = z then s\<lparr>s_status := SSuspended, s_updated := u\<rparr> else s) (sessions d)"
  shows "session_inv d'"
proof (rule session_inv_map_live [OF inv d'])
  fix s assume s: "s \<in> set (sessions d)"
  let ?f = "\<lambda>s. if s_id s \<in> set ids \<and> s_zone s = z then s\<lparr>s_status := SSuspended, s_updated := u\<rparr> else s"
  have act: "s_id s \<in> set ids \<Longrightarrow> s_status s = SActive" using tree_member_live(1) [OF inv t s] by simp
  show "same_place s (?f s)" "s_child_count (?f s) = s_child_count s" by (simp_all add: same_place_def)
  show "live (?f s) = live s" using act by (auto simp: live_def live_status_def)
  show "session_fields_ok (?f s)"
    using session_inv_ok [OF inv s] act
    by (auto simp: session_ok_def session_fields_ok_def live_status_def split: lifecycle.splits)
qed

lemma session_inv_resume:
  assumes inv: "session_inv d" and t: "tree d z (\<lambda>st. st = SSuspended) roots = Some ids"
    and d': "sessions d' = map (\<lambda>s. if s_id s \<in> set ids \<and> s_zone s = z then resumed_session e c s else s) (sessions d)"
  shows "session_inv d'"
proof (rule session_inv_map_live [OF inv d'])
  fix s assume s: "s \<in> set (sessions d)"
  let ?f = "\<lambda>s. if s_id s \<in> set ids \<and> s_zone s = z then resumed_session e c s else s"
  have sus: "s_id s \<in> set ids \<Longrightarrow> s_status s = SSuspended" using tree_member_live(1) [OF inv t s] by simp
  show "same_place s (?f s)" "s_child_count (?f s) = s_child_count s" by (simp_all add: same_place_def resumed_session_def)
  show "live (?f s) = live s" using sus by (auto simp: live_def live_status_def resumed_session_def)
  show "session_fields_ok (?f s)"
    using session_inv_ok [OF inv s] sus
    by (auto simp: session_ok_def session_fields_ok_def live_status_def resumed_session_def split: lifecycle.splits)
qed

lemma terminate_rows_none:
  assumes "filter (\<lambda>s. s_id s \<in> set ids \<and> s_zone s = z) ss = []"
  shows "terminate_rows e z ids roots reason rootStatus ss = ss"
proof -
  have "(s_id s \<in> set ids \<and> s_zone s = z) = False" if "s \<in> set ss" for s
    using assms that by (auto simp: filter_empty_conv)
  then show ?thesis
    unfolding terminate_rows_def Let_def assms lost_children_def by (intro map_idI) (simp only: if_False, simp)
qed

lemma revoke_none:
  assumes "\<not> list_ex P gs"
  shows "map (\<lambda>g. if P g then f g else g) gs = gs"
  using assms by (auto simp: list_ex_iff intro!: map_idI)

text \<open>
  The full effect of a termination cascade: the rows of the live subtree are terminated, the active
  edges touching them are revoked, the epoch grows by one when an edge was revoked, and a lifecycle
  event is queued for each terminated session.
\<close>

definition terminated_ids :: "db \<Rightarrow> zone \<Rightarrow> string list \<Rightarrow> string list" where
  "terminated_ids d z ids = map s_id (filter (\<lambda>s. s_id s \<in> set ids \<and> s_zone s = z) (sessions d))"

definition terminate_effect :: "env \<Rightarrow> zone \<Rightarrow> string list \<Rightarrow> string \<Rightarrow> session_status \<Rightarrow> string list \<Rightarrow> db \<Rightarrow> db \<Rightarrow> bool" where
  "terminate_effect e z roots reason st ids d d' \<longleftrightarrow>
     sessions d' = terminate_rows e z ids roots reason st (sessions d) \<and>
     edges d' = map (\<lambda>g. if touches z (terminated_ids d z ids) g then revoked_edge e g else g) (edges d) \<and>
     (\<forall>z'. epoch_of d' z' = epoch_of d z' + (if z' = z \<and> list_ex (touches z (terminated_ids d z ids)) (edges d) then 1 else 0)) \<and>
     receipts d' = receipts d \<and> topology d' = topology d \<and>
     list_all (\<lambda>i. outbox_lookup d' (AgentsLifecycle, ''terminate:'' @ i) \<noteq> None) (terminated_ids d z ids) \<and>
     (\<forall>tk q. outbox_lookup d tk = Some q \<longrightarrow> outbox_lookup d' tk = Some q) \<and>
     (distinct (outbox_keys d) \<longrightarrow> distinct (outbox_keys d'))"

lemma terminateSubtree_Inr:
  assumes "terminateSubtree e z roots reason st d = Inr (n, d')" "roots \<noteq> []"
  obtains ids where "tree d z live_status roots = Some ids" "n = length (terminated_ids d z ids)"
    "terminate_effect e z roots reason st ids d d'"
proof -
  from assms obtain ids where ids: "tree d z live_status roots = Some ids"
    by (auto simp: terminateSubtree_def)
  let ?rows = "filter (\<lambda>s. s_id s \<in> set ids \<and> s_zone s = z) (sessions d)" and ?dead = "terminated_ids d z ids"
  show thesis
  proof (cases "?rows = []")
    case True
    then have "?dead = []" by (simp add: terminated_ids_def)
    then have nt: "\<not> touches z ?dead g" for g by (simp add: touches_def)
    have "n = 0" "d' = d" using assms ids True by (simp_all add: terminateSubtree_def Let_def del: filter_empty_conv)
    then show thesis
      using \<open>?dead = []\<close> nt by (intro that [OF ids]) (auto simp: terminate_effect_def terminate_rows_none [OF True] list_ex_iff)
  next
    case False
    define d2 where "d2 = d\<lparr>sessions := terminate_rows e z ids roots reason st (sessions d),
       edges := map (\<lambda>g. if touches z ?dead g then revoked_edge e g else g) (edges d)\<rparr>"
    define ed where "ed = (if filter (touches z ?dead) (edges d) \<noteq> [] then bumpDelegationEpoch z d2 else (0, d2))"
    define items where "items = map (revoke_edge_item z reason (fst ed)) (filter (touches z ?dead) (edges d)) @
      concat (map (terminate_items z reason (revocationExemptSessions d2 z ?rows)) ?rows)"
    have res: "n = length ?rows" "d' = enqueueMany e items (snd ed)"
      using assms ids False unfolding terminateSubtree_def Let_def terminated_ids_def ed_def d2_def items_def
      by (auto simp: case_prod_unfold simp del: filter_empty_conv)
    have ob: "outbox (snd ed) = outbox d" by (simp add: ed_def d2_def)
    have ep: "epoch_of (snd ed) z' = epoch_of d z' + (if z' = z \<and> list_ex (touches z ?dead) (edges d) then 1 else 0)" for z'
      by (auto simp: ed_def d2_def filter_empty_conv list_ex_iff)
    have "outbox_lookup d' (AgentsLifecycle, ''terminate:'' @ i) \<noteq> None" if i: "i \<in> set ?dead" for i
    proof -
      obtain s where s: "s \<in> set ?rows" "s_id s = i" using i unfolding terminated_ids_def set_map by blast
      have "hd (terminate_items z reason (revocationExemptSessions d2 z ?rows) s) \<in> set items"
        unfolding items_def set_append set_concat set_map using s(1)
        by (intro UnI2 UN_I [OF imageI [OF s(1)]]) (simp add: terminate_items_def)
      then show ?thesis
        unfolding res(2) s(2) [symmetric] by (intro enqueueMany_present) (simp add: terminate_items_def)
    qed
    then show thesis
      using enqueueMany_keeps [of "snd ed"] enqueueMany_unique [of "snd ed"] ep
      by (intro that [OF ids])
         (auto simp: terminate_effect_def res terminated_ids_def [of d z ids] list_all_iff ed_def d2_def
           outbox_lookup_cong [OF ob] outbox_keys_cong [OF ob])
  qed
qed

subsection \<open>What a start does\<close>

lemma insert_edge_Inr:
  assumes "insert_edge g d = Inr d1"
  shows "d1 = d\<lparr>edges := edges d @ [g]\<rparr>" "\<forall>h\<in>set (edges d). e_id h \<noteq> e_id g" "e_source g \<noteq> e_target g"
    "\<And>p. e_parent g = Some p \<Longrightarrow> \<exists>h\<in>set (edges d). e_id h = p \<and> e_zone h = e_zone g"
  using assms by (auto simp: insert_edge_def edge_fields_ok_def list_all_iff list_ex_iff)

text \<open>An inherited start either adds nothing, or adds one copy of the single live candidate.\<close>

lemma inheritParentEdge_Inr:
  assumes "inheritParentEdge e z b childId d = Inr (edgeId, d')"
  shows "(edgeId = None \<and> d' = d \<and> (truthy (b_parent b) \<and> b_authority b = Inherit \<longrightarrow>
        inherit_candidates d z b (the (b_parent b)) = [] \<and> b_inherit b = None)) \<or>
    (\<exists>p g. truthy (b_parent b) \<and> b_authority b = Inherit \<and>
      filter (live_edge e) (inherit_candidates d z b (the (b_parent b))) = [p] \<and>
      edgeId = Some (uuidv7 e (uuids d)) \<and>
      g = inherited_edge e z b (the (b_parent b)) childId (uuidv7 e (uuids d)) p \<and>
      insert_edge g (d\<lparr>uuids := Suc (uuids d)\<rparr>) = Inr (d\<lparr>uuids := Suc (uuids d), edges := edges d @ [g]\<rparr>) \<and>
      sessions d' = sessions d \<and> topology d' = topology d \<and> receipts d' = receipts d \<and>
      edges d' = edges d @ [g] \<and>
      (\<forall>z'. epoch_of d' z' = epoch_of d z' + (if z' = z then 1 else 0)) \<and>
      outbox_lookup d' (DelegationsInvalidate, ''edge_create:'' @ uuidv7 e (uuids d)) \<noteq> None)"
proof (cases "\<not> truthy (b_parent b) \<or> b_authority b = NoAuthority")
  case True
  then show ?thesis using assms by (auto simp: inheritParentEdge_def)
next
  case False
  let ?rows = "inherit_candidates d z b (the (b_parent b))"
  have au: "b_authority b = Inherit" using False by (cases "b_authority b") auto
  show ?thesis
  proof (cases "filter (live_edge e) ?rows" rule: list.exhaust [case_names Nil Cons])
    case Nil
    then show ?thesis using assms False by (auto simp: inheritParentEdge_def Let_def split: if_splits)
  next
    case (Cons p ps)
    then have ps: "ps = []" using assms False by (cases ps) (auto simp: inheritParentEdge_def Let_def)
    let ?g = "inherited_edge e z b (the (b_parent b)) childId (uuidv7 e (uuids d)) p"
    from assms False Cons ps obtain d1 where
      d1: "insert_edge ?g (d\<lparr>uuids := Suc (uuids d)\<rparr>) = Inr d1" and
      d': "d' = enqueue e DelegationsInvalidate (''edge_create:'' @ uuidv7 e (uuids d))
          (edge_create_event z (uuidv7 e (uuids d)) (the (b_parent b)) childId (fst (bumpDelegationEpoch z d1)))
          (snd (bumpDelegationEpoch z d1))" "edgeId = Some (uuidv7 e (uuids d))"
      by (auto simp: inheritParentEdge_def Let_def case_prod_unfold)
    have "d1 = d\<lparr>uuids := Suc (uuids d), edges := edges d @ [?g]\<rparr>"
      using insert_edge_Inr(1) [OF d1] by simp
    then show ?thesis
      using False au Cons ps d1 d' by (intro disjI2 exI [of _ p] exI [of _ ?g]) (simp add: enqueue_lookup split: option.split)
  qed
qed

lemma inherit_frame:
  assumes "inheritParentEdge e z b childId d = Inr (edgeId, d')"
  shows "sessions d' = sessions d" "receipts d' = receipts d" "topology d' = topology d"
  using inheritParentEdge_Inr [OF assms] by auto

lemma start_finish_Inr:
  assumes "start_finish e z b row edgeId receipt retention d = Inr (r, d')"
  shows "sessions d' = sessions d" "edges d' = edges d" "epoch_of d' = epoch_of d" "topology d' = topology d"
    "r = send 201 (session_response row edgeId)"
    "outbox_lookup d' (AgentsLifecycle, ''spawn:'' @ s_id row) \<noteq> None"
proof -
  define d1 where "d1 = enqueue e AgentsLifecycle (''spawn:'' @ s_id row) (spawn_event z b (s_id row)) d"
  have *: "sessions d' = sessions d1 \<and> edges d' = edges d1 \<and> epochs d' = epochs d1 \<and> outbox d' = outbox d1 \<and>
      topology d' = topology d1 \<and> r = send 201 (session_response row edgeId)"
  proof (cases receipt)
    case None
    then show ?thesis using assms by (auto simp: start_finish_def Let_def d1_def)
  next
    case (Some kq)
    then have cmp: "completeIdempotency e (start_receipt z b (fst kq) (snd kq) (s_id row) (session_response row edgeId) retention) d1 = Inr d'"
      and "r = send 201 (session_response row edgeId)"
      using assms by (auto simp: start_finish_def Let_def d1_def case_prod_unfold)
    then show ?thesis using complete_frame [OF cmp] by simp
  qed
  have "outbox_lookup d1 (AgentsLifecycle, ''spawn:'' @ s_id row) \<noteq> None"
    by (simp add: d1_def enqueue_lookup split: option.split)
  then show "outbox_lookup d' (AgentsLifecycle, ''spawn:'' @ s_id row) \<noteq> None"
    using * outbox_lookup_cong [of d' d1] by simp
  show "epoch_of d' = epoch_of d" using * epoch_of_cong [of d' d1] epoch_of_cong [of d1 d] by (simp add: d1_def)
  show "sessions d' = sessions d" "edges d' = edges d" "topology d' = topology d"
    "r = send 201 (session_response row edgeId)"
    using * by (simp_all add: d1_def)
qed

lemma start_new_Inr:
  assumes "start_new e c req z b subject i receipt retention d = Inr (r, d')"
  obtains depth edgeId d1 d2 where "admit_session e c z b subject d = Inr ()"
    "parent_depth req z b d = Inr depth" "insert_session (new_session e c z b subject i depth) d = Inr d1"
    "inheritParentEdge e z b i (link_child (b_parent b) i d1) = Inr (edgeId, d2)"
    "start_finish e z b (new_session e c z b subject i depth) edgeId receipt retention d2 = Inr (r, d')"
  using assms unfolding start_new_def ebind_Inr by auto

lemma insert_parent_truthy:
  assumes "session_inv d" "insert_session n d = Inr d1"
  shows "truthy (s_parent n) \<or> s_parent n = None"
proof (cases "s_parent n")
  case (Some p)
  then obtain q where "q \<in> set (sessions d)" "s_id q = p"
    using insert_session_Inr(4) [OF assms(2) Some] by (auto simp: session_exists_def list_ex_iff)
  then have "p \<noteq> []" using session_inv_ok [OF assms(1)] by (auto simp: session_ok_def)
  then show ?thesis by (simp add: Some truthy_def)
qed simp

lemma new_session_simps [simp]:
  "s_id (new_session e c z b subject i depth) = i" "s_zone (new_session e c z b subject i depth) = z"
  "s_parent (new_session e c z b subject i depth) = b_parent b" "s_depth (new_session e c z b subject i depth) = depth"
  "s_app (new_session e c z b subject i depth) = b_app b" "s_status (new_session e c z b subject i depth) = SActive"
  "s_child_count (new_session e c z b subject i depth) = 0" "s_max_children (new_session e c z b subject i depth) = MAX_CHILDREN"
  "live (new_session e c z b subject i depth)"
  by (simp_all add: new_session_def live_def live_status_def)

text \<open>The rows after a successful start: the parent's child count grows, the new row is last.\<close>

lemma start_new_sessions:
  assumes inv: "session_inv d" and st: "start_new e c req z b subject i receipt retention d = Inr (r, d')"
  obtains depth where "parent_depth req z b d = Inr depth"
    "sessions d' = map (count_child (b_parent b)) (sessions d) @ [new_session e c z b subject i depth]"
    "parent_room (sessions d) (new_session e c z b subject i depth)" "0 \<le> depth" "depth \<le> MAX_DEPTH"
    "\<forall>q\<in>set (sessions d). s_id q \<noteq> i" "session_fields_ok (new_session e c z b subject i depth)"
    "admit_session e c z b subject d = Inr ()"
proof -
  from start_new_Inr [OF st] obtain depth edgeId d1 d2 where
    A: "admit_session e c z b subject d = Inr ()" "parent_depth req z b d = Inr depth"
      "insert_session (new_session e c z b subject i depth) d = Inr d1"
      "inheritParentEdge e z b i (link_child (b_parent b) i d1) = Inr (edgeId, d2)"
      "start_finish e z b (new_session e c z b subject i depth) edgeId receipt retention d2 = Inr (r, d')"
    by metis
  let ?n = "new_session e c z b subject i depth"
  note I = insert_session_Inr [OF A(3)] and t = insert_parent_truthy [OF inv A(3)]
  note R = parent_depth_Inr [OF A(2) refl _ inv, of e c subject i]
  have room: "parent_room (sessions d) ?n" using R(1) t by simp
  have "b_parent b \<noteq> Some i" using room I(2) by (auto simp: parent_room_def list_ex_iff)
  then have "sessions d' = map (count_child (b_parent b)) (sessions d) @ [?n]"
    using link_child_sessions [of d ?n i] I(2) t
    unfolding start_finish_Inr(1) [OF A(5)] inherit_frame(1) [OF A(4)] I(1) by simp
  then show thesis using that A room R(2,3) t I(2,3) by simp
qed

lemma start_new_inv:
  assumes "session_inv d" "start_new e c req z b subject i receipt retention d = Inr (r, d')" "i \<noteq> []"
  shows "session_inv d'"
proof -
  obtain depth where "sessions d' = map (count_child (b_parent b)) (sessions d) @ [new_session e c z b subject i depth]"
    "parent_room (sessions d) (new_session e c z b subject i depth)" "0 \<le> depth" "depth \<le> MAX_DEPTH"
    "\<forall>q\<in>set (sessions d). s_id q \<noteq> i" "session_fields_ok (new_session e c z b subject i depth)"
    using start_new_sessions [OF assms(1,2)] by metis
  then show ?thesis
    using session_inv_insert [OF assms(1), of "new_session e c z b subject i depth" d'] assms(3)
    by (simp add: MAX_CHILDREN_def)
qed

subsection \<open>Error replies of the session routes\<close>

lemma errs_parent_depth [intro!, simp]: "errs (parent_depth req z b d)"
  unfolding parent_depth_def by (cases "truthy (b_parent b)") auto

lemma errs_admit [intro!, simp]: "errs (admit_session e c z b subject d)"
  unfolding admit_session_def Let_def by auto

lemma errs_insert [intro!, simp]: "errs (insert_session n d)" "errs (insert_edge g d)"
  unfolding insert_session_def insert_edge_def by auto

lemma errs_inherit [intro!, simp]: "errs (inheritParentEdge e z b i d)"
  unfolding inheritParentEdge_def Let_def by (auto split: list.splits prod.splits)

lemma errs_start_finish [intro!, simp]: "errs (start_finish e z b row edgeId receipt retention d)"
  unfolding start_finish_def Let_def by (auto split: option.splits)

lemma errs_start_new [intro!, simp]: "errs (start_new e c req z b subject i receipt retention d)"
  unfolding start_new_def by auto

lemma errs_start_tx [intro!, simp]: "errs (start_tx e c req z b subject key retention d)"
  unfolding start_tx_def Let_def by (auto split: option.splits prod.splits istart.splits)

lemma errs_start_checks [intro!, simp]: "errs (start_checks req z hdr body)"
  unfolding start_checks_def by auto

lemma errs_cascades [intro!, simp]:
  "errs (suspendSubtree e z roots reason d)" "errs (terminateSubtree e z roots reason st d)"
  unfolding suspendSubtree_def terminateSubtree_def Let_def by (auto split: prod.splits)

lemma errs_session_tx [intro!, simp]:
  "errs (suspend_tx e req z i d)" "errs (resume_tx e c req z i d)" "errs (terminate_tx e req z i reason g d)"
  unfolding suspend_tx_def resume_tx_def terminate_tx_def Let_def by auto

subsection \<open>Outcomes of a start\<close>

text \<open>A store that differs only in its receipts and its count of generated identifiers.\<close>

definition receipts_only :: "db \<Rightarrow> db \<Rightarrow> bool" where
  "receipts_only d d' \<longleftrightarrow> (\<exists>u rs. d' = d\<lparr>uuids := u, receipts := rs\<rparr>)"

lemma receipts_only_frame:
  assumes "receipts_only d d'"
  shows "sessions d' = sessions d" "edges d' = edges d" "topology d' = topology d" "outbox_lookup d' = outbox_lookup d"
    "epoch_of d' = epoch_of d" "applications d' = applications d" "authorities d' = authorities d" "resources d' = resources d"
    "outbox_keys d' = outbox_keys d" "services d' = services d" "invocations d' = invocations d"
  using assms by (auto simp: receipts_only_def)

lemma startIdempotency_only:
  assumes "startIdempotency e c i (d\<lparr>uuids := u\<rparr>) = (x, d')"
  shows "receipts_only d d'"
proof -
  have "\<exists>rs. snd (startIdempotency e c i d0) = d0\<lparr>receipts := rs\<rparr>" for d0
    by (simp add: startIdempotency_def Let_def split: option.split) blast
  then obtain rs where "d' = d\<lparr>uuids := u, receipts := rs\<rparr>" using assms by (metis snd_conv)
  then show ?thesis by (auto simp: receipts_only_def)
qed

lemma start_tx_Inr:
  assumes "start_tx e c req z b subject key retention d = Inr (r, d')"
  obtains (replay) k st resp res where "key = Some k"
    "startIdempotency e c (start_idempotency_input req z b subject k) (d\<lparr>uuids := Suc (uuids d)\<rparr>) = (Replayed st resp res, d')"
    "r = \<lparr>code = st, replayed = True, payload = resp\<rparr>" "receipts_only d d'"
    "list_ex (\<lambda>s. s_id s = res \<and> s_zone s = z \<and> s_app s = b_app b \<and> holds_slot e s) (sessions d)"
  | (new) receipt d0 where "receipts_only d d0" "receipts_ok d \<Longrightarrow> receipts_ok d0"
    "start_new e c req z b subject (uuidv7 e (uuids d)) receipt retention d0 = Inr (r, d')"
proof (cases key)
  case None
  have "start_new e c req z b subject (uuidv7 e (uuids d)) None retention (d\<lparr>uuids := Suc (uuids d)\<rparr>) = Inr (r, d')"
    using assms None by (simp add: start_tx_def Let_def)
  moreover have "receipts_only d (d\<lparr>uuids := Suc (uuids d)\<rparr>)"
    unfolding receipts_only_def by (intro exI [of _ "Suc (uuids d)"] exI [of _ "receipts d"]) simp
  ultimately show thesis by (intro new) (auto simp: receipts_ok_def)
next
  case (Some k)
  obtain x d0 where st: "startIdempotency e c (start_idempotency_input req z b subject k) (d\<lparr>uuids := Suc (uuids d)\<rparr>) = (x, d0)"
    by (cases "startIdempotency e c (start_idempotency_input req z b subject k) (d\<lparr>uuids := Suc (uuids d)\<rparr>)")
  note only = startIdempotency_only [OF st]
  have rok: "receipts_ok d \<Longrightarrow> receipts_ok d0"
    using startIdempotency_receipts_ok [OF _ st] by (simp add: receipts_ok_def)
  show thesis
  proof (cases x)
    case (New kd qd)
    then show thesis using assms Some st only rok by (intro new) (auto simp: start_tx_def Let_def)
  next
    case (Replayed s resp res)
    then have "list_ex (\<lambda>s. s_id s = res \<and> s_zone s = z \<and> s_app s = b_app b \<and> holds_slot e s) (sessions d0)"
      "d' = d0" "r = \<lparr>code = s, replayed = True, payload = resp\<rparr>"
      using assms Some st by (auto simp: start_tx_def Let_def)
    then show thesis using st Replayed Some only receipts_only_frame(1) [OF only] by (intro replay) auto
  qed (use assms Some st in \<open>simp_all add: start_tx_def Let_def\<close>)
qed

lemma start_session_success:
  assumes "start_session e c req z hdr generated body d = (r, d')" "is_success r"
  obtains b subject key retention where "start_checks req z hdr body = Inr (b, subject, key)"
    "start_tx e c req z b subject key retention d = Inr (r, d')"
proof (cases "start_checks req z hdr body")
  case (Inl r')
  then have "400 \<le> code r'" using errs_start_checks [of req z hdr body] by simp
  then show thesis using assms Inl by (auto simp: start_session_def is_success_def)
next
  case (Inr x)
  obtain b subject key where x: "x = (b, subject, key)" by (cases x)
  show thesis
    using assms transact_success(1) [OF _ errs_start_tx] Inr x by (intro that) (auto simp: start_session_def)
qed

text \<open>Every outcome of a start: an error that changes nothing, a replay, or a new session.\<close>

lemma start_session_unchanged:
  assumes "start_session e c req z hdr generated body d = (r, d')" "receipts_ok d" "\<not> is_success r"
  shows "d' = d"
proof (rule ccontr)
  assume ne: "d' \<noteq> d"
  then obtain b subject key where "start_checks req z hdr body = Inr (b, subject, key)"
    and tx: "start_tx e c req z b subject key (if generated then generatedIdempotencyRetentionSeconds c else idempotencyRetentionSeconds c) d = Inr (r, d')"
    using assms(1) by (auto simp: start_session_def transact_cases split: sum.splits)
  from tx show False
  proof (cases rule: start_tx_Inr)
    case (replay k st resp res)
    then show False
      using replayed_status [OF _ replay(2)] assms(2,3) by (auto simp: is_success_def receipts_ok_def)
  next
    case (new receipt d0)
    then obtain depth edgeId d1 d2 where "start_finish e z b (new_session e c z b subject (uuidv7 e (uuids d)) depth) edgeId receipt
       (if generated then generatedIdempotencyRetentionSeconds c else idempotencyRetentionSeconds c) d2 = Inr (r, d')"
      by (auto elim: start_new_Inr)
    then show False using assms(3) start_finish_Inr(5) by (fastforce simp: is_success_def)
  qed
qed

subsection \<open>Properties of starting\<close>

definition held_slots :: "env \<Rightarrow> zone \<Rightarrow> db \<Rightarrow> session list" where
  "held_slots e z d = filter (\<lambda>s. s_zone s = z \<and> holds_slot e s) (sessions d)"

lemma holds_slot_count_child [simp]: "holds_slot e (count_child p s) = holds_slot e s" "s_app (count_child p s) = s_app s"
  by (auto simp: holds_slot_def count_child_def split: lifecycle.splits)

lemma admit_session_counts:
  assumes "admit_session e c z b subject d = Inr ()"
  shows "int (length (held_slots e z d)) < maxSessionsPerZone c"
    "int (length (filter (\<lambda>s. s_app s = b_app b) (held_slots e z d))) < maxSessionsPerApp c"
  using assms by (auto simp: admit_session_def held_slots_def Let_def)

lemma start_checks_Inr:
  assumes "start_checks req z hdr body = Inr (b, subject, key)"
  shows "parse_start_body body = Some b" "start_subject req b = Some subject" "subject \<noteq> []"
    "ownsApplication req (b_app b) \<or> requireScope req (''coordinator.spawn_for:'' @ b_app b)" "CoordinatorIdPattern z"
  using assms by (auto simp: start_checks_def truthy_iff parseParams_def)

lemma start_new_success:
  assumes "start_session e c req z hdr generated body d = (r, d')"
    and "is_success r" "\<not> replayed r" "parse_start_body body = Some b"
  obtains subject receipt retention d0 where "receipts_only d d0"
    "start_new e c req z b subject (uuidv7 e (uuids d)) receipt retention d0 = Inr (r, d')"
proof -
  from start_session_success [OF assms(1,2)] obtain b' subject key retention where
    chk: "start_checks req z hdr body = Inr (b', subject, key)" and
    tx: "start_tx e c req z b' subject key retention d = Inr (r, d')" by metis
  have b: "b' = b" using start_checks_Inr(1) [OF chk] assms(4) by simp
  from tx show thesis
  proof (cases rule: start_tx_Inr)
    case (replay k st resp res)
    then show thesis using assms(3) by simp
  next
    case (new receipt d0)
    then show thesis using that b by blast
  qed
qed

text \<open>
  C3: a start that succeeds with a new session stays within every limit. It appends exactly one session,
  with the identifier, zone, application and parent of the request; afterwards the sessions of the zone
  that hold a slot are within the zone limit and those of the application within the application limit;
  the new session is no deeper than the depth limit; and when it has a parent, that is a live session of
  the zone one level above, whose child count, raised by one, is within its fan-out limit.
\<close>

theorem start_capacity:
  assumes "start_session e c req z hdr generated body d = (r, d')"
    and "is_success r" "\<not> replayed r" "session_inv d" "parse_start_body body = Some b"
  shows "\<exists>n. sessions d' = map (count_child (b_parent b)) (sessions d) @ [n] \<and>
    s_id n = uuidv7 e (uuids d) \<and> s_zone n = z \<and> s_app n = b_app b \<and> s_parent n = b_parent b \<and>
    int (length (held_slots e z d')) \<le> maxSessionsPerZone c \<and>
    int (length (filter (\<lambda>s. s_app s = b_app b) (held_slots e z d'))) \<le> maxSessionsPerApp c \<and>
    s_depth n \<le> MAX_DEPTH \<and>
    (case b_parent b of
       None \<Rightarrow> s_depth n = 0
     | Some p \<Rightarrow> \<exists>q. q \<in> set (sessions d) \<and> s_id q = p \<and> s_zone q = z \<and> live q \<and> s_depth n = s_depth q + 1 \<and>
         count_child (b_parent b) q \<in> set (sessions d') \<and> s_child_count (count_child (b_parent b) q) \<le> s_max_children q)"
proof -
  obtain subject receipt retention d0 where new: "receipts_only d d0"
    "start_new e c req z b subject (uuidv7 e (uuids d)) receipt retention d0 = Inr (r, d')"
    using start_new_success [OF assms(1-3,5)] by metis
  note fr = receipts_only_frame [OF new(1)]
  have inv: "session_inv d0" using assms(4) fr(1) by (simp add: session_inv_def)
  obtain depth where
    ss: "sessions d' = map (count_child (b_parent b)) (sessions d0) @ [new_session e c z b subject (uuidv7 e (uuids d)) depth]"
    and adm: "admit_session e c z b subject d0 = Inr ()" and dep: "depth \<le> MAX_DEPTH"
    and room: "parent_room (sessions d0) (new_session e c z b subject (uuidv7 e (uuids d)) depth)"
    using start_new_sessions [OF inv new(2)] by metis
  have "length (held_slots e z d') \<le> Suc (length (held_slots e z d0))"
    "length (filter (\<lambda>s. s_app s = b_app b) (held_slots e z d')) \<le> Suc (length (filter (\<lambda>s. s_app s = b_app b) (held_slots e z d0)))"
    unfolding held_slots_def ss by (simp_all add: comp_def)
  then have cap: "int (length (held_slots e z d')) \<le> maxSessionsPerZone c"
    "int (length (filter (\<lambda>s. s_app s = b_app b) (held_slots e z d'))) \<le> maxSessionsPerApp c"
    using admit_session_counts [OF adm] by linarith+
  have "case b_parent b of None \<Rightarrow> depth = 0
     | Some p \<Rightarrow> \<exists>q. q \<in> set (sessions d) \<and> s_id q = p \<and> s_zone q = z \<and> live q \<and> depth = s_depth q + 1 \<and>
         count_child (b_parent b) q \<in> set (sessions d') \<and> s_child_count (count_child (b_parent b) q) \<le> s_max_children q"
    using room by (auto simp: parent_room_def list_ex_iff fr(1) ss count_child_def split: option.splits)
  then show ?thesis
    using cap ss [unfolded fr(1)] dep
    by (intro exI [of _ "new_session e c z b subject (uuidv7 e (uuids d)) depth"] conjI) (simp_all only: new_session_simps)
qed

text \<open>
  C4: inheriting is escalation-proof. Let \<open>held\<close> be the delegations into the parent session for the started
  application, narrowed to the named one when the request names one. A start that inherits and
  succeeds does one of two things. When \<open>held\<close> is empty and the request names none, it adds no delegation.
  Otherwise exactly one delegation of \<open>held\<close> is live, and the start adds exactly one edge, active, from the
  parent to the new session: a copy of that one with the same scopes, resource, constraints and expiry,
  and with it as its parent edge. In every other case (none live, or several) the start fails.
\<close>

theorem start_inherits_exactly:
  assumes "start_session e c req z hdr generated body d = (r, d')"
    and "is_success r" "\<not> replayed r" "session_inv d" "parse_start_body body = Some b"
    and "b_authority b = Inherit" "b_parent b = Some p"
    and "held = filter (\<lambda>g. e_zone g = z \<and> e_target g = p \<and> e_receiver g = b_app b \<and>
           (b_inherit b = None \<or> b_inherit b = Some (e_id g))) (edges d)"
  shows "(held = [] \<and> b_inherit b = None \<and> edges d' = edges d) \<or>
    (\<exists>q g. filter (live_edge e) held = [q] \<and> edges d' = edges d @ [g] \<and>
       e_zone g = z \<and> e_source g = p \<and> e_target g = s_id (last (sessions d')) \<and>
       e_target g = uuidv7 e (uuids d) \<and> e_issuer g = e_receiver q \<and> e_receiver g = b_app b \<and>
       e_parent g = Some (e_id q) \<and> e_status g = EActive \<and> e_scopes g = e_scopes q \<and>
       e_resource g = e_resource q \<and> e_constraints g = e_constraints q \<and> e_expires g = e_expires q)"
proof -
  obtain subject receipt retention d0 where new: "receipts_only d d0"
    "start_new e c req z b subject (uuidv7 e (uuids d)) receipt retention d0 = Inr (r, d')"
    using start_new_success [OF assms(1-3,5)] by metis
  note fr = receipts_only_frame [OF new(1)]
  have inv: "session_inv d0" using assms(4) fr(1) by (simp add: session_inv_def)
  have last: "s_id (last (sessions d')) = uuidv7 e (uuids d)"
    using start_new_sessions [OF inv new(2)] by (metis last_snoc new_session_simps(1))
  from start_new_Inr [OF new(2)] obtain depth edgeId d1 d2 where
    ins: "insert_session (new_session e c z b subject (uuidv7 e (uuids d)) depth) d0 = Inr d1" and
    inh: "inheritParentEdge e z b (uuidv7 e (uuids d)) (link_child (b_parent b) (uuidv7 e (uuids d)) d1) = Inr (edgeId, d2)" and
    fin: "start_finish e z b (new_session e c z b subject (uuidv7 e (uuids d)) depth) edgeId receipt retention d2 = Inr (r, d')"
    by metis
  let ?d = "link_child (b_parent b) (uuidv7 e (uuids d)) d1"
  have ed: "edges ?d = edges d" using insert_session_Inr(1) [OF ins] fr(2) by (simp add: link_child_def)
  have tr: "truthy (b_parent b)" using insert_parent_truthy [OF inv ins] assms(7) by simp
  have held: "inherit_candidates ?d z b p = held"
    unfolding assms(8) inherit_candidates_def ed by (rule filter_cong) (auto split: option.split)
  show ?thesis
    using inheritParentEdge_Inr [OF inh] tr assms(6,7) ed held last start_finish_Inr(2) [OF fin]
    by (auto simp: inherited_edge_def)
qed
subsection \<open>Properties of terminating\<close>

text \<open>An authority record is exempt from revocation when another live session uses it, or when it is
  an application's own.\<close>

definition exempt :: "db \<Rightarrow> zone \<Rightarrow> string list \<Rightarrow> string \<Rightarrow> bool" where
  "exempt d z ids subject \<longleftrightarrow>
     list_ex (\<lambda>t. s_zone t = z \<and> s_subject t = subject \<and> s_id t \<notin> set ids \<and> live t) (sessions d) \<or>
     list_ex (\<lambda>r. r_zone r = z \<and> r_id r = subject \<and> r_type r = ''application'') (authorities d)"

lemma terminate_session_success:
  assumes "terminate_session e req z i query body d = (r, d')" "is_success r"
  obtains reason g own n where "find_session d z i = Some own" "may_manage req (s_app own)"
    "parse_terminate_body body = Some g"
    "s_lifecycle own = Service \<Longrightarrow> requireScope req ''coordinator.admin'' \<or> g = Some (s_lease own)"
    "terminateSubtree e z [i] reason STerminated d = Inr (n, d')" "n \<noteq> 0"
proof -
  define chk where "chk = ebind (parseParams [z, i]) (\<lambda>_.
          expect (parse_reason query) (err 400 ''invalid_query'') (\<lambda>reason.
          expect (parse_terminate_body body) (err 400 ''invalid_body'') (\<lambda>g. Inr (reason, g))))"
  have "errs chk" unfolding chk_def by auto
  moreover have eq: "terminate_session e req z i query body d =
     (case chk of Inl r \<Rightarrow> (r, d) | Inr (reason, g) \<Rightarrow> transact (terminate_tx e req z i reason g) d)"
    by (simp add: terminate_session_def chk_def)
  ultimately obtain reason g where c: "chk = Inr (reason, g)" and tx: "transact (terminate_tx e req z i reason g) d = (r, d')"
    using assms by (cases chk) (auto simp: is_success_def)
  have g: "parse_terminate_body body = Some g" using c by (auto simp: chk_def)
  have "terminate_tx e req z i reason g d = Inr (r, d')"
    using transact_success(1) [OF tx] assms(2) by simp
  then obtain own n where own: "find_session d z i = Some own" "may_manage req (s_app own)"
    "\<not> (s_lifecycle own = Service \<and> \<not> requireScope req ''coordinator.admin'' \<and> g \<noteq> Some (s_lease own))"
    "terminateSubtree e z [i] reason STerminated d = Inr (n, d')" "n \<noteq> 0"
    unfolding terminate_tx_def by auto
  then show thesis using g by (intro that [OF own(1,2) g _ own(4,5)]) auto
qed

lemma revoked_map_active:
  "g \<in> set (map (\<lambda>g. if P g then revoked_edge e g else g) gs) \<Longrightarrow> e_status g = EActive \<Longrightarrow> g \<in> set gs \<and> \<not> P g"
  by (induction gs) (auto simp: revoked_edge_def split: if_splits)

lemma terminate_effectD:
  assumes "terminate_effect e z roots reason st ids d d'"
  shows "sessions d' = terminate_rows e z ids roots reason st (sessions d)"
    "edges d' = map (\<lambda>g. if touches z (terminated_ids d z ids) g then revoked_edge e g else g) (edges d)"
    "\<And>x. x \<in> set (terminated_ids d z ids) \<Longrightarrow> outbox_lookup d' (AgentsLifecycle, ''terminate:'' @ x) \<noteq> None"
    "receipts d' = receipts d" "topology d' = topology d" "distinct (outbox_keys d) \<Longrightarrow> distinct (outbox_keys d')"
    "\<And>tk q. outbox_lookup d tk = Some q \<Longrightarrow> outbox_lookup d' tk = Some q"
    "\<And>z'. epoch_of d' z' = epoch_of d z' + (if z' = z \<and> list_ex (touches z (terminated_ids d z ids)) (edges d) then 1 else 0)"
  using assms by (auto simp: terminate_effect_def list_all_iff)

lemma terminate_row_status:
  assumes inv: "session_inv d" and tree: "tree d z live_status roots = Some ids"
    and s: "s \<in> set (terminate_rows e z ids roots reason STerminated (sessions d))"
  shows "s_id s \<in> set ids \<Longrightarrow> s_status s = STerminated"
    "s_id s \<notin> set ids \<Longrightarrow> \<exists>t\<in>set (sessions d). s_id t = s_id s \<and> s_status s = s_status t"
proof -
  let ?lost = "lost_children (filter (\<lambda>s. s_id s \<in> set ids \<and> s_zone s = z) (sessions d))"
  from s [unfolded terminate_rows_def Let_def set_map] obtain t where s_eq: "s = (if s_id t \<in> set ids \<and> s_zone t = z
      then terminated_session e roots reason STerminated t
      else if s_zone t = z \<and> 0 < ?lost t
      then t\<lparr>s_child_count := max (s_child_count t - ?lost t) 0, s_updated := now e\<rparr> else t)"
    and t: "t \<in> set (sessions d)"
    by (rule imageE)
  have id: "s_id s = s_id t" by (simp add: s_eq terminated_session_def)
  show "s_status s = STerminated" if "s_id s \<in> set ids"
    using that tree_member_live(2) [OF inv tree t] id by (simp add: s_eq terminated_session_def)
  show "\<exists>t\<in>set (sessions d). s_id t = s_id s \<and> s_status s = s_status t" if "s_id s \<notin> set ids"
    using that t id by (intro bexI [of _ t]) (simp_all add: s_eq)
qed

lemma terminated_ids_tree:
  assumes "session_inv d" "tree d z live_status roots = Some ids"
  shows "set (terminated_ids d z ids) = set ids"
proof
  show "set ids \<subseteq> set (terminated_ids d z ids)"
  proof
    fix x assume x: "x \<in> set ids"
    with tree_members [OF assms(2)] obtain s where "s \<in> set (sessions d)" "s_id s = x" "s_zone s = z" by metis
    then show "x \<in> set (terminated_ids d z ids)" using x by (auto simp: terminated_ids_def)
  qed
qed (auto simp: terminated_ids_def)

text \<open>
  C1: a successful terminate settles the whole live subtree. Afterwards every session below the
  given one that was live is terminated, with a lifecycle event queued for it; no active delegation
  edge of the zone starts or ends at one of them; and every other session keeps its status.
\<close>

theorem terminate_settles_subtree:
  assumes "terminate_session e req z i query body d = (r, d')" "is_success r" "session_inv d"
  shows "(\<forall>s\<in>set (sessions d'). in_subtree d z live_status [i] (s_id s) \<longrightarrow> s_status s = STerminated) \<and>
    (\<forall>x. in_subtree d z live_status [i] x \<longrightarrow> outbox_lookup d' (AgentsLifecycle, ''terminate:'' @ x) \<noteq> None) \<and>
    (\<forall>g\<in>set (edges d'). e_zone g = z \<and> e_status g = EActive \<longrightarrow>
       \<not> in_subtree d z live_status [i] (e_source g) \<and> \<not> in_subtree d z live_status [i] (e_target g)) \<and>
    (\<forall>s\<in>set (sessions d'). \<not> in_subtree d z live_status [i] (s_id s) \<longrightarrow>
       (\<exists>t\<in>set (sessions d). s_id t = s_id s \<and> s_status s = s_status t))"
proof -
  from assms(1,2) obtain reason n where t: "terminateSubtree e z [i] reason STerminated d = Inr (n, d')"
    by (rule terminate_session_success) (rule that, assumption)
  from t obtain ids where tree: "tree d z live_status [i] = Some ids"
    and eff: "terminate_effect e z [i] reason STerminated ids d d'" by (rule terminateSubtree_Inr) (simp, rule that)
  note ids = terminated_ids_tree [OF assms(3) tree] and sub = tree_iff [OF tree, symmetric]
  note E = terminate_effectD [OF eff]
  note R = terminate_row_status [OF assms(3) tree, of _ e reason, folded E(1)]
  show ?thesis
  proof (intro conjI ballI allI impI)
    fix s assume "s \<in> set (sessions d')"
    then show "s_status s = STerminated" if "in_subtree d z live_status [i] (s_id s)"
      using R(1) that by (simp add: sub)
  next
    fix x assume "in_subtree d z live_status [i] x"
    then show "outbox_lookup d' (AgentsLifecycle, ''terminate:'' @ x) \<noteq> None"
      by (intro E(3)) (simp only: sub ids)
  next
    fix g assume g: "g \<in> set (edges d')" "e_zone g = z \<and> e_status g = EActive"
    have "\<not> touches z (terminated_ids d z ids) g"
      using revoked_map_active [OF g(1) [unfolded E(2)]] g(2) by blast
    then have "e_source g \<notin> set ids \<and> e_target g \<notin> set ids"
      using g(2) by (simp add: touches_def ids)
    then show "\<not> in_subtree d z live_status [i] (e_source g)" "\<not> in_subtree d z live_status [i] (e_target g)"
      by (simp_all add: sub)
  next
    fix s assume "s \<in> set (sessions d')" "\<not> in_subtree d z live_status [i] (s_id s)"
    then show "\<exists>t\<in>set (sessions d). s_id t = s_id s \<and> s_status s = s_status t"
      using R(2) by (simp add: sub)
  qed
qed

lemma terminate_rows_outside:
  assumes "t \<in> set (terminate_rows e z ids roots reason st ss)" "s_id t \<notin> set (map s_id (filter (\<lambda>s. s_id s \<in> set ids \<and> s_zone s = z) ss))"
  obtains q where "q \<in> set ss" "s_id q = s_id t" "s_zone q = s_zone t" "s_subject q = s_subject t" "s_status q = s_status t"
proof -
  let ?lost = "lost_children (filter (\<lambda>s. s_id s \<in> set ids \<and> s_zone s = z) ss)"
  from assms(1) [unfolded terminate_rows_def Let_def set_map] obtain q where t_eq: "t = (if s_id q \<in> set ids \<and> s_zone q = z
      then terminated_session e roots reason st q
      else if s_zone q = z \<and> 0 < ?lost q
      then q\<lparr>s_child_count := max (s_child_count q - ?lost q) 0, s_updated := now e\<rparr> else q)"
    and q: "q \<in> set ss"
    by (rule imageE)
  have F: "\<not> (s_id q \<in> set ids \<and> s_zone q = z)"
    using assms(2) q by (auto simp: t_eq terminated_session_def)
  show thesis using q by (intro that [of q]) (simp_all add: t_eq [unfolded if_not_P [OF F]])
qed

lemma terminate_rows_keep:
  assumes "q \<in> set ss" "\<not> (s_id q \<in> set ids \<and> s_zone q = z)"
  obtains t where "t \<in> set (terminate_rows e z ids roots reason st ss)" "s_id q = s_id t" "s_zone q = s_zone t"
    "s_subject q = s_subject t" "s_status q = s_status t"
proof -
  let ?lost = "lost_children (filter (\<lambda>s. s_id s \<in> set ids \<and> s_zone s = z) ss)"
  let ?t = "if s_zone q = z \<and> 0 < ?lost q then q\<lparr>s_child_count := max (s_child_count q - ?lost q) 0, s_updated := now e\<rparr> else q"
  have "?t \<in> set (terminate_rows e z ids roots reason st ss)"
    unfolding terminate_rows_def Let_def set_map by (rule image_eqI [OF _ assms(1)]) (subst if_not_P [OF assms(2)], rule refl)
  then show thesis by (rule that) simp_all
qed

lemma in_map_filter: "x \<in> set (map f (filter P xs)) \<longleftrightarrow> (\<exists>t\<in>set xs. P t \<and> f t = x)"
  by auto

lemma exempt_after:
  assumes inv: "session_inv d" and tree: "tree d z live_status roots = Some ids"
    and rows: "rows = filter (\<lambda>s. s_id s \<in> set ids \<and> s_zone s = z) (sessions d)" "s \<in> set rows"
    and d2: "sessions d2 = terminate_rows e z ids roots' reason st (sessions d)" "authorities d2 = authorities d"
  shows "s_subject s \<in> set (revocationExemptSessions d2 z rows) \<longleftrightarrow> exempt d z ids (s_subject s)"
proof -
  have ids: "set (map s_id rows) = set ids"
    using terminated_ids_tree [OF inv tree] by (simp add: terminated_ids_def rows(1))
  define S where "S = set (map s_subject rows)"
  have sub: "s_subject s \<in> S" using rows(2) by (simp add: S_def)
  let ?A = "\<exists>t\<in>set (sessions d2). s_zone t = z \<and> s_subject t = s_subject s \<and> s_id t \<notin> set ids \<and> live t"
  let ?B = "\<exists>t\<in>set (sessions d). s_zone t = z \<and> s_subject t = s_subject s \<and> s_id t \<notin> set ids \<and> live t"
  have "?A \<longleftrightarrow> ?B"
  proof
    assume ?A
    then obtain t where t: "t \<in> set (sessions d2)" "s_zone t = z" "s_subject t = s_subject s" "s_id t \<notin> set ids" "live t" by blast
    from t(1) [unfolded d2(1)] obtain q where "q \<in> set (sessions d)" "s_id q = s_id t" "s_zone q = s_zone t" "s_subject q = s_subject t" "s_status q = s_status t"
      by (rule terminate_rows_outside) (use t(4) ids rows(1) in simp)
    then show ?B using t by (intro bexI [of _ q]) (simp_all add: live_def)
  next
    assume ?B
    then obtain q where q: "q \<in> set (sessions d)" "s_zone q = z" "s_subject q = s_subject s" "s_id q \<notin> set ids" "live q" by blast
    from q(1) obtain t where "t \<in> set (terminate_rows e z ids roots' reason st (sessions d))" "s_id q = s_id t" "s_zone q = s_zone t"
      "s_subject q = s_subject t" "s_status q = s_status t"
      by (rule terminate_rows_keep) (use q(4) in blast)
    then show ?A using q d2(1) by (intro bexI [of _ t]) (simp_all add: live_def)
  qed
  moreover have "s_subject s \<in> set (revocationExemptSessions d2 z rows) \<longleftrightarrow>
     ?A \<or> (\<exists>r\<in>set (authorities d). r_zone r = z \<and> r_id r = s_subject s \<and> r_type r = ''application'')"
    unfolding revocationExemptSessions_def Let_def ids S_def [symmetric] set_append Un_iff in_map_filter d2(2)
    using sub by (auto simp: live_def)
  ultimately show ?thesis by (simp add: exempt_def list_ex_iff)
qed

lemma terminate_revocations:
  assumes inv: "session_inv d" and t: "terminateSubtree e z roots reason st d = Inr (n, d')" "roots \<noteq> []"
    and tree: "tree d z live_status roots = Some ids"
    and s: "s \<in> set (sessions d)" "s_id s \<in> set ids"
    and fresh: "outbox_lookup d (SessionsRevoke, ''agent_terminate:'' @ s_id s) = None"
  shows "outbox_lookup d' (SessionsRevoke, ''agent_terminate:'' @ s_id s) =
    (if exempt d z ids (s_subject s) then None else Some (revoke_event z s reason))"
proof -
  let ?rows = "filter (\<lambda>s. s_id s \<in> set ids \<and> s_zone s = z) (sessions d)" and ?dead = "terminated_ids d z ids"
  have row: "s \<in> set ?rows" using s tree_member_live(2) [OF inv tree s] by simp
  then have ne: "?rows \<noteq> []" by (metis empty_iff empty_set)
  define d2 where "d2 = d\<lparr>sessions := terminate_rows e z ids roots reason st (sessions d),
       edges := map (\<lambda>g. if touches z ?dead g then revoked_edge e g else g) (edges d)\<rparr>"
  define ed where "ed = (if filter (touches z ?dead) (edges d) \<noteq> [] then bumpDelegationEpoch z d2 else (0, d2))"
  define ex where "ex = revocationExemptSessions d2 z ?rows"
  define items where "items = map (revoke_edge_item z reason (fst ed)) (filter (touches z ?dead) (edges d)) @
      concat (map (terminate_items z reason ex) ?rows)"
  have d': "d' = enqueueMany e items (snd ed)"
    using t tree ne unfolding terminateSubtree_def Let_def terminated_ids_def ed_def d2_def items_def ex_def
    by (auto simp: case_prod_unfold simp del: filter_empty_conv)
  have ob: "outbox_lookup (snd ed) = outbox_lookup d" by (rule outbox_lookup_cong) (simp add: ed_def d2_def)
  have "s_subject s \<in> set ex \<longleftrightarrow> exempt d z ids (s_subject s)"
    unfolding ex_def by (rule exempt_after [OF inv tree refl row]) (simp_all add: d2_def)
  moreover have item: "(SessionsRevoke, ''agent_terminate:'' @ s_id s, p) \<in> set items \<longleftrightarrow> s_subject s \<notin> set ex \<and> p = revoke_event z s reason" for p
  proof
    assume "(SessionsRevoke, ''agent_terminate:'' @ s_id s, p) \<in> set items"
    then obtain q where q: "q \<in> set ?rows" "(SessionsRevoke, ''agent_terminate:'' @ s_id s, p) \<in> set (terminate_items z reason ex q)"
      by (auto simp: items_def revoke_edge_item_def DelegationsInvalidate_def SessionsRevoke_def)
    then have "s_id q = s_id s" "s_subject q \<notin> set ex \<and> p = revoke_event z q reason"
      by (auto simp: terminate_items_def AgentsLifecycle_def SessionsRevoke_def split: if_splits)
    moreover have "q = s" using session_id_unique [of "sessions d" q s] inv s(1) q(1) calculation(1) by (simp add: session_inv_def)
    ultimately show "s_subject s \<notin> set ex \<and> p = revoke_event z s reason" by simp
  next
    assume "s_subject s \<notin> set ex \<and> p = revoke_event z s reason"
    then have "(SessionsRevoke, ''agent_terminate:'' @ s_id s, p) \<in> set (terminate_items z reason ex s)"
      by (simp add: terminate_items_def)
    then show "(SessionsRevoke, ''agent_terminate:'' @ s_id s, p) \<in> set items"
      unfolding items_def set_append set_concat set_map using row by blast
  qed
  moreover note enqueueMany_payload [of e items "snd ed" SessionsRevoke "''agent_terminate:'' @ s_id s"]
    enqueueMany_present_iff [of e items "snd ed" SessionsRevoke "''agent_terminate:'' @ s_id s"]
  ultimately show ?thesis unfolding d' ob using fresh by auto
qed


text \<open>
  C17: fencing. A caller without the administrator scope that does not present the current lease
  generation of a service session cannot terminate it: the request is refused and nothing changes.
\<close>

theorem terminate_fenced:
  assumes "find_session d z i = Some own" "s_lifecycle own = Service"
    and "\<not> requireScope req ''coordinator.admin''" "parse_terminate_body body \<noteq> Some (Some (s_lease own))"
    and "terminate_session e req z i query body d = (r, d')"
  shows "\<not> is_success r \<and> d' = d"
proof -
  have fail: "\<not> is_success r"
  proof
    assume "is_success r"
    from terminate_session_success [OF assms(5) this] show False using assms(1-4) by auto
  qed
  moreover have "d' = d"
  proof (rule ccontr)
    assume ne: "d' \<noteq> d"
    then obtain reason g where "terminate_tx e req z i reason g d = Inr (r, d')"
      using assms(5) by (auto simp: terminate_session_def transact_cases split: sum.splits prod.splits)
    then show False using fail by (auto simp: terminate_tx_def is_success_def)
  qed
  ultimately show ?thesis by simp
qed

subsection \<open>Suspending and resuming\<close>

lemma suspended_in_subtree:
  assumes "in_subtree d z (\<lambda>st. st = SActive) [i] x"
    and "sessions d' = map (\<lambda>s. if in_subtree d z (\<lambda>st. st = SActive) [i] (s_id s) then s\<lparr>s_status := SSuspended, s_updated := u\<rparr> else s) (sessions d)"
  shows "in_subtree d' z (\<lambda>st. st = SSuspended) [i] x"
  using assms(1)
proof induction
  case (root s)
  let ?s = "s\<lparr>s_status := SSuspended, s_updated := u\<rparr>"
  have "in_subtree d z (\<lambda>st. st = SActive) [i] (s_id s)" by (rule in_subtree.root) (use root in simp_all)
  then have "?s \<in> set (sessions d')" unfolding assms(2) set_map using root by (intro image_eqI [of _ _ s]) auto
  then show ?case using in_subtree.root [of ?s d' "[i]" z "\<lambda>st. st = SSuspended"] root by simp
next
  case (child t s)
  let ?s = "s\<lparr>s_status := SSuspended, s_updated := u\<rparr>"
  have "in_subtree d z (\<lambda>st. st = SActive) [i] (s_id s)" by (rule in_subtree.child [OF child(1)]) (use child in simp_all)
  then have "?s \<in> set (sessions d')" unfolding assms(2) set_map using child by (intro image_eqI [of _ _ s]) auto
  then show ?case using in_subtree.child [of d' z "\<lambda>st. st = SSuspended" "[i]" t ?s] child by simp
qed

lemma suspend_sessions:
  assumes "suspend_session e req z i d = (r, d')" "is_success r" "session_inv d"
  shows "sessions d' = map (\<lambda>s. if in_subtree d z (\<lambda>st. st = SActive) [i] (s_id s)
      then s\<lparr>s_status := SSuspended, s_updated := now e\<rparr> else s) (sessions d)" "edges d' = edges d" "session_inv d'"
proof -
  have "suspend_tx e req z i d = Inr (r, d')"
    by (rule parsed_success(1) [OF assms(1) [unfolded suspend_session_def] _ assms(2)]) simp
  then obtain n where "suspendSubtree e z [i] ''requested'' d = Inr (n, d')" by (auto simp: suspend_tx_def)
  then obtain ids where ids: "tree d z (\<lambda>st. st = SActive) [i] = Some ids"
    and d': "sessions d' = map (\<lambda>s. if s_id s \<in> set ids \<and> s_zone s = z then s\<lparr>s_status := SSuspended, s_updated := now e\<rparr> else s) (sessions d)"
    and "edges d' = edges d" by (rule suspendSubtree_Inr) (simp, rule that)
  have "s_id s \<in> set ids \<and> s_zone s = z \<longleftrightarrow> in_subtree d z (\<lambda>st. st = SActive) [i] (s_id s)" if "s \<in> set (sessions d)" for s
    using tree_member_live(2) [OF assms(3) ids that] tree_iff [OF ids] by blast
  then show "sessions d' = map (\<lambda>s. if in_subtree d z (\<lambda>st. st = SActive) [i] (s_id s)
      then s\<lparr>s_status := SSuspended, s_updated := now e\<rparr> else s) (sessions d)"
    unfolding d' by (intro map_cong refl) presburger
  show "edges d' = edges d" "session_inv d'" by fact (rule session_inv_suspend [OF assms(3) ids d'])
qed

lemma resume_sessions:
  assumes "resume_session e c req z i d = (r, d')" "is_success r" "session_inv d"
  shows "sessions d' = map (\<lambda>s. if in_subtree d z (\<lambda>st. st = SSuspended) [i] (s_id s) then resumed_session e c s else s) (sessions d)"
    "edges d' = edges d"
proof -
  have "resume_tx e c req z i d = Inr (r, d')"
    by (rule parsed_success(1) [OF assms(1) [unfolded resume_session_def] _ assms(2)]) simp
  then obtain ids where ids: "tree d z (\<lambda>st. st = SSuspended) [i] = Some ids"
    and d': "sessions d' = map (\<lambda>s. if s_id s \<in> set ids \<and> s_zone s = z then resumed_session e c s else s) (sessions d)"
    and ed: "edges d' = edges d"
    unfolding resume_tx_def Let_def by auto
  have "s_id s \<in> set ids \<and> s_zone s = z \<longleftrightarrow> in_subtree d z (\<lambda>st. st = SSuspended) [i] (s_id s)" if "s \<in> set (sessions d)" for s
    using tree_member_live(2) [OF assms(3) ids that] tree_iff [OF ids] by blast
  then show "sessions d' = map (\<lambda>s. if in_subtree d z (\<lambda>st. st = SSuspended) [i] (s_id s) then resumed_session e c s else s) (sessions d)"
    unfolding d' by (intro map_cong refl) presburger
  show "edges d' = edges d" by fact
qed

text \<open>
  C19: suspension is reversible. A successful suspend of a session marks as suspended exactly the sessions
  reached from it over active sessions of the zone, itself included, and changes nothing else of any
  session. When the next call is a successful resume of the same session, every session that was active
  before the suspend is active again, every ended one still has its status, all keep their place in the
  tree, and no delegation has changed. A session that was suspended before is resumed with them exactly when suspended
  sessions connect it to the resumed one.
\<close>

theorem suspend_resume:
  assumes "suspend_session e req z i d = (r, d1)" "is_success r" "session_inv d"
    and "resume_session e' c req' z i d1 = (r', d2)" "is_success r'"
  shows "sessions d1 = map (\<lambda>s. if in_subtree d z (\<lambda>st. st = SActive) [i] (s_id s)
      then s\<lparr>s_status := SSuspended, s_updated := now e\<rparr> else s) (sessions d) \<and>
    list_all2 (\<lambda>s t. s_id t = s_id s \<and> s_parent t = s_parent s \<and>
      s_status t = (if s_status s = SSuspended \<and> in_subtree d1 z (\<lambda>st. st = SSuspended) [i] (s_id s) then SActive else s_status s))
      (sessions d) (sessions d2) \<and>
    edges d2 = edges d"
proof -
  note S = suspend_sessions [OF assms(1-3)]
  note R = resume_sessions [OF assms(4,5) S(3)]
  let ?A = "in_subtree d z (\<lambda>st. st = SActive) [i]" and ?B = "in_subtree d1 z (\<lambda>st. st = SSuspended) [i]"
  define f where "f s = (if ?A (s_id s) then s\<lparr>s_status := SSuspended, s_updated := now e\<rparr> else s)" for s :: session
  define g where "g s = (if ?B (s_id s) then resumed_session e' c s else s)" for s
  have s1: "sessions d1 = map f (sessions d)" unfolding S(1) f_def ..
  have s2: "sessions d2 = map g (sessions d1)" unfolding R(1) g_def ..
  have "s_id (g (f s)) = s_id s \<and> s_parent (g (f s)) = s_parent s \<and>
      s_status (g (f s)) = (if s_status s = SSuspended \<and> ?B (s_id s) then SActive else s_status s)" if s: "s \<in> set (sessions d)" for s
  proof -
    have f: "f s \<in> set (sessions d1)" "s_id (f s) = s_id s" "s_parent (f s) = s_parent s" using s by (simp_all add: s1 f_def)
    have act: "s_status s = SActive" if "?A (s_id s)"
      using that
    proof cases
      case (root t)
      then show ?thesis using session_id_unique [of "sessions d" s t] assms(3) s by (simp add: session_inv_def)
    next
      case (child p t)
      then show ?thesis using session_id_unique [of "sessions d" s t] assms(3) s by (simp add: session_inv_def)
    qed
    have sus: "s_status (f s) = SSuspended" if "?B (s_id s)"
      using that
    proof cases
      case (root t)
      then show ?thesis using session_id_unique [of "sessions d1" "f s" t] S(3) f by (simp add: session_inv_def)
    next
      case (child p t)
      then show ?thesis using session_id_unique [of "sessions d1" "f s" t] S(3) f by (simp add: session_inv_def)
    qed
    have "?A (s_id s) \<Longrightarrow> ?B (s_id s)" by (rule suspended_in_subtree [OF _ S(1)])
    then show ?thesis using f act sus by (auto simp: g_def f_def resumed_session_def split: if_splits)
  qed
  then have "list_all2 (\<lambda>s t. s_id t = s_id s \<and> s_parent t = s_parent s \<and>
      s_status t = (if s_status s = SSuspended \<and> ?B (s_id s) then SActive else s_status s)) (sessions d) (sessions d2)"
    by (simp add: s2 s1 list_all2_conv_all_nth)
  then show ?thesis using S(1,2) R(2) by simp
qed

subsection \<open>Concrete runs\<close>

definition sample_session :: "string \<Rightarrow> string option \<Rightarrow> int \<Rightarrow> int \<Rightarrow> session" where
  "sample_session i parent depth kids =
     \<lparr>s_id = i, s_zone = ''z1'', s_app = ''app'', s_parent = parent, s_subject = ''ar1'', s_lifecycle = Task,
      s_status = SActive, s_depth = depth, s_labels = [], s_max_children = 10, s_child_count = kids, s_ttl = Some 3600,
      s_metadata = JObj [], s_started = 0, s_active_at = 0, s_terminated = None, s_reason = None, s_heartbeat = None,
      s_deadline = None, s_lease = 0, s_updated = 0\<rparr>"

definition sample_edge :: edge where
  "sample_edge = \<lparr>e_id = ''g1'', e_zone = ''z1'', e_source = ''d'', e_target = ''a'', e_issuer = ''app'',
     e_receiver = ''app'', e_parent = None, e_resource = None, e_scopes = [''read''], e_constraints = JObj [],
     e_status = EActive, e_expires = 9000, e_version = 0, e_revoked = None, e_created = 0, e_updated = 0\<rparr>"

definition sample_db :: db where
  "sample_db = empty_db\<lparr>
     sessions := [sample_session ''d'' None 0 0, sample_session ''a'' None 0 1,
                  sample_session ''b'' (Some ''a'') 1 1, sample_session ''c'' (Some ''b'') 2 0],
     edges := [sample_edge],
     applications := [\<lparr>a_id = ''app'', a_zone = ''z1'', a_method = Managed, a_expires = None, a_archived = None\<rparr>],
     authorities := [\<lparr>r_id = ''ar1'', r_zone = ''z1'', r_type = ''user'', r_subject = None, r_parent = None, r_status = AActive, r_expires = 9000,
       r_created = 0, r_revoked = None, r_reason = None\<rparr>]\<rparr>"

definition sample_auth :: auth where
  "sample_auth = \<lparr>au_zone = ''z1'', au_scopes = [], au_subject = ''app'', au_client = ''app'', au_session = None,
     au_edge = None, au_authority = Some ''ar1''\<rparr>"

definition sample_start_body :: json where
  "sample_start_body = JObj [(''application_id'', JStr ''app''), (''parent_id'', JStr ''a'')]"

lemma sample_inv: "session_inv sample_db"
  by code_simp

definition sample_started :: "reply \<times> db" where
  "sample_started = start_session (sample_env 1000) sample_cfg sample_auth ''z1'' HAbsent False sample_start_body sample_db"

definition sample_body :: start_body where
  "sample_body = \<lparr>b_app = ''app'', b_subject = None, b_parent = Some ''a'', b_lifecycle = None, b_labels = [],
     b_ttl = None, b_authority = Inherit, b_inherit = None, b_metadata = []\<rparr>"

lemma sample_started_ok: "is_success (fst sample_started) \<and> \<not> replayed (fst sample_started)"
  by code_simp

lemma sample_started_eq:
  "start_session (sample_env 1000) sample_cfg sample_auth ''z1'' HAbsent False sample_start_body sample_db =
     (fst sample_started, snd sample_started)"
  by (simp add: sample_started_def)

lemmas sample_started_facts = sample_started_eq conjunct1 [OF sample_started_ok] conjunct2 [OF sample_started_ok] sample_inv

lemma sample_body_ok: "parse_start_body sample_start_body = Some sample_body"
  by code_simp

lemma sample_body_parent: "b_parent sample_body = Some ''a''" "b_authority sample_body = Inherit"
  by (simp_all add: sample_body_def)

theorem start_capacity_witness:
  "\<exists>n. sessions (snd sample_started) = map (count_child (Some ''a'')) (sessions sample_db) @ [n] \<and>
    int (length (held_slots (sample_env 1000) ''z1'' (snd sample_started))) \<le> maxSessionsPerZone sample_cfg \<and>
    int (length (filter (\<lambda>s. s_app s = b_app sample_body) (held_slots (sample_env 1000) ''z1'' (snd sample_started)))) \<le> maxSessionsPerApp sample_cfg \<and>
    s_depth n \<le> MAX_DEPTH \<and>
    (\<exists>q. q \<in> set (sessions sample_db) \<and> s_id q = ''a'' \<and> s_depth n = s_depth q + 1 \<and>
       s_child_count (count_child (Some ''a'') q) \<le> s_max_children q)"
  using start_capacity [OF sample_started_facts sample_body_ok] unfolding sample_body_parent(1) option.case by blast

theorem start_inherits_exactly_witness:
  "\<exists>q g. filter (live_edge (sample_env 1000)) [sample_edge] = [q] \<and> edges (snd sample_started) = edges sample_db @ [g] \<and>
    e_source g = ''a'' \<and> e_target g = s_id (last (sessions (snd sample_started))) \<and> e_parent g = Some (e_id q) \<and>
    e_scopes g = e_scopes q \<and> e_expires g = e_expires q"
proof -
  have "[sample_edge] = filter (\<lambda>g. e_zone g = ''z1'' \<and> e_target g = ''a'' \<and> e_receiver g = b_app sample_body \<and>
      (b_inherit sample_body = None \<or> b_inherit sample_body = Some (e_id g))) (edges sample_db)"
    by (simp add: sample_body_def sample_db_def sample_edge_def)
  moreover have "filter (live_edge (sample_env 1000)) [sample_edge] = [sample_edge]"
    by (simp add: live_edge_def sample_edge_def sample_env_def)
  ultimately show ?thesis using start_inherits_exactly [OF sample_started_facts sample_body_ok sample_body_parent(2,1)] by auto
qed

definition sample_terminated :: "reply \<times> db" where
  "sample_terminated = terminate_session (sample_env 1000) sample_auth ''z1'' ''a'' [] None sample_db"

lemma sample_terminated_ok: "is_success (fst sample_terminated)"
  by code_simp

lemma sample_terminated_eq:
  "terminate_session (sample_env 1000) sample_auth ''z1'' ''a'' [] None sample_db = (fst sample_terminated, snd sample_terminated)"
  by (simp add: sample_terminated_def)

lemma sample_subtree: "in_subtree sample_db ''z1'' live_status [''a''] ''a''"
  using in_subtree.root [of "sample_session ''a'' None 0 1" sample_db "[''a'']" "''z1''" live_status]
  by (simp add: sample_db_def sample_session_def live_status_def)

theorem terminate_settles_subtree_witness:
  "is_success (fst sample_terminated) \<and> in_subtree sample_db ''z1'' live_status [''a''] ''a'' \<and>
   \<not> (\<exists>s\<in>set (sessions (snd sample_terminated)). in_subtree sample_db ''z1'' live_status [''a''] (s_id s) \<and> s_status s \<noteq> STerminated) \<and>
   outbox_lookup (snd sample_terminated) (AgentsLifecycle, ''terminate:'' @ ''a'') \<noteq> None"
proof -
  note T = terminate_settles_subtree [OF sample_terminated_eq sample_terminated_ok sample_inv]
  from T sample_subtree have "outbox_lookup (snd sample_terminated) (AgentsLifecycle, ''terminate:'' @ ''a'') \<noteq> None" by blast
  moreover from T have "\<not> (\<exists>s\<in>set (sessions (snd sample_terminated)).
      in_subtree sample_db ''z1'' live_status [''a''] (s_id s) \<and> s_status s \<noteq> STerminated)" by blast
  ultimately show ?thesis using sample_terminated_ok sample_subtree by blast
qed


text \<open>A service session with lease generation 3, and a caller presenting generation 2.\<close>

definition sample_service_db :: db where
  "sample_service_db = sample_db\<lparr>sessions := [(sample_session ''s'' None 0 0)\<lparr>s_lifecycle := Service, s_ttl := None,
     s_heartbeat := Some 0, s_deadline := Some 9000, s_lease := 3\<rparr>]\<rparr>"

theorem terminate_fenced_witness:
  "snd (terminate_session (sample_env 1000) sample_auth ''z1'' ''s'' [] (Some (JObj [(''lease_generation'', JInt 2)])) sample_service_db) = sample_service_db"
  using terminate_fenced [of sample_service_db "''z1''" "''s''" "hd (sessions sample_service_db)" sample_auth
      "Some (JObj [(''lease_generation'', JInt 2)])" "sample_env 1000" "[]"
      "fst (terminate_session (sample_env 1000) sample_auth ''z1'' ''s'' [] (Some (JObj [(''lease_generation'', JInt 2)])) sample_service_db)"
      "snd (terminate_session (sample_env 1000) sample_auth ''z1'' ''s'' [] (Some (JObj [(''lease_generation'', JInt 2)])) sample_service_db)"]
  by (simp add: sample_service_db_def sample_session_def find_session_def sample_auth_def requireScope_def
      parse_terminate_body_def z_optional_def jget_def MAX_SAFE_INTEGER_def)

lemma sample_service_inv: "session_inv sample_service_db"
  by code_simp

definition sample_suspended :: "reply \<times> db" where
  "sample_suspended = suspend_session (sample_env 1000) sample_auth ''z1'' ''s'' sample_service_db"

definition sample_resumed :: "reply \<times> db" where
  "sample_resumed = resume_session (sample_env 2000) sample_cfg sample_auth ''z1'' ''s'' (snd sample_suspended)"

lemma sample_resumed_ok: "is_success (fst sample_suspended)" "is_success (fst sample_resumed)"
  by code_simp+

theorem suspend_resume_witness:
  "list_all2 (\<lambda>s t. s_id t = s_id s \<and> s_parent t = s_parent s \<and> s_status t = SActive) (sessions sample_service_db) (sessions (snd sample_resumed)) \<and>
   edges (snd sample_resumed) = edges sample_service_db"
proof -
  have act: "\<not> (\<exists>s\<in>set (sessions sample_service_db). s_status s \<noteq> SActive)" by code_simp
  note R = suspend_resume [of "sample_env 1000" sample_auth "''z1''" "''s''" sample_service_db "fst sample_suspended" "snd sample_suspended"
      "sample_env 2000" sample_cfg sample_auth "fst sample_resumed" "snd sample_resumed",
      unfolded prod.collapse, OF sample_suspended_def [symmetric] sample_resumed_ok(1) sample_service_inv sample_resumed_def [symmetric] sample_resumed_ok(2)]
  show ?thesis by (intro conjI list.rel_mono_strong [OF conjunct1 [OF conjunct2 [OF R]]] conjunct2 [OF conjunct2 [OF R]]) (use act in auto)
qed

end
