(* ===== verification/EdgeGraph.thy ===== *)
theory EdgeGraph
  imports Agents
begin

text \<open>
  Paths in the delegation graph. The recursive statements of
  \<open>apps/coordinator/src/routes/delegations.ts\<close> (cycle check, traversal, impact and cascade
  revocation) all start from some edges, extend a row by every edge that leaves its target, carry
  the list of visited edges and stop once \<open>MAX_DEPTH\<close> edges were visited. \<open>graph_paths\<close> is that
  statement; \<open>walk\<close> is the graph-theoretic notion it is compared with.
\<close>

subsection \<open>The recursive statement\<close>

type_synonym path_row = "edge \<times> string list"

definition extend_paths :: "db \<Rightarrow> zone \<Rightarrow> (edge \<Rightarrow> bool) \<Rightarrow> path_row list \<Rightarrow> path_row list" where
  "extend_paths d z ok rows =
     concat (map (\<lambda>(g, visited). map (\<lambda>h. (h, visited @ [e_id h]))
       (filter (\<lambda>h. e_source h = e_target g \<and> e_zone h = z \<and> ok h \<and> e_id h \<notin> set visited \<and>
                    int (length visited) < MAX_DEPTH) (edges d))) rows)"

fun path_levels :: "nat \<Rightarrow> (path_row list \<Rightarrow> path_row list) \<Rightarrow> path_row list \<Rightarrow> path_row list" where
  "path_levels 0 step rows = rows"
| "path_levels (Suc n) step rows = rows @ path_levels n step (step rows)"

definition seed_paths :: "db \<Rightarrow> zone \<Rightarrow> (edge \<Rightarrow> bool) \<Rightarrow> (edge \<Rightarrow> bool) \<Rightarrow> path_row list" where
  "seed_paths d z ok seed = map (\<lambda>g. (g, [e_id g])) (filter (\<lambda>g. seed g \<and> e_zone g = z \<and> ok g) (edges d))"

definition graph_paths :: "db \<Rightarrow> zone \<Rightarrow> (edge \<Rightarrow> bool) \<Rightarrow> (edge \<Rightarrow> bool) \<Rightarrow> path_row list" where
  "graph_paths d z ok seed = path_levels (nat MAX_DEPTH) (extend_paths d z ok) (seed_paths d z ok seed)"

definition wouldCreateCycle :: "env \<Rightarrow> db \<Rightarrow> zone \<Rightarrow> string \<Rightarrow> string \<Rightarrow> bool" where
  "wouldCreateCycle e d z sourceId targetId =
     list_ex (\<lambda>(g, visited). e_target g = sourceId) (graph_paths d z (live_edge e) (\<lambda>g. e_source g = targetId))"

subsection \<open>Walks\<close>

definition joined :: "edge \<Rightarrow> edge \<Rightarrow> bool" where
  "joined g h = (e_source h = e_target g)"

definition walk :: "db \<Rightarrow> zone \<Rightarrow> (edge \<Rightarrow> bool) \<Rightarrow> edge list \<Rightarrow> bool" where
  "walk d z ok gs = (gs \<noteq> [] \<and> (\<forall>g\<in>set gs. g \<in> set (edges d) \<and> e_zone g = z \<and> ok g) \<and> successively joined gs)"

definition edge_keys :: "db \<Rightarrow> bool" where
  "edge_keys d = distinct (map e_id (edges d))"

lemma edge_keys_inj: "edge_keys d \<Longrightarrow> g \<in> set (edges d) \<Longrightarrow> h \<in> set (edges d) \<Longrightarrow> e_id g = e_id h \<Longrightarrow> g = h"
  by (auto simp: edge_keys_def distinct_map inj_on_def)

lemma walk_single [simp]: "walk d z ok [g] \<longleftrightarrow> g \<in> set (edges d) \<and> e_zone g = z \<and> ok g"
  by (auto simp: walk_def)

lemma walk_snoc:
  assumes "gs \<noteq> []"
  shows "walk d z ok (gs @ [h]) \<longleftrightarrow>
    walk d z ok gs \<and> h \<in> set (edges d) \<and> e_zone h = z \<and> ok h \<and> e_source h = e_target (last gs)"
  using assms by (auto simp: walk_def successively_append_iff joined_def)

lemma walk_append:
  assumes "xs \<noteq> []" "ys \<noteq> []"
  shows "walk d z ok (xs @ ys) \<longleftrightarrow> walk d z ok xs \<and> walk d z ok ys \<and> e_source (hd ys) = e_target (last xs)"
  using assms by (auto simp: walk_def successively_append_iff joined_def)

lemma walk_mono: "walk d z ok gs \<Longrightarrow> (\<And>g. g \<in> set gs \<Longrightarrow> ok g \<Longrightarrow> g \<in> set (edges d') \<and> ok' g) \<Longrightarrow> walk d' z ok' gs"
  by (auto simp: walk_def)

text \<open>A walk that visits an edge twice can be shortened, keeping its first and its last edge.\<close>

lemma walk_shorten:
  assumes "walk d z ok gs" "\<not> distinct gs"
  obtains hs where "walk d z ok hs" "hd hs = hd gs" "last hs = last gs" "length hs < length gs"
proof -
  from not_distinct_decomp [OF assms(2)] obtain xs ys zs a where gs: "gs = xs @ [a] @ ys @ [a] @ zs" by blast
  have suc: "successively joined (xs @ a # ys @ a # zs)" using assms(1) gs by (simp add: walk_def)
  have "walk d z ok (xs @ [a] @ zs)"
    using assms(1) suc unfolding gs walk_def
    by (auto simp: successively_append_iff successively_Cons)
  moreover have "hd (xs @ [a] @ zs) = hd gs" by (simp add: gs hd_append)
  moreover have "last (xs @ [a] @ zs) = last gs" by (simp add: gs)
  moreover have "length (xs @ [a] @ zs) < length gs" by (simp add: gs)
  ultimately show ?thesis by (rule that)
qed

lemma walk_distinct:
  assumes "walk d z ok gs"
  shows "\<exists>hs. walk d z ok hs \<and> hd hs = hd gs \<and> last hs = last gs \<and> length hs \<le> length gs \<and> distinct hs"
  using assms
proof (induction gs rule: length_induct)
  case (1 gs)
  show ?case
  proof (cases "distinct gs")
    case True
    with "1.prems" show ?thesis by blast
  next
    case False
    with "1.prems" obtain hs where "walk d z ok hs" "hd hs = hd gs" "last hs = last gs" "length hs < length gs"
      by (rule walk_shorten)
    moreover from this(1,4) "1.IH" obtain ks where "walk d z ok ks" "hd ks = hd hs" "last ks = last hs"
      "length ks \<le> length hs" "distinct ks" by blast
    ultimately show ?thesis by (metis le_trans less_imp_le)
  qed
qed

subsection \<open>What the statement computes\<close>

text \<open>The rows of level \<open>n\<close>: simple walks of \<open>n + 1\<close> edges from a seed.\<close>

definition level_row :: "db \<Rightarrow> zone \<Rightarrow> (edge \<Rightarrow> bool) \<Rightarrow> (edge \<Rightarrow> bool) \<Rightarrow> nat \<Rightarrow> path_row \<Rightarrow> bool" where
  "level_row d z ok seed n row \<longleftrightarrow>
     (\<exists>gs. walk d z ok gs \<and> seed (hd gs) \<and> length gs = Suc n \<and> distinct (map e_id gs) \<and> row = (last gs, map e_id gs))"

lemma set_path_levels: "set (path_levels n step rows) = (\<Union>k\<in>{..n}. set ((step ^^ k) rows))"
proof (induction n arbitrary: rows)
  case (Suc n)
  have "{..Suc n} = insert 0 (Suc ` {..n})" by (simp add: atMost_Suc_eq_insert_0)
  with Suc show ?case by (simp add: funpow_swap1)
qed simp

lemma extend_paths_row:
  "(h, vis) \<in> set (extend_paths d z ok rows) \<longleftrightarrow>
     (\<exists>g v. (g, v) \<in> set rows \<and> vis = v @ [e_id h] \<and> h \<in> set (edges d) \<and> e_source h = e_target g \<and> e_zone h = z \<and>
        ok h \<and> e_id h \<notin> set v \<and> int (length v) < MAX_DEPTH)"
  by (auto simp: extend_paths_def)

lemma level_row_Suc:
  "level_row d z ok seed (Suc n) (h, vis) \<longleftrightarrow>
     (\<exists>g v. level_row d z ok seed n (g, v) \<and> vis = v @ [e_id h] \<and> h \<in> set (edges d) \<and> e_source h = e_target g \<and>
        e_zone h = z \<and> ok h \<and> e_id h \<notin> set v)" (is "?l \<longleftrightarrow> ?r")
proof
  assume ?l
  then obtain gs where gs: "walk d z ok gs" "seed (hd gs)" "length gs = Suc (Suc n)" "distinct (map e_id gs)"
    "h = last gs" "vis = map e_id gs" unfolding level_row_def by blast
  obtain ks l where split: "gs = ks @ [l]" using gs(3) by (cases gs rule: rev_cases) auto
  with gs(3,5) have ks: "length ks = Suc n" "l = h" by simp_all
  then have ne: "ks \<noteq> []" by auto
  from gs(1) have w: "walk d z ok ks" "h \<in> set (edges d)" "e_zone h = z" "ok h" "e_source h = e_target (last ks)"
    unfolding split walk_snoc [OF ne] ks(2) by simp_all
  have dist: "distinct (map e_id ks)" "e_id h \<notin> set (map e_id ks)" using gs(4) unfolding split ks(2) by simp_all
  have "seed (hd ks)" using gs(2) ne by (simp add: split)
  with w(1) ks(1) dist(1) have "level_row d z ok seed n (last ks, map e_id ks)" unfolding level_row_def by blast
  with w dist(2) gs(6) show ?r unfolding split ks(2) by (intro exI [of _ "last ks"] exI [of _ "map e_id ks"]) simp
next
  assume ?r
  then obtain gs where gs: "walk d z ok gs" "seed (hd gs)" "length gs = Suc n" "distinct (map e_id gs)"
    "vis = map e_id gs @ [e_id h]" "h \<in> set (edges d)" "e_source h = e_target (last gs)" "e_zone h = z" "ok h"
    "e_id h \<notin> set (map e_id gs)" unfolding level_row_def by blast
  from gs(3) have "gs \<noteq> []" by auto
  with gs have "walk d z ok (gs @ [h])" "hd (gs @ [h]) = hd gs" by (simp_all add: walk_snoc)
  with gs show ?l unfolding level_row_def by (intro exI [of _ "gs @ [h]"]) simp
qed

lemma level_row_length: "level_row d z ok seed n (g, v) \<Longrightarrow> length v = Suc n"
  by (auto simp: level_row_def)

lemma level_row_0:
  "level_row d z ok seed 0 row \<longleftrightarrow> (\<exists>g\<in>set (edges d). seed g \<and> e_zone g = z \<and> ok g \<and> row = (g, [e_id g]))"
proof
  assume "level_row d z ok seed 0 row"
  then obtain gs where "walk d z ok gs" "seed (hd gs)" "length gs = Suc 0" "row = (last gs, map e_id gs)"
    unfolding level_row_def by blast
  then show "\<exists>g\<in>set (edges d). seed g \<and> e_zone g = z \<and> ok g \<and> row = (g, [e_id g])"
    by (auto simp: length_Suc_conv)
next
  assume "\<exists>g\<in>set (edges d). seed g \<and> e_zone g = z \<and> ok g \<and> row = (g, [e_id g])"
  then obtain g where "g \<in> set (edges d)" "seed g" "e_zone g = z" "ok g" "row = (g, [e_id g])" by blast
  then show "level_row d z ok seed 0 row" unfolding level_row_def by (intro exI [of _ "[g]"]) simp
qed

lemma extend_level:
  "row \<in> set ((extend_paths d z ok ^^ n) (seed_paths d z ok seed)) \<longleftrightarrow>
     int n < MAX_DEPTH \<and> level_row d z ok seed n row"
proof (induction n arbitrary: row)
  case 0
  show ?case by (auto simp: seed_paths_def level_row_0 MAX_DEPTH_def)
next
  case (Suc n)
  obtain h vis where row: "row = (h, vis)" by fastforce
  have bound: "int (length v) < MAX_DEPTH \<longleftrightarrow> int (Suc n) < MAX_DEPTH" if "level_row d z ok seed n (g, v)" for g v
    using level_row_length [OF that] by simp
  have "int (Suc n) < MAX_DEPTH \<Longrightarrow> int n < MAX_DEPTH" by simp
  with bound show ?case
    unfolding row funpow.simps comp_apply extend_paths_row Suc.IH level_row_Suc by blast
qed

lemma graph_paths_iff:
  "row \<in> set (graph_paths d z ok seed) \<longleftrightarrow> (\<exists>n. int n < MAX_DEPTH \<and> level_row d z ok seed n row)"
  unfolding graph_paths_def set_path_levels UN_iff extend_level by (auto simp: MAX_DEPTH_def)

text \<open>
  The statement reaches exactly the last edges of walks of at most \<open>MAX_DEPTH\<close> edges: carrying the
  visited edges loses nothing, the bound does.
\<close>

lemma graph_paths_reach:
  assumes "edge_keys d"
  shows "(\<exists>v. (h, v) \<in> set (graph_paths d z ok seed)) \<longleftrightarrow>
    (\<exists>gs. walk d z ok gs \<and> seed (hd gs) \<and> last gs = h \<and> int (length gs) \<le> MAX_DEPTH)" (is "?l \<longleftrightarrow> ?r")
proof
  assume ?l
  then show ?r unfolding graph_paths_iff level_row_def by (force simp: MAX_DEPTH_def)
next
  assume ?r
  then obtain gs where gs: "walk d z ok gs" "seed (hd gs)" "last gs = h" "int (length gs) \<le> MAX_DEPTH" by blast
  from walk_distinct [OF gs(1)] obtain hs where hs: "walk d z ok hs" "hd hs = hd gs" "last hs = last gs"
    "length hs \<le> length gs" "distinct hs" by blast
  have "distinct (map e_id hs)"
    using hs(1,5) edge_keys_inj [OF assms] by (auto simp: distinct_map inj_on_def walk_def)
  moreover obtain n where "length hs = Suc n" using hs(1) by (cases hs) (auto simp: walk_def)
  ultimately have "level_row d z ok seed n (h, map e_id hs)" "int n < MAX_DEPTH"
    using hs gs by (auto simp: level_row_def)
  then show ?l using graph_paths_iff by blast
qed

lemma wouldCreateCycle_iff:
  assumes "edge_keys d"
  shows "wouldCreateCycle e d z src tgt \<longleftrightarrow>
    (\<exists>gs. walk d z (live_edge e) gs \<and> e_source (hd gs) = tgt \<and> e_target (last gs) = src \<and> int (length gs) \<le> MAX_DEPTH)"
proof -
  have "wouldCreateCycle e d z src tgt \<longleftrightarrow>
    (\<exists>h. e_target h = src \<and> (\<exists>v. (h, v) \<in> set (graph_paths d z (live_edge e) (\<lambda>g. e_source g = tgt))))"
    by (auto simp: wouldCreateCycle_def list_ex_iff)
  then show ?thesis unfolding graph_paths_reach [OF assms] by blast
qed

subsection \<open>Short cycles\<close>

definition closed_walk :: "db \<Rightarrow> zone \<Rightarrow> (edge \<Rightarrow> bool) \<Rightarrow> edge list \<Rightarrow> bool" where
  "closed_walk d z ok gs \<longleftrightarrow> walk d z ok gs \<and> e_target (last gs) = e_source (hd gs)"

text \<open>No cycle of live edges is short enough for the cycle check to see its last edge.\<close>

definition short_cycle_free :: "env \<Rightarrow> db \<Rightarrow> zone \<Rightarrow> bool" where
  "short_cycle_free e d z \<longleftrightarrow> \<not> (\<exists>gs. closed_walk d z (live_edge e) gs \<and> int (length gs) \<le> MAX_DEPTH + 1)"

lemma closed_walk_rotate:
  "closed_walk d z ok (xs @ ys) \<Longrightarrow> closed_walk d z ok (ys @ xs)"
  by (cases "xs = []"; cases "ys = []") (auto simp: closed_walk_def walk_append)

lemma walk_old_edges:
  assumes "walk (d\<lparr>edges := edges d @ [g]\<rparr>) z ok gs" "g \<notin> set gs"
  shows "walk d z ok gs"
  using assms by (auto simp: walk_def)

text \<open>A closed walk through the new edge contains a walk back from its target to its source.\<close>

lemma closed_walk_back:
  assumes cw: "closed_walk (d\<lparr>edges := edges d @ [g]\<rparr>) z ok gs" and g: "g \<in> set gs" "e_source g \<noteq> e_target g"
  obtains hs where "walk d z ok hs" "e_source (hd hs) = e_target g" "e_target (last hs) = e_source g" "length hs < length gs"
proof -
  from split_list [OF g(1)] obtain xs ys where gs: "gs = xs @ g # ys" by blast
  then have cw': "closed_walk (d\<lparr>edges := edges d @ [g]\<rparr>) z ok ((g # ys) @ xs)"
    using closed_walk_rotate [of "d\<lparr>edges := edges d @ [g]\<rparr>" z ok xs "g # ys"] cw by simp
  define ts where "ts = takeWhile (\<lambda>h. h \<noteq> g) (ys @ xs)"
  define us where "us = dropWhile (\<lambda>h. h \<noteq> g) (ys @ xs)"
  have split: "ys @ xs = ts @ us" by (simp add: ts_def us_def)
  have gt: "g \<notin> set ts" using set_takeWhileD by (fastforce simp: ts_def)
  have us: "us = [] \<or> hd us = g" unfolding us_def by (metis (mono_tags, lifting) hd_dropWhile)
  have w: "walk (d\<lparr>edges := edges d @ [g]\<rparr>) z ok (g # ts @ us)"
    and cl: "e_target (last (g # ts @ us)) = e_source g"
    using cw' split by (auto simp: closed_walk_def)
  have ts: "ts \<noteq> []"
  proof
    assume "ts = []"
    then show False using w cl us g(2) by (cases us) (auto simp: walk_def joined_def)
  qed
  let ?d = "d\<lparr>edges := edges d @ [g]\<rparr>"
  have tu: "walk ?d z ok (ts @ us)" "e_source (hd (ts @ us)) = e_target g"
    using w ts walk_append [of "[g]" "ts @ us" ?d z ok] by simp_all
  have "walk ?d z ok ts \<and> e_target (last ts) = e_source g"
  proof (cases "us = []")
    case True
    then show ?thesis using tu(1) cl ts by simp
  next
    case False
    then show ?thesis using tu(1) us walk_append [OF ts False, of ?d z ok] by simp
  qed
  moreover have "e_source (hd ts) = e_target g" using tu(2) ts by simp
  ultimately have "walk ?d z ok ts" "e_source (hd ts) = e_target g" "e_target (last ts) = e_source g" by simp_all
  with gt have "walk d z ok ts" "e_source (hd ts) = e_target g" "e_target (last ts) = e_source g"
    by (simp_all add: walk_old_edges)
  moreover have "length ts < length gs"
    using arg_cong [OF split, of length] by (simp add: gs)
  ultimately show thesis by (rule that)
qed

lemma short_cycle_free_insert:
  assumes free: "short_cycle_free e d z" and keys: "edge_keys d" and g: "e_source g \<noteq> e_target g"
    and no: "\<not> wouldCreateCycle e d z (e_source g) (e_target g)"
  shows "short_cycle_free e (d\<lparr>edges := edges d @ [g]\<rparr>) z"
  unfolding short_cycle_free_def
proof
  let ?d = "d\<lparr>edges := edges d @ [g]\<rparr>"
  assume "\<exists>gs. closed_walk ?d z (live_edge e) gs \<and> int (length gs) \<le> MAX_DEPTH + 1"
  then obtain gs where gs: "closed_walk ?d z (live_edge e) gs" "int (length gs) \<le> MAX_DEPTH + 1" by blast
  show False
  proof (cases "g \<in> set gs")
    case True
    from gs(1) True g obtain hs where "walk d z (live_edge e) hs" "e_source (hd hs) = e_target g"
      "e_target (last hs) = e_source g" "length hs < length gs" by (rule closed_walk_back)
    with gs(2) no show False unfolding wouldCreateCycle_iff [OF keys] by force
  next
    case False
    then have "closed_walk d z (live_edge e) gs" using gs(1) walk_old_edges unfolding closed_walk_def by blast
    with free gs(2) show False unfolding short_cycle_free_def by blast
  qed
qed

lemma short_cycle_free_subset:
  assumes "short_cycle_free e d z"
    and "\<And>g. g \<in> set (edges d') \<Longrightarrow> e_zone g = z \<Longrightarrow> live_edge e' g \<Longrightarrow> g \<in> set (edges d) \<and> live_edge e g"
  shows "short_cycle_free e' d' z"
proof -
  have "closed_walk d z (live_edge e) gs" if "closed_walk d' z (live_edge e') gs" for gs
    using that assms(2) unfolding closed_walk_def walk_def by blast
  with assms(1) show ?thesis unfolding short_cycle_free_def by blast
qed

end
