(* ===== verification/Delegations.thy ===== *)
theory Delegations
  imports EdgeGraph
begin

text \<open>
  The delegation graph (\<open>apps/coordinator/src/routes/delegations.ts\<close>): constraint validation,
  creation with narrowing against the parent edge, cycle detection, cascade revocation, and the
  read routes. A recursive statement over edges carries the list of visited edges and stops after
  \<open>MAX_DEPTH\<close> of them, so it is the enumeration of the paths of at most ten edges. A timestamp string
  accepted by the validator denotes the instant \<open>datetime\<close> of the environment, for the route's own
  comparison as for the database.
\<close>

subsection \<open>Constraints\<close>

record constraints =
  k_resources :: "string list option"
  k_max_depth :: "int option"
  k_max_hops :: "int option"
  k_budget :: "int option"
  k_ttl :: "int option"
  k_approved :: "bool option"
  k_expires :: "string option"
  k_broad :: "string option"

definition z_datetime :: "env \<Rightarrow> json \<Rightarrow> string option" where
  "z_datetime e j = (case j of JStr s \<Rightarrow> if datetime e s \<noteq> None then Some s else None | _ \<Rightarrow> None)"

definition constraint_keys :: "string list" where
  "constraint_keys = [''resources'', ''max_depth'', ''max_hops'', ''budget'', ''ttl_seconds'', ''policy_approved'',
     ''expires_at'', ''broad_reason'']"

text \<open>Validation reports the first invalid field in schema order, and unknown keys last.\<close>

definition ConstraintBody :: "env \<Rightarrow> (string \<times> json) list \<Rightarrow> string + constraints" where
  "ConstraintBody e ob =
     expect (z_optional (z_array_max 64 z_nonempty) (jget ob ''resources'')) ''invalid_resources'' (\<lambda>resources.
     expect (z_optional (z_int 1 MAX_DEPTH) (jget ob ''max_depth'')) ''invalid_max_depth'' (\<lambda>max_depth.
     expect (z_optional (z_int 1 MAX_DEPTH) (jget ob ''max_hops'')) ''invalid_max_hops'' (\<lambda>max_hops.
     expect (z_optional (z_int 1 64) (jget ob ''budget'')) ''invalid_budget'' (\<lambda>budget.
     expect (z_optional (z_int 1 86400) (jget ob ''ttl_seconds'')) ''invalid_ttl_seconds'' (\<lambda>ttl.
     expect (z_optional z_bool (jget ob ''policy_approved'')) ''invalid_policy_approved'' (\<lambda>approved.
     expect (z_optional (z_datetime e) (jget ob ''expires_at'')) ''invalid_expires_at'' (\<lambda>expires.
     expect (z_optional (z_text 256) (jget ob ''broad_reason'')) ''invalid_broad_reason'' (\<lambda>broad.
     reject (list_ex (\<lambda>k. k \<notin> set constraint_keys) (map fst ob)) ''invalid_delegation_constraint''
    (Inr \<lparr>k_resources = resources, k_max_depth = max_depth, k_max_hops = max_hops, k_budget = budget,
          k_ttl = ttl, k_approved = approved, k_expires = expires, k_broad = broad\<rparr>)))))))))"

definition plainObject :: "json option \<Rightarrow> bool" where
  "plainObject v = (case v of Some (JObj _) \<Rightarrow> True | _ \<Rightarrow> False)"

definition object_of :: "json option \<Rightarrow> (string \<times> json) list" where
  "object_of v = (case v of Some (JObj ob) \<Rightarrow> ob | _ \<Rightarrow> [])"

definition is_number :: "json option \<Rightarrow> bool" where
  "is_number v = (case v of Some (JInt _) \<Rightarrow> True | Some (JFrac _) \<Rightarrow> True | _ \<Rightarrow> False)"

definition normalizedConstraints :: "env \<Rightarrow> json option \<Rightarrow> json option \<Rightarrow> int option \<Rightarrow> string + constraints" where
  "normalizedConstraints e constraintsJson constr ttlSeconds =
     reject ((constraintsJson \<noteq> None \<and> \<not> plainObject constraintsJson) \<or> (constr \<noteq> None \<and> \<not> plainObject constr))
       ''invalid_delegation_constraint''
    (let out0 = jspread (object_of constraintsJson) (object_of constr);
         out1 = (if is_number (jget out0 ''max_depth'') \<and> jget out0 ''max_hops'' = None
                 then AList.update ''max_hops'' (the (jget out0 ''max_depth'')) out0 else out0);
         out2 = (if ttlSeconds \<noteq> None \<and> jget out1 ''ttl_seconds'' = None
                 then AList.update ''ttl_seconds'' (JInt (the ttlSeconds)) out1 else out1)
     in ebind (ConstraintBody e out2) (\<lambda>k.
        reject (k_max_depth k \<noteq> None \<and> k_max_hops k \<noteq> None \<and> k_max_depth k \<noteq> k_max_hops k) ''invalid_max_hops''
       (Inr k)))"

text \<open>The stored form: the fields that are present.\<close>

definition jfield :: "string \<Rightarrow> ('a \<Rightarrow> json) \<Rightarrow> 'a option \<Rightarrow> (string \<times> json) list" where
  "jfield k f v = (case v of None \<Rightarrow> [] | Some x \<Rightarrow> [(k, f x)])"

definition constraints_json :: "constraints \<Rightarrow> json" where
  "constraints_json k = JObj (
     jfield ''resources'' jstrs (k_resources k) @ jfield ''max_depth'' JInt (k_max_depth k) @
     jfield ''max_hops'' JInt (k_max_hops k) @ jfield ''budget'' JInt (k_budget k) @
     jfield ''ttl_seconds'' JInt (k_ttl k) @ jfield ''policy_approved'' JBool (k_approved k) @
     jfield ''expires_at'' JStr (k_expires k) @ jfield ''broad_reason'' JStr (k_broad k))"

subsection \<open>The create request\<close>

record delegation_body =
  q_source :: string
  q_target :: string
  q_issuer :: string
  q_receiver :: string
  q_parent :: "string option"
  q_resource :: "string option"
  q_scopes :: "string list"
  q_constraints :: "json option"
  q_constraints_json :: "json option"
  q_expires :: "string option"
  q_ttl :: "int option"

definition DelegationBody :: "env \<Rightarrow> json \<Rightarrow> delegation_body option" where
  "DelegationBody e j = do {
     ob \<leftarrow> z_record j;
     src \<leftarrow> z_field z_nonempty (jget ob ''source_session_id'');
     tgt \<leftarrow> z_field z_nonempty (jget ob ''target_session_id'');
     issuer \<leftarrow> z_field z_nonempty (jget ob ''issuer_application_id'');
     receiver \<leftarrow> z_field z_nonempty (jget ob ''receiver_application_id'');
     parent \<leftarrow> z_optional z_nonempty (jget ob ''parent_edge_id'');
     resource \<leftarrow> z_nullable z_nonempty (jget ob ''resource_id'');
     scopes \<leftarrow> z_default [] (z_array z_nonempty) (jget ob ''scopes'');
     expires \<leftarrow> z_optional (z_datetime e) (jget ob ''expires_at'');
     ttl \<leftarrow> z_optional (z_int 1 86400) (jget ob ''ttl_seconds'');
     Some \<lparr>q_source = src, q_target = tgt, q_issuer = issuer, q_receiver = receiver, q_parent = parent,
       q_resource = resource, q_scopes = scopes, q_constraints = jget ob ''constraints'',
       q_constraints_json = jget ob ''constraints_json'', q_expires = expires, q_ttl = ttl\<rparr> }"

definition requested_expiry :: "delegation_body \<Rightarrow> constraints \<Rightarrow> string option" where
  "requested_expiry b k = (case q_expires b of Some s \<Rightarrow> Some s | None \<Rightarrow> k_expires k)"

definition delegation_ttl :: "delegation_body \<Rightarrow> constraints \<Rightarrow> int option" where
  "delegation_ttl b k = (if truthy (requested_expiry b k) then None else k_ttl k)"

definition resource_scoped :: "delegation_body \<Rightarrow> constraints \<Rightarrow> bool" where
  "resource_scoped b k = (q_resource b \<noteq> None \<or> (case k_resources k of None \<Rightarrow> False | Some rs \<Rightarrow> rs \<noteq> []))"

definition may_delegate_broad :: "auth \<Rightarrow> string \<Rightarrow> bool" where
  "may_delegate_broad req issuer = (requireScope req ''coordinator.admin'' \<or>
     requireScope req ''coordinator.delegate_broad'' \<or> requireScope req (''coordinator.delegate_broad:'' @ issuer))"

definition broadened :: "constraints \<Rightarrow> constraints" where
  "broadened k = k\<lparr>k_broad := (case k_broad k of None \<Rightarrow> Some ''resource_null_delegation'' | Some s \<Rightarrow> Some s),
     k_approved := Some True\<rparr>"

definition delegation_checks :: "env \<Rightarrow> auth \<Rightarrow> zone \<Rightarrow> header \<Rightarrow> json \<Rightarrow>
    reply + (delegation_body \<times> constraints \<times> string option)" where
  "delegation_checks e req z hdr body =
     ebind (parseParams [z]) (\<lambda>_.
     expect (DelegationBody e body) invalid_body (\<lambda>b.
     ebind (case normalizedConstraints e (q_constraints_json b) (q_constraints b) (q_ttl b) of
              Inl msg \<Rightarrow> Inl (err 400 msg) | Inr k \<Rightarrow> Inr k) (\<lambda>k.
     reject (\<not> truthy (requested_expiry b k) \<and> delegation_ttl b k = None) (err 400 ''delegation_expiry_required'')
    (reject (\<not> ownsApplication req (q_issuer b) \<and> \<not> requireScope req (''coordinator.delegate_from:'' @ q_issuer b))
       (err 403 ''issuer_ownership_required'')
    (reject (q_source b = q_target b) (err 400 ''self_delegation_denied'')
    (reject (\<not> resource_scoped b k \<and> \<not> may_delegate_broad req (q_issuer b))
       (err 403 ''broad_delegation_permission_required'')
    (ebind (parseIdempotencyKey hdr) (\<lambda>key.
     Inr (b, if resource_scoped b k then k else broadened k, key)))))))))"

definition delegation_request :: "auth \<Rightarrow> delegation_body \<Rightarrow> constraints \<Rightarrow> json" where
  "delegation_request req b k = JObj
    [(''principal'', JObj [(''client_id'', JStr (au_client req)), (''subject'', JStr (au_subject req))]),
     (''source_session_id'', JStr (q_source b)), (''target_session_id'', JStr (q_target b)),
     (''issuer_application_id'', JStr (q_issuer b)), (''receiver_application_id'', JStr (q_receiver b)),
     (''parent_edge_id'', jopt JStr (q_parent b)), (''resource_id'', jopt JStr (q_resource b)),
     (''scopes'', jstrs (sort (q_scopes b))), (''constraints'', constraints_json k),
     (''expires_at'', jopt JStr (requested_expiry b k)), (''ttl_seconds'', jopt JInt (delegation_ttl b k))]"

subsection \<open>Endpoints and resources\<close>

definition active_endpoint :: "env \<Rightarrow> session \<Rightarrow> bool" where
  "active_endpoint e s = (s_status s = SActive \<and>
     ((case s_ttl s of None \<Rightarrow> False | Some t \<Rightarrow> now e < s_started s + t * 1000) \<or>
      (s_lifecycle s = Service \<and> (case s_deadline s of None \<Rightarrow> False | Some t \<Rightarrow> now e < t))))"

definition activeSessionEndpoints :: "env \<Rightarrow> db \<Rightarrow> zone \<Rightarrow> string \<Rightarrow> string \<Rightarrow> session option \<times> session option" where
  "activeSessionEndpoints e d z sourceId targetId =
    (let rows = filter (\<lambda>s. s_zone s = z \<and> s_id s \<in> {sourceId, targetId} \<and> active_endpoint e s) (sessions d)
     in (fold (\<lambda>row src. if s_id row = sourceId then Some row else src) rows None,
         fold (\<lambda>row tgt. if s_id row = targetId then Some row else tgt) rows None))"

definition live_resource :: "zone \<Rightarrow> resource \<Rightarrow> bool" where
  "live_resource z r = (res_zone r = z \<and> res_archived r = None)"

definition getResource :: "db \<Rightarrow> zone \<Rightarrow> string \<Rightarrow> resource option" where
  "getResource d z resourceId =
     find (\<lambda>r. (res_id r = resourceId \<or> res_identifier r = resourceId) \<and> live_resource z r) (resources d)"

definition resolveResourceAuthority :: "db \<Rightarrow> zone \<Rightarrow> string option \<Rightarrow> string list \<Rightarrow> reply + resource list" where
  "resolveResourceAuthority d z resourceId identifiers =
     ebind (if truthy resourceId
            then expect (getResource d z (the resourceId)) (err 404 ''resource_not_found'') (\<lambda>r. Inr [(res_id r, r)])
            else Inr []) (\<lambda>named.
     if identifiers = [] then Inr (map snd named)
     else let uniqueIdentifiers = uniq identifiers;
              rows = filter (\<lambda>r. res_identifier r \<in> set uniqueIdentifiers \<and> live_resource z r) (resources d)
          in reject (length rows \<noteq> length uniqueIdentifiers) (err 404 ''resource_not_found'')
            (reject (truthy resourceId \<and>
                     \<not> list_ex (\<lambda>r. res_id r = the resourceId \<or> res_identifier r = the resourceId) rows)
               (err 400 ''delegation_resource_scope_mismatch'')
            (Inr (map snd (fold (\<lambda>r m. AList.update (res_id r) r m) rows named)))))"

text \<open>The stored reference: the row id of the resource the request names in either form.\<close>

definition normalized_resource :: "delegation_body \<Rightarrow> resource list \<Rightarrow> string option" where
  "normalized_resource b items =
    (if truthy (q_resource b)
     then case find (\<lambda>r. res_id r = the (q_resource b) \<or> res_identifier r = the (q_resource b)) items of
            None \<Rightarrow> q_resource b | Some r \<Rightarrow> Some (res_id r)
     else q_resource b)"

subsection \<open>Narrowing against the parent\<close>

record parent_edge =
  p_id :: string
  p_resource :: "string option"
  p_identifier :: "string option"
  p_scopes :: "string list"
  p_constraints :: json
  p_expires :: time

definition parent_of_edge :: "db \<Rightarrow> edge \<Rightarrow> parent_edge" where
  "parent_of_edge d g =
     \<lparr>p_id = e_id g, p_resource = e_resource g,
      p_identifier = (case e_resource g of None \<Rightarrow> None
        | Some i \<Rightarrow> map_option res_identifier (find (\<lambda>r. res_id r = i \<and> res_zone r = e_zone g) (resources d))),
      p_scopes = e_scopes g, p_constraints = e_constraints g, p_expires = e_expires g\<rparr>"

definition activeParentDelegations :: "env \<Rightarrow> db \<Rightarrow> zone \<Rightarrow> string \<Rightarrow> parent_edge list" where
  "activeParentDelegations e d z targetSessionId =
     map (parent_of_edge d) (filter (\<lambda>g. e_zone g = z \<and> e_target g = targetSessionId \<and> live_edge e g) (edges d))"

definition resourcesNarrowParent :: "parent_edge \<Rightarrow> constraints \<Rightarrow> string option \<Rightarrow> resource list \<Rightarrow> bool" where
  "resourcesNarrowParent parent parentConstraints childResourceId childResources =
    (let parentIdentifiers = (case k_resources parentConstraints of None \<Rightarrow> [] | Some rs \<Rightarrow> rs) in
     if truthy (p_resource parent)
     then childResourceId = p_resource parent \<or>
          (childResources \<noteq> [] \<and> list_all (\<lambda>r. Some (res_id r) = p_resource parent) childResources)
     else if parentIdentifiers \<noteq> []
     then childResources \<noteq> [] \<and> list_all (\<lambda>r. res_identifier r \<in> set parentIdentifiers) childResources
     else True)"

definition max_hops_of :: "constraints \<Rightarrow> int" where
  "max_hops_of k = (case k_max_hops k of None \<Rightarrow> 1 | Some n \<Rightarrow> n)"

definition parentAllowsDelegation :: "env \<Rightarrow> parent_edge \<Rightarrow> delegation_body \<Rightarrow> constraints \<Rightarrow> resource list \<Rightarrow> string option \<Rightarrow> bool" where
  "parentAllowsDelegation e parent b childConstraints items expiresAt =
    (case normalizedConstraints e (Some (p_constraints parent)) None None of
       Inl _ \<Rightarrow> False
     | Inr k \<Rightarrow>
         scopesAllowed (q_scopes b) (p_scopes parent) \<and>
         (case expiresAt of None \<Rightarrow> True
            | Some s \<Rightarrow> (case datetime e s of None \<Rightarrow> True | Some t \<Rightarrow> \<not> p_expires parent < t)) \<and>
         resourcesNarrowParent parent k (q_resource b) items \<and>
         \<not> (max_hops_of k \<le> 1 \<or> max_hops_of k - 1 < max_hops_of childConstraints) \<and>
         (case k_ttl k of None \<Rightarrow> True
            | Some t \<Rightarrow> (case k_ttl childConstraints of None \<Rightarrow> False | Some ct \<Rightarrow> \<not> t < ct)) \<and>
         (case k_budget k of None \<Rightarrow> True
            | Some n \<Rightarrow> \<not> n < (case k_budget childConstraints of None \<Rightarrow> int (length (q_scopes b)) | Some cb \<Rightarrow> cb)))"

definition choose_parent :: "delegation_body \<Rightarrow> parent_edge list \<Rightarrow> parent_edge option" where
  "choose_parent b parents = (case q_parent b of
      Some i \<Rightarrow> find (\<lambda>p. p_id p = i) parents
    | None \<Rightarrow> (case parents of [p] \<Rightarrow> Some p | _ \<Rightarrow> None))"

text \<open>The parent edge the new edge hangs from: none when no live edge reaches the source.\<close>

definition delegation_parent :: "env \<Rightarrow> delegation_body \<Rightarrow> constraints \<Rightarrow> resource list \<Rightarrow> parent_edge list \<Rightarrow> reply + string option" where
  "delegation_parent e b k items parents =
    (if parents = [] then Inr None
     else expect (choose_parent b parents)
            (if q_parent b \<noteq> None then err 403 ''parent_delegation_not_active'' else err 409 ''parent_delegation_ambiguous'') (\<lambda>p.
          reject (\<not> parentAllowsDelegation e p b k items (requested_expiry b k)) (err 403 ''delegation_exceeds_parent_authority'')
         (Inr (Some (p_id p)))))"

subsection \<open>Creating a delegation\<close>

definition edge_expiry :: "env \<Rightarrow> delegation_body \<Rightarrow> constraints \<Rightarrow> time option" where
  "edge_expiry e b k = (case requested_expiry b k of
      Some s \<Rightarrow> datetime e s
    | None \<Rightarrow> (case delegation_ttl b k of None \<Rightarrow> None | Some t \<Rightarrow> Some (now e + t * 1000)))"

definition expiry_allowed :: "env \<Rightarrow> db \<Rightarrow> zone \<Rightarrow> string option \<Rightarrow> time \<Rightarrow> bool" where
  "expiry_allowed e d z parentEdgeId t = (now e < t \<and>
     (case parentEdgeId of None \<Rightarrow> True
        | Some p \<Rightarrow> (case find (\<lambda>g. e_id g = p \<and> e_zone g = z) (edges d) of None \<Rightarrow> False | Some g \<Rightarrow> t \<le> e_expires g)))"

definition new_edge :: "env \<Rightarrow> zone \<Rightarrow> delegation_body \<Rightarrow> constraints \<Rightarrow> string \<Rightarrow> string option \<Rightarrow> time \<Rightarrow> edge" where
  "new_edge e z b k edgeId parentEdgeId t =
     \<lparr>e_id = edgeId, e_zone = z, e_source = q_source b, e_target = q_target b, e_issuer = q_issuer b,
      e_receiver = q_receiver b, e_parent = parentEdgeId, e_resource = q_resource b, e_scopes = q_scopes b,
      e_constraints = constraints_json k, e_status = EActive, e_expires = t, e_version = 0,
      e_revoked = None, e_created = now e, e_updated = now e\<rparr>"

definition edge_row :: "string \<Rightarrow> edge \<Rightarrow> (string \<times> json) list" where
  "edge_row idKey g =
    [(idKey, JStr (e_id g)), (''zone_id'', JStr (e_zone g)), (''source_session_id'', JStr (e_source g)),
     (''target_session_id'', JStr (e_target g)), (''issuer_application_id'', JStr (e_issuer g)),
     (''receiver_application_id'', JStr (e_receiver g)), (''parent_edge_id'', jopt JStr (e_parent g)),
     (''resource_id'', jopt JStr (e_resource g)), (''scopes'', jstrs (e_scopes g)),
     (''constraints_json'', e_constraints g), (''status'', JStr (show_edge_status (e_status g))),
     (''expires_at'', jtime (e_expires g)), (''edge_version'', JInt (e_version g)),
     (''revoked_at'', jopt jtime (e_revoked g)), (''created_at'', jtime (e_created g))]"

definition effectiveAuthority :: "delegation_body \<Rightarrow> constraints \<Rightarrow> resource list \<Rightarrow> time \<Rightarrow> parent_edge list \<Rightarrow> string option \<Rightarrow> json" where
  "effectiveAuthority b k rs t parents parentEdgeId = JObj
    [(''source_session_id'', JStr (q_source b)), (''target_session_id'', JStr (q_target b)),
     (''parent_edge_id'', jopt JStr parentEdgeId), (''resource_id'', jopt JStr (q_resource b)),
     (''resources'', jstrs (map res_identifier rs)), (''scopes'', jstrs (q_scopes b)),
     (''expires_at'', jtime t), (''max_hops'', JInt (max_hops_of k)), (''ttl_seconds'', jopt JInt (k_ttl k)),
     (''broad'', JBool (q_resource b = None \<and> rs = [])),
     (''parent_edges_considered'', jstrs (map p_id parents))]"

definition delegation_response :: "delegation_body \<Rightarrow> constraints \<Rightarrow> resource list \<Rightarrow> parent_edge list \<Rightarrow> bool \<Rightarrow> edge \<Rightarrow> json" where
  "delegation_response b k rs parents scoped g = JObj (edge_row ''delegation_edge_id'' g @
    [(''warnings'', jstrs (if scoped then [] else [''resource_null_delegation_broadens_resource_matching''])),
     (''allow_reason'', jstrs [''same_zone_endpoints_active'',
        if scoped then ''resource_scope_checked'' else ''broad_delegation_elevated'',
        if e_parent g \<noteq> None then ''parent_authority_narrowed'' else ''source_authority_root'',
        ''typed_constraints_validated'']),
     (''effective_authority'', effectiveAuthority b k rs (e_expires g) parents (e_parent g))])"

definition delegation_receipt :: "zone \<Rightarrow> delegation_body \<Rightarrow> string \<Rightarrow> string \<Rightarrow> string \<Rightarrow> json \<Rightarrow> int \<Rightarrow> icomplete_input" where
  "delegation_receipt z b kd qd edgeId response retention =
     \<lparr>ic_operation = ''delegation.create.v2'', ic_zone = z, ic_scope = q_issuer b, ic_key = kd, ic_request = qd,
      ic_type = ''delegation_edge'', ic_resource = edgeId, ic_status = 201, ic_response = response, ic_retention = retention\<rparr>"

text \<open>The epoch, the event, the response and, for a keyed request, its receipt.\<close>

definition delegation_finish :: "env \<Rightarrow> cfg \<Rightarrow> zone \<Rightarrow> delegation_body \<Rightarrow> json \<Rightarrow> edge \<Rightarrow> (string \<times> string) option \<Rightarrow>
    db \<Rightarrow> reply + (reply \<times> db)" where
  "delegation_finish e c z b response g receipt d =
    (let (epoch, d1) = bumpDelegationEpoch z d;
         d2 = enqueue e DelegationsInvalidate (''edge_create:'' @ e_id g)
                (edge_create_event z (e_id g) (e_source g) (e_target g) epoch) d1
     in case receipt of
          None \<Rightarrow> Inr (send 201 response, d2)
        | Some (kd, qd) \<Rightarrow>
            ebind (completeIdempotency e (delegation_receipt z b kd qd (e_id g) response (idempotencyRetentionSeconds c)) d2)
              (\<lambda>d3. Inr (send 201 response, d3)))"

text \<open>The checks before the insert: endpoints, resources and scopes, the parent edge and the cycle check.\<close>

definition delegation_admit :: "env \<Rightarrow> zone \<Rightarrow> delegation_body \<Rightarrow> constraints \<Rightarrow> db \<Rightarrow>
    reply + (delegation_body \<times> resource list \<times> parent_edge list \<times> string option)" where
  "delegation_admit e z b k d =
    (case activeSessionEndpoints e d z (q_source b) (q_target b) of
       (Some src, Some tgt) \<Rightarrow>
         reject (s_app src \<noteq> q_issuer b \<or> s_app tgt \<noteq> q_receiver b) (err 409 ''delegation_application_mismatch'')
        (ebind (resolveResourceAuthority d z (q_resource b) (case k_resources k of None \<Rightarrow> [] | Some rs \<Rightarrow> rs)) (\<lambda>rs.
         let b1 = b\<lparr>q_resource := normalized_resource b rs\<rparr>; parents = activeParentDelegations e d z (q_source b) in
         reject (rs \<noteq> [] \<and> \<not> scopesAllowed (q_scopes b) (uniq (concat (map res_scopes rs))))
           (err 403 ''delegation_scopes_exceed_resource'')
        (ebind (delegation_parent e b1 k rs parents) (\<lambda>parentEdgeId.
         reject (wouldCreateCycle e d z (q_source b) (q_target b)) (err 409 ''delegation_cycle_denied'')
        (Inr (b1, rs, parents, parentEdgeId))))))
     | _ \<Rightarrow> Inl (err 404 ''delegation_endpoint_not_found''))"

definition delegation_new :: "env \<Rightarrow> cfg \<Rightarrow> zone \<Rightarrow> delegation_body \<Rightarrow> constraints \<Rightarrow> (string \<times> string) option \<Rightarrow>
    db \<Rightarrow> reply + (reply \<times> db)" where
  "delegation_new e c z b k receipt d =
     ebind (delegation_admit e z b k d) (\<lambda>(b1, rs, parents, parentEdgeId).
     case edge_expiry e b1 k of
       Some t \<Rightarrow>
         reject (\<not> expiry_allowed e d z parentEdgeId t)
           (if parentEdgeId \<noteq> None then err 403 ''delegation_exceeds_parent_authority'' else err 400 ''delegation_expired'')
        (let g = new_edge e z b1 k (uuidv7 e (uuids d)) parentEdgeId t in
         ebind (insert_edge g (d\<lparr>uuids := Suc (uuids d)\<rparr>)) (\<lambda>d1.
         delegation_finish e c z b1 (delegation_response b1 k rs parents (resource_scoped b k) g) g receipt d1))
     | None \<Rightarrow> Inl (if parentEdgeId \<noteq> None then err 403 ''delegation_exceeds_parent_authority'' else err 400 ''delegation_expired''))"

definition delegation_tx :: "env \<Rightarrow> cfg \<Rightarrow> auth \<Rightarrow> zone \<Rightarrow> delegation_body \<Rightarrow> constraints \<Rightarrow> string option \<Rightarrow>
    db \<Rightarrow> reply + (reply \<times> db)" where
  "delegation_tx e c req z b k key d =
    (case key of
       None \<Rightarrow> delegation_new e c z b k None d
     | Some ik \<Rightarrow>
        (case startIdempotency e c \<lparr>in_operation = ''delegation.create.v2'', in_zone = z, in_scope = q_issuer b,
                in_key = ik, in_request = delegation_request req b k\<rparr> d of
           (Conflict, _) \<Rightarrow> Inl (err 409 ''idempotency_key_conflict'')
         | (Limit, _) \<Rightarrow> Inl (err 429 ''idempotency_receipt_limit_exceeded'')
         | (Replayed status response resourceId, d1) \<Rightarrow>
             reject (\<not> list_ex (\<lambda>g. e_id g = resourceId \<and> e_zone g = z \<and> e_issuer g = q_issuer b \<and> live_edge e g) (edges d1))
               (err 409 ''idempotency_result_inactive'')
             (Inr (\<lparr>code = status, replayed = True, payload = response\<rparr>, d1))
         | (New kd qd, d1) \<Rightarrow> delegation_new e c z b k (Some (kd, qd)) d1))"

definition create_delegation :: "env \<Rightarrow> cfg \<Rightarrow> auth \<Rightarrow> zone \<Rightarrow> header \<Rightarrow> json \<Rightarrow> db \<Rightarrow> reply \<times> db" where
  "create_delegation e c req z hdr body d =
    (case delegation_checks e req z hdr body of
       Inl r \<Rightarrow> (r, d)
     | Inr (b, k, key) \<Rightarrow> transact (delegation_tx e c req z b k key) d)"

end
