(* ===== verification/Narrowing.thy ===== *)
theory Narrowing
  imports Delegations
begin

text \<open>
  What creating a delegation guarantees: the stored constraints read back as the validated ones, the
  new edge holds no more than the edge it hangs from (\<open>attenuates\<close>, a preorder, so chains narrow as
  a whole), it is live, and no short cycle of live edges arises.
\<close>

subsection \<open>Stored constraints read back\<close>

definition edge_constraints :: "env \<Rightarrow> json \<Rightarrow> string + constraints" where
  "edge_constraints e j = normalizedConstraints e (Some j) None None"

definition constraints_ok :: "env \<Rightarrow> constraints \<Rightarrow> bool" where
  "constraints_ok e k \<longleftrightarrow>
     (case k_resources k of None \<Rightarrow> True | Some rs \<Rightarrow> length rs \<le> 64 \<and> [] \<notin> set rs) \<and>
     (case k_max_depth k of None \<Rightarrow> True | Some n \<Rightarrow> 1 \<le> n \<and> n \<le> MAX_DEPTH \<and> k_max_hops k = Some n) \<and>
     (case k_max_hops k of None \<Rightarrow> True | Some n \<Rightarrow> 1 \<le> n \<and> n \<le> MAX_DEPTH) \<and>
     (case k_budget k of None \<Rightarrow> True | Some n \<Rightarrow> 1 \<le> n \<and> n \<le> 64) \<and>
     (case k_ttl k of None \<Rightarrow> True | Some n \<Rightarrow> 1 \<le> n \<and> n \<le> 86400) \<and>
     (case k_expires k of None \<Rightarrow> True | Some s \<Rightarrow> datetime e s \<noteq> None) \<and>
     (case k_broad k of None \<Rightarrow> True | Some s \<Rightarrow> s \<noteq> [] \<and> length s \<le> 256)"

lemma those_Some: "those xs = Some ys \<longleftrightarrow> xs = map Some ys"
  by (induction xs arbitrary: ys) (auto split: option.splits simp: map_eq_Cons_conv Cons_eq_map_conv)

lemma z_nonempty_iff: "z_nonempty j = Some s \<longleftrightarrow> j = JStr s \<and> s \<noteq> []"
  by (cases j) auto

lemma z_array_max_nonempty: "z_array_max n z_nonempty j = Some xs \<longleftrightarrow> j = jstrs xs \<and> length xs \<le> n \<and> [] \<notin> set xs"
proof -
  have "map z_nonempty js = map Some xs \<longleftrightarrow> js = map JStr xs \<and> [] \<notin> set xs" for js xs
  proof (induction js arbitrary: xs)
    case (Cons j js)
    then show ?case by (cases xs) (auto simp: z_nonempty_iff)
  qed auto
  then have *: "z_array z_nonempty j = Some ys \<longleftrightarrow> j = jstrs ys \<and> [] \<notin> set ys" for ys
    using those_Some [of "map z_nonempty _" ys] by (cases j) (simp_all add: z_array_def jstrs_def those_Some)
  show ?thesis
  proof (cases "z_array z_nonempty j")
    case None
    then show ?thesis using * [of xs] by (simp add: z_array_max_def)
  next
    case (Some ys)
    then have "j = jstrs ys" "[] \<notin> set ys" using * [of ys] by simp_all
    moreover have "jstrs ys = jstrs xs \<longleftrightarrow> ys = xs" by (simp add: jstrs_def inj_map_eq_map inj_def)
    ultimately show ?thesis using Some by (simp add: z_array_max_def) blast
  qed
qed

lemma z_text_iff: "z_text n j = Some s \<longleftrightarrow> j = JStr s \<and> s \<noteq> [] \<and> length s \<le> n"
  by (cases "z_nonempty j") (auto simp: z_text_def z_nonempty_iff split: if_splits)

lemma z_bool_iff: "z_bool j = Some b \<longleftrightarrow> j = JBool b"
  by (cases j) auto

lemma z_datetime_iff: "z_datetime e j = Some s \<longleftrightarrow> j = JStr s \<and> datetime e s \<noteq> None"
  by (cases j) (auto simp: z_datetime_def)

lemma z_optional_cases:
  assumes "z_optional f j = Some v"
  shows "case v of None \<Rightarrow> j = None | Some x \<Rightarrow> (\<exists>y. j = Some y \<and> f y = Some x)"
  using assms by (cases v) (auto simp: z_optional_Some)

lemmas z_iffs = z_array_max_nonempty z_text_iff z_bool_iff z_datetime_iff z_int_Some

lemma z_optional_map:
  "z_optional f (map_option g v) = Some v \<longleftrightarrow> (case v of None \<Rightarrow> True | Some x \<Rightarrow> f (g x) = Some x)"
  by (cases v) (auto simp: z_optional_def)

lemma jget_jfield [simp]:
  "jget (jfield k f v @ rest) k' = (if k' = k then case v of None \<Rightarrow> jget rest k' | Some x \<Rightarrow> Some (f x) else jget rest k')"
  "jget (jfield k f v) k' = (if k' = k then map_option f v else None)"
  by (cases v; simp add: jfield_def jget_def)+

definition constraint_fields :: "constraints \<Rightarrow> (string \<times> json) list" where
  "constraint_fields k = object_of (Some (constraints_json k))"

lemma jget_constraint_fields:
  "jget (constraint_fields k) ''resources'' = map_option jstrs (k_resources k)"
  "jget (constraint_fields k) ''max_depth'' = map_option JInt (k_max_depth k)"
  "jget (constraint_fields k) ''max_hops'' = map_option JInt (k_max_hops k)"
  "jget (constraint_fields k) ''budget'' = map_option JInt (k_budget k)"
  "jget (constraint_fields k) ''ttl_seconds'' = map_option JInt (k_ttl k)"
  "jget (constraint_fields k) ''policy_approved'' = map_option JBool (k_approved k)"
  "jget (constraint_fields k) ''expires_at'' = map_option JStr (k_expires k)"
  "jget (constraint_fields k) ''broad_reason'' = map_option JStr (k_broad k)"
  by (simp_all add: constraint_fields_def constraints_json_def object_of_def map_option_case split: option.split)

lemma ConstraintBody_Inr:
  "ConstraintBody e ob = Inr k \<longleftrightarrow>
     z_optional (z_array_max 64 z_nonempty) (jget ob ''resources'') = Some (k_resources k) \<and>
     z_optional (z_int 1 MAX_DEPTH) (jget ob ''max_depth'') = Some (k_max_depth k) \<and>
     z_optional (z_int 1 MAX_DEPTH) (jget ob ''max_hops'') = Some (k_max_hops k) \<and>
     z_optional (z_int 1 64) (jget ob ''budget'') = Some (k_budget k) \<and>
     z_optional (z_int 1 86400) (jget ob ''ttl_seconds'') = Some (k_ttl k) \<and>
     z_optional z_bool (jget ob ''policy_approved'') = Some (k_approved k) \<and>
     z_optional (z_datetime e) (jget ob ''expires_at'') = Some (k_expires k) \<and>
     z_optional (z_text 256) (jget ob ''broad_reason'') = Some (k_broad k) \<and>
     set (map fst ob) \<subseteq> set constraint_keys"
  by (cases k) (auto simp: ConstraintBody_def list_ex_iff)

lemma ConstraintBody_range:
  assumes "ConstraintBody e ob = Inr k"
  shows "case k_resources k of None \<Rightarrow> True | Some rs \<Rightarrow> length rs \<le> 64 \<and> [] \<notin> set rs"
    "case k_max_depth k of None \<Rightarrow> True | Some n \<Rightarrow> jget ob ''max_depth'' = Some (JInt n) \<and> 1 \<le> n \<and> n \<le> MAX_DEPTH"
    "case k_max_hops k of None \<Rightarrow> jget ob ''max_hops'' = None | Some n \<Rightarrow> 1 \<le> n \<and> n \<le> MAX_DEPTH"
    "case k_budget k of None \<Rightarrow> True | Some n \<Rightarrow> 1 \<le> n \<and> n \<le> 64"
    "case k_ttl k of None \<Rightarrow> True | Some n \<Rightarrow> 1 \<le> n \<and> n \<le> 86400"
    "case k_expires k of None \<Rightarrow> True | Some s \<Rightarrow> datetime e s \<noteq> None"
    "case k_broad k of None \<Rightarrow> True | Some s \<Rightarrow> s \<noteq> [] \<and> length s \<le> 256"
proof -
  note B = assms [unfolded ConstraintBody_Inr]
  note cs = B [THEN conjunct1] B [THEN conjunct2, THEN conjunct1] B [THEN conjunct2, THEN conjunct2, THEN conjunct1]
    B [THEN conjunct2, THEN conjunct2, THEN conjunct2, THEN conjunct1]
    B [THEN conjunct2, THEN conjunct2, THEN conjunct2, THEN conjunct2, THEN conjunct1]
    B [THEN conjunct2, THEN conjunct2, THEN conjunct2, THEN conjunct2, THEN conjunct2, THEN conjunct2, THEN conjunct1]
    B [THEN conjunct2, THEN conjunct2, THEN conjunct2, THEN conjunct2, THEN conjunct2, THEN conjunct2, THEN conjunct2, THEN conjunct1]
  show "case k_resources k of None \<Rightarrow> True | Some rs \<Rightarrow> length rs \<le> 64 \<and> [] \<notin> set rs"
    using z_optional_cases [OF cs(1)] by (simp add: z_array_max_nonempty split: option.splits)
  show "case k_max_depth k of None \<Rightarrow> True | Some n \<Rightarrow> jget ob ''max_depth'' = Some (JInt n) \<and> 1 \<le> n \<and> n \<le> MAX_DEPTH"
    using z_optional_cases [OF cs(2)] by (simp add: z_int_Some split: option.splits)
  show "case k_max_hops k of None \<Rightarrow> jget ob ''max_hops'' = None | Some n \<Rightarrow> 1 \<le> n \<and> n \<le> MAX_DEPTH"
    using z_optional_cases [OF cs(3)] by (simp add: z_int_Some split: option.splits)
  show "case k_budget k of None \<Rightarrow> True | Some n \<Rightarrow> 1 \<le> n \<and> n \<le> 64"
    using z_optional_cases [OF cs(4)] by (simp add: z_int_Some split: option.splits)
  show "case k_ttl k of None \<Rightarrow> True | Some n \<Rightarrow> 1 \<le> n \<and> n \<le> 86400"
    using z_optional_cases [OF cs(5)] by (simp add: z_int_Some split: option.splits)
  show "case k_expires k of None \<Rightarrow> True | Some s \<Rightarrow> datetime e s \<noteq> None"
    using z_optional_cases [OF cs(6)] by (simp add: z_datetime_iff split: option.splits)
  show "case k_broad k of None \<Rightarrow> True | Some s \<Rightarrow> s \<noteq> [] \<and> length s \<le> 256"
    using z_optional_cases [OF cs(7)] by (simp add: z_text_iff split: option.splits)
qed

lemma normalized_ok:
  assumes "normalizedConstraints e cj cs ttl = Inr k"
  shows "constraints_ok e k"
proof -
  from assms obtain ob where ob: "ConstraintBody e ob = Inr k"
    and same: "\<not> (k_max_depth k \<noteq> None \<and> k_max_hops k \<noteq> None \<and> k_max_depth k \<noteq> k_max_hops k)"
    and filled: "is_number (jget ob ''max_depth'') \<longrightarrow> jget ob ''max_hops'' \<noteq> None"
    unfolding normalizedConstraints_def Let_def ebind_Inr reject_Inr
    by (auto split: if_splits)
  note R = ConstraintBody_range [OF ob]
  have "k_max_hops k = Some n" if "k_max_depth k = Some n" for n
  proof -
    have "k_max_hops k \<noteq> None"
      using R(2,3) filled that by (cases "k_max_hops k") (auto simp: is_number_def)
    with same that show ?thesis by auto
  qed
  with R show ?thesis unfolding constraints_ok_def by (auto split: option.splits)
qed

lemma fields_constraint_keys: "set (map fst (constraint_fields k)) \<subseteq> set constraint_keys"
  by (auto simp: constraint_fields_def constraints_json_def object_of_def jfield_def constraint_keys_def split: option.splits)

lemma constraints_read_back:
  assumes "constraints_ok e k"
  shows "edge_constraints e (constraints_json k) = Inr k"
proof -
  have ob: "object_of (Some (constraints_json k)) = constraint_fields k" "object_of None = []"
    by (simp_all add: constraint_fields_def object_of_def)
  have body: "ConstraintBody e (constraint_fields k) = Inr k"
    unfolding ConstraintBody_Inr jget_constraint_fields z_optional_map
  proof (intro conjI)
    note D = assms [unfolded constraints_ok_def]
    show "case k_resources k of None \<Rightarrow> True | Some x \<Rightarrow> z_array_max 64 z_nonempty (jstrs x) = Some x"
      using D by (cases "k_resources k") (simp_all add: z_array_max_nonempty)
    show "case k_max_depth k of None \<Rightarrow> True | Some x \<Rightarrow> z_int 1 MAX_DEPTH (JInt x) = Some x"
      using D by (cases "k_max_depth k") simp_all
    show "case k_max_hops k of None \<Rightarrow> True | Some x \<Rightarrow> z_int 1 MAX_DEPTH (JInt x) = Some x"
      using D by (cases "k_max_hops k") simp_all
    show "case k_budget k of None \<Rightarrow> True | Some x \<Rightarrow> z_int 1 64 (JInt x) = Some x"
      using D by (cases "k_budget k") simp_all
    show "case k_ttl k of None \<Rightarrow> True | Some x \<Rightarrow> z_int 1 86400 (JInt x) = Some x"
      using D by (cases "k_ttl k") simp_all
    show "case k_approved k of None \<Rightarrow> True | Some x \<Rightarrow> z_bool (JBool x) = Some x"
      by (cases "k_approved k") simp_all
    show "case k_expires k of None \<Rightarrow> True | Some x \<Rightarrow> z_datetime e (JStr x) = Some x"
      using D by (cases "k_expires k") (simp_all add: z_datetime_iff)
    show "case k_broad k of None \<Rightarrow> True | Some x \<Rightarrow> z_text 256 (JStr x) = Some x"
      using D by (cases "k_broad k") (simp_all add: z_text_iff)
    show "set (map fst (constraint_fields k)) \<subseteq> set constraint_keys" by (rule fields_constraint_keys)
  qed
  have "\<not> (is_number (jget (constraint_fields k) ''max_depth'') \<and> jget (constraint_fields k) ''max_hops'' = None)"
    using assms by (auto simp: jget_constraint_fields constraints_ok_def is_number_def split: option.splits)
  then have out: "(if is_number (jget (constraint_fields k) ''max_depth'') \<and> jget (constraint_fields k) ''max_hops'' = None
      then x else constraint_fields k) = constraint_fields k" for x by (rule if_not_P)
  have "plainObject (Some (constraints_json k))" by (simp add: plainObject_def constraints_json_def)
  moreover have "\<not> (k_max_depth k \<noteq> None \<and> k_max_hops k \<noteq> None \<and> k_max_depth k \<noteq> k_max_hops k)"
    using assms by (auto simp: constraints_ok_def)
  ultimately show ?thesis
    unfolding edge_constraints_def normalizedConstraints_def ob jget_spread_Nil Let_def out
    by (simp add: body)
qed

lemma broadened_ok: "constraints_ok e k \<Longrightarrow> constraints_ok e (broadened k)"
  by (auto simp: constraints_ok_def broadened_def split: option.splits)

subsection \<open>Attenuation\<close>

definition named_identifiers :: "constraints \<Rightarrow> string list" where
  "named_identifiers k = (case k_resources k of None \<Rightarrow> [] | Some rs \<Rightarrow> rs)"

text \<open>The resources an edge reaches: the one it names, else those its constraint names, else all.\<close>

definition edge_allows :: "constraints \<Rightarrow> edge \<Rightarrow> resource \<Rightarrow> bool" where
  "edge_allows k g r =
    (if truthy (e_resource g) then e_resource g = Some (res_id r)
     else named_identifiers k = [] \<or> res_identifier r \<in> set (named_identifiers k))"

definition ttl_within :: "constraints \<Rightarrow> constraints \<Rightarrow> bool" where
  "ttl_within k kp = (case k_ttl kp of None \<Rightarrow> True | Some t \<Rightarrow> (case k_ttl k of None \<Rightarrow> False | Some s \<Rightarrow> s \<le> t))"

definition resources_within :: "db \<Rightarrow> constraints \<Rightarrow> edge \<Rightarrow> constraints \<Rightarrow> edge \<Rightarrow> bool" where
  "resources_within d k g kp p \<longleftrightarrow>
     (\<forall>r\<in>set (resources d). live_resource (e_zone g) r \<and> edge_allows k g r \<longrightarrow> edge_allows kp p r)"

definition attenuates :: "env \<Rightarrow> db \<Rightarrow> edge \<Rightarrow> edge \<Rightarrow> bool" where
  "attenuates e d g p \<longleftrightarrow>
     e_zone g = e_zone p \<and> scopesAllowed (e_scopes g) (e_scopes p) \<and> e_expires g \<le> e_expires p \<and>
     (\<forall>kp. edge_constraints e (e_constraints p) = Inr kp \<longrightarrow>
        (\<exists>k. edge_constraints e (e_constraints g) = Inr k \<and> max_hops_of k \<le> max_hops_of kp \<and>
             ttl_within k kp \<and> resources_within d k g kp p))"

lemma attenuates_refl: "attenuates e d g g"
  by (auto simp: attenuates_def ttl_within_def resources_within_def scopes.within_refl split: option.split)

lemma attenuates_trans:
  assumes "attenuates e d f g" "attenuates e d g h"
  shows "attenuates e d f h"
proof -
  have "\<exists>k. edge_constraints e (e_constraints f) = Inr k \<and> max_hops_of k \<le> max_hops_of kh \<and>
      ttl_within k kh \<and> resources_within d k f kh h" if kh: "edge_constraints e (e_constraints h) = Inr kh" for kh
  proof -
    from assms(2) kh obtain kg where kg: "edge_constraints e (e_constraints g) = Inr kg" "max_hops_of kg \<le> max_hops_of kh"
      "ttl_within kg kh" "resources_within d kg g kh h" unfolding attenuates_def by blast
    from assms(1) kg(1) obtain kf where kf: "edge_constraints e (e_constraints f) = Inr kf" "max_hops_of kf \<le> max_hops_of kg"
      "ttl_within kf kg" "resources_within d kf f kg g" unfolding attenuates_def by blast
    have "ttl_within kf kh" using kf(3) kg(3) by (auto simp: ttl_within_def split: option.splits)
    moreover have "e_zone g = e_zone f" using assms(1) by (simp add: attenuates_def)
    then have "resources_within d kf f kh h" using kf(4) kg(4) by (simp add: resources_within_def)
    ultimately show ?thesis using kf kg by (intro exI [of _ kf]) simp
  qed
  moreover have "e_zone f = e_zone h" "e_expires f \<le> e_expires h" "scopesAllowed (e_scopes f) (e_scopes h)"
    using assms scopes.within_trans [of "e_scopes f" "e_scopes g" "e_scopes h"] by (simp_all add: attenuates_def)
  ultimately show ?thesis unfolding attenuates_def [of e d f h] by blast
qed

interpretation authority: narrowing_order "attenuates e d" for e d
  by unfold_locales (fact attenuates_refl, fact attenuates_trans)

subsection \<open>Resolved resources\<close>

definition resource_keys :: "db \<Rightarrow> bool" where
  "resource_keys d = (distinct (map res_id (resources d)) \<and> [] \<notin> set (map res_id (resources d)))"

lemma resource_keys_inj:
  "resource_keys d \<Longrightarrow> r \<in> set (resources d) \<Longrightarrow> q \<in> set (resources d) \<Longrightarrow> res_id r = res_id q \<Longrightarrow> r = q"
  by (auto simp: resource_keys_def distinct_map inj_on_def)

text \<open>A map filled from rows under their own keys holds exactly those rows.\<close>

lemma update_values:
  assumes "\<forall>(k, v)\<in>set m. k = f v" "\<And>v. v \<in> snd ` set m \<Longrightarrow> f v = f r \<Longrightarrow> v = r"
  shows "set (AList.update (f r) r m) = insert (f r, r) (set m)"
  using assms
proof (induction m)
  case (Cons p m)
  obtain k v where p: "p = (k, v)" by (cases p)
  from Cons.prems have kv: "k = f v" "f v = f r \<Longrightarrow> v = r" by (auto simp: p)
  have "set (AList.update (f r) r m) = insert (f r, r) (set m)"
    using Cons.prems by (intro Cons.IH) auto
  with kv show ?case by (auto simp: p)
qed simp

lemma fold_update_values:
  assumes "\<forall>(k, v)\<in>set m. k = f v" "inj_on f (snd ` set m \<union> set rows)"
  shows "snd ` set (fold (\<lambda>r m. AList.update (f r) r m) rows m) = snd ` set m \<union> set rows"
  using assms
proof (induction rows arbitrary: m)
  case (Cons r rows)
  have u: "set (AList.update (f r) r m) = insert (f r, r) (set m)"
    using Cons.prems by (intro update_values) (auto simp: inj_on_def)
  have "snd ` set (fold (\<lambda>r m. AList.update (f r) r m) rows (AList.update (f r) r m)) =
      snd ` set (AList.update (f r) r m) \<union> set rows"
    using Cons.prems by (intro Cons.IH) (auto simp: u)
  then show ?case by (auto simp: u)
qed simp

lemma getResource_Some:
  "getResource d z i = Some r \<Longrightarrow> r \<in> set (resources d) \<and> live_resource z r \<and> (res_id r = i \<or> res_identifier r = i)"
  by (auto simp: getResource_def dest: find_SomeD)

lemma resolve_Inr:
  assumes "resolveResourceAuthority d z rid ids = Inr rs" "resource_keys d"
  shows "\<forall>r\<in>set rs. r \<in> set (resources d) \<and> live_resource z r"
    "truthy rid \<Longrightarrow> \<exists>r\<in>set rs. res_id r = the rid \<or> res_identifier r = the rid"
    "ids \<noteq> [] \<Longrightarrow> r \<in> set (resources d) \<Longrightarrow> live_resource z r \<Longrightarrow> res_identifier r \<in> set ids \<Longrightarrow> r \<in> set rs"
proof -
  from assms(1) obtain named where named: "(if truthy rid
      then expect (getResource d z (the rid)) (err 404 ''resource_not_found'') (\<lambda>r. Inr [(res_id r, r)])
      else Inr []) = Inr named"
    and rest: "(if ids = [] then Inr (map snd named)
      else let u = uniq ids; rows = filter (\<lambda>r. res_identifier r \<in> set u \<and> live_resource z r) (resources d)
          in reject (length rows \<noteq> length u) (err 404 ''resource_not_found'')
            (reject (truthy rid \<and> \<not> list_ex (\<lambda>r. res_id r = the rid \<or> res_identifier r = the rid) rows)
               (err 400 ''delegation_resource_scope_mismatch'')
            (Inr (map snd (fold (\<lambda>r m. AList.update (res_id r) r m) rows named))))) = Inr rs"
    unfolding resolveResourceAuthority_def ebind_Inr by blast
  define rows where "rows = (if ids = [] then [] else filter (\<lambda>r. res_identifier r \<in> set ids \<and> live_resource z r) (resources d))"
  have n: "\<forall>(k, v)\<in>set named. k = res_id v \<and> v \<in> set (resources d) \<and> live_resource z v"
    "truthy rid \<Longrightarrow> \<exists>v\<in>snd ` set named. res_id v = the rid \<or> res_identifier v = the rid"
    using named getResource_Some by (auto split: if_splits)
  have "rs = map snd (fold (\<lambda>r m. AList.update (res_id r) r m) rows named)"
    using rest by (auto simp: rows_def Let_def split: if_splits)
  moreover have "snd ` set named \<union> set rows \<subseteq> set (resources d)"
    using n(1) by (auto simp: rows_def split: if_splits)
  then have "inj_on res_id (snd ` set named \<union> set rows)"
    using assms(2) by (auto simp: resource_keys_def distinct_map intro: inj_on_subset)
  ultimately have rs: "set rs = snd ` set named \<union> set rows"
    using n(1) fold_update_values [of named res_id rows] by auto
  show "\<forall>r\<in>set rs. r \<in> set (resources d) \<and> live_resource z r"
    using n(1) by (auto simp: rs rows_def split: if_splits)
  show "\<exists>r\<in>set rs. res_id r = the rid \<or> res_identifier r = the rid" if "truthy rid"
    using n(2) [OF that] by (auto simp: rs)
  show "r \<in> set rs" if "ids \<noteq> []" "r \<in> set (resources d)" "live_resource z r" "res_identifier r \<in> set ids"
    using that by (simp add: rs rows_def)
qed

lemma resolve_empty:
  assumes "resolveResourceAuthority d z rid ids = Inr rs" "resource_keys d" "rs \<noteq> []" "\<not> truthy rid"
  shows "ids \<noteq> []"
  using assms by (auto simp: resolveResourceAuthority_def)

lemma normalized_resource_mem:
  assumes "resolveResourceAuthority d z (q_resource b) ids = Inr rs" "resource_keys d" "truthy (normalized_resource b rs)"
  shows "\<exists>r\<in>set rs. normalized_resource b rs = Some (res_id r)"
proof -
  have "truthy (q_resource b)" using assms(3) by (auto simp: normalized_resource_def split: if_splits)
  with resolve_Inr(2) [OF assms(1,2)] obtain r where
    "find (\<lambda>r. res_id r = the (q_resource b) \<or> res_identifier r = the (q_resource b)) rs = Some r"
    by (metis (mono_tags, lifting) find_None_iff not_None_eq)
  then show ?thesis
    using \<open>truthy (q_resource b)\<close> by (auto simp: normalized_resource_def dest: find_SomeD)
qed

lemma resolve_none: "\<not> truthy rid \<Longrightarrow> resolveResourceAuthority d z rid [] = Inr rs \<longleftrightarrow> rs = []"
  by (auto simp: resolveResourceAuthority_def)

text \<open>The resources the child edge reaches were resolved, or the child is broad.\<close>

lemma allowed_resolved:
  assumes rs: "resolveResourceAuthority d z (q_resource b) (named_identifiers k) = Inr rs" and keys: "resource_keys d"
    and g: "e_resource g = normalized_resource b rs"
    and r: "r \<in> set (resources d)" "live_resource z r" "edge_allows k g r"
  shows "r \<in> set rs \<or> rs = [] \<and> \<not> truthy (e_resource g)"
proof (cases "truthy (e_resource g)")
  case True
  then obtain q where q: "q \<in> set rs" "e_resource g = Some (res_id q)"
    using normalized_resource_mem [OF rs keys] g by auto
  then have "q \<in> set (resources d)" "res_id q = res_id r"
    using resolve_Inr(1) [OF rs keys] r(3) True by (auto simp: edge_allows_def)
  with q(1) r(1) keys show ?thesis using resource_keys_inj by blast
next
  case False
  have "\<not> truthy (q_resource b)"
  proof
    assume t: "truthy (q_resource b)"
    then obtain q where "find (\<lambda>r. res_id r = the (q_resource b) \<or> res_identifier r = the (q_resource b)) rs = Some q"
      using resolve_Inr(2) [OF rs keys] by (metis (mono_tags, lifting) find_None_iff not_None_eq)
    then have "e_resource g = Some (res_id q)" "q \<in> set rs" using t g by (auto simp: normalized_resource_def dest: find_SomeD)
    moreover have "res_id q \<noteq> []"
      using resolve_Inr(1) [OF rs keys] \<open>q \<in> set rs\<close> keys by (force simp: resource_keys_def)
    ultimately show False using False by (simp add: truthy_iff)
  qed
  then show ?thesis
  proof (cases "named_identifiers k = []")
    case True
    then show ?thesis using rs resolve_none [OF \<open>\<not> truthy (q_resource b)\<close>] False by auto
  next
    case nonempty: False
    then have "res_identifier r \<in> set (named_identifiers k)" using r(3) False by (simp add: edge_allows_def)
    then show ?thesis using resolve_Inr(3) [OF rs keys nonempty r(1,2)] by blast
  qed
qed

lemma narrow_resources:
  assumes narrow: "resourcesNarrowParent (parent_of_edge d p) kp (normalized_resource b rs) rs"
    and rs: "resolveResourceAuthority d z (q_resource b) (named_identifiers k) = Inr rs" "resource_keys d"
    and g: "e_resource g = normalized_resource b rs" "e_zone g = z"
  shows "resources_within d k g kp p"
  unfolding resources_within_def
proof (intro ballI impI)
  fix r assume r: "r \<in> set (resources d)" "live_resource (e_zone g) r \<and> edge_allows k g r"
  have mem: "r \<in> set rs \<or> rs = [] \<and> \<not> truthy (e_resource g)"
    using allowed_resolved [OF rs g(1) r(1)] r(2) g(2) by blast
  have ids: "(case k_resources kp of None \<Rightarrow> [] | Some rs \<Rightarrow> rs) = named_identifiers kp" by (simp add: named_identifiers_def)
  note N = narrow [folded g(1), unfolded resourcesNarrowParent_def Let_def ids]
  have pr: "p_resource (parent_of_edge d p) = e_resource p" by (simp add: parent_of_edge_def)
  show "edge_allows kp p r"
  proof (cases "truthy (e_resource p)")
    case True
    then have "e_resource g = e_resource p \<or> (rs \<noteq> [] \<and> list_all (\<lambda>q. Some (res_id q) = e_resource p) rs)"
      using N by (simp add: pr)
    then have "e_resource p = Some (res_id r)"
    proof
      assume "e_resource g = e_resource p"
      then show ?thesis using r(2) True by (simp add: edge_allows_def split: if_splits)
    next
      assume "rs \<noteq> [] \<and> list_all (\<lambda>q. Some (res_id q) = e_resource p) rs"
      then show ?thesis using mem by (auto simp: list_all_iff)
    qed
    with True show ?thesis by (simp add: edge_allows_def)
  next
    case False
    then show ?thesis
      using N mem by (auto simp: pr edge_allows_def list_all_iff split: if_splits)
  qed
qed

subsection \<open>Outcomes of a create\<close>

lemma errs_resolve [intro!, simp]: "errs (resolveResourceAuthority d z rid ids)"
  unfolding resolveResourceAuthority_def Let_def by auto

lemma errs_delegation_parent [intro!, simp]: "errs (delegation_parent e b k rs parents)"
  unfolding delegation_parent_def by auto

lemma errs_delegation_admit [intro!, simp]: "errs (delegation_admit e z b k d)"
  unfolding delegation_admit_def Let_def by (auto split: prod.split option.split)

lemma errs_delegation_finish [intro!, simp]: "errs (delegation_finish e c z b response g receipt d)"
  unfolding delegation_finish_def Let_def by (auto split: option.split prod.split)

lemma errs_delegation_new [intro!, simp]: "errs (delegation_new e c z b k receipt d)"
  unfolding delegation_new_def Let_def by (auto split: option.split prod.split)

lemma errs_delegation_tx [intro!, simp]: "errs (delegation_tx e c req z b k key d)"
  unfolding delegation_tx_def by (auto split: option.split prod.split istart.split)

lemma errs_delegation_checks [intro!, simp]: "errs (delegation_checks e req z hdr body)"
  unfolding delegation_checks_def by (auto split: sum.split)

lemma delegation_finish_Inr:
  assumes "delegation_finish e c z b response g receipt d = Inr (r, d')"
  shows "r = send 201 response" "edges d' = edges d" "sessions d' = sessions d" "resources d' = resources d"
    "applications d' = applications d" "topology d' = topology d"
    "epoch_of d' z' = epoch_of d z' + (if z' = z then 1 else 0)"
    "outbox_lookup d' (DelegationsInvalidate, ''edge_create:'' @ e_id g) \<noteq> None"
    "distinct (outbox_keys d) \<Longrightarrow> distinct (outbox_keys d')"
proof -
  define d2 where "d2 = enqueue e DelegationsInvalidate (''edge_create:'' @ e_id g)
    (edge_create_event z (e_id g) (e_source g) (e_target g) (fst (bumpDelegationEpoch z d))) (snd (bumpDelegationEpoch z d))"
  have *: "r = send 201 response \<and> edges d' = edges d2 \<and> sessions d' = sessions d2 \<and> resources d' = resources d2 \<and>
      applications d' = applications d2 \<and> topology d' = topology d2 \<and> epochs d' = epochs d2 \<and> outbox d' = outbox d2"
  proof (cases receipt)
    case None
    then show ?thesis using assms by (auto simp: delegation_finish_def Let_def case_prod_unfold d2_def)
  next
    case (Some kq)
    then have cmp: "completeIdempotency e (delegation_receipt z b (fst kq) (snd kq) (e_id g) response (idempotencyRetentionSeconds c)) d2 = Inr d'"
      and "r = send 201 response"
      using assms by (auto simp: delegation_finish_def Let_def case_prod_unfold d2_def)
    then show ?thesis using complete_frame [OF cmp] by simp
  qed
  then show "r = send 201 response" "edges d' = edges d" "sessions d' = sessions d" "resources d' = resources d"
    "applications d' = applications d" "topology d' = topology d" by (simp_all add: d2_def)
  have "outbox_lookup d2 (DelegationsInvalidate, ''edge_create:'' @ e_id g) \<noteq> None"
    by (simp add: d2_def enqueue_lookup split: option.split)
  then show "outbox_lookup d' (DelegationsInvalidate, ''edge_create:'' @ e_id g) \<noteq> None"
    using * outbox_lookup_cong [of d' d2] by simp
  show "epoch_of d' z' = epoch_of d z' + (if z' = z then 1 else 0)"
    using * epoch_of_cong [of d' d2] epoch_of_cong [of d2 "snd (bumpDelegationEpoch z d)"] by (simp add: d2_def)
  show "distinct (outbox_keys d')" if "distinct (outbox_keys d)"
    using * outbox_keys_cong [of d' d2] that enqueue_unique by (simp add: d2_def)
qed

lemma delegation_admit_Inr:
  assumes "delegation_admit e z b k d = Inr (b1, rs, parents, pe)"
  shows "\<exists>src tgt. activeSessionEndpoints e d z (q_source b) (q_target b) = (Some src, Some tgt) \<and> s_app src = q_issuer b \<and> s_app tgt = q_receiver b"
    "resolveResourceAuthority d z (q_resource b) (named_identifiers k) = Inr rs"
    "b1 = b\<lparr>q_resource := normalized_resource b rs\<rparr>"
    "rs \<noteq> [] \<Longrightarrow> scopesAllowed (q_scopes b) (uniq (concat (map res_scopes rs)))"
    "parents = activeParentDelegations e d z (q_source b)"
    "delegation_parent e b1 k rs parents = Inr pe"
    "\<not> wouldCreateCycle e d z (q_source b) (q_target b)"
  using assms unfolding delegation_admit_def Let_def named_identifiers_def
  by (auto split: prod.splits option.splits)

lemma delegation_new_Inr:
  assumes "delegation_new e c z b k receipt d = Inr (r, d')"
  obtains rs parents pe t g b1 where
    "delegation_admit e z b k d = Inr (b1, rs, parents, pe)" "edge_expiry e b1 k = Some t" "expiry_allowed e d z pe t"
    "g = new_edge e z b1 k (uuidv7 e (uuids d)) pe t"
    "insert_edge g (d\<lparr>uuids := Suc (uuids d)\<rparr>) = Inr (d\<lparr>uuids := Suc (uuids d), edges := edges d @ [g]\<rparr>)"
    "delegation_finish e c z b1 (delegation_response b1 k rs parents (resource_scoped b k) g) g receipt
       (d\<lparr>uuids := Suc (uuids d), edges := edges d @ [g]\<rparr>) = Inr (r, d')"
proof -
  from assms obtain b1 rs parents pe where adm: "delegation_admit e z b k d = Inr (b1, rs, parents, pe)"
    unfolding delegation_new_def ebind_Inr by (metis prod_cases4)
  from assms adm obtain t where t: "edge_expiry e b1 k = Some t"
    by (auto simp: delegation_new_def split: option.splits)
  define g where "g = new_edge e z b1 k (uuidv7 e (uuids d)) pe t"
  from assms adm t obtain d1 where ok: "expiry_allowed e d z pe t" "insert_edge g (d\<lparr>uuids := Suc (uuids d)\<rparr>) = Inr d1"
    "delegation_finish e c z b1 (delegation_response b1 k rs parents (resource_scoped b k) g) g receipt d1 = Inr (r, d')"
    by (auto simp: delegation_new_def Let_def g_def)
  have "d1 = d\<lparr>uuids := Suc (uuids d), edges := edges d @ [g]\<rparr>" using insert_edge_Inr(1) [OF ok(2)] by simp
  with adm t ok show thesis by (intro that [of b1 rs parents pe t g]) (simp_all add: g_def)
qed

lemma mem_parents:
  "p \<in> set (activeParentDelegations e d z x) \<longleftrightarrow>
     (\<exists>h\<in>set (edges d). e_zone h = z \<and> e_target h = x \<and> live_edge e h \<and> p = parent_of_edge d h)"
  by (auto simp: activeParentDelegations_def)

lemma choose_parent_mem: "choose_parent b parents = Some p \<Longrightarrow> p \<in> set parents"
  by (auto simp: choose_parent_def dest: find_SomeD split: option.splits list.splits)

lemma delegation_parent_Inr:
  assumes "delegation_parent e b k rs parents = Inr pe"
  shows "(pe = None \<and> parents = []) \<or>
    (\<exists>p\<in>set parents. pe = Some (p_id p) \<and> parentAllowsDelegation e p b k rs (requested_expiry b k))"
  using assms choose_parent_mem by (auto simp: delegation_parent_def split: if_splits)

lemma parentAllows_D:
  assumes "parentAllowsDelegation e (parent_of_edge d p) b k rs exp" "edge_constraints e (e_constraints p) = Inr kp"
  shows "scopesAllowed (q_scopes b) (e_scopes p)" "resourcesNarrowParent (parent_of_edge d p) kp (q_resource b) rs"
    "max_hops_of k + 1 \<le> max_hops_of kp" "ttl_within k kp"
  using assms
  by (auto simp: parentAllowsDelegation_def parent_of_edge_def edge_constraints_def ttl_within_def split: option.splits)

lemma parentAllows_constraints:
  assumes "parentAllowsDelegation e (parent_of_edge d p) b k rs exp"
  shows "\<exists>kp. edge_constraints e (e_constraints p) = Inr kp"
  using assms by (auto simp: parentAllowsDelegation_def parent_of_edge_def edge_constraints_def split: sum.splits)

lemma new_edge_simps [simp]:
  "e_zone (new_edge e z b k i pe t) = z" "e_id (new_edge e z b k i pe t) = i" "e_parent (new_edge e z b k i pe t) = pe"
  "e_source (new_edge e z b k i pe t) = q_source b" "e_target (new_edge e z b k i pe t) = q_target b"
  "e_scopes (new_edge e z b k i pe t) = q_scopes b" "e_resource (new_edge e z b k i pe t) = q_resource b"
  "e_constraints (new_edge e z b k i pe t) = constraints_json k" "e_expires (new_edge e z b k i pe t) = t"
  "e_status (new_edge e z b k i pe t) = EActive" "e_issuer (new_edge e z b k i pe t) = q_issuer b"
  "e_receiver (new_edge e z b k i pe t) = q_receiver b"
  by (simp_all add: new_edge_def)

text \<open>What hangs a new edge below the edge \<open>p\<close>: less of everything, and strictly fewer hops.\<close>

definition narrows :: "env \<Rightarrow> db \<Rightarrow> edge \<Rightarrow> edge \<Rightarrow> bool" where
  "narrows e d g p \<longleftrightarrow> attenuates e d g p \<and>
     (\<exists>k kp. edge_constraints e (e_constraints g) = Inr k \<and> edge_constraints e (e_constraints p) = Inr kp \<and>
        max_hops_of k < max_hops_of kp)"

lemma new_edge_narrows:
  assumes adm: "delegation_admit e z b k d = Inr (b1, rs, parents, pe)" and ok: "constraints_ok e k"
    and keys: "edge_keys d" "resource_keys d" and t: "expiry_allowed e d z pe t"
    and p: "p \<in> set (edges d)" "e_zone p = z" "pe = Some (e_id p)"
      "parentAllowsDelegation e (parent_of_edge d p) b1 k rs (requested_expiry b1 k)"
  shows "narrows e d (new_edge e z b1 k i pe t) p"
proof -
  note A = delegation_admit_Inr [OF adm]
  let ?g = "new_edge e z b1 k i pe t"
  obtain kp where kp: "edge_constraints e (e_constraints p) = Inr kp" using parentAllows_constraints [OF p(4)] by blast
  note P = parentAllows_D [OF p(4) kp]
  have rb: "edge_constraints e (constraints_json k) = Inr k" by (rule constraints_read_back [OF ok])
  obtain q where q: "find (\<lambda>g. e_id g = e_id p \<and> e_zone g = z) (edges d) = Some q" "t \<le> e_expires q"
    using t p(3) by (auto simp: expiry_allowed_def split: option.splits)
  have "q = p" using find_SomeD [OF q(1)] p(1) edge_keys_inj [OF keys(1)] by blast
  moreover have "resources_within d k ?g kp p"
    using P(2) A(2,3) keys(2) by (intro narrow_resources) auto
  ultimately have "attenuates e d ?g p"
    using P kp q(2) p(2) unfolding attenuates_def by (simp add: rb)
  then show ?thesis using P(3) kp rb unfolding narrows_def by simp
qed

text \<open>The edge a create adds: live, and hanging from a live edge of its source when there is one.\<close>

lemma delegation_new_edge:
  assumes new: "delegation_new e c z b k receipt d = Inr (r, d')" and ok: "constraints_ok e k"
    and keys: "edge_keys d" "resource_keys d"
  obtains g where "edges d' = edges d @ [g]" "e_zone g = z" "e_source g = q_source b" "e_target g = q_target b"
    "live_edge e g" "\<forall>h\<in>set (edges d). e_id h \<noteq> e_id g" "\<not> wouldCreateCycle e d z (q_source b) (q_target b)"
    "(e_parent g = None \<and> \<not> (\<exists>h\<in>set (edges d). e_zone h = z \<and> e_target h = q_source b \<and> live_edge e h)) \<or>
     (\<exists>p\<in>set (edges d). e_zone p = z \<and> e_target p = q_source b \<and> live_edge e p \<and> e_parent g = Some (e_id p) \<and> narrows e d g p)"
proof -
  from new obtain rs parents pe t g b1 where
    adm: "delegation_admit e z b k d = Inr (b1, rs, parents, pe)" and t: "expiry_allowed e d z pe t" and
    g: "g = new_edge e z b1 k (uuidv7 e (uuids d)) pe t" and
    ins: "insert_edge g (d\<lparr>uuids := Suc (uuids d)\<rparr>) = Inr (d\<lparr>uuids := Suc (uuids d), edges := edges d @ [g]\<rparr>)" and
    fin: "delegation_finish e c z b1 (delegation_response b1 k rs parents (resource_scoped b k) g) g receipt
       (d\<lparr>uuids := Suc (uuids d), edges := edges d @ [g]\<rparr>) = Inr (r, d')" by (rule delegation_new_Inr)
  note A = delegation_admit_Inr [OF adm]
  have b1: "q_source b1 = q_source b" "q_target b1 = q_target b" by (simp_all add: A(3))
  have "(e_parent g = None \<and> \<not> (\<exists>h\<in>set (edges d). e_zone h = z \<and> e_target h = q_source b \<and> live_edge e h)) \<or>
     (\<exists>p\<in>set (edges d). e_zone p = z \<and> e_target p = q_source b \<and> live_edge e p \<and> e_parent g = Some (e_id p) \<and> narrows e d g p)"
    using delegation_parent_Inr [OF A(6)]
  proof
    assume "pe = None \<and> parents = []"
    then show ?thesis using A(5) mem_parents [of _ e d z "q_source b"] by (auto simp: g)
  next
    assume "\<exists>p\<in>set parents. pe = Some (p_id p) \<and> parentAllowsDelegation e p b1 k rs (requested_expiry b1 k)"
    then obtain q where q: "q \<in> set parents" "pe = Some (p_id q)" "parentAllowsDelegation e q b1 k rs (requested_expiry b1 k)"
      by blast
    from q(1) obtain p where p: "p \<in> set (edges d)" "e_zone p = z" "e_target p = q_source b" "live_edge e p"
      and qp: "q = parent_of_edge d p" unfolding A(5) mem_parents by blast
    note p = p q(2,3) [unfolded qp]
    have pe: "pe = Some (e_id p)" using p(5) by (simp add: parent_of_edge_def)
    have "narrows e d g p" unfolding g by (rule new_edge_narrows [OF adm ok keys t p(1,2) pe p(6)])
    with p pe show ?thesis by (auto simp: g)
  qed
  moreover have "live_edge e g" using t by (simp add: g live_edge_def expiry_allowed_def)
  ultimately show thesis
    using insert_edge_Inr(2) [OF ins] delegation_finish_Inr(2) [OF fin] A(7) b1
    by (intro that [of g]) (simp_all add: g)
qed

lemma receipts_only_refl: "receipts_only d d"
  unfolding receipts_only_def by (intro exI [of _ "uuids d"] exI [of _ "receipts d"]) simp

lemma delegation_tx_Inr:
  assumes "delegation_tx e c req z b k key d = Inr (r, d')"
  obtains (replay) "replayed r" "receipts_only d d'" "receipts_ok d \<Longrightarrow> is_success r"
  | (new) receipt d0 where "receipts_only d d0" "delegation_new e c z b k receipt d0 = Inr (r, d')"
proof (cases key)
  case None
  then show thesis using assms receipts_only_refl by (intro new [of d None]) (simp_all add: delegation_tx_def)
next
  case (Some ik)
  define i where "i = \<lparr>in_operation = ''delegation.create.v2'', in_zone = z, in_scope = q_issuer b,
                in_key = ik, in_request = delegation_request req b k\<rparr>"
  obtain x d0 where st: "startIdempotency e c i d = (x, d0)" by (cases "startIdempotency e c i d")
  have only: "receipts_only d d0" using startIdempotency_only [where d = d and u = "uuids d" and d' = d0] st by simp
  show thesis
  proof (cases x)
    case (New kd qd)
    then show thesis using assms Some st only by (intro new [of d0 "Some (kd, qd)"]) (auto simp: delegation_tx_def i_def)
  next
    case (Replayed sta resp res)
    then have r: "d' = d0" "r = \<lparr>code = sta, replayed = True, payload = resp\<rparr>"
      using assms Some st by (auto simp: delegation_tx_def i_def)
    moreover have "is_success r" if "receipts_ok d"
      using replayed_status [OF that st [unfolded Replayed]] r by (auto simp: is_success_def receipts_ok_def)
    ultimately show thesis using only by (intro replay) auto
  qed (use assms Some st in \<open>simp_all add: delegation_tx_def i_def\<close>)
qed

lemma delegation_checks_Inr:
  assumes "delegation_checks e req z hdr body = Inr (b, k, key)"
  shows "DelegationBody e body = Some b" "constraints_ok e k"
    "ownsApplication req (q_issuer b) \<or> requireScope req (''coordinator.delegate_from:'' @ q_issuer b)"
    "q_source b \<noteq> q_target b"
    "resource_scoped b k \<or> may_delegate_broad req (q_issuer b)"
proof -
  have chk: "(case n of Inl msg \<Rightarrow> Inl (err 400 msg) | Inr k \<Rightarrow> Inr k) = Inr k0 \<Longrightarrow> n = Inr k0" for n :: "string + constraints" and k0
    by (cases n) auto
  from assms obtain b' k0 key' where *: "DelegationBody e body = Some b'"
    "normalizedConstraints e (q_constraints_json b') (q_constraints b') (q_ttl b') = Inr k0"
    "\<not> (\<not> ownsApplication req (q_issuer b') \<and> \<not> requireScope req (''coordinator.delegate_from:'' @ q_issuer b'))" "q_source b' \<noteq> q_target b'"
    "\<not> (\<not> resource_scoped b' k0 \<and> \<not> may_delegate_broad req (q_issuer b'))"
    and res: "Inr (b', if resource_scoped b' k0 then k0 else broadened k0, key') = (Inr (b, k, key) :: reply + delegation_body \<times> constraints \<times> string option)"
    unfolding delegation_checks_def ebind_Inr expect_Inr reject_Inr by (blast dest: chk)
  from res have eq: "b' = b" "k = (if resource_scoped b k0 then k0 else broadened k0)" by auto
  note * = * [unfolded eq(1)] eq(2)
  from * show "DelegationBody e body = Some b" "q_source b \<noteq> q_target b"
    "ownsApplication req (q_issuer b) \<or> requireScope req (''coordinator.delegate_from:'' @ q_issuer b)" by blast+
  show "constraints_ok e k" using normalized_ok [OF *(2)] broadened_ok *(6) by simp
  show "resource_scoped b k \<or> may_delegate_broad req (q_issuer b)" using *(5,6) by auto
qed

lemma create_delegation_new:
  assumes "create_delegation e c req z hdr body d = (r, d')" "is_success r" "\<not> replayed r"
  obtains b k key receipt d0 where "delegation_checks e req z hdr body = Inr (b, k, key)" "receipts_only d d0"
    "delegation_new e c z b k receipt d0 = Inr (r, d')"
proof (cases "delegation_checks e req z hdr body")
  case (Inl r')
  then have "400 \<le> code r'" using errs_delegation_checks [of e req z hdr body] by simp
  then show thesis using assms Inl by (auto simp: create_delegation_def is_success_def)
next
  case (Inr x)
  obtain b k key where x: "x = (b, k, key)" by (cases x)
  have "delegation_tx e c req z b k key d = Inr (r, d')"
    using assms transact_success(1) [OF _ errs_delegation_tx] Inr x by (auto simp: create_delegation_def)
  then show thesis
  proof (cases rule: delegation_tx_Inr)
    case replay
    then show thesis using assms(3) by simp
  next
    case (new receipt d0)
    then show thesis using Inr x by (intro that [of b k key d0 receipt]) auto
  qed
qed

lemma attenuates_cong: "resources d' = resources d \<Longrightarrow> attenuates e d' = attenuates e d"
  by (intro ext) (simp add: attenuates_def resources_within_def)

lemma narrows_cong: "resources d' = resources d \<Longrightarrow> narrows e d' = narrows e d"
  unfolding narrows_def fun_eq_iff by (subst attenuates_cong [of d' d]) simp_all

text \<open>
  C10: a delegation only narrows. A create that succeeds adds one edge, which is live. When some
  live edge reaches the source session, the new edge hangs from one of those and holds no scope, no
  resource, no lifetime and no per-mandate lifetime that edge does not hold, and strictly fewer hops;
  only when none does is it a root edge.
\<close>

theorem delegation_only_narrows:
  assumes "create_delegation e c req z hdr body d = (r, d')" "is_success r" "\<not> replayed r"
    "edge_keys d" "resource_keys d" "DelegationBody e body = Some b"
  shows "\<exists>g. edges d' = edges d @ [g] \<and> e_zone g = z \<and> e_source g = q_source b \<and> e_target g = q_target b \<and> live_edge e g \<and>
    (if \<exists>h\<in>set (edges d). e_zone h = z \<and> e_target h = q_source b \<and> live_edge e h
     then \<exists>p\<in>set (edges d). e_zone p = z \<and> e_target p = q_source b \<and> live_edge e p \<and> e_parent g = Some (e_id p) \<and> narrows e d g p
     else e_parent g = None)"
proof -
  from assms(1-3) obtain b' k key receipt d0 where chk: "delegation_checks e req z hdr body = Inr (b', k, key)"
    and only: "receipts_only d d0" and new: "delegation_new e c z b' k receipt d0 = Inr (r, d')"
    by (rule create_delegation_new)
  note F = receipts_only_frame [OF only] and K = delegation_checks_Inr [OF chk]
  have b: "b' = b" using K(1) assms(6) by simp
  have keys: "edge_keys d0" "resource_keys d0"
    using assms(4,5) F(2,8) by (simp_all add: edge_keys_def resource_keys_def)
  from new K(2) keys obtain g where "edges d' = edges d0 @ [g]" "e_zone g = z" "e_source g = q_source b'" "e_target g = q_target b'"
    "live_edge e g"
    and pe: "(e_parent g = None \<and> \<not> (\<exists>h\<in>set (edges d0). e_zone h = z \<and> e_target h = q_source b' \<and> live_edge e h)) \<or>
     (\<exists>p\<in>set (edges d0). e_zone p = z \<and> e_target p = q_source b' \<and> live_edge e p \<and> e_parent g = Some (e_id p) \<and> narrows e d0 g p)"
    by (rule delegation_new_edge)
  moreover note pe [unfolded F(2) narrows_cong [OF F(8)] b]
  ultimately show ?thesis unfolding F(2) b by (intro exI [of _ g]) auto
qed

text \<open>
  C11: no create closes a short cycle. If the zone has no cycle of at most eleven live edges, it has
  none after the create.
\<close>

theorem create_keeps_short_cycle_free:
  assumes "create_delegation e c req z hdr body d = (r, d')" "is_success r" "\<not> replayed r"
    "edge_keys d" "resource_keys d" "short_cycle_free e d z"
  shows "short_cycle_free e d' z"
proof -
  from assms(1-3) obtain b k key receipt d0 where chk: "delegation_checks e req z hdr body = Inr (b, k, key)"
    and only: "receipts_only d d0" and new: "delegation_new e c z b k receipt d0 = Inr (r, d')"
    by (rule create_delegation_new)
  note F = receipts_only_frame [OF only] and K = delegation_checks_Inr [OF chk]
  have keys: "edge_keys d0" "resource_keys d0"
    using assms(4,5) F(2,8) by (simp_all add: edge_keys_def resource_keys_def)
  from new K(2) keys obtain g where g: "edges d' = edges d0 @ [g]" "e_source g = q_source b" "e_target g = q_target b"
    and no: "\<not> wouldCreateCycle e d0 z (q_source b) (q_target b)" by (rule delegation_new_edge)
  have "short_cycle_free e d0 z" using assms(6) by (rule short_cycle_free_subset) (simp add: F(2))
  then have "short_cycle_free e (d0\<lparr>edges := edges d0 @ [g]\<rparr>) z"
    using keys(1) no K(4) g(2,3) by (intro short_cycle_free_insert) simp_all
  then show ?thesis by (rule short_cycle_free_subset) (simp add: g(1))
qed

subsection \<open>Concrete runs\<close>

definition sample_resource :: resource where
  "sample_resource = \<lparr>res_id = ''r1'', res_zone = ''z1'', res_identifier = ''resource://r1'', res_scopes = [''read'', ''write''], res_archived = None\<rparr>"

definition delegation_json :: "string \<Rightarrow> string \<Rightarrow> string list \<Rightarrow> (string \<times> json) list \<Rightarrow> (string \<times> json) list \<Rightarrow> json" where
  "delegation_json src tgt scs constr extra = JObj ([(''source_session_id'', JStr src), (''target_session_id'', JStr tgt),
     (''issuer_application_id'', JStr ''app''), (''receiver_application_id'', JStr ''app''),
     (''resource_id'', JStr ''resource://r1''), (''scopes'', jstrs scs), (''constraints'', JObj constr)] @ extra)"

definition delegation_db :: db where
  "delegation_db = sample_db\<lparr>resources := [sample_resource],
     edges := [sample_edge\<lparr>e_resource := Some ''r1'', e_constraints := JObj [(''max_hops'', JInt 3)]\<rparr>]\<rparr>"

definition sample_delegation :: json where
  "sample_delegation = delegation_json ''a'' ''b'' [''read''] [(''max_hops'', JInt 2)] [(''ttl_seconds'', JInt 5)]"

definition sample_delegated :: "reply \<times> db" where
  "sample_delegated = create_delegation (sample_env 1000) sample_cfg sample_auth ''z1'' HAbsent sample_delegation delegation_db"

definition sample_delegation_body :: delegation_body where
  "sample_delegation_body = \<lparr>q_source = ''a'', q_target = ''b'', q_issuer = ''app'', q_receiver = ''app'', q_parent = None,
     q_resource = Some ''resource://r1'', q_scopes = [''read''], q_constraints = Some (JObj [(''max_hops'', JInt 2)]),
     q_constraints_json = None, q_expires = None, q_ttl = Some 5\<rparr>"

lemma sample_delegated_ok: "is_success (fst sample_delegated) \<and> \<not> replayed (fst sample_delegated)"
  by code_simp

lemma sample_delegated_eq:
  "create_delegation (sample_env 1000) sample_cfg sample_auth ''z1'' HAbsent sample_delegation delegation_db = (fst sample_delegated, snd sample_delegated)"
  by (simp add: sample_delegated_def)

lemma sample_delegation_body_ok: "DelegationBody (sample_env 1000) sample_delegation = Some sample_delegation_body"
  by code_simp

lemma delegation_db_keys: "edge_keys delegation_db" "resource_keys delegation_db"
  by (simp_all add: edge_keys_def resource_keys_def delegation_db_def sample_db_def empty_db_def sample_resource_def)

lemmas sample_delegated_facts = sample_delegated_eq conjunct1 [OF sample_delegated_ok] conjunct2 [OF sample_delegated_ok]
  delegation_db_keys

theorem delegation_only_narrows_witness:
  "\<exists>g p. edges (snd sample_delegated) = edges delegation_db @ [g] \<and> p \<in> set (edges delegation_db) \<and>
     e_parent g = Some (e_id p) \<and> narrows (sample_env 1000) delegation_db g p"
proof -
  let ?h = "hd (edges delegation_db)"
  have "?h \<in> set (edges delegation_db)" "e_zone ?h = ''z1''" "e_target ?h = q_source sample_delegation_body" "live_edge (sample_env 1000) ?h"
    by (simp_all add: delegation_db_def sample_edge_def sample_delegation_body_def live_edge_def sample_env_def)
  then show ?thesis
    using delegation_only_narrows [OF sample_delegated_facts sample_delegation_body_ok] by (auto split: if_splits)
qed

lemma delegation_db_free: "short_cycle_free (sample_env 1000) delegation_db ''z1''"
proof -
  have False if "closed_walk delegation_db ''z1'' (live_edge (sample_env 1000)) gs" for gs
  proof -
    from that have "gs \<noteq> []" "set gs \<subseteq> set (edges delegation_db)" "e_target (last gs) = e_source (hd gs)"
      by (auto simp: closed_walk_def walk_def)
    moreover from this have "hd gs \<in> set (edges delegation_db)" "last gs \<in> set (edges delegation_db)" by auto
    ultimately show False by (simp add: delegation_db_def sample_edge_def)
  qed
  then show ?thesis unfolding short_cycle_free_def by blast
qed

theorem create_keeps_short_cycle_free_witness:
  "short_cycle_free (sample_env 1000) (snd sample_delegated) ''z1'' \<and> length (edges (snd sample_delegated)) = 2"
proof -
  have "length (edges (snd sample_delegated)) = 2" by code_simp
  then show ?thesis
    using create_keeps_short_cycle_free [OF sample_delegated_facts delegation_db_free] by blast
qed

end
