(* ===== verification/Revoke.thy ===== *)
theory Revoke
  imports Narrowing
begin

text \<open>
  Cascade revocation of delegations, \<open>PATCH .../delegations/:id/revoke\<close> of
  \<open>apps/coordinator/src/routes/delegations.ts\<close>: the edges reachable from the revoked one, the
  sessions they end at with their subtrees, the epoch and the outbox events.
\<close>

subsection \<open>The route\<close>

definition active_edge :: "edge \<Rightarrow> bool" where
  "active_edge g = (e_status g = EActive)"

definition affected_ids :: "db \<Rightarrow> zone \<Rightarrow> string \<Rightarrow> string list" where
  "affected_ids d z i = map (\<lambda>(g, visited). e_id g) (graph_paths d z active_edge (\<lambda>g. e_id g = i))"

definition revoke_edges :: "env \<Rightarrow> string list \<Rightarrow> db \<Rightarrow> edge list \<times> db" where
  "revoke_edges e ids d =
    (filter (\<lambda>g. e_id g \<in> set ids) (edges d),
     d\<lparr>edges := map (\<lambda>g. if e_id g \<in> set ids then revoked_edge e g else g) (edges d)\<rparr>)"

definition revoke_targets :: "db \<Rightarrow> zone \<Rightarrow> edge list \<Rightarrow> session list" where
  "revoke_targets d z revoked =
     filter (\<lambda>s. s_id s \<in> set (uniq (map e_target revoked)) \<and> s_zone s = z \<and> live_status (s_status s)) (sessions d)"

text \<open>One revocation event per authority record, for the first target that uses it.\<close>

fun revoke_session_items :: "zone \<Rightarrow> string \<Rightarrow> session list \<Rightarrow> string list \<Rightarrow> outbox_item list \<times> string list" where
  "revoke_session_items z i [] seen = ([], seen)"
| "revoke_session_items z i (row # rows) seen =
    (if s_subject row \<in> set seen then revoke_session_items z i rows seen
     else let (rest, seen') = revoke_session_items z i rows (seen @ [s_subject row])
          in ((SessionsRevoke, ''delegation:'' @ i @ '':subject:'' @ s_subject row, JObj
                [(''zone_id'', JStr z), (''session_id'', JStr (s_subject row)), (''agent_session_id'', JStr (s_id row)),
                 (''delegation_edge_id'', JStr i), (''reason'', JStr ''delegation_revoked'')]) # rest, seen'))"

definition revoke_root_event :: "zone \<Rightarrow> string \<Rightarrow> nat \<Rightarrow> int \<Rightarrow> json" where
  "revoke_root_event z i n epoch = JObj [(''event'', JStr ''edge_revoke''), (''zone_id'', JStr z), (''edge_id'', JStr i),
     (''affected_edges'', JInt (int n)), (''epoch'', JInt epoch)]"

definition may_revoke :: "auth \<Rightarrow> string \<Rightarrow> bool" where
  "may_revoke req issuer = (ownsApplication req issuer \<or> requireScope req (''coordinator.delegate_from:'' @ issuer) \<or>
     requireScope req ''coordinator.admin'')"

definition revoke_tx :: "env \<Rightarrow> auth \<Rightarrow> zone \<Rightarrow> string \<Rightarrow> db \<Rightarrow> reply + (reply \<times> db)" where
  "revoke_tx e req z i d =
     expect (find (\<lambda>g. e_id g = i \<and> e_zone g = z) (edges d)) (err 404 ''delegation_not_found'') (\<lambda>edge.
     reject (\<not> may_revoke req (e_issuer edge)) (err 403 ''issuer_ownership_required'')
    (let (revoked, d1) = revoke_edges e (affected_ids d z i) d in
     reject (revoked = []) (err 404 ''delegation_not_found'')
    (let targets = revoke_targets d1 z revoked in
     ebind (terminateSubtree e z (map s_id targets) ''delegation_revoked'' STerminated d1) (\<lambda>(terminated, d2).
     let (epoch, d3) = bumpDelegationEpoch z d2;
         d4 = enqueue e DelegationsInvalidate (''edge_revoke:'' @ i) (revoke_root_event z i (length revoked) epoch) d3;
         (sessionItems, seen) = revoke_session_items z i targets []
     in Inr (send 200 (JObj [(''revoked_edges'', JInt (int (length revoked))), (''affected_sessions'', JInt (int (length seen))),
               (''terminated_sessions'', JInt (int terminated))]),
             enqueueMany e sessionItems d4)))))"

definition revoke_delegation :: "env \<Rightarrow> auth \<Rightarrow> zone \<Rightarrow> string \<Rightarrow> db \<Rightarrow> reply \<times> db" where
  "revoke_delegation e req z i d =
    (case parseParams [z, i] of Inl r \<Rightarrow> (r, d) | Inr _ \<Rightarrow> transact (revoke_tx e req z i) d)"

lemma errs_revoke_tx [intro!, simp]: "errs (revoke_tx e req z i d)"
  unfolding revoke_tx_def Let_def by (auto split: prod.split)

subsection \<open>What a revocation reaches\<close>

definition affected :: "db \<Rightarrow> zone \<Rightarrow> string \<Rightarrow> edge \<Rightarrow> bool" where
  "affected d z i h \<longleftrightarrow>
     (\<exists>gs. walk d z active_edge gs \<and> e_id (hd gs) = i \<and> last gs = h \<and> int (length gs) \<le> MAX_DEPTH)"

lemma affected_mem: "affected d z i h \<Longrightarrow> h \<in> set (edges d) \<and> e_zone h = z \<and> e_status h = EActive"
  by (auto simp: affected_def walk_def active_edge_def)

lemma affected_ids_iff:
  assumes "edge_keys d" "h \<in> set (edges d)"
  shows "e_id h \<in> set (affected_ids d z i) \<longleftrightarrow> affected d z i h"
proof -
  have "x \<in> set (affected_ids d z i) \<longleftrightarrow> (\<exists>g. e_id g = x \<and> affected d z i g)" for x
  proof -
    have "x \<in> set (affected_ids d z i) \<longleftrightarrow>
        (\<exists>g. e_id g = x \<and> (\<exists>v. (g, v) \<in> set (graph_paths d z active_edge (\<lambda>g. e_id g = i))))"
      by (force simp: affected_ids_def image_iff)
    then show ?thesis unfolding graph_paths_reach [OF assms(1)] affected_def .
  qed
  then show ?thesis using affected_mem assms edge_keys_inj by blast
qed

lemma in_subtree_cong:
  assumes "sessions d' = sessions d"
  shows "in_subtree d' z ok roots x \<longleftrightarrow> in_subtree d z ok roots x"
proof
  show "in_subtree d' z ok roots x \<Longrightarrow> in_subtree d z ok roots x"
    by (induction rule: in_subtree.induct) (use assms in \<open>auto intro: in_subtree.intros\<close>)
  show "in_subtree d z ok roots x \<Longrightarrow> in_subtree d' z ok roots x"
    by (induction rule: in_subtree.induct) (use assms in \<open>auto intro: in_subtree.intros\<close>)
qed

lemma tree_cong:
  assumes "sessions d' = sessions d"
  shows "tree d' z ok roots = tree d z ok roots"
proof -
  have "children d' z ok = children d z ok" by (rule ext) (simp add: children_def assms)
  then show ?thesis by (simp add: tree_def tree_roots_def assms)
qed

lemma in_subtree_mono: "in_subtree d z ok roots x \<Longrightarrow> set roots \<subseteq> set roots' \<Longrightarrow> in_subtree d z ok roots' x"
  by (induction rule: in_subtree.induct) (auto intro: in_subtree.intros)

lemma revoke_success:
  assumes "revoke_delegation e req z i d = (r, d')" "is_success r"
  obtains edge n d1 d2 where "find (\<lambda>g. e_id g = i \<and> e_zone g = z) (edges d) = Some edge" "may_revoke req (e_issuer edge)"
    "d1 = d\<lparr>edges := map (\<lambda>g. if e_id g \<in> set (affected_ids d z i) then revoked_edge e g else g) (edges d)\<rparr>"
    "terminateSubtree e z (map s_id (revoke_targets d z (filter (\<lambda>g. e_id g \<in> set (affected_ids d z i)) (edges d))))
       ''delegation_revoked'' STerminated d1 = Inr (n, d2)"
    "sessions d' = sessions d2" "edges d' = edges d2" "topology d' = topology d2"
    "\<And>z'. epoch_of d' z' = epoch_of d2 z' + (if z' = z then 1 else 0)"
    "outbox_lookup d' (DelegationsInvalidate, ''edge_revoke:'' @ i) \<noteq> None"
    "distinct (outbox_keys d2) \<Longrightarrow> distinct (outbox_keys d')"
proof -
  define d1 where "d1 = d\<lparr>edges := map (\<lambda>g. if e_id g \<in> set (affected_ids d z i) then revoked_edge e g else g) (edges d)\<rparr>"
  let ?rev = "filter (\<lambda>g. e_id g \<in> set (affected_ids d z i)) (edges d)"
  have tg: "revoke_targets d1 z ?rev = revoke_targets d z ?rev" by (simp add: revoke_targets_def d1_def)
  have "revoke_tx e req z i d = Inr (r, d')"
    by (rule parsed_success(1) [OF assms(1) [unfolded revoke_delegation_def] _ assms(2)]) simp
  then obtain edge n d2 where ed: "find (\<lambda>g. e_id g = i \<and> e_zone g = z) (edges d) = Some edge" "may_revoke req (e_issuer edge)"
    and ts: "terminateSubtree e z (map s_id (revoke_targets d1 z ?rev)) ''delegation_revoked'' STerminated d1 = Inr (n, d2)"
    and d': "d' = enqueueMany e (fst (revoke_session_items z i (revoke_targets d1 z ?rev) []))
      (enqueue e DelegationsInvalidate (''edge_revoke:'' @ i) (revoke_root_event z i (length ?rev) (fst (bumpDelegationEpoch z d2)))
        (snd (bumpDelegationEpoch z d2)))"
    unfolding revoke_tx_def revoke_edges_def Let_def by (auto simp: d1_def case_prod_unfold)
  let ?d4 = "enqueue e DelegationsInvalidate (''edge_revoke:'' @ i) (revoke_root_event z i (length ?rev) (fst (bumpDelegationEpoch z d2)))
        (snd (bumpDelegationEpoch z d2))"
  have lk: "outbox_lookup ?d4 (DelegationsInvalidate, ''edge_revoke:'' @ i) \<noteq> None"
    by (simp add: enqueue_lookup split: option.split)
  have ep: "epoch_of d' = epoch_of (snd (bumpDelegationEpoch z d2))" by (rule epoch_of_cong) (simp add: d')
  show thesis
  proof (rule that [OF ed d1_def ts [unfolded tg]])
    show "sessions d' = sessions d2" "edges d' = edges d2" "topology d' = topology d2" by (simp_all add: d')
    show "outbox_lookup d' (DelegationsInvalidate, ''edge_revoke:'' @ i) \<noteq> None"
      using lk enqueueMany_keeps unfolding d' by blast
    show "epoch_of d' z' = epoch_of d2 z' + (if z' = z then 1 else 0)" for z' by (simp add: ep)
    show "distinct (outbox_keys d')" if "distinct (outbox_keys d2)"
      unfolding d' using that by (intro enqueueMany_unique enqueue_unique) simp
  qed
qed

lemma terminate_all_effect:
  assumes "terminateSubtree e z roots reason STerminated d = Inr (n, d')" "session_inv d"
  obtains ids where "\<And>x. x \<in> set ids \<longleftrightarrow> in_subtree d z live_status roots x"
    "sessions d' = terminate_rows e z ids roots reason STerminated (sessions d)"
    "tree d z live_status roots = Some ids"
    "edges d' = map (\<lambda>g. if touches z ids g then revoked_edge e g else g) (edges d)"
    "epoch_of d z \<le> epoch_of d' z"
    "distinct (outbox_keys d) \<Longrightarrow> distinct (outbox_keys d')" "topology d' = topology d"
proof (cases "roots = []")
  case True
  have none: "tree d z live_status roots = Some []" by (simp add: True tree_def tree_roots_def tree_levels.simps numeral_eq_Suc)
  have "d' = d" using assms(1) True by (simp add: terminateSubtree_def)
  then show thesis
    by (intro that [of "[]"]) (simp_all add: none tree_iff [OF none, symmetric] terminate_rows_none touches_def)
next
  case False
  from terminateSubtree_Inr [OF assms(1) False] obtain ids where tree: "tree d z live_status roots = Some ids"
    and eff: "terminate_effect e z roots reason STerminated ids d d'" by metis
  note E = terminate_effectD [OF eff]
  have "touches z (terminated_ids d z ids) = touches z ids"
    using terminated_ids_tree [OF assms(2) tree] by (intro ext) (simp add: touches_def)
  with E tree show thesis by (intro that [of ids]) (simp_all add: tree_iff [OF tree])
qed

lemma revoked_edge_simps [simp]:
  "e_id (revoked_edge e g) = e_id g" "e_status (revoked_edge e g) = ERevoked" "e_zone (revoked_edge e g) = e_zone g"
  "e_source (revoked_edge e g) = e_source g" "e_target (revoked_edge e g) = e_target g"
  "e_parent (revoked_edge e g) = e_parent g" "e_scopes (revoked_edge e g) = e_scopes g"
  "e_resource (revoked_edge e g) = e_resource g" "e_constraints (revoked_edge e g) = e_constraints g"
  "e_expires (revoked_edge e g) = e_expires g"
  by (simp_all add: revoked_edge_def)

lemma revoked_twice:
  assumes "g \<in> set (map (\<lambda>g. if P g then revoked_edge e g else g) (map (\<lambda>g. if e_id g \<in> A then revoked_edge e g else g) gs))"
    "e_id g \<in> A"
  shows "e_status g = ERevoked"
proof -
  from assms(1) [unfolded set_map] obtain q where g: "g = (if P q then revoked_edge e q else q)"
    and q: "q \<in> (\<lambda>g. if e_id g \<in> A then revoked_edge e g else g) ` set gs" by (rule imageE)
  from q obtain p where "q = (if e_id p \<in> A then revoked_edge e p else p)" by (rule imageE)
  with g assms(2) show ?thesis by (cases "P q"; cases "e_id p \<in> A") simp_all
qed

text \<open>
  C8: revoking a delegation closes everything below it, up to ten edges away. Afterwards every edge
  that was reachable from the revoked one over active edges is revoked; every live session such an
  edge ended at is terminated with its whole live subtree, and no active edge of the zone touches
  one of those sessions; the zone's epoch has grown and the revocation event is queued.
\<close>

theorem revoke_closes_below:
  assumes "revoke_delegation e req z i d = (r, d')" "is_success r" "session_inv d" "edge_keys d"
  shows "(\<forall>g\<in>set (edges d'). (\<exists>h. affected d z i h \<and> e_id h = e_id g) \<longrightarrow> e_status g = ERevoked) \<and>
    (\<forall>h s x. affected d z i h \<and> s \<in> set (sessions d) \<and> s_id s = e_target h \<and> s_zone s = z \<and> live s \<and>
       in_subtree d z live_status [s_id s] x \<longrightarrow>
         (\<forall>t\<in>set (sessions d'). s_id t = x \<longrightarrow> s_status t = STerminated) \<and>
         (\<forall>g\<in>set (edges d'). e_zone g = z \<and> e_status g = EActive \<longrightarrow> e_source g \<noteq> x \<and> e_target g \<noteq> x)) \<and>
    epoch_of d z < epoch_of d' z \<and> outbox_lookup d' (DelegationsInvalidate, ''edge_revoke:'' @ i) \<noteq> None"
proof -
  let ?hit = "\<lambda>g. e_id g \<in> set (affected_ids d z i)"
  from assms(1,2) obtain n d1 d2 where
    d1: "d1 = d\<lparr>edges := map (\<lambda>g. if ?hit g then revoked_edge e g else g) (edges d)\<rparr>" and
    ts: "terminateSubtree e z (map s_id (revoke_targets d z (filter ?hit (edges d)))) ''delegation_revoked'' STerminated d1 = Inr (n, d2)" and
    D: "sessions d' = sessions d2" "edges d' = edges d2" and
    ep: "\<And>z'. epoch_of d' z' = epoch_of d2 z' + (if z' = z then 1 else 0)" and
    ob: "outbox_lookup d' (DelegationsInvalidate, ''edge_revoke:'' @ i) \<noteq> None" by (rule revoke_success) (rule that, assumption+)
  have e1: "edges d1 = map (\<lambda>g. if ?hit g then revoked_edge e g else g) (edges d)" by (simp add: d1)
  have inv1: "session_inv d1" and s1: "sessions d1 = sessions d" using assms(3) by (simp_all add: d1 session_inv_def)
  from ts inv1 obtain ids where ids: "\<And>x. x \<in> set ids \<longleftrightarrow>
        in_subtree d1 z live_status (map s_id (revoke_targets d z (filter ?hit (edges d)))) x"
    and rows: "sessions d2 = terminate_rows e z ids (map s_id (revoke_targets d z (filter ?hit (edges d)))) ''delegation_revoked'' STerminated (sessions d1)"
    and tree: "tree d1 z live_status (map s_id (revoke_targets d z (filter ?hit (edges d)))) = Some ids"
    and eds: "edges d2 = map (\<lambda>g. if touches z ids g then revoked_edge e g else g) (edges d1)"
    and ep2: "epoch_of d1 z \<le> epoch_of d2 z" by (rule terminate_all_effect) (rule that, assumption+)
  have "e_status g = ERevoked" if g: "g \<in> set (edges d')" "affected d z i h" "e_id h = e_id g" for g h
  proof -
    have "?hit g" using affected_ids_iff [OF assms(4), of h] affected_mem [OF g(2)] g(2,3) by simp
    moreover have "g \<in> set (map (\<lambda>g. if touches z ids g then revoked_edge e g else g)
        (map (\<lambda>g. if ?hit g then revoked_edge e g else g) (edges d)))"
      using g(1) unfolding D(2) eds e1 .
    ultimately show ?thesis by (rule revoked_twice [rotated])
  qed
  moreover have "(\<forall>t\<in>set (sessions d'). s_id t = x \<longrightarrow> s_status t = STerminated) \<and>
      (\<forall>g\<in>set (edges d'). e_zone g = z \<and> e_status g = EActive \<longrightarrow> e_source g \<noteq> x \<and> e_target g \<noteq> x)"
    if h: "affected d z i h" and s: "s \<in> set (sessions d)" "s_id s = e_target h" "s_zone s = z" "live s"
      and x: "in_subtree d z live_status [s_id s] x" for h s x
  proof -
    have "h \<in> set (filter ?hit (edges d))"
      using affected_ids_iff [OF assms(4), of h] affected_mem [OF h] h by simp
    then have "s \<in> set (revoke_targets d z (filter ?hit (edges d)))"
      using s by (auto simp: revoke_targets_def live_def)
    then have "x \<in> set ids"
      using in_subtree_mono [OF x] unfolding ids in_subtree_cong [OF s1] by simp
    then show ?thesis
      using terminate_row_status(1) [OF inv1 tree] revoked_map_active [where e = e and P = "touches z ids" and gs = "edges d1"]
      unfolding D rows eds touches_def by blast
  qed
  moreover have "epoch_of d z < epoch_of d' z" using ep [of z] ep2 epoch_of_cong [of d1 d] by (simp add: d1)
  ultimately show ?thesis using ob by blast
qed

text \<open>The sessions a revocation ends: live targets of affected edges, with their live subtrees.\<close>

definition cut_off :: "db \<Rightarrow> zone \<Rightarrow> string \<Rightarrow> string \<Rightarrow> bool" where
  "cut_off d z i x \<longleftrightarrow> (\<exists>h s. affected d z i h \<and> s \<in> set (sessions d) \<and> s_id s = e_target h \<and> s_zone s = z \<and> live s \<and>
     in_subtree d z live_status [s_id s] x)"

lemma in_subtree_single:
  "in_subtree d z ok roots x \<Longrightarrow> \<exists>s\<in>set (sessions d). s_id s \<in> set roots \<and> s_zone s = z \<and> ok (s_status s) \<and> in_subtree d z ok [s_id s] x"
proof (induction rule: in_subtree.induct)
  case (root s)
  then show ?case using in_subtree.root [of s d "[s_id s]" z ok] by auto
next
  case (child t s)
  then show ?case using in_subtree.child [of d z ok "[_]" t s] by blast
qed


subsection \<open>Concrete runs\<close>

definition sample_revoked :: "reply \<times> db" where
  "sample_revoked = revoke_delegation (sample_env 1000) sample_auth ''z1'' ''g1'' sample_db"

lemma sample_revoked_ok: "is_success (fst sample_revoked)"
  by code_simp

lemma sample_revoked_eq: "revoke_delegation (sample_env 1000) sample_auth ''z1'' ''g1'' sample_db = (fst sample_revoked, snd sample_revoked)"
  by (simp add: sample_revoked_def)

lemma sample_affected: "affected sample_db ''z1'' ''g1'' sample_edge"
  unfolding affected_def
  by (intro exI [of _ "[sample_edge]"]) (simp add: sample_db_def sample_edge_def active_edge_def MAX_DEPTH_def)

theorem revoke_closes_below_witness:
  "is_success (fst sample_revoked) \<and> epoch_of sample_db ''z1'' < epoch_of (snd sample_revoked) ''z1'' \<and>
   \<not> (\<exists>t\<in>set (sessions (snd sample_revoked)). s_id t = ''a'' \<and> s_status t \<noteq> STerminated)"
proof -
  have keys: "edge_keys sample_db" by (simp add: edge_keys_def sample_db_def)
  let ?s = "sample_session ''a'' None 0 1"
  have "?s \<in> set (sessions sample_db)" "s_id ?s = ''a''" "s_id ?s = e_target sample_edge" "s_zone ?s = ''z1''" "live ?s"
    by (simp_all add: sample_db_def sample_session_def sample_edge_def live_def live_status_def)
  with revoke_closes_below [OF sample_revoked_eq sample_revoked_ok sample_inv keys] sample_affected sample_subtree
  have "\<forall>t\<in>set (sessions (snd sample_revoked)). s_id t = ''a'' \<longrightarrow> s_status t = STerminated"
    "epoch_of sample_db ''z1'' < epoch_of (snd sample_revoked) ''z1''" by metis+
  then show ?thesis using sample_revoked_ok by blast
qed


end
