(* ===== verification/Paging.thy ===== *)
theory Paging
  imports Agents
begin

text \<open>
  Keyset pagination as the list routes do it: rows ordered by descending id, restricted to ids below
  the cursor, cut at the limit; the next cursor is the last id of a full page. The routes that list
  and read sessions (\<open>apps/coordinator/src/routes/agents.ts\<close>) are here too. Ids are compared as
  strings of characters. The conversion of a query parameter to a number is the validator's own
  (\<open>z.coerce.number()\<close>) and a parameter of the query parser.
\<close>

subsection \<open>Pages\<close>

definition below_cursor :: "('a \<Rightarrow> string) \<Rightarrow> string option \<Rightarrow> 'a \<Rightarrow> bool" where
  "below_cursor key cursor r = (case cursor of None \<Rightarrow> True | Some c \<Rightarrow> key r < c)"

definition page :: "('a \<Rightarrow> string) \<Rightarrow> nat \<Rightarrow> string option \<Rightarrow> 'a list \<Rightarrow> 'a list" where
  "page key limit cursor rows = take limit (rev (sort_key key (filter (below_cursor key cursor) rows)))"

definition next_cursor :: "('a \<Rightarrow> string) \<Rightarrow> nat \<Rightarrow> 'a list \<Rightarrow> string option" where
  "next_cursor key limit rows = (if length rows = limit then Some (key (last rows)) else None)"

definition page_reply :: "('a \<Rightarrow> json) \<Rightarrow> ('a \<Rightarrow> string) \<Rightarrow> nat \<Rightarrow> 'a list \<Rightarrow> reply" where
  "page_reply f key limit rows =
     send 200 (JObj [(''items'', JArr (map f rows)), (''next_cursor'', jopt JStr (next_cursor key limit rows))])"

text \<open>Following the cursors from a given one, at most \<open>n\<close> pages.\<close>

fun crawl :: "nat \<Rightarrow> (string option \<Rightarrow> 'a list) \<Rightarrow> ('a \<Rightarrow> string) \<Rightarrow> nat \<Rightarrow> string option \<Rightarrow> 'a list option" where
  "crawl 0 fetch key limit cursor = None"
| "crawl (Suc n) fetch key limit cursor =
     (let rows = fetch cursor in
      case next_cursor key limit rows of
        None \<Rightarrow> Some rows
      | Some c \<Rightarrow> map_option (append rows) (crawl n fetch key limit (Some c)))"

subsection \<open>Crawling lists every row once\<close>

abbreviation descending :: "('a \<Rightarrow> string) \<Rightarrow> 'a list \<Rightarrow> 'a list" where
  "descending key rows \<equiv> rev (sort_key key rows)"

lemma filter_below_descending:
  assumes "distinct (map key rows)" "descending key rows = xs @ ys" "xs \<noteq> []"
  shows "descending key (filter (\<lambda>r. key r < key (last xs)) rows) = ys"
proof -
  have dist: "distinct (map key (descending key rows))" using assms(1) by (simp add: distinct_map rev_map)
  have sort: "sorted_wrt (\<lambda>a b. key b < key a) (xs @ ys)"
  proof -
    have "sorted_wrt (\<lambda>a b. key b \<le> key a) (descending key rows)"
      unfolding sorted_wrt_rev using sorted_sort_key [of key rows] by (simp add: sorted_wrt_map)
    then have "sorted_wrt (\<lambda>a b. key b \<le> key a) (xs @ ys)" by (simp only: assms(2))
    moreover have "sorted_wrt (\<lambda>a b. key b \<noteq> key a) (xs @ ys)"
      unfolding sorted_wrt_iff_nth_less
    proof (intro allI impI)
      fix i j assume "i < j" "j < length (xs @ ys)"
      then show "key ((xs @ ys) ! j) \<noteq> key ((xs @ ys) ! i)"
        using nth_eq_iff_index_eq [OF dist [unfolded assms(2)], of j i] by (simp add: nth_map [symmetric] del: map_append nth_map)
    qed
    ultimately show ?thesis by (auto simp: sorted_wrt_iff_nth_less order_less_le)
  qed
  obtain zs l where xs: "xs = zs @ [l]" using assms(3) by (cases xs rule: rev_cases) auto
  have "filter (\<lambda>r. key r < key l) (xs @ ys) = ys"
    using sort by (auto simp: xs sorted_wrt_append filter_empty_conv filter_id_conv not_less intro: less_imp_le)
  then have "filter (\<lambda>r. key r < key l) (descending key rows) = ys" by (simp only: assms(2))
  then show ?thesis by (simp add: xs rev_filter [symmetric] filter_sort)
qed

lemma crawl_page:
  assumes "distinct (map key rows)" "1 \<le> limit" "length (filter (below_cursor key cursor) rows) < n"
  shows "crawl n (\<lambda>c. page key limit c rows) key limit cursor = Some (descending key (filter (below_cursor key cursor) rows))"
  using assms(3)
proof (induction n arbitrary: cursor)
  case (Suc n)
  let ?all = "descending key (filter (below_cursor key cursor) rows)"
  have pg: "page key limit cursor rows = take limit ?all" by (simp add: page_def)
  show ?case
  proof (cases "length (take limit ?all) = limit")
    case False
    then have "take limit ?all = ?all" by simp
    with False show ?thesis by (simp add: pg next_cursor_def Let_def)
  next
    case True
    let ?c = "key (last (take limit ?all))"
    have "length (take limit ?all) \<noteq> 0" using True assms(2) by linarith
    then have ne: "take limit ?all \<noteq> []" by blast
    then have "last (take limit ?all) \<in> set ?all" using last_in_set in_set_takeD by fast
    then have below: "below_cursor key cursor (last (take limit ?all))" by simp
    have rest: "descending key (filter (\<lambda>r. key r < ?c) (filter (below_cursor key cursor) rows)) = drop limit ?all"
      using assms(1) ne by (intro filter_below_descending) (simp_all add: distinct_map inj_on_def)
    have same: "filter (\<lambda>r. key r < ?c) (filter (below_cursor key cursor) rows) = filter (below_cursor key (Some ?c)) rows"
      using below by (auto simp: below_cursor_def filter_filter intro!: filter_cong split: option.splits)
    note rest' = rest [unfolded same]
    have "length (drop limit ?all) < n" using Suc.prems assms(2) True by simp
    then have "length (filter (below_cursor key (Some ?c)) rows) < n"
      using arg_cong [OF rest', of length] by simp
    from Suc.IH [OF this] have "crawl n (\<lambda>c. page key limit c rows) key limit (Some ?c) = Some (drop limit ?all)"
      unfolding rest' .
    moreover have "next_cursor key limit (take limit ?all) = Some ?c" using True by (simp only: next_cursor_def if_True refl)
    ultimately show ?thesis unfolding crawl.simps Let_def pg by (simp del: take_rev)
  qed
qed simp

subsection \<open>Listing and reading sessions\<close>

definition LIST_DEFAULT_LIMIT :: int where "LIST_DEFAULT_LIMIT = 100"
definition LIST_MAX_LIMIT :: int where "LIST_MAX_LIMIT = 500"

record list_query =
  l_limit :: nat
  l_cursor :: "string option"
  l_status :: "session_status option"
  l_lifecycle :: "lifecycle option"
  l_app :: "string option"
  l_label :: "string option"

definition session_statuses :: "(string \<times> session_status) list" where
  "session_statuses = [(''active'', SActive), (''suspended'', SSuspended), (''terminated'', STerminated), (''expired'', SExpired)]"

definition z_limit :: "(json \<Rightarrow> json) \<Rightarrow> json option \<Rightarrow> nat option" where
  "z_limit coerce v = map_option nat (z_default LIST_DEFAULT_LIMIT (\<lambda>j. z_int 1 LIST_MAX_LIMIT (coerce j)) v)"

definition ListQuery :: "(json \<Rightarrow> json) \<Rightarrow> (string \<times> json) list \<Rightarrow> list_query option" where
  "ListQuery coerce q = do {
     limit \<leftarrow> z_limit coerce (jget q ''limit'');
     cursor \<leftarrow> z_optional z_nonempty (jget q ''cursor'');
     status \<leftarrow> z_optional (z_enum session_statuses) (jget q ''status'');
     lifecycle \<leftarrow> z_optional (z_enum lifecycles) (jget q ''lifecycle'');
     app \<leftarrow> z_optional z_nonempty (jget q ''application_id'');
     label \<leftarrow> z_optional z_nonempty (jget q ''label'');
     Some \<lparr>l_limit = limit, l_cursor = cursor, l_status = status, l_lifecycle = lifecycle, l_app = app, l_label = label\<rparr> }"

definition session_matches :: "zone \<Rightarrow> list_query \<Rightarrow> session \<Rightarrow> bool" where
  "session_matches z q s = (s_zone s = z \<and>
     (case l_status q of None \<Rightarrow> True | Some st \<Rightarrow> s_status s = st) \<and>
     (case l_lifecycle q of None \<Rightarrow> True | Some l \<Rightarrow> s_lifecycle s = l) \<and>
     (case l_app q of None \<Rightarrow> True | Some a \<Rightarrow> s_app s = a) \<and>
     (case l_label q of None \<Rightarrow> True | Some l \<Rightarrow> l \<in> set (s_labels s)))"

definition session_json :: "session \<Rightarrow> (string \<times> json) list" where
  "session_json s =
    [(''agent_session_id'', JStr (s_id s)), (''zone_id'', JStr (s_zone s)), (''application_id'', JStr (s_app s)),
     (''parent_id'', jopt JStr (s_parent s)), (''subject_authority_record_id'', JStr (s_subject s)),
     (''lifecycle'', JStr (show_lifecycle (s_lifecycle s))), (''labels'', jstrs (s_labels s)),
     (''status'', JStr (show_session_status (s_status s))), (''depth'', JInt (s_depth s)),
     (''ttl_seconds'', jopt JInt (s_ttl s)), (''metadata'', s_metadata s), (''started_at'', jtime (s_started s))]"

definition session_ended_json :: "session \<Rightarrow> (string \<times> json) list" where
  "session_ended_json s = [(''terminated_at'', jopt jtime (s_terminated s)), (''termination_reason'', jopt JStr (s_reason s))]"

definition session_lease_json :: "session \<Rightarrow> (string \<times> json) list" where
  "session_lease_json s = [(''last_heartbeat_at'', jopt jtime (s_heartbeat s)), (''heartbeat_deadline_at'', jopt jtime (s_deadline s))]"

text \<open>The driver returns the bigint lease generation as a string.\<close>

definition session_row_json :: "session \<Rightarrow> json" where
  "session_row_json s = JObj (session_json s @ session_ended_json s @ session_lease_json s @
     [(''lease_generation'', JStr (show_int (s_lease s)))])"

definition child_row_json :: "session \<Rightarrow> json" where
  "child_row_json s = JObj (session_json s @ session_lease_json s)"

definition cursor_ok :: "db \<Rightarrow> zone \<Rightarrow> string option \<Rightarrow> bool" where
  "cursor_ok d z cursor = (case cursor of None \<Rightarrow> True | Some c \<Rightarrow> session_exists d z c)"

definition list_session_rows :: "db \<Rightarrow> zone \<Rightarrow> list_query \<Rightarrow> session list" where
  "list_session_rows d z q = page s_id (l_limit q) (l_cursor q) (filter (session_matches z q) (sessions d))"

definition list_sessions :: "(json \<Rightarrow> json) \<Rightarrow> zone \<Rightarrow> (string \<times> json) list \<Rightarrow> db \<Rightarrow> reply" where
  "list_sessions coerce z query d =
    (case ebind (parseParams [z]) (\<lambda>_. expect (ListQuery coerce query) (err 400 ''invalid_query'') (\<lambda>q.
          reject (\<not> cursor_ok d z (l_cursor q)) (err 400 ''invalid_cursor'')
         (Inr (page_reply session_row_json s_id (l_limit q) (list_session_rows d z q))))) of
       Inl r \<Rightarrow> r | Inr r \<Rightarrow> r)"

definition get_session :: "zone \<Rightarrow> string \<Rightarrow> db \<Rightarrow> reply" where
  "get_session z i d =
    (case ebind (parseParams [z, i]) (\<lambda>_. expect (find_session d z i) (err 404 ''session_not_found'') (\<lambda>s.
          Inr (send 200 (session_row_json s)))) of
       Inl r \<Rightarrow> r | Inr r \<Rightarrow> r)"

definition list_child_rows :: "db \<Rightarrow> zone \<Rightarrow> string \<Rightarrow> list_query \<Rightarrow> session list" where
  "list_child_rows d z i q = page s_id (l_limit q) (l_cursor q)
     (filter (\<lambda>s. s_zone s = z \<and> list_ex (\<lambda>(p, c). p = i \<and> c = s_id s) (topology d)) (sessions d))"

definition list_children :: "(json \<Rightarrow> json) \<Rightarrow> zone \<Rightarrow> string \<Rightarrow> (string \<times> json) list \<Rightarrow> db \<Rightarrow> reply" where
  "list_children coerce z i query d =
    (case ebind (parseParams [z, i]) (\<lambda>_. expect (ListQuery coerce query) (err 400 ''invalid_query'') (\<lambda>q.
          reject (\<not> cursor_ok d z (l_cursor q)) (err 400 ''invalid_cursor'')
         (Inr (page_reply child_row_json s_id (l_limit q) (list_child_rows d z i q))))) of
       Inl r \<Rightarrow> r | Inr r \<Rightarrow> r)"

lemma list_session_rows_page:
  "list_session_rows d z (q\<lparr>l_cursor := c\<rparr>) = page s_id (l_limit q) c (filter (session_matches z q) (sessions d))"
proof -
  have "session_matches z (q\<lparr>l_cursor := c\<rparr>) = session_matches z q" by (rule ext) (simp add: session_matches_def)
  then show ?thesis by (simp add: list_session_rows_def)
qed

text \<open>
  C39: following the cursors lists every matching session exactly once, newest id first, and ends:
  with at least one row per page, fetching page after page while a next cursor is returned yields
  the matching sessions in descending order of id.
\<close>

theorem list_sessions_crawl:
  assumes "session_inv d" "1 \<le> l_limit q"
  shows "crawl (Suc (length (sessions d))) (\<lambda>c. list_session_rows d z (q\<lparr>l_cursor := c\<rparr>)) s_id (l_limit q) None =
    Some (rev (sort_key s_id (filter (session_matches z q) (sessions d))))"
proof -
  let ?rows = "filter (session_matches z q) (sessions d)"
  have "distinct (map s_id ?rows)" using assms(1) by (simp add: session_inv_def distinct_map_filter)
  moreover have "filter (below_cursor s_id None) ?rows = ?rows" by (simp add: below_cursor_def)
  moreover have "length ?rows < Suc (length (sessions d))" by (simp add: le_imp_less_Suc)
  ultimately show ?thesis
    using crawl_page [of s_id ?rows "l_limit q" None "Suc (length (sessions d))"] assms(2) by (simp only: list_session_rows_page)
qed

lemma sample_inv_limit: "1 \<le> l_limit \<lparr>l_limit = 3, l_cursor = None, l_status = None, l_lifecycle = None, l_app = None, l_label = None\<rparr>"
  by simp

theorem list_sessions_crawl_witness:
  "crawl 5 (\<lambda>c. list_session_rows sample_db ''z1'' \<lparr>l_limit = 3, l_cursor = c, l_status = None, l_lifecycle = None, l_app = None, l_label = None\<rparr>)
     s_id 3 None = Some (map (\<lambda>i. hd (filter (\<lambda>s. s_id s = i) (sessions sample_db))) [''d'', ''c'', ''b'', ''a''])"
proof -
  have len: "Suc (length (sessions sample_db)) = 5" by (simp add: sample_db_def)
  have "rev (sort_key s_id (filter (session_matches ''z1'' \<lparr>l_limit = 3, l_cursor = None, l_status = None, l_lifecycle = None, l_app = None, l_label = None\<rparr>)
      (sessions sample_db))) = map (\<lambda>i. hd (filter (\<lambda>s. s_id s = i) (sessions sample_db))) [''d'', ''c'', ''b'', ''a'']"
    by code_simp
  then show ?thesis
    using list_sessions_crawl [OF sample_inv sample_inv_limit, of "''z1''"] unfolding len by simp
qed

end
