(* ===== verification/DelegationReads.thy ===== *)
theory DelegationReads
  imports Revoke Paging
begin

text \<open>
  The read routes of \<open>apps/coordinator/src/routes/delegations.ts\<close>: lists of edges, traversal and
  impact of an edge, and the effective authority of a session.
\<close>

subsection \<open>Lists\<close>

text \<open>\<open>None\<close> is an administrator, who reads every application's edges.\<close>

definition delegationReaderApplication :: "auth \<Rightarrow> string option" where
  "delegationReaderApplication req = (if requireScope req ''coordinator.admin'' then None else Some (au_client req))"

definition reader_sees :: "string option \<Rightarrow> edge \<Rightarrow> bool" where
  "reader_sees reader g = (case reader of None \<Rightarrow> True | Some a \<Rightarrow> e_issuer g = a \<or> e_receiver g = a)"

definition reader_owns :: "db \<Rightarrow> zone \<Rightarrow> string option \<Rightarrow> string \<Rightarrow> bool" where
  "reader_owns d z reader sessionId = (case reader of None \<Rightarrow> True
     | Some a \<Rightarrow> list_ex (\<lambda>s. s_id s = sessionId \<and> s_zone s = z \<and> s_app s = a) (sessions d))"

definition EdgeListQuery :: "(json \<Rightarrow> json) \<Rightarrow> (string \<times> json) list \<Rightarrow> (nat \<times> string option) option" where
  "EdgeListQuery coerce q = do {
     limit \<leftarrow> z_limit coerce (jget q ''limit'');
     cursor \<leftarrow> z_optional z_nonempty (jget q ''cursor'');
     Some (limit, cursor) }"

definition edge_cursor_ok :: "(edge \<Rightarrow> bool) \<Rightarrow> string option \<Rightarrow> db \<Rightarrow> bool" where
  "edge_cursor_ok visible cursor d = (case cursor of None \<Rightarrow> True | Some c \<Rightarrow> list_ex (\<lambda>g. e_id g = c \<and> visible g) (edges d))"

definition listEdges :: "(json \<Rightarrow> json) \<Rightarrow> zone \<Rightarrow> (edge \<Rightarrow> string) \<Rightarrow> string \<Rightarrow> (string \<times> json) list \<Rightarrow> string option \<Rightarrow> db \<Rightarrow> reply" where
  "listEdges coerce z column sessionId query reader d =
    (let visible = (\<lambda>g. e_zone g = z \<and> column g = sessionId \<and> reader_sees reader g) in
     case expect (EdgeListQuery coerce query) (err 400 ''invalid_query'') (\<lambda>(limit, cursor).
          reject (\<not> reader_owns d z reader sessionId) (err 404 ''session_not_found'')
         (reject (\<not> edge_cursor_ok visible cursor d) (err 400 ''invalid_cursor'')
         (Inr (page_reply (\<lambda>g. JObj (edge_row ''id'' g)) e_id limit (page e_id limit cursor (filter visible (edges d))))))) of
       Inl r \<Rightarrow> r | Inr r \<Rightarrow> r)"

definition list_inbound :: "(json \<Rightarrow> json) \<Rightarrow> auth \<Rightarrow> zone \<Rightarrow> string \<Rightarrow> (string \<times> json) list \<Rightarrow> db \<Rightarrow> reply" where
  "list_inbound coerce req z sessionId query d =
    (case parseParams [z, sessionId] of Inl r \<Rightarrow> r
     | Inr _ \<Rightarrow> listEdges coerce z e_target sessionId query (delegationReaderApplication req) d)"

definition list_outbound :: "(json \<Rightarrow> json) \<Rightarrow> auth \<Rightarrow> zone \<Rightarrow> string \<Rightarrow> (string \<times> json) list \<Rightarrow> db \<Rightarrow> reply" where
  "list_outbound coerce req z sessionId query d =
    (case parseParams [z, sessionId] of Inl r \<Rightarrow> r
     | Inr _ \<Rightarrow> listEdges coerce z e_source sessionId query (delegationReaderApplication req) d)"

definition get_inbound :: "env \<Rightarrow> auth \<Rightarrow> zone \<Rightarrow> string \<Rightarrow> string \<Rightarrow> db \<Rightarrow> reply" where
  "get_inbound e req z sessionId i d =
    (case ebind (parseParams [z, sessionId, i]) (\<lambda>_.
          expect (find (\<lambda>g. e_id g = i \<and> e_zone g = z \<and> e_target g = sessionId \<and> live_edge e g \<and>
              (case delegationReaderApplication req of None \<Rightarrow> True | Some a \<Rightarrow> e_receiver g = a)) (edges d))
            (err 404 ''delegation_not_found'') (\<lambda>g.
          Inr (send 200 (JObj [(''id'', JStr (e_id g)), (''status'', JStr (show_edge_status (e_status g)))])))) of
       Inl r \<Rightarrow> r | Inr r \<Rightarrow> r)"

definition broad_reason :: "edge \<Rightarrow> json" where
  "broad_reason g = (case jget (object_of (Some (e_constraints g))) ''broad_reason'' of Some (JStr s) \<Rightarrow> JStr s | _ \<Rightarrow> JNull)"

definition list_active :: "env \<Rightarrow> (json \<Rightarrow> json) \<Rightarrow> auth \<Rightarrow> zone \<Rightarrow> (string \<times> json) list \<Rightarrow> db \<Rightarrow> reply" where
  "list_active e coerce req z query d =
    (let visible = (\<lambda>g. e_zone g = z \<and> reader_sees (delegationReaderApplication req) g) in
     case ebind (parseParams [z]) (\<lambda>_.
          expect (EdgeListQuery coerce query) (err 400 ''invalid_query'') (\<lambda>(limit, cursor).
          reject (\<not> edge_cursor_ok visible cursor d) (err 400 ''invalid_cursor'')
         (Inr (page_reply (\<lambda>g. JObj (edge_row ''id'' g @ [(''broad_reason'', broad_reason g)])) e_id limit
            (page e_id limit cursor (filter (\<lambda>g. visible g \<and> live_edge e g) (edges d))))))) of
       Inl r \<Rightarrow> r | Inr r \<Rightarrow> r)"

subsection \<open>Traversal and impact\<close>

definition ordered_paths :: "env \<Rightarrow> db \<Rightarrow> zone \<Rightarrow> string \<Rightarrow> path_row list" where
  "ordered_paths e d z i =
     sort_key (\<lambda>(g, visited). length visited) (sort_key (\<lambda>(g, visited). e_id g) (graph_paths d z (live_edge e) (\<lambda>g. e_id g = i)))"

definition path_json :: "path_row \<Rightarrow> json" where
  "path_json row = (case row of (g, visited) \<Rightarrow> JObj [(''id'', JStr (e_id g)), (''source_session_id'', JStr (e_source g)),
     (''target_session_id'', JStr (e_target g)), (''depth'', JInt (int (length visited)))])"

definition traverse :: "env \<Rightarrow> auth \<Rightarrow> zone \<Rightarrow> string \<Rightarrow> db \<Rightarrow> reply" where
  "traverse e req z i d =
    (case ebind (parseParams [z, i]) (\<lambda>_.
          reject (delegationReaderApplication req \<noteq> None) (err 403 ''coordinator_admin_required'')
         (Inr (send 200 (JArr (map path_json (ordered_paths e d z i)))))) of
       Inl r \<Rightarrow> r | Inr r \<Rightarrow> r)"

definition target_subject :: "db \<Rightarrow> zone \<Rightarrow> edge \<Rightarrow> string option" where
  "target_subject d z g = map_option s_subject (find_session d z (e_target g))"

definition impact_reply :: "db \<Rightarrow> zone \<Rightarrow> string \<Rightarrow> path_row list \<Rightarrow> reply" where
  "impact_reply d z i rows = send 200 (JObj
     [(''edge_id'', JStr i), (''affected_edges'', JArr (map path_json rows)),
      (''affected_sessions'', jstrs (uniq (map (\<lambda>(g, v). e_target g) rows))),
      (''affected_authority_records'', jstrs (uniq (map the (filter truthy (map (\<lambda>(g, v). target_subject d z g) rows)))))])"

definition impact :: "env \<Rightarrow> auth \<Rightarrow> zone \<Rightarrow> string \<Rightarrow> db \<Rightarrow> reply" where
  "impact e req z i d =
    (case ebind (parseParams [z, i]) (\<lambda>_.
          reject (delegationReaderApplication req \<noteq> None) (err 403 ''coordinator_admin_required'')
         (let rows = ordered_paths e d z i in
          reject (rows = []) (err 404 ''delegation_not_found'')
         (Inr (impact_reply d z i rows)))) of
       Inl r \<Rightarrow> r | Inr r \<Rightarrow> r)"

subsection \<open>Effective authority of a session\<close>

text \<open>The running state of the loop over the live inbound edges; \<open>None\<close> hops is positive infinity.\<close>

record effective =
  ef_scopes :: "string list option"
  ef_resource_ids :: "string list"
  ef_identifiers :: "string list"
  ef_constrained :: bool
  ef_hops :: "int option"
  ef_ttl :: "int option"
  ef_expiry :: time

definition set_add :: "string \<Rightarrow> string list \<Rightarrow> string list" where
  "set_add x xs = (if x \<in> set xs then xs else xs @ [x])"

definition effective_start :: "parent_edge list \<Rightarrow> effective" where
  "effective_start parents = \<lparr>ef_scopes = None, ef_resource_ids = [], ef_identifiers = [], ef_constrained = False,
     ef_hops = None, ef_ttl = None, ef_expiry = p_expires (hd parents)\<rparr>"

definition effective_resources :: "parent_edge \<Rightarrow> constraints \<Rightarrow> effective \<Rightarrow> effective" where
  "effective_resources parent c a =
    (let named = (case k_resources c of None \<Rightarrow> [] | Some rs \<Rightarrow> rs);
         a1 = (if truthy (p_resource parent)
               then a\<lparr>ef_resource_ids := set_add (the (p_resource parent)) (ef_resource_ids a), ef_constrained := True\<rparr> else a);
         a2 = (if truthy (p_identifier parent)
               then a1\<lparr>ef_identifiers := set_add (the (p_identifier parent)) (ef_identifiers a1)\<rparr> else a1)
     in if named \<noteq> [] then a2\<lparr>ef_identifiers := fold set_add named (ef_identifiers a2), ef_constrained := True\<rparr> else a2)"

definition effective_step :: "env \<Rightarrow> parent_edge \<Rightarrow> effective \<Rightarrow> effective" where
  "effective_step e parent a =
    (case normalizedConstraints e (Some (p_constraints parent)) None None of
       Inl _ \<Rightarrow> a
     | Inr c \<Rightarrow>
        (let parentScopes = uniq (p_scopes parent);
             scopes = (case ef_scopes a of None \<Rightarrow> parentScopes | Some ss \<Rightarrow> filter (\<lambda>s. s \<in> set parentScopes) ss);
             hops = (case ef_hops a of None \<Rightarrow> max_hops_of c | Some h \<Rightarrow> if max_hops_of c < h then max_hops_of c else h);
             ttl = (case k_ttl c of None \<Rightarrow> ef_ttl a
                    | Some t \<Rightarrow> (case ef_ttl a of None \<Rightarrow> Some t | Some t0 \<Rightarrow> Some (min t0 t)));
             expiry = (if p_expires parent < ef_expiry a then p_expires parent else ef_expiry a)
         in (effective_resources parent c (a\<lparr>ef_scopes := Some scopes\<rparr>))\<lparr>ef_hops := Some hops, ef_ttl := ttl, ef_expiry := expiry\<rparr>))"

definition effective_of :: "env \<Rightarrow> parent_edge list \<Rightarrow> effective" where
  "effective_of e parents = fold (effective_step e) parents (effective_start parents)"

definition nullable_int :: "int option \<Rightarrow> json" where
  "nullable_int v = (case v of None \<Rightarrow> JNull | Some n \<Rightarrow> JInt n)"

definition effective_json :: "string \<Rightarrow> parent_edge list \<Rightarrow> effective \<Rightarrow> json" where
  "effective_json sessionId parents a = JObj
     [(''agent_session_id'', JStr sessionId), (''inbound_edges'', jstrs (map p_id parents)),
      (''effective_scopes'', jstrs (case ef_scopes a of None \<Rightarrow> [] | Some ss \<Rightarrow> sort ss)),
      (''effective_resource_ids'', jstrs (sort (ef_resource_ids a))),
      (''effective_resources'', jstrs (sort (ef_identifiers a))),
      (''effective_resource_constrained'', JBool (ef_constrained a)),
      (''effective_max_hops'', nullable_int (ef_hops a)),
      (''effective_ttl_seconds'', nullable_int (ef_ttl a)),
      (''earliest_expires_at'', JStr (toISOString (ef_expiry a)))]"

definition no_authority :: "string \<Rightarrow> json" where
  "no_authority sessionId = JObj
     [(''agent_session_id'', JStr sessionId), (''inbound_edges'', JArr []), (''effective_scopes'', JArr []),
      (''effective_resources'', JArr []), (''effective_max_hops'', JInt 0), (''effective_ttl_seconds'', JNull),
      (''earliest_expires_at'', JNull)]"

definition effective_authority :: "env \<Rightarrow> auth \<Rightarrow> zone \<Rightarrow> string \<Rightarrow> db \<Rightarrow> reply" where
  "effective_authority e req z sessionId d =
    (case ebind (parseParams [z, sessionId]) (\<lambda>_.
          reject (\<not> reader_owns d z (delegationReaderApplication req) sessionId) (err 404 ''session_not_found'')
         (let parents = activeParentDelegations e d z sessionId in
          Inr (send 200 (if parents = [] then no_authority sessionId
                         else effective_json sessionId parents (effective_of e parents))))) of
       Inl r \<Rightarrow> r | Inr r \<Rightarrow> r)"

end
