(* ===== verification/Identity.thy ===== *)
theory Identity
  imports Scope
begin

text \<open>
  Mandate verification: \<open>packages/identity/ts/src/types.ts\<close> and \<open>verify.ts\<close>. A JWT payload is a
  JSON object. Two steps are parameters of \<open>verify\<close>: \<open>getKeySet\<close> yields
  the key set of an issuer's zone (\<open>None\<close> when it throws; its cache is the theory \<open>KeySets\<close>) and \<open>jwtVerify\<close>
  is the library that checks signature, issuer, audience and expiry and returns the payload. The predicate
  \<open>mandate_ok\<close> is the specification of an acceptable payload, written without the control flow of the
  code; \<open>verify\<close> accepts exactly those.
\<close>

definition DEFAULT_MAX_HOP_COUNT :: int where "DEFAULT_MAX_HOP_COUNT = 10"
definition MANDATE_USE_SESSION :: string where "MANDATE_USE_SESSION = ''session''"
definition MANDATE_USE_RESOURCE :: string where "MANDATE_USE_RESOURCE = ''resource''"

record jwt_config =
  issuer :: string
  audience :: string
  zoneId :: string
  requiredScopes :: "string list"
  requiredTargets :: "string list"
  requiredUse :: "string option"
  requireSession :: bool
  requireDelegation :: bool
  requireChainContains :: "string list"
  maxHopCount :: "int option"

record chain_hop =
  hop_applicationId :: string
  hop_sessionId :: "string option"
  hop_delegationId :: "string option"

record claims =
  c_sub :: string
  c_zoneId :: string
  c_clientId :: string
  c_authorityRecordId :: string
  c_rootAuthorityRecordId :: string
  c_use :: string
  c_subType :: string
  c_jti :: string
  c_issuedAt :: int
  c_expiresAt :: int
  c_scope :: string
  c_targetResources :: "string list option"
  c_sessionId :: "string option"
  c_delegationId :: "string option"
  c_sourceSessionId :: "string option"
  c_targetSessionId :: "string option"
  c_delegationPath :: "string list option"
  c_delegationChain :: "chain_hop list option"
  c_graphEpoch :: "int option"
  c_hopCount :: "int option"

datatype verify_error =
    TokenInvalidError string
  | ZoneInvalidError
  | ScopeInsufficientError string
  | SessionRequiredError
  | DelegationRequiredError
  | ChainMismatchError string
  | HopCountExceededError

type_synonym payload = "(string \<times> json) list"

definition requiredString :: "payload \<Rightarrow> string \<Rightarrow> verify_error + string" where
  "requiredString payload name =
     (case jget payload name of
        Some (JStr value) \<Rightarrow>
          if value = [] then Inl (TokenInvalidError (''Token claim '' @ name @ '' is required'')) else Inr value
      | _ \<Rightarrow> Inl (TokenInvalidError (''Token claim '' @ name @ '' is required'')))"

definition optionalString :: "payload \<Rightarrow> string \<Rightarrow> verify_error + string option" where
  "optionalString payload name =
     (case jget payload name of
        None \<Rightarrow> Inr None
      | Some JNull \<Rightarrow> Inr None
      | Some (JStr value) \<Rightarrow> Inr (if value = [] then None else Some value)
      | Some _ \<Rightarrow> Inl (TokenInvalidError (''Token claim '' @ name @ '' must be a string'')))"

definition optionalInteger :: "payload \<Rightarrow> string \<Rightarrow> verify_error + int option" where
  "optionalInteger payload name =
     (case jget payload name of
        None \<Rightarrow> Inr None
      | Some JNull \<Rightarrow> Inr None
      | Some (JInt value) \<Rightarrow>
          if value < 0 then Inl (TokenInvalidError (''Token claim '' @ name @ '' must be a non-negative integer''))
          else Inr (Some value)
      | Some _ \<Rightarrow> Inl (TokenInvalidError (''Token claim '' @ name @ '' must be a non-negative integer'')))"

definition requiredInteger :: "payload \<Rightarrow> string \<Rightarrow> verify_error + int" where
  "requiredInteger payload name =
     ebind (optionalInteger payload name) (\<lambda>value.
       case value of
         None \<Rightarrow> Inl (TokenInvalidError (''Token claim '' @ name @ '' is required''))
       | Some v \<Rightarrow> Inr v)"

fun readStringList_loop :: "json list \<Rightarrow> string \<Rightarrow> verify_error + string list" where
  "readStringList_loop [] name = Inr []"
| "readStringList_loop (JStr value # raw) name =
     (if value = [] then Inl (TokenInvalidError (''Token claim '' @ name @ '' must be a string array''))
      else ebind (readStringList_loop raw name) (\<lambda>out. Inr (value # out)))"
| "readStringList_loop (_ # raw) name =
     Inl (TokenInvalidError (''Token claim '' @ name @ '' must be a string array''))"

definition readStringList :: "json option \<Rightarrow> string \<Rightarrow> verify_error + string list option" where
  "readStringList raw name =
     (case raw of
        None \<Rightarrow> Inr None
      | Some JNull \<Rightarrow> Inr None
      | Some (JArr vs) \<Rightarrow> ebind (readStringList_loop vs name) (\<lambda>out. Inr (Some out))
      | Some _ \<Rightarrow> Inl (TokenInvalidError (''Token claim '' @ name @ '' must be a string array'')))"

definition readHop :: "json \<Rightarrow> verify_error + chain_hop" where
  "readHop item =
     (case item of
        JObj r \<Rightarrow>
          ebind (requiredString r ''application_id'') (\<lambda>a.
          ebind (optionalString r ''agent_session_id'') (\<lambda>s.
          ebind (optionalString r ''delegation_edge_id'') (\<lambda>d.
          Inr \<lparr>hop_applicationId = a, hop_sessionId = s, hop_delegationId = d\<rparr>)))
      | _ \<Rightarrow> Inl (TokenInvalidError ''Token claim delegation_chain must contain objects''))"

fun readChain_loop :: "json list \<Rightarrow> verify_error + chain_hop list" where
  "readChain_loop [] = Inr []"
| "readChain_loop (item # raw) =
     ebind (readHop item) (\<lambda>hop. ebind (readChain_loop raw) (\<lambda>out. Inr (hop # out)))"

definition readChain :: "json option \<Rightarrow> verify_error + chain_hop list option" where
  "readChain raw =
     (case raw of
        None \<Rightarrow> Inr None
      | Some JNull \<Rightarrow> Inr None
      | Some (JArr items) \<Rightarrow> ebind (readChain_loop items) (\<lambda>out. Inr (if out = [] then None else Some out))
      | Some _ \<Rightarrow> Inl (TokenInvalidError ''Token claim delegation_chain must be an array''))"

text \<open>The claim \<open>scope\<close>: absent and null read as the empty string.\<close>

definition readScope :: "payload \<Rightarrow> verify_error + string" where
  "readScope payload =
     (case jget payload ''scope'' of
        None \<Rightarrow> Inr []
      | Some JNull \<Rightarrow> Inr []
      | Some (JStr s) \<Rightarrow> Inr s
      | Some _ \<Rightarrow> Inl (TokenInvalidError ''Token claim scope must be a string''))"

fun check_scopes :: "string list \<Rightarrow> string \<Rightarrow> verify_error + unit" where
  "check_scopes [] scope = Inr ()"
| "check_scopes (required # rest) scope =
     (if \<not> hasScope (Some scope) required then Inl (ScopeInsufficientError required)
      else check_scopes rest scope)"

fun check_targets :: "string list \<Rightarrow> string list option \<Rightarrow> verify_error + unit" where
  "check_targets [] targetResources = Inr ()"
| "check_targets (target # rest) targetResources =
     (if \<not> (case targetResources of None \<Rightarrow> False | Some ts \<Rightarrow> target \<in> set ts)
      then Inl (TokenInvalidError ''Token target resource validation failed'')
      else check_targets rest targetResources)"

definition chain_has :: "chain_hop list option \<Rightarrow> string \<Rightarrow> bool" where
  "chain_has chain app = (case chain of None \<Rightarrow> False | Some hs \<Rightarrow> list_ex (\<lambda>h. hop_applicationId h = app) hs)"

fun check_chain :: "string list \<Rightarrow> chain_hop list option \<Rightarrow> verify_error + unit" where
  "check_chain [] chain = Inr ()"
| "check_chain (expected # rest) chain =
     (if \<not> chain_has chain expected then Inl (ChainMismatchError expected) else check_chain rest chain)"

definition effective_max_hops :: "jwt_config \<Rightarrow> int" where
  "effective_max_hops config =
     (case maxHopCount config of
        Some m \<Rightarrow> if m > 0 then m else DEFAULT_MAX_HOP_COUNT
      | None \<Rightarrow> DEFAULT_MAX_HOP_COUNT)"

text \<open>The part of \<open>verify\<close> after the JWT library returned the payload.\<close>

definition verify_payload :: "payload \<Rightarrow> jwt_config \<Rightarrow> verify_error + claims" where
  "verify_payload payload config =
     ebind (requiredString payload ''jti'') (\<lambda>jti.
     ebind (requiredString payload ''sub'') (\<lambda>sub.
     ebind (requiredString payload ''client_id'') (\<lambda>clientId.
     ebind (requiredString payload ''sid'') (\<lambda>authorityRecordId.
     ebind (requiredString payload ''root_sid'') (\<lambda>rootAuthorityRecordId.
     ebind (requiredString payload ''use'') (\<lambda>use.
     ebind (eguard (use = MANDATE_USE_SESSION \<or> use = MANDATE_USE_RESOURCE)
              (TokenInvalidError ''Token use validation failed'')) (\<lambda>_.
     ebind (requiredString payload ''sub_type'') (\<lambda>subType.
     ebind (eguard (subType = ''user'' \<or> subType = ''application'')
              (TokenInvalidError ''Token subject type validation failed'')) (\<lambda>_.
     ebind (requiredInteger payload ''iat'') (\<lambda>issuedAt.
     ebind (requiredInteger payload ''exp'') (\<lambda>expiresAt.
     ebind (readScope payload) (\<lambda>scope.
     ebind (readStringList (jget payload ''target'') ''target'') (\<lambda>targetResources.
     ebind (eguard (case jget payload ''zone_id'' of
                      Some (JStr rawZoneId) \<Rightarrow> rawZoneId \<noteq> [] \<and> rawZoneId = zoneId config
                    | _ \<Rightarrow> False) ZoneInvalidError) (\<lambda>_.
     ebind (eguard (case requiredUse config of None \<Rightarrow> True | Some u \<Rightarrow> u = [] \<or> use = u)
              (TokenInvalidError ''Token use validation failed'')) (\<lambda>_.
     ebind (check_scopes (requiredScopes config) scope) (\<lambda>_.
     ebind (check_targets (requiredTargets config) targetResources) (\<lambda>_.
     ebind (optionalString payload ''agent_session_id'') (\<lambda>sessionId.
     ebind (optionalString payload ''delegation_edge_id'') (\<lambda>delegationId.
     ebind (optionalString payload ''source_session_id'') (\<lambda>sourceSessionId.
     ebind (optionalString payload ''target_session_id'') (\<lambda>targetSessionId.
     ebind (readStringList (jget payload ''delegation_path'') ''delegation_path'') (\<lambda>delegationPath.
     ebind (readChain (jget payload ''delegation_chain'')) (\<lambda>delegationChain.
     ebind (optionalInteger payload ''delegation_graph_epoch'') (\<lambda>graphEpoch.
     ebind (optionalInteger payload ''hop_count'') (\<lambda>hopCount.
     ebind (eguard (\<not> (requireSession config \<and> sessionId = None)) SessionRequiredError) (\<lambda>_.
     ebind (eguard (\<not> (requireDelegation config \<and> delegationId = None)) DelegationRequiredError) (\<lambda>_.
     ebind (eguard (\<not> (case hopCount of None \<Rightarrow> 0 | Some h \<Rightarrow> h) > effective_max_hops config)
              HopCountExceededError) (\<lambda>_.
     ebind (check_chain (requireChainContains config) delegationChain) (\<lambda>_.
     Inr \<lparr>c_sub = sub, c_zoneId = zoneId config, c_clientId = clientId,
          c_authorityRecordId = authorityRecordId, c_rootAuthorityRecordId = rootAuthorityRecordId,
          c_use = use, c_subType = subType, c_jti = jti, c_issuedAt = issuedAt, c_expiresAt = expiresAt,
          c_scope = scope, c_targetResources = targetResources, c_sessionId = sessionId,
          c_delegationId = delegationId, c_sourceSessionId = sourceSessionId,
          c_targetSessionId = targetSessionId, c_delegationPath = delegationPath,
          c_delegationChain = delegationChain, c_graphEpoch = graphEpoch, c_hopCount = hopCount\<rparr>
     )))))))))))))))))))))))))))))"

definition verify ::
    "(string \<Rightarrow> string \<Rightarrow> 'k option) \<Rightarrow> (string \<Rightarrow> 'k \<Rightarrow> string \<Rightarrow> string \<Rightarrow> payload option) \<Rightarrow>
     string \<Rightarrow> jwt_config \<Rightarrow> verify_error + claims" where
  "verify getKeySet jwtVerify token config =
     (if zoneId config = [] then Inl ZoneInvalidError
      else case getKeySet (issuer config) (zoneId config) of
          None \<Rightarrow> Inl (TokenInvalidError ''Token validation failed'')
        | Some keySet \<Rightarrow>
            (case jwtVerify token keySet (issuer config) (audience config) of
               None \<Rightarrow> Inl (TokenInvalidError ''Token validation failed'')
             | Some payload \<Rightarrow> verify_payload payload config))"

definition verifyChainContains :: "claims \<Rightarrow> string \<Rightarrow> bool" where
  "verifyChainContains cl applicationId =
     (if chain_has (c_delegationChain cl) applicationId then True
      else if c_clientId cl = applicationId then True
      else False)"

subsection \<open>The specification of an acceptable mandate\<close>

text \<open>Total readings of a payload: a missing or ill-typed claim reads as empty.\<close>

definition text_claim :: "payload \<Rightarrow> string \<Rightarrow> string" where
  "text_claim p n = (case jget p n of Some (JStr s) \<Rightarrow> s | _ \<Rightarrow> [])"

definition nat_claim :: "payload \<Rightarrow> string \<Rightarrow> int" where
  "nat_claim p n = (case jget p n of Some (JInt i) \<Rightarrow> i | _ \<Rightarrow> 0)"

definition absent :: "payload \<Rightarrow> string \<Rightarrow> bool" where
  "absent p n = (case jget p n of None \<Rightarrow> True | Some JNull \<Rightarrow> True | _ \<Rightarrow> False)"

definition has_nat :: "payload \<Rightarrow> string \<Rightarrow> bool" where
  "has_nat p n = (case jget p n of Some (JInt i) \<Rightarrow> 0 \<le> i | _ \<Rightarrow> False)"

definition has_string :: "payload \<Rightarrow> string \<Rightarrow> bool" where
  "has_string p n = (case jget p n of Some (JStr s) \<Rightarrow> True | _ \<Rightarrow> False)"

definition is_text :: "json \<Rightarrow> bool" where
  "is_text j = (case j of JStr s \<Rightarrow> s \<noteq> [] | _ \<Rightarrow> False)"

fun the_text :: "json \<Rightarrow> string" where
  "the_text (JStr s) = s"
| "the_text _ = []"

definition has_texts :: "payload \<Rightarrow> string \<Rightarrow> bool" where
  "has_texts p n = (case jget p n of Some (JArr js) \<Rightarrow> list_all is_text js | _ \<Rightarrow> False)"

definition texts_claim :: "payload \<Rightarrow> string \<Rightarrow> string set" where
  "texts_claim p n = (case jget p n of Some (JArr js) \<Rightarrow> the_text ` set js | _ \<Rightarrow> {})"

definition is_hop :: "json \<Rightarrow> bool" where
  "is_hop j = (case j of
      JObj r \<Rightarrow> text_claim r ''application_id'' \<noteq> [] \<and>
        (absent r ''agent_session_id'' \<or> has_string r ''agent_session_id'') \<and>
        (absent r ''delegation_edge_id'' \<or> has_string r ''delegation_edge_id'')
    | _ \<Rightarrow> False)"

definition hop_app :: "json \<Rightarrow> string" where
  "hop_app j = (case j of JObj r \<Rightarrow> text_claim r ''application_id'' | _ \<Rightarrow> [])"

definition has_hops :: "payload \<Rightarrow> string \<Rightarrow> bool" where
  "has_hops p n = (case jget p n of Some (JArr js) \<Rightarrow> list_all is_hop js | _ \<Rightarrow> False)"

definition hop_apps :: "payload \<Rightarrow> string \<Rightarrow> string set" where
  "hop_apps p n = (case jget p n of Some (JArr js) \<Rightarrow> hop_app ` set js | _ \<Rightarrow> {})"

definition mandate_shape :: "payload \<Rightarrow> bool" where
  "mandate_shape p \<longleftrightarrow>
     text_claim p ''jti'' \<noteq> [] \<and> text_claim p ''sub'' \<noteq> [] \<and> text_claim p ''client_id'' \<noteq> [] \<and>
     text_claim p ''sid'' \<noteq> [] \<and> text_claim p ''root_sid'' \<noteq> [] \<and>
     text_claim p ''use'' \<in> {''session'', ''resource''} \<and>
     text_claim p ''sub_type'' \<in> {''user'', ''application''} \<and>
     has_nat p ''iat'' \<and> has_nat p ''exp'' \<and>
     (absent p ''scope'' \<or> has_string p ''scope'') \<and>
     (absent p ''target'' \<or> has_texts p ''target'') \<and>
     (absent p ''agent_session_id'' \<or> has_string p ''agent_session_id'') \<and>
     (absent p ''delegation_edge_id'' \<or> has_string p ''delegation_edge_id'') \<and>
     (absent p ''source_session_id'' \<or> has_string p ''source_session_id'') \<and>
     (absent p ''target_session_id'' \<or> has_string p ''target_session_id'') \<and>
     (absent p ''delegation_path'' \<or> has_texts p ''delegation_path'') \<and>
     (absent p ''delegation_chain'' \<or> has_hops p ''delegation_chain'') \<and>
     (absent p ''delegation_graph_epoch'' \<or> has_nat p ''delegation_graph_epoch'') \<and>
     (absent p ''hop_count'' \<or> has_nat p ''hop_count'')"

definition mandate_grants :: "payload \<Rightarrow> jwt_config \<Rightarrow> bool" where
  "mandate_grants p config \<longleftrightarrow>
     text_claim p ''zone_id'' = zoneId config \<and>
     (case requiredUse config of None \<Rightarrow> True | Some u \<Rightarrow> u = [] \<or> text_claim p ''use'' = u) \<and>
     set (requiredScopes config) \<subseteq> set (parseScope (Some (text_claim p ''scope''))) \<and>
     set (requiredTargets config) \<subseteq> texts_claim p ''target'' \<and>
     (requireSession config \<longrightarrow> text_claim p ''agent_session_id'' \<noteq> []) \<and>
     (requireDelegation config \<longrightarrow> text_claim p ''delegation_edge_id'' \<noteq> []) \<and>
     nat_claim p ''hop_count'' \<le> effective_max_hops config \<and>
     set (requireChainContains config) \<subseteq> hop_apps p ''delegation_chain''"

definition mandate_ok :: "payload \<Rightarrow> jwt_config \<Rightarrow> bool" where
  "mandate_ok p config \<longleftrightarrow> mandate_shape p \<and> mandate_grants p config"

subsection \<open>What each reader accepts\<close>

lemma requiredString_Inr: "requiredString p n = Inr v \<longleftrightarrow> text_claim p n = v \<and> v \<noteq> []"
  by (auto simp: requiredString_def text_claim_def split: option.splits json.splits)

lemma optionalString_Inr:
  "optionalString p n = Inr v \<longleftrightarrow>
     (absent p n \<or> has_string p n) \<and> v = (if text_claim p n = [] then None else Some (text_claim p n))"
  by (auto simp: optionalString_def text_claim_def absent_def has_string_def
      split: option.splits json.splits)

lemma optionalInteger_Inr:
  "optionalInteger p n = Inr v \<longleftrightarrow>
     (absent p n \<or> has_nat p n) \<and> v = (if absent p n then None else Some (nat_claim p n))"
  by (auto simp: optionalInteger_def nat_claim_def absent_def has_nat_def
      split: option.splits json.splits)

lemma requiredInteger_Inr: "requiredInteger p n = Inr v \<longleftrightarrow> has_nat p n \<and> v = nat_claim p n"
  by (auto simp: requiredInteger_def optionalInteger_Inr absent_def has_nat_def
      split: option.splits json.splits if_splits)

lemma readScope_Inr:
  "readScope p = Inr v \<longleftrightarrow> (absent p ''scope'' \<or> has_string p ''scope'') \<and> v = text_claim p ''scope''"
  by (auto simp: readScope_def text_claim_def absent_def has_string_def split: option.splits json.splits)

lemma readStringList_loop_Inr:
  "readStringList_loop js n = Inr v \<longleftrightarrow> list_all is_text js \<and> v = map the_text js"
  by (induction js n arbitrary: v rule: readStringList_loop.induct) (auto simp: is_text_def)

lemma readStringList_Inr:
  "readStringList (jget p n) n' = Inr v \<longleftrightarrow>
     (absent p n \<or> has_texts p n) \<and>
     v = (case jget p n of Some (JArr js) \<Rightarrow> Some (map the_text js) | _ \<Rightarrow> None)"
  by (auto simp: readStringList_def absent_def has_texts_def readStringList_loop_Inr
      split: option.splits json.splits)

lemma readHop_Inr_ex: "(\<exists>h. readHop j = Inr h) \<longleftrightarrow> is_hop j"
  by (auto simp: readHop_def is_hop_def requiredString_Inr optionalString_Inr split: json.splits)

lemma readHop_app: "readHop j = Inr h \<Longrightarrow> hop_applicationId h = hop_app j"
  by (auto simp: readHop_def hop_app_def requiredString_Inr split: json.splits)

lemma readChain_loop_ex: "(\<exists>hs. readChain_loop js = Inr hs) \<longleftrightarrow> list_all is_hop js"
  by (induction js) (auto simp: readHop_Inr_ex [symmetric])

lemma readChain_loop_map: "readChain_loop js = Inr hs \<Longrightarrow> map hop_applicationId hs = map hop_app js"
  by (induction js arbitrary: hs) (auto simp: readHop_app)

lemma readChain_loop_apps: "readChain_loop js = Inr hs \<Longrightarrow> hop_applicationId ` set hs = hop_app ` set js"
  by (metis readChain_loop_map set_map)

lemma readChain_ex:
  "(\<exists>v. readChain (jget p n) = Inr v) \<longleftrightarrow> absent p n \<or> has_hops p n"
  by (auto simp: readChain_def absent_def has_hops_def readChain_loop_ex [symmetric]
      split: option.splits json.splits)

lemma readChain_has:
  "readChain (jget p n) = Inr v \<Longrightarrow> chain_has v a \<longleftrightarrow> a \<in> hop_apps p n"
proof (cases "jget p n")
  case None
  then show "readChain (jget p n) = Inr v \<Longrightarrow> ?thesis"
    by (simp add: readChain_def hop_apps_def chain_has_def)
next
  case (Some j)
  assume v: "readChain (jget p n) = Inr v"
  show ?thesis
  proof (cases j)
    case (JArr js)
    with Some v obtain hs where hs: "readChain_loop js = Inr hs" "v = (if hs = [] then None else Some hs)"
      by (auto simp: readChain_def)
    have "chain_has v a \<longleftrightarrow> a \<in> hop_applicationId ` set hs"
      by (auto simp: chain_has_def hs(2) list_ex_iff)
    with readChain_loop_apps [OF hs(1)] JArr Some show ?thesis by (simp add: hop_apps_def)
  qed (use Some v in \<open>auto simp: readChain_def hop_apps_def chain_has_def\<close>)
qed

lemma check_scopes_Inr:
  "check_scopes rs scope = Inr u \<longleftrightarrow> set rs \<subseteq> set (parseScope (Some scope))"
  by (induction rs scope rule: check_scopes.induct) (auto simp: hasScope_def set_parseScope)

lemma check_targets_Inr:
  "check_targets ts v = Inr u \<longleftrightarrow> set ts \<subseteq> (case v of None \<Rightarrow> {} | Some xs \<Rightarrow> set xs)"
  by (induction ts v rule: check_targets.induct) (auto split: option.splits)

lemma check_chain_Inr: "check_chain es v = Inr u \<longleftrightarrow> (\<forall>e \<in> set es. chain_has v e)"
  by (induction es v rule: check_chain.induct) auto

lemmas reader_Inr = requiredString_Inr optionalString_Inr optionalInteger_Inr requiredInteger_Inr
  readScope_Inr readStringList_Inr check_scopes_Inr check_targets_Inr check_chain_Inr

lemma zone_guard:
  "(case jget p ''zone_id'' of Some (JStr z) \<Rightarrow> z \<noteq> [] \<and> z = zone | _ \<Rightarrow> False)
     \<longleftrightarrow> text_claim p ''zone_id'' = zone \<and> zone \<noteq> []"
  by (auto simp: text_claim_def split: option.splits json.splits)

lemma targets_of_list:
  "(case (case jget p n of Some (JArr js) \<Rightarrow> Some (map the_text js) | _ \<Rightarrow> None) of
      None \<Rightarrow> {} | Some xs \<Rightarrow> set xs) = texts_claim p n"
  by (auto simp: texts_claim_def split: option.splits json.splits)

lemma hops_of_claim:
  "(case (if absent p n then None else Some (nat_claim p n)) of None \<Rightarrow> 0 | Some h \<Rightarrow> h) = nat_claim p n"
  by (auto simp: absent_def nat_claim_def split: option.splits json.splits)

lemma if_None_eq: "((if b then None else Some x) = None) = b"
  by simp

text \<open>The claims a payload yields once its delegation chain has been read.\<close>

definition payload_claims :: "payload \<Rightarrow> jwt_config \<Rightarrow> chain_hop list option \<Rightarrow> claims" where
  "payload_claims p config chain =
     \<lparr>c_sub = text_claim p ''sub'', c_zoneId = zoneId config, c_clientId = text_claim p ''client_id'',
      c_authorityRecordId = text_claim p ''sid'', c_rootAuthorityRecordId = text_claim p ''root_sid'',
      c_use = text_claim p ''use'', c_subType = text_claim p ''sub_type'', c_jti = text_claim p ''jti'',
      c_issuedAt = nat_claim p ''iat'', c_expiresAt = nat_claim p ''exp'', c_scope = text_claim p ''scope'',
      c_targetResources = (case jget p ''target'' of Some (JArr js) \<Rightarrow> Some (map the_text js) | _ \<Rightarrow> None),
      c_sessionId = (if text_claim p ''agent_session_id'' = [] then None else Some (text_claim p ''agent_session_id'')),
      c_delegationId = (if text_claim p ''delegation_edge_id'' = [] then None else Some (text_claim p ''delegation_edge_id'')),
      c_sourceSessionId = (if text_claim p ''source_session_id'' = [] then None else Some (text_claim p ''source_session_id'')),
      c_targetSessionId = (if text_claim p ''target_session_id'' = [] then None else Some (text_claim p ''target_session_id'')),
      c_delegationPath = (case jget p ''delegation_path'' of Some (JArr js) \<Rightarrow> Some (map the_text js) | _ \<Rightarrow> None),
      c_delegationChain = chain,
      c_graphEpoch = (if absent p ''delegation_graph_epoch'' then None else Some (nat_claim p ''delegation_graph_epoch'')),
      c_hopCount = (if absent p ''hop_count'' then None else Some (nat_claim p ''hop_count''))\<rparr>"

lemma member_texts: "(x \<in> {''session'', ''resource''}) \<Longrightarrow> x \<noteq> []" "(x \<in> {''user'', ''application''}) \<Longrightarrow> x \<noteq> []"
  by auto

lemma mandate_shape_texts:
  assumes "mandate_shape p"
  shows "text_claim p ''use'' \<noteq> []" "text_claim p ''sub_type'' \<noteq> []"
  using assms member_texts [of "text_claim p ''use''"] member_texts [of "text_claim p ''sub_type''"]
  by (simp_all only: mandate_shape_def) simp_all

lemma verify_payload_Inr:
  "verify_payload p config = Inr cl \<longleftrightarrow>
     mandate_ok p config \<and> zoneId config \<noteq> [] \<and>
     (\<exists>chain. readChain (jget p ''delegation_chain'') = Inr chain \<and> cl = payload_claims p config chain)"
  (is "?L \<longleftrightarrow> ?R")
proof
  assume ?L
  then obtain chain where chain: "readChain (jget p ''delegation_chain'') = Inr chain"
    unfolding verify_payload_def ebind_Inr by blast
  have hops: "absent p ''delegation_chain'' \<or> has_hops p ''delegation_chain''"
    using chain readChain_ex by blast
  from \<open>?L\<close> show ?R
    unfolding verify_payload_def ebind_Inr reader_Inr eguard_Inr zone_guard chain
      mandate_ok_def mandate_shape_def mandate_grants_def payload_claims_def
    using hops readChain_has [OF chain]
    by (simp add: targets_of_list hops_of_claim if_None_eq subset_eq [symmetric] not_less
        MANDATE_USE_SESSION_def MANDATE_USE_RESOURCE_def del: not_None_eq)
next
  assume ?R
  then obtain chain where chain: "readChain (jget p ''delegation_chain'') = Inr chain"
    and cl: "cl = payload_claims p config chain" and ok: "mandate_ok p config" "zoneId config \<noteq> []"
    by blast
  have texts: "text_claim p ''use'' \<noteq> []" "text_claim p ''sub_type'' \<noteq> []"
    using ok mandate_shape_texts by (auto simp: mandate_ok_def)
  show ?L
    using ok readChain_has [OF chain] texts
    unfolding verify_payload_def ebind_Inr reader_Inr eguard_Inr zone_guard chain
      mandate_ok_def mandate_shape_def mandate_grants_def cl payload_claims_def
    by (simp add: targets_of_list hops_of_claim if_None_eq subset_eq [symmetric] not_less
        MANDATE_USE_SESSION_def MANDATE_USE_RESOURCE_def del: not_None_eq)
qed

subsection \<open>Properties\<close>

text \<open>
  C15: mandate verification accepts a token exactly when the configured zone is non-empty, the JWT
  library accepts the token under the key set of that configured zone, and the payload is an
  acceptable mandate: required claims present and well typed, the zone claim equal to the configured
  zone, every required scope, target and chain member present, the required session and delegation
  bindings present, and the hop count within the bound. The returned claims are those of the payload.
\<close>

theorem verify_accepts_iff:
  "verify getKeySet jwtVerify token config = Inr cl \<longleftrightarrow>
     zoneId config \<noteq> [] \<and>
     (\<exists>keySet payload chain.
        getKeySet (issuer config) (zoneId config) = Some keySet \<and>
        jwtVerify token keySet (issuer config) (audience config) = Some payload \<and>
        mandate_ok payload config \<and>
        readChain (jget payload ''delegation_chain'') = Inr chain \<and>
        cl = payload_claims payload config chain)"
  by (auto simp: verify_def verify_payload_Inr split: option.splits)

text \<open>
  The configured zone is the only trust anchor: the outcome depends on the key sets only through
  the one of the configured issuer and zone, so no claim of the unverified token can steer key
  selection.
\<close>

theorem verify_key_anchor:
  assumes "getKeySet (issuer config) (zoneId config) = getKeySet' (issuer config) (zoneId config)"
  shows "verify getKeySet jwtVerify token config = verify getKeySet' jwtVerify token config"
  by (simp add: verify_def assms)

definition example_config :: jwt_config where
  "example_config = \<lparr>issuer = ''https://sts'', audience = ''https://sts'', zoneId = ''z1'',
     requiredScopes = [''read''], requiredTargets = [], requiredUse = None, requireSession = False,
     requireDelegation = False, requireChainContains = [], maxHopCount = None\<rparr>"

theorem verify_key_anchor_witness:
  "verify (\<lambda>i z. if z = ''z1'' then Some (1::nat) else None) (\<lambda>t k i a. None) ''tok'' example_config =
   verify (\<lambda>i z. Some (1::nat)) (\<lambda>t k i a. None) ''tok'' example_config"
  by (rule verify_key_anchor) (simp add: example_config_def)

end
