(* ===== verification/KeySets.thy ===== *)
theory KeySets
  imports Identity
begin

text \<open>
  The cache of signing keys behind mandate verification: \<open>packages/identity/ts/src/jwks.ts\<close>. A lookup
  either serves the stored key set or starts a fetch; the fetch ends at a later time, and lookups and
  clears may happen in between, so the two ends are separate events here. Parameters stand for
  \<open>new URL\<close> (scheme and host, \<open>None\<close> when it throws), \<open>URLSearchParams\<close>, the HTTP response and the
  construction of a key set from a document by the JWT library (\<open>None\<close> when it throws).
\<close>

section \<open>Issuers and documents\<close>

definition DEFAULT_CACHE_TTL_MS :: time where "DEFAULT_CACHE_TTL_MS = 5 * 60 * 1000"
definition DEFAULT_MAX_STALE_MS :: time where "DEFAULT_MAX_STALE_MS = 10 * 60 * 1000"
definition MAX_JWKS_BYTES :: nat where "MAX_JWKS_BYTES = 256 * 1024"

datatype jwks_error = InvalidIssuer | InsecureIssuer | UnsupportedScheme | ZoneRequired | FetchFailed | BadStatus int | TooLarge | BadDocument

definition digit :: "char \<Rightarrow> bool" where
  "digit c = (c \<in> set ''0123456789'')"

definition isLoopbackHost :: "string \<Rightarrow> bool" where
  "isLoopbackHost host =
    (host = ''localhost'' \<or> host = ''::1'' \<or> host = ''[::1]'' \<or>
     (case split_on (CHR ''.'') host of
        [a, b, c, d] \<Rightarrow> a = ''127'' \<and> list_all (\<lambda>p. 1 \<le> length p \<and> length p \<le> 3 \<and> list_all digit p) [b, c, d]
      | _ \<Rightarrow> False))"

definition assertSecureIssuer :: "(string \<Rightarrow> (string \<times> string) option) \<Rightarrow> bool \<Rightarrow> string \<Rightarrow> jwks_error option" where
  "assertSecureIssuer new_url insecure i = (case new_url i of
      None \<Rightarrow> Some InvalidIssuer
    | Some (protocol, hostname) \<Rightarrow>
        if protocol = ''https:'' then None
        else if protocol = ''http:'' then (if isLoopbackHost hostname \<or> insecure then None else Some InsecureIssuer)
        else Some UnsupportedScheme)"

datatype response_body = Chunks "string list" | Whole string

record response =
  rs_status :: int
  rs_length :: "nat option"
  rs_body :: response_body

text \<open>The loop over the reader: \<open>None\<close> when the document is too large.\<close>

fun read_chunks :: "nat \<Rightarrow> string list \<Rightarrow> string list \<Rightarrow> string option" where
  "read_chunks len chunks [] = Some (concat chunks)"
| "read_chunks len chunks (v # vs) =
    (if MAX_JWKS_BYTES < len + length v then None else read_chunks (len + length v) (chunks @ [v]) vs)"

definition read_body :: "response \<Rightarrow> jwks_error + string" where
  "read_body r =
    (if \<not> (200 \<le> rs_status r \<and> rs_status r \<le> 299) then Inl (BadStatus (rs_status r))
     else if (case rs_length r of None \<Rightarrow> False | Some n \<Rightarrow> MAX_JWKS_BYTES < n) then Inl TooLarge
     else case rs_body r of
       Whole s \<Rightarrow> Inr s
     | Chunks vs \<Rightarrow> (case read_chunks 0 [] vs of None \<Rightarrow> Inl TooLarge | Some s \<Rightarrow> Inr s))"

text \<open>What the cache is built with: the libraries, the environment variable and the two times.\<close>

record 'k jwks_config =
  new_url :: "string \<Rightarrow> (string \<times> string) option"
  form_encode :: "string \<Rightarrow> string"
  createLocalJWKSet :: "string \<Rightarrow> 'k option"
  insecureAllowed :: bool
  ttlMs :: time
  maxStaleMs :: time

definition createJwksCache :: "(string \<Rightarrow> (string \<times> string) option) \<Rightarrow> (string \<Rightarrow> string) \<Rightarrow> (string \<Rightarrow> 'k option) \<Rightarrow> bool \<Rightarrow>
    time option \<Rightarrow> time option \<Rightarrow> 'k jwks_config" where
  "createJwksCache url enc build insecure ttl stale =
    (let t = (case ttl of None \<Rightarrow> DEFAULT_CACHE_TTL_MS | Some t \<Rightarrow> t);
         s = (case stale of None \<Rightarrow> DEFAULT_MAX_STALE_MS | Some s \<Rightarrow> s)
     in \<lparr>new_url = url, form_encode = enc, createLocalJWKSet = build, insecureAllowed = insecure, ttlMs = t, maxStaleMs = max s t\<rparr>)"

definition jwks_url :: "'k jwks_config \<Rightarrow> string \<Rightarrow> string \<Rightarrow> string" where
  "jwks_url c i z =
    (if i \<noteq> [] \<and> last i = CHR ''/'' then butlast i else i) @ ''/.well-known/jwks.json?zone_id='' @ form_encode c z"

text \<open>The checks before the request, and what the request returns; \<open>net\<close> is \<open>None\<close> on a network error or a timeout.\<close>

definition fetch_keys :: "'k jwks_config \<Rightarrow> (string \<Rightarrow> response option) \<Rightarrow> string \<Rightarrow> string \<Rightarrow> jwks_error + 'k" where
  "fetch_keys c net i z =
    (case assertSecureIssuer (new_url c) (insecureAllowed c) i of
       Some x \<Rightarrow> Inl x
     | None \<Rightarrow>
        if z = [] then Inl ZoneRequired
        else case net (jwks_url c i z) of
          None \<Rightarrow> Inl FetchFailed
        | Some r \<Rightarrow> (case read_body r of
            Inl x \<Rightarrow> Inl x
          | Inr s \<Rightarrow> (case createLocalJWKSet c s of None \<Rightarrow> Inl BadDocument | Some k \<Rightarrow> Inr k)))"

section \<open>The cache\<close>

record 'k jwks_entry =
  keySet :: 'k
  fetchedAt :: time
  revalidating :: bool

type_synonym 'k jwks_cache = "(string \<times> 'k jwks_entry) list"

definition cacheKey :: "string \<Rightarrow> string \<Rightarrow> string" where
  "cacheKey i z = i @ CHR 0x00 # z"

definition fetchAndStore :: "'k jwks_config \<Rightarrow> (string \<Rightarrow> response option) \<Rightarrow> time \<Rightarrow> string \<Rightarrow> string \<Rightarrow> 'k jwks_cache \<Rightarrow>
    (jwks_error + 'k) \<times> 'k jwks_cache" where
  "fetchAndStore c net t i z m = (case fetch_keys c net i z of
      Inl x \<Rightarrow> (Inl x, m)
    | Inr k \<Rightarrow> (Inr k, AList.update (cacheKey i z) \<lparr>keySet = k, fetchedAt = t, revalidating = False\<rparr> m))"

datatype 'k lookup = Serve 'k | ServeStale 'k bool | Fetch

text \<open>
  What \<open>getKeySet\<close> decides on the entry it finds: serve it, serve it and revalidate it in the background
  unless that is already going on, or fetch.
\<close>

definition getKeySet :: "'k jwks_config \<Rightarrow> time \<Rightarrow> string \<Rightarrow> string \<Rightarrow> 'k jwks_cache \<Rightarrow> 'k lookup \<times> 'k jwks_cache" where
  "getKeySet c t i z m = (case map_of m (cacheKey i z) of
      None \<Rightarrow> (Fetch, m)
    | Some en \<Rightarrow>
        (let age = t - fetchedAt en in
         if age < ttlMs c then (Serve (keySet en), m)
         else if maxStaleMs c < age then (Fetch, m)
         else (ServeStale (keySet en) (\<not> revalidating en), AList.update (cacheKey i z) (en\<lparr>revalidating := True\<rparr>) m)))"

text \<open>The end of a fetch; a background one clears the mark of the entry it then finds.\<close>

definition settle :: "string \<Rightarrow> 'k jwks_cache \<Rightarrow> 'k jwks_cache" where
  "settle key m = (case map_of m key of None \<Rightarrow> m | Some en \<Rightarrow> AList.update key (en\<lparr>revalidating := False\<rparr>) m)"

definition jwks_clear :: "string option \<Rightarrow> string option \<Rightarrow> 'k jwks_cache \<Rightarrow> 'k jwks_cache" where
  "jwks_clear i z m =
    (if truthy i \<and> truthy z then AList.delete (cacheKey (the i) (the z)) m
     else if truthy i then filter (\<lambda>(key, en). \<not> starts_with (the i @ [CHR 0x00]) key) m
     else [])"

datatype jwks_event =
    Get time string string
  | Fetched time string string "string \<Rightarrow> response option" bool
  | Clear "string option" "string option"

fun jwks_step :: "'k jwks_config \<Rightarrow> jwks_event \<Rightarrow> 'k jwks_cache \<Rightarrow> 'k jwks_cache" where
  "jwks_step c (Get t i z) m = snd (getKeySet c t i z m)"
| "jwks_step c (Fetched t i z net background) m =
    (let m1 = snd (fetchAndStore c net t i z m) in if background then settle (cacheKey i z) m1 else m1)"
| "jwks_step c (Clear i z) m = jwks_clear i z m"

definition jwks_run :: "'k jwks_config \<Rightarrow> jwks_event list \<Rightarrow> 'k jwks_cache" where
  "jwks_run c evs = fold (jwks_step c) evs []"

section \<open>What is served\<close>

lemma read_chunks_limit:
  "length (concat chunks) = len \<Longrightarrow> read_chunks len chunks vs =
     (if vs = [] \<or> len + length (concat vs) \<le> MAX_JWKS_BYTES then Some (concat chunks @ concat vs) else None)"
proof (induction vs arbitrary: len chunks)
  case (Cons v vs)
  then show ?case using Cons.IH [of "chunks @ [v]" "len + length v"] by (cases vs) auto
qed simp

lemma read_body_limit:
  assumes "read_body r = Inr doc" "rs_body r = Chunks vs"
  shows "doc = concat vs" "length doc \<le> MAX_JWKS_BYTES"
proof -
  have "read_chunks 0 [] vs = Some doc"
    using assms by (simp add: read_body_def split: if_splits option.splits)
  then show "doc = concat vs" "length doc \<le> MAX_JWKS_BYTES"
    using read_chunks_limit [of "[]" 0 vs] by (auto split: if_splits)
qed

lemma cacheKey_inject: "CHR 0x00 \<notin> set i \<Longrightarrow> CHR 0x00 \<notin> set i' \<Longrightarrow> cacheKey i z = cacheKey i' z' \<Longrightarrow> i = i' \<and> z = z'"
proof (induction i arbitrary: i')
  case Nil
  then show ?case by (cases i') (auto simp: cacheKey_def)
next
  case (Cons c i)
  then show ?case by (cases i') (auto simp: cacheKey_def)
qed

text \<open>The fetches of a history that ended with a key set for the key.\<close>

definition fetched_for :: "'k jwks_config \<Rightarrow> jwks_event list \<Rightarrow> string \<Rightarrow> 'k \<Rightarrow> time \<Rightarrow> bool" where
  "fetched_for c evs key k t \<longleftrightarrow> (\<exists>i z net b. Fetched t i z net b \<in> set evs \<and> key = cacheKey i z \<and> fetch_keys c net i z = Inr k)"

definition cache_ok :: "'k jwks_config \<Rightarrow> jwks_event list \<Rightarrow> 'k jwks_cache \<Rightarrow> bool" where
  "cache_ok c evs m \<longleftrightarrow> (\<forall>key en. map_of m key = Some en \<longrightarrow> fetched_for c evs key (keySet en) (fetchedAt en))"

lemma fetched_for_mono: "fetched_for c evs key k t \<Longrightarrow> set evs \<subseteq> set evs' \<Longrightarrow> fetched_for c evs' key k t"
  unfolding fetched_for_def by blast

lemma cache_ok_update:
  assumes "cache_ok c evs m" "fetched_for c evs key (keySet en) (fetchedAt en)"
  shows "cache_ok c evs (AList.update key en m)"
  using assms by (auto simp: cache_ok_def update_conv')

lemma map_of_filter_key: "map_of (filter (\<lambda>(key, en). P key) m) key = (if P key then map_of m key else None)"
  by (induction m) auto

lemma jwks_step_ok:
  assumes "cache_ok c evs m" "ev \<in> set evs"
  shows "cache_ok c evs (jwks_step c ev m)"
proof (cases ev)
  case (Get t i z)
  have "cache_ok c evs (AList.update (cacheKey i z) (en\<lparr>revalidating := True\<rparr>) m)" if "map_of m (cacheKey i z) = Some en" for en
    by (rule cache_ok_update [OF assms(1)]) (use assms(1) that in \<open>simp add: cache_ok_def\<close>)
  then show ?thesis using assms(1) Get by (simp add: getKeySet_def Let_def split: option.split)
next
  case (Fetched t i z net b)
  have f: "cache_ok c evs (snd (fetchAndStore c net t i z m))"
  proof (cases "fetch_keys c net i z")
    case (Inr k)
    then have "fetched_for c evs (cacheKey i z) k t" using assms(2) Fetched unfolding fetched_for_def by blast
    then show ?thesis using cache_ok_update [OF assms(1), of "cacheKey i z" "\<lparr>keySet = k, fetchedAt = t, revalidating = False\<rparr>"]
      by (simp add: fetchAndStore_def Inr)
  qed (use assms(1) in \<open>simp add: fetchAndStore_def\<close>)
  have "cache_ok c evs (AList.update (cacheKey i z) (en\<lparr>revalidating := False\<rparr>) (snd (fetchAndStore c net t i z m)))"
    if "map_of (snd (fetchAndStore c net t i z m)) (cacheKey i z) = Some en" for en
    by (rule cache_ok_update [OF f]) (use f that in \<open>simp add: cache_ok_def\<close>)
  then have "cache_ok c evs (settle (cacheKey i z) (snd (fetchAndStore c net t i z m)))"
    using f by (simp add: settle_def split: option.split)
  then show ?thesis using f Fetched by (simp add: Let_def)
next
  case (Clear i z)
  then show ?thesis using assms(1)
    by (auto simp: jwks_clear_def cache_ok_def delete_conv' restrict_map_def map_of_filter_key split: if_splits)
qed

lemma jwks_run_ok: "cache_ok c evs (jwks_run c evs)"
proof -
  have "cache_ok c evs (fold (jwks_step c) es m)" if "cache_ok c evs m" "set es \<subseteq> set evs" for es m
    using that by (induction es arbitrary: m) (auto intro: jwks_step_ok)
  moreover have "cache_ok c evs []" by (simp add: cache_ok_def)
  ultimately show ?thesis unfolding jwks_run_def by blast
qed

text \<open>
  C16: the key set cache never serves foreign or outdated keys. After any history of lookups, clears and ends of
  fetches, a lookup for an issuer and zone at time \<open>t\<close> that serves a key set without fetching serves one that an
  earlier fetch for that very issuer and zone returned, not longer ago than the maximal staleness; the
  fetch was for a non-empty zone and an issuer over HTTPS, a loopback host or with insecure URLs allowed,
  and its document was read in full from the issuer's address for the zone, within the size limit when
  it came in chunks. Issuers are taken to contain no
  NUL, which separates the two parts of a cache key.
\<close>

theorem served_keys_genuine:
  assumes "getKeySet c t i z (jwks_run c evs) = (out, m)" "out = Serve k \<or> out = ServeStale k b" "ttlMs c \<le> maxStaleMs c"
    and "CHR 0x00 \<notin> set i" "\<And>t' i' z' net b'. Fetched t' i' z' net b' \<in> set evs \<Longrightarrow> CHR 0x00 \<notin> set i'"
  shows "\<exists>t' net b' r doc. Fetched t' i z net b' \<in> set evs \<and> t - t' \<le> maxStaleMs c \<and> z \<noteq> [] \<and>
    assertSecureIssuer (new_url c) (insecureAllowed c) i = None \<and>
    net (jwks_url c i z) = Some r \<and> read_body r = Inr doc \<and> createLocalJWKSet c doc = Some k \<and>
    (case rs_body r of Whole s \<Rightarrow> doc = s | Chunks vs \<Rightarrow> doc = concat vs \<and> length doc \<le> MAX_JWKS_BYTES)"
proof -
  obtain en where en: "map_of (jwks_run c evs) (cacheKey i z) = Some en" "k = keySet en" "t - fetchedAt en \<le> maxStaleMs c"
    using assms(1-3) by (auto simp: getKeySet_def Let_def split: option.splits if_splits)
  from jwks_run_ok en(1) have "fetched_for c evs (cacheKey i z) (keySet en) (fetchedAt en)" by (auto simp: cache_ok_def)
  then obtain i' z' net b' where F: "Fetched (fetchedAt en) i' z' net b' \<in> set evs" "cacheKey i z = cacheKey i' z'" "fetch_keys c net i' z' = Inr k"
    by (auto simp: fetched_for_def en(2))
  have iz: "i' = i" "z' = z" using cacheKey_inject [OF assms(4) assms(5) [OF F(1)] F(2)] by simp_all
  from F(3) obtain r doc where r: "assertSecureIssuer (new_url c) (insecureAllowed c) i = None" "z \<noteq> []" "net (jwks_url c i z) = Some r"
    "read_body r = Inr doc" "createLocalJWKSet c doc = Some k"
    unfolding iz by (auto simp: fetch_keys_def split: option.splits sum.splits if_splits)
  have "case rs_body r of Whole s \<Rightarrow> doc = s | Chunks vs \<Rightarrow> doc = concat vs \<and> length doc \<le> MAX_JWKS_BYTES"
  proof (cases "rs_body r")
    case (Chunks vs)
    then show ?thesis using read_body_limit [OF r(4)] by simp
  qed (use r(4) in \<open>simp add: read_body_def split: if_splits\<close>)
  then show ?thesis using F(1) en(3) r unfolding iz by blast
qed

text \<open>The cache as it is created satisfies the assumption on the times, and one fetch makes it serve.\<close>

lemma createJwksCache_times: "ttlMs (createJwksCache url enc build insecure ttl stale) \<le> maxStaleMs (createJwksCache url enc build insecure ttl stale)"
  by (simp add: createJwksCache_def Let_def)

definition sample_jwks :: "string jwks_config" where
  "sample_jwks = createJwksCache (\<lambda>i. Some (''https:'', ''sts'')) (\<lambda>z. z) Some False None None"

definition sample_net :: "string \<Rightarrow> response option" where
  "sample_net url = Some \<lparr>rs_status = 200, rs_length = None, rs_body = Chunks [''key'', ''s'']\<rparr>"

theorem served_keys_genuine_witness:
  "\<exists>t' net b' r doc. Fetched t' ''https://sts'' ''z1'' net b' \<in> set [Fetched 1000 ''https://sts'' ''z1'' sample_net False] \<and>
     400000 - t' \<le> maxStaleMs sample_jwks \<and> net (jwks_url sample_jwks ''https://sts'' ''z1'') = Some r \<and> read_body r = Inr doc \<and>
     createLocalJWKSet sample_jwks doc = Some ''keys''"
proof -
  let ?evs = "[Fetched 1000 ''https://sts'' ''z1'' sample_net False]"
  let ?g = "getKeySet sample_jwks 400000 ''https://sts'' ''z1'' (jwks_run sample_jwks ?evs)"
  have s: "fst ?g = ServeStale ''keys'' True"
    by (simp add: getKeySet_def jwks_run_def fetchAndStore_def fetch_keys_def sample_jwks_def createJwksCache_def Let_def sample_net_def
        assertSecureIssuer_def read_body_def MAX_JWKS_BYTES_def DEFAULT_CACHE_TTL_MS_def DEFAULT_MAX_STALE_MS_def)
  have n: "ttlMs sample_jwks \<le> maxStaleMs sample_jwks" unfolding sample_jwks_def by (rule createJwksCache_times)
  have "\<exists>t' net b' r doc. Fetched t' ''https://sts'' ''z1'' net b' \<in> set ?evs \<and> 400000 - t' \<le> maxStaleMs sample_jwks \<and> ''z1'' \<noteq> [] \<and>
    assertSecureIssuer (new_url sample_jwks) (insecureAllowed sample_jwks) ''https://sts'' = None \<and>
    net (jwks_url sample_jwks ''https://sts'' ''z1'') = Some r \<and> read_body r = Inr doc \<and> createLocalJWKSet sample_jwks doc = Some ''keys'' \<and>
    (case rs_body r of Whole s \<Rightarrow> doc = s | Chunks vs \<Rightarrow> doc = concat vs \<and> length doc \<le> MAX_JWKS_BYTES)"
    by (rule served_keys_genuine [of sample_jwks 400000 "''https://sts''" "''z1''" ?evs "fst ?g" "snd ?g", OF prod.collapse [symmetric] disjI2 [OF s] n])
       simp_all
  then show ?thesis by blast
qed

end
