(* ===== verification/Sweepers.thy ===== *)
theory Sweepers
  imports Revoke "HOL-Library.Multiset"
begin

text \<open>
  The coordinator's cleaning jobs: \<open>jobs/ttl-sweeper.ts\<close>, \<open>jobs/service-lease-sweeper.ts\<close> and
  \<open>jobs/retention-cleaner.ts\<close>. Each is one transaction behind an advisory lock; \<open>locked\<close> says whether the
  run obtained it. Transactions run one after another here, so \<open>SKIP LOCKED\<close> skips nothing. The order
  in which zones are visited follows the host's collation, the parameter \<open>collation\<close>.
\<close>

subsection \<open>Expired tasks and lost services\<close>

definition ttl_passed :: "env \<Rightarrow> session \<Rightarrow> bool" where
  "ttl_passed e s = (live_status (s_status s) \<and> s_lifecycle s \<noteq> Service \<and>
     (case s_ttl s of None \<Rightarrow> False | Some t \<Rightarrow> s_started s + t * 1000 < now e))"

definition lease_lost :: "env \<Rightarrow> session \<Rightarrow> bool" where
  "lease_lost e s = (s_status s = SActive \<and> s_lifecycle s = Service \<and>
     (case s_deadline s of None \<Rightarrow> False | Some t \<Rightarrow> t < now e))"

text \<open>The map from a zone to the identifiers found in it, in order of first occurrence.\<close>

definition byZone :: "session list \<Rightarrow> (zone \<times> string list) list" where
  "byZone rows = map (\<lambda>z. (z, map s_id (filter (\<lambda>s. s_zone s = z) rows))) (uniq (map s_zone rows))"

fun sweep_zones :: "(zone \<Rightarrow> string list \<Rightarrow> db \<Rightarrow> reply + (nat \<times> db)) \<Rightarrow> (zone \<times> string list) list \<Rightarrow> nat \<Rightarrow> db \<Rightarrow> reply + (nat \<times> db)" where
  "sweep_zones f [] n d = Inr (n, d)"
| "sweep_zones f ((z, ids) # zs) n d = ebind (f z ids d) (\<lambda>(k, d1). sweep_zones f zs (n + k) d1)"

definition run_sweep :: "(string \<Rightarrow> string) \<Rightarrow> (zone \<Rightarrow> string list \<Rightarrow> db \<Rightarrow> reply + (nat \<times> db)) \<Rightarrow> bool \<Rightarrow> session list \<Rightarrow> db \<Rightarrow> nat \<times> db" where
  "run_sweep collation f locked expired d =
    (if \<not> locked \<or> expired = [] then (0, d)
     else case sweep_zones f (sort_key (\<lambda>(z, ids). collation z) (byZone expired)) 0 d of
            Inl _ \<Rightarrow> (0, d) | Inr r \<Rightarrow> r)"

definition ttl_batch :: "env \<Rightarrow> cfg \<Rightarrow> db \<Rightarrow> session list" where
  "ttl_batch e c d = take (sweeperBatchSize c) (sort_key s_id (filter (ttl_passed e) (sessions d)))"

definition runTTLSweep :: "(string \<Rightarrow> string) \<Rightarrow> env \<Rightarrow> cfg \<Rightarrow> bool \<Rightarrow> db \<Rightarrow> nat \<times> db" where
  "runTTLSweep collation e c locked d =
     run_sweep collation (\<lambda>z ids. terminateSubtree e z ids ''ttl'' SExpired) locked (ttl_batch e c d) d"

definition lease_batch :: "env \<Rightarrow> cfg \<Rightarrow> db \<Rightarrow> session list" where
  "lease_batch e c d = take (sweeperBatchSize c)
     (sort_key (\<lambda>s. the (s_deadline s)) (sort_key s_id (filter (lease_lost e) (sessions d))))"

definition runServiceLeaseSweep :: "(string \<Rightarrow> string) \<Rightarrow> env \<Rightarrow> cfg \<Rightarrow> bool \<Rightarrow> db \<Rightarrow> nat \<times> db" where
  "runServiceLeaseSweep collation e c locked d =
     run_sweep collation (\<lambda>z ids. suspendSubtree e z ids ''service_heartbeat_lost'') locked (lease_batch e c d) d"

subsection \<open>Retention\<close>

definition days :: "int \<Rightarrow> time" where
  "days n = n * 86400000"

definition lapsed_edge :: "env \<Rightarrow> edge \<Rightarrow> bool" where
  "lapsed_edge e g = (e_status g = EActive \<and> e_expires g < now e)"

definition expired_edge :: "env \<Rightarrow> edge \<Rightarrow> edge" where
  "expired_edge e g = g\<lparr>e_status := EExpired, e_updated := now e\<rparr>"

definition expire_batch :: "env \<Rightarrow> cfg \<Rightarrow> db \<Rightarrow> string list" where
  "expire_batch e c d = map e_id (take (retentionCleanupBatchSize c)
     (sort_key e_expires (sort_key e_id (filter (lapsed_edge e) (edges d)))))"

definition expire_event :: "zone \<Rightarrow> string list \<Rightarrow> int \<Rightarrow> json" where
  "expire_event z ids epoch = JObj [(''event'', JStr ''edge_expire''), (''zone_id'', JStr z), (''affected_edges'', JInt (int (length ids))),
     (''edge_ids'', jstrs ids), (''epoch'', JInt epoch)]"

text \<open>One epoch and one event per zone with expired edges.\<close>

fun expire_zones :: "(zone \<times> string list) list \<Rightarrow> outbox_item list \<Rightarrow> db \<Rightarrow> outbox_item list \<times> db" where
  "expire_zones [] items d = (items, d)"
| "expire_zones ((z, ids) # zs) items d =
    (let (epoch, d1) = bumpDelegationEpoch z d in
     expire_zones zs (items @ [(DelegationsInvalidate, ''edge_expire:'' @ z @ '':'' @ show_int epoch, expire_event z ids epoch)]) d1)"

definition expiredByZone :: "edge list \<Rightarrow> (zone \<times> string list) list" where
  "expiredByZone rows = map (\<lambda>z. (z, map e_id (filter (\<lambda>g. e_zone g = z) rows))) (uniq (map e_zone rows))"

definition expire_edges :: "env \<Rightarrow> cfg \<Rightarrow> db \<Rightarrow> nat \<times> db" where
  "expire_edges e c d =
    (let ids = expire_batch e c d; hit = (\<lambda>g. e_id g \<in> set ids); rows = filter hit (edges d);
         d1 = d\<lparr>edges := map (\<lambda>g. if hit g then expired_edge e g else g) (edges d)\<rparr>;
         (items, d2) = expire_zones (expiredByZone rows) [] d1
     in (length rows, enqueueMany e items d2))"

text \<open>Deleting an edge clears it as a parent, as the foreign key of the table says.\<close>

definition drop_edges :: "(edge \<Rightarrow> bool) \<Rightarrow> db \<Rightarrow> db" where
  "drop_edges gone d = d\<lparr>edges := map (\<lambda>g.
       if list_ex (\<lambda>p. gone p \<and> e_parent g = Some (e_id p) \<and> e_zone g = e_zone p) (edges d) then g\<lparr>e_parent := None\<rparr> else g)
     (filter (\<lambda>g. \<not> gone g) (edges d))\<rparr>"

definition edge_closed_at :: "edge \<Rightarrow> time" where
  "edge_closed_at g = (case e_revoked g of Some t \<Rightarrow> t | None \<Rightarrow> e_expires g)"

definition old_edge :: "env \<Rightarrow> cfg \<Rightarrow> db \<Rightarrow> edge \<Rightarrow> bool" where
  "old_edge e c d g = (e_status g \<noteq> EActive \<and> edge_closed_at g < now e - days (delegationRetentionDays c) \<and>
     \<not> list_ex (\<lambda>h. e_parent h = Some (e_id g) \<and> live_edge e h) (edges d))"

definition delete_edges :: "env \<Rightarrow> cfg \<Rightarrow> db \<Rightarrow> nat \<times> db" where
  "delete_edges e c d =
    (let ids = map e_id (take (retentionCleanupBatchSize c) (sort_key edge_closed_at (filter (old_edge e c d) (edges d))));
         gone = (\<lambda>g. e_id g \<in> set ids)
     in (length (filter gone (edges d)), drop_edges gone d))"

definition old_session :: "env \<Rightarrow> cfg \<Rightarrow> db \<Rightarrow> session \<Rightarrow> bool" where
  "old_session e c d s = (\<not> live_status (s_status s) \<and>
     (case s_terminated s of None \<Rightarrow> False | Some t \<Rightarrow> t < now e - days (sessionRetentionDays c)) \<and>
     \<not> list_ex (\<lambda>k. s_parent k = Some (s_id s)) (sessions d))"

definition detach :: "string list \<Rightarrow> string option \<Rightarrow> string option" where
  "detach ids v = (case v of Some i \<Rightarrow> if i \<in> set ids then None else Some i | None \<Rightarrow> None)"

definition detach_invocation :: "env \<Rightarrow> string list \<Rightarrow> invocation \<Rightarrow> invocation" where
  "detach_invocation e ids r =
    (if detach ids (i_source r) \<noteq> i_source r \<or> detach ids (i_target r) \<noteq> i_target r
     then r\<lparr>i_source := detach ids (i_source r), i_target := detach ids (i_target r), i_updated := now e\<rparr> else r)"

text \<open>Deleting a session deletes its rows of the topology and its delegation edges, by the foreign keys.\<close>

definition delete_sessions :: "env \<Rightarrow> cfg \<Rightarrow> db \<Rightarrow> nat \<times> db" where
  "delete_sessions e c d =
    (let ids = map s_id (take (retentionCleanupBatchSize c)
                 (sort_key (\<lambda>s. the (s_terminated s)) (sort_key s_id (filter (old_session e c d) (sessions d)))));
         d1 = d\<lparr>invocations := map (detach_invocation e ids) (invocations d),
                 sessions := filter (\<lambda>s. s_id s \<notin> set ids) (sessions d),
                 topology := filter (\<lambda>(p, k). p \<notin> set ids \<and> k \<notin> set ids) (topology d)\<rparr>
     in (length (filter (\<lambda>s. s_id s \<in> set ids) (sessions d)),
         drop_edges (\<lambda>g. e_source g \<in> set ids \<or> e_target g \<in> set ids) d1))"

definition old_outbox :: "env \<Rightarrow> cfg \<Rightarrow> outbox_row \<Rightarrow> bool" where
  "old_outbox e c r = (o_producer r = ''coordinator'' \<and> o_status r = OPublished \<and>
     o_updated r < now e - days (outboxRetentionDays c))"

definition delete_outbox :: "env \<Rightarrow> cfg \<Rightarrow> db \<Rightarrow> nat \<times> db" where
  "delete_outbox e c d =
    (let ids = map o_id (take (retentionCleanupBatchSize c) (sort_key o_updated (filter (old_outbox e c) (outbox d)))) in
     (length (filter (\<lambda>r. o_id r \<in> set ids) (outbox d)), d\<lparr>outbox := filter (\<lambda>r. o_id r \<notin> set ids) (outbox d)\<rparr>))"

definition delete_receipts :: "env \<Rightarrow> cfg \<Rightarrow> db \<Rightarrow> nat \<times> db" where
  "delete_receipts e c d =
    (let ids = map rc_id (take (retentionCleanupBatchSize c)
                 (sort_key rc_expires (sort_key rc_id (filter (\<lambda>r. rc_expires r \<le> now e) (receipts d))))) in
     (length (filter (\<lambda>r. rc_id r \<in> set ids) (receipts d)), d\<lparr>receipts := filter (\<lambda>r. rc_id r \<notin> set ids) (receipts d)\<rparr>))"

record retention_result =
  expiredEdges :: nat
  deletedEdges :: nat
  deletedSessions :: nat
  deletedOutbox :: nat
  deletedReceipts :: nat

definition runRetentionCleanup :: "env \<Rightarrow> cfg \<Rightarrow> bool \<Rightarrow> db \<Rightarrow> retention_result \<times> db" where
  "runRetentionCleanup e c locked d =
    (if \<not> locked then (\<lparr>expiredEdges = 0, deletedEdges = 0, deletedSessions = 0, deletedOutbox = 0, deletedReceipts = 0\<rparr>, d)
     else let (n1, d1) = expire_edges e c d; (n2, d2) = delete_edges e c d1; (n3, d3) = delete_sessions e c d2;
              (n4, d4) = delete_outbox e c d3; (n5, d5) = delete_receipts e c d4
          in (\<lparr>expiredEdges = n1, deletedEdges = n2, deletedSessions = n3, deletedOutbox = n4, deletedReceipts = n5\<rparr>, d5))"

subsection \<open>What a sweep over zones achieves\<close>

definition keys_of :: "(session \<Rightarrow> bool) \<Rightarrow> db \<Rightarrow> (zone \<times> string) set" where
  "keys_of bad d = (\<lambda>s. (s_zone s, s_id s)) ` {s \<in> set (sessions d). bad s}"

text \<open>
  The contract a sweep relies on: the cascade of one zone succeeds on a well-formed store, keeps it
  well-formed, makes nothing bad and leaves none of its roots bad.
\<close>

locale zone_sweep =
  fixes f :: "zone \<Rightarrow> string list \<Rightarrow> db \<Rightarrow> reply + (nat \<times> db)" and bad :: "session \<Rightarrow> bool"
  assumes cascade: "session_inv d \<Longrightarrow> ids \<noteq> [] \<Longrightarrow>
    \<exists>n d'. f z ids d = Inr (n, d') \<and> session_inv d' \<and> keys_of bad d' \<subseteq> keys_of bad d - {z} \<times> set ids"
begin

lemma zones_swept:
  assumes "session_inv d" "list_all (\<lambda>(z, ids). ids \<noteq> []) zs"
  shows "\<exists>k d'. sweep_zones f zs n d = Inr (k, d') \<and> session_inv d' \<and>
    keys_of bad d' \<subseteq> keys_of bad d - (\<Union>(z, ids)\<in>set zs. {z} \<times> set ids)"
  using assms
proof (induction zs arbitrary: n d)
  case Nil
  then show ?case by simp
next
  case (Cons p zs)
  obtain z ids where p: "p = (z, ids)" by (cases p)
  obtain m d1 where f: "f z ids d = Inr (m, d1)" "session_inv d1" "keys_of bad d1 \<subseteq> keys_of bad d - {z} \<times> set ids"
    using cascade [OF Cons.prems(1), of ids z] Cons.prems(2) p by auto
  obtain k d' where "sweep_zones f zs (n + m) d1 = Inr (k, d')" "session_inv d'"
    "keys_of bad d' \<subseteq> keys_of bad d1 - (\<Union>(z, ids)\<in>set zs. {z} \<times> set ids)"
    using Cons.IH [OF f(2), of "n + m"] Cons.prems(2) by auto
  then show ?case using f by (auto simp: p)
qed

lemma byZone_covers: "(\<Union>(z, ids)\<in>set (byZone rows). {z} \<times> set ids) = (\<lambda>s. (s_zone s, s_id s)) ` set rows"
proof -
  have "p \<in> (\<Union>(z, ids)\<in>set (byZone rows). {z} \<times> set ids) \<longleftrightarrow> p \<in> (\<lambda>s. (s_zone s, s_id s)) ` set rows" for p
    by (cases p) (auto simp: byZone_def image_iff Bex_def)
  then show ?thesis by blast
qed

lemma byZone_nonempty: "list_all (\<lambda>(z, ids). ids \<noteq> []) (byZone rows)"
  by (auto simp: byZone_def list_all_iff filter_empty_conv)

lemma sweep_keys:
  assumes "session_inv d"
  shows "session_inv (snd (run_sweep collation f locked expired d)) \<and>
    keys_of bad (snd (run_sweep collation f locked expired d)) \<subseteq> keys_of bad d - (if locked then (\<lambda>s. (s_zone s, s_id s)) ` set expired else {})"
proof (cases "\<not> locked \<or> expired = []")
  case True
  then show ?thesis using assms by (auto simp: run_sweep_def)
next
  case False
  let ?zs = "sort_key (\<lambda>(z, ids). collation z) (byZone expired)"
  have "list_all (\<lambda>(z, ids). ids \<noteq> []) ?zs" using byZone_nonempty by (simp add: list_all_iff)
  from zones_swept [OF assms this, of 0] obtain k d' where "sweep_zones f ?zs 0 d = Inr (k, d')" "session_inv d'"
    "keys_of bad d' \<subseteq> keys_of bad d - (\<Union>(z, ids)\<in>set ?zs. {z} \<times> set ids)" by blast
  then show ?thesis using False unfolding set_sort byZone_covers by (simp add: run_sweep_def)
qed

lemma sweep_inv: "session_inv d \<Longrightarrow> session_inv (snd (run_sweep collation f locked expired d))"
  using sweep_keys by blast

end

text \<open>
  A job that sweeps again and again: \<open>passed t\<close> are the sessions that are due at time \<open>t\<close>, which stay due
  as time passes, and each run takes a batch of them in some order.
\<close>

locale timed_sweep =
  fixes f :: "time \<Rightarrow> zone \<Rightarrow> string list \<Rightarrow> db \<Rightarrow> reply + (nat \<times> db)"
    and passed :: "time \<Rightarrow> session \<Rightarrow> bool" and batch :: "nat \<Rightarrow> time \<Rightarrow> db \<Rightarrow> session list"
  assumes sweeps: "zone_sweep (f t) (passed t')"
    and later: "t \<le> t' \<Longrightarrow> passed t s \<Longrightarrow> passed t' s"
    and batch_due: "\<exists>xs. mset xs = mset (filter (passed t) (sessions d)) \<and> batch n t d = take n xs"
begin

lemma keys_later: "t \<le> t' \<Longrightarrow> keys_of (passed t) d \<subseteq> keys_of (passed t') d"
  using later by (auto simp: keys_of_def)

lemma keys_finite: "finite (keys_of bad d)"
  by (simp add: keys_of_def)

lemma keys_card: "card (keys_of bad d) \<le> length (filter bad (sessions d))"
proof -
  have "keys_of bad d = set (map (\<lambda>s. (s_zone s, s_id s)) (filter bad (sessions d)))" by (auto simp: keys_of_def)
  then show ?thesis using card_length [of "map (\<lambda>s. (s_zone s, s_id s)) (filter bad (sessions d))"] by simp
qed

text \<open>One run either clears everything due at its time, or removes a full batch.\<close>

lemma run_progress:
  assumes "session_inv d" "d' = snd (run_sweep collation (f t) True (batch n t d) d)" "t0 \<le> t" "t \<le> T"
  shows "session_inv d'" "keys_of (passed t0) d' \<subseteq> keys_of (passed t0) d"
    "keys_of (passed t0) d' = {} \<or> card (keys_of (passed T) d') \<le> card (keys_of (passed T) d) - n"
proof -
  let ?key = "\<lambda>s. (s_zone s, s_id s)"
  have S: "session_inv d' \<and> keys_of (passed x) d' \<subseteq> keys_of (passed x) d - ?key ` set (batch n t d)" for x
    using zone_sweep.sweep_keys [OF sweeps assms(1), where locked = True] unfolding assms(2) by simp
  then show "session_inv d'" "keys_of (passed t0) d' \<subseteq> keys_of (passed t0) d" by blast+
  obtain xs where xs: "mset xs = mset (filter (passed t) (sessions d))" "batch n t d = take n xs" using batch_due by blast
  have set: "set xs = {s \<in> set (sessions d). passed t s}" using mset_eq_setD [OF xs(1)] by simp
  have "distinct (map s_id (filter (passed t) (sessions d)))" using assms(1) distinct_map_filter by (auto simp: session_inv_def)
  then have "distinct (map s_id xs)" using mset_map [of s_id] xs(1) by (metis mset_eq_imp_distinct_iff)
  then have dist: "distinct (map ?key xs)" by (auto simp: distinct_map inj_on_def)
  show "keys_of (passed t0) d' = {} \<or> card (keys_of (passed T) d') \<le> card (keys_of (passed T) d) - n"
  proof (cases "length xs \<le> n")
    case True
    then have "?key ` set (batch n t d) = keys_of (passed t) d" by (simp add: xs(2) set keys_of_def)
    then have "keys_of (passed t) d' = {}" using S [of t] by blast
    then show ?thesis using keys_later [OF assms(3)] by blast
  next
    case False
    have sub: "?key ` set (batch n t d) \<subseteq> keys_of (passed T) d"
      using set later [OF assms(4)] set_take_subset [of n xs] by (auto simp: xs(2) keys_of_def)
    have "distinct (map ?key (take n xs))" using dist distinct_take [of "map ?key xs" n] by (simp only: take_map)
    from distinct_card [OF this] have "card (?key ` set (batch n t d)) = n" using False by (simp add: xs(2))
    then have "card (keys_of (passed T) d - ?key ` set (batch n t d)) = card (keys_of (passed T) d) - n"
      using card_Diff_subset [OF finite_subset [OF sub keys_finite] sub] by simp
    then show ?thesis using card_mono [of _ "keys_of (passed T) d'"] S [of T] keys_finite by (metis finite_Diff)
  qed
qed

lemma runs_clear:
  assumes "session_inv d" "list_all (\<lambda>t. t0 \<le> t \<and> t \<le> T) ts"
    and "keys_of (passed t0) d = {} \<or> card (keys_of (passed T) d) \<le> length ts * n" "t0 \<le> T"
    and "d' = fold (\<lambda>t d. snd (run_sweep collation (f t) True (batch n t d) d)) ts d"
  shows "session_inv d' \<and> keys_of (passed t0) d' = {}"
  using assms
proof (induction ts arbitrary: d)
  case Nil
  then show ?case using keys_later [of t0 T d] keys_finite [of "passed T" d] by auto
next
  case (Cons t ts)
  let ?d = "snd (run_sweep collation (f t) True (batch n t d) d)"
  have t: "t0 \<le> t" "t \<le> T" using Cons.prems(2) by simp_all
  note R = run_progress [OF Cons.prems(1) refl t, of collation n]
  have "keys_of (passed t0) ?d = {} \<or> card (keys_of (passed T) ?d) \<le> length ts * n"
    using R(2,3) Cons.prems(3) by auto
  then show ?case using Cons.IH [OF R(1)] Cons.prems(2,4,5) by simp
qed

end

lemma terminate_cascade:
  assumes inv: "session_inv d" and ids: "ids \<noteq> []" and st: "st = STerminated \<or> st = SExpired"
    and bad: "\<And>s s'. bad s' \<Longrightarrow> s_status s' = s_status s \<Longrightarrow> s_ttl s' = s_ttl s \<Longrightarrow> s_started s' = s_started s \<Longrightarrow>
        s_lifecycle s' = s_lifecycle s \<Longrightarrow> bad s" and live: "\<And>s. bad s \<Longrightarrow> live_status (s_status s)"
  shows "\<exists>n d'. terminateSubtree e z ids reason st d = Inr (n, d') \<and> session_inv d' \<and> keys_of bad d' \<subseteq> keys_of bad d - {z} \<times> set ids"
proof -
  obtain t where t: "tree d z live_status ids = Some t" using tree_total [OF inv] by blast
  have "\<exists>n d'. terminateSubtree e z ids reason st d = Inr (n, d')"
    using t ids by (auto simp: terminateSubtree_def Let_def case_prod_unfold)
  then obtain n d' where r: "terminateSubtree e z ids reason st d = Inr (n, d')" by blast
  obtain t' where "tree d z live_status ids = Some t'" and eff: "terminate_effect e z ids reason st t' d d'"
    using terminateSubtree_Inr [OF r ids] by metis
  then have eff: "terminate_effect e z ids reason st t d d'" using t by simp
  note S = terminate_effectD(1) [OF eff]
  have "(s_zone s', s_id s') \<in> keys_of bad d - {z} \<times> set ids" if s': "s' \<in> set (sessions d')" "bad s'" for s'
  proof -
    from s'(1) obtain s where s: "s \<in> set (sessions d)" and eq: "s' = (if s_id s \<in> set t \<and> s_zone s = z
        then terminated_session e ids reason st s
        else if s_zone s = z \<and> 0 < lost_children (filter (\<lambda>s. s_id s \<in> set t \<and> s_zone s = z) (sessions d)) s
        then s\<lparr>s_child_count := max (s_child_count s - lost_children (filter (\<lambda>s. s_id s \<in> set t \<and> s_zone s = z) (sessions d)) s) 0, s_updated := now e\<rparr> else s)"
      unfolding S terminate_rows_def Let_def set_map by (rule imageE) (rule that)
    have nt: "\<not> (s_id s \<in> set t \<and> s_zone s = z)"
      using live [OF s'(2)] st by (auto simp: eq terminated_session_def live_status_def split: if_splits)
    have same: "s_status s' = s_status s" "s_ttl s' = s_ttl s" "s_started s' = s_started s" "s_lifecycle s' = s_lifecycle s"
      "s_zone s' = s_zone s" "s_id s' = s_id s" unfolding eq if_not_P [OF nt] by simp_all
    then have b: "bad s" using bad [OF s'(2)] by blast
    have "s_id s \<in> set t" if "s_zone s = z" "s_id s \<in> set ids"
      using tree_iff [OF t] in_subtree.root [OF s that(2,1), of live_status] live [OF b] by blast
    then show ?thesis using nt same s b by (auto simp: keys_of_def)
  qed
  then have "keys_of bad d' \<subseteq> keys_of bad d - {z} \<times> set ids" unfolding keys_of_def [of bad d'] by blast
  then show ?thesis using r session_inv_terminate [OF inv t st S] by blast
qed

lemma suspend_cascade:
  assumes inv: "session_inv d" and ids: "ids \<noteq> []"
  shows "\<exists>n d'. suspendSubtree e z ids reason d = Inr (n, d') \<and> session_inv d' \<and>
    keys_of (lease_lost e') d' \<subseteq> keys_of (lease_lost e') d - {z} \<times> set ids"
proof -
  obtain t where t: "tree d z (\<lambda>st. st = SActive) ids = Some t" using tree_total [OF inv] by blast
  have "\<exists>n d'. suspendSubtree e z ids reason d = Inr (n, d')"
    using t ids by (auto simp: suspendSubtree_def Let_def)
  then obtain n d' where r: "suspendSubtree e z ids reason d = Inr (n, d')" by blast
  obtain t' where "tree d z (\<lambda>st. st = SActive) ids = Some t'" and
    "sessions d' = map (\<lambda>s. if s_id s \<in> set t' \<and> s_zone s = z then s\<lparr>s_status := SSuspended, s_updated := now e\<rparr> else s) (sessions d)"
    by (rule suspendSubtree_Inr [OF r ids]) (rule that)
  then have S: "sessions d' = map (\<lambda>s. if s_id s \<in> set t \<and> s_zone s = z then s\<lparr>s_status := SSuspended, s_updated := now e\<rparr> else s) (sessions d)"
    using t by simp
  have "(s_zone s', s_id s') \<in> keys_of (lease_lost e') d - {z} \<times> set ids" if s': "s' \<in> set (sessions d')" "lease_lost e' s'" for s'
  proof -
    from s'(1) obtain s where s: "s \<in> set (sessions d)"
      and eq: "s' = (if s_id s \<in> set t \<and> s_zone s = z then s\<lparr>s_status := SSuspended, s_updated := now e\<rparr> else s)"
      unfolding S set_map by (rule imageE) (rule that)
    have nt: "\<not> (s_id s \<in> set t \<and> s_zone s = z)" using s'(2) by (auto simp: eq lease_lost_def)
    then have eq: "s' = s" unfolding eq by (rule if_not_P)
    then have act: "s_status s = SActive" using s'(2) by (simp add: lease_lost_def)
    have "s_id s \<in> set t" if "s_zone s = z" "s_id s \<in> set ids"
      using tree_iff [OF t] in_subtree.root [OF s that(2,1), of "\<lambda>st. st = SActive"] act by blast
    then show ?thesis using nt s s'(2) eq by (auto simp: keys_of_def)
  qed
  then have "keys_of (lease_lost e') d' \<subseteq> keys_of (lease_lost e') d - {z} \<times> set ids" unfolding keys_of_def [of _ d'] by blast
  then show ?thesis using r session_inv_suspend [OF inv t S] by blast
qed

interpretation ttl_zone: zone_sweep "\<lambda>z ids. terminateSubtree e z ids ''ttl'' SExpired" "ttl_passed e'" for e e'
proof
  show "\<exists>n d'. terminateSubtree e z ids ''ttl'' SExpired d = Inr (n, d') \<and> session_inv d' \<and>
      keys_of (ttl_passed e') d' \<subseteq> keys_of (ttl_passed e') d - {z} \<times> set ids" if "session_inv d" "ids \<noteq> []" for d ids z
    by (rule terminate_cascade [OF that]) (auto simp: ttl_passed_def split: option.splits)
qed

interpretation lease_zone: zone_sweep "\<lambda>z ids. suspendSubtree e z ids ''service_heartbeat_lost''" "lease_lost e'" for e e'
  by unfold_locales (rule suspend_cascade)

interpretation ttl_sweep: timed_sweep "\<lambda>t z ids. terminateSubtree (e\<lparr>now := t\<rparr>) z ids ''ttl'' SExpired" "\<lambda>t. ttl_passed (e\<lparr>now := t\<rparr>)"
  "\<lambda>n t d. take n (sort_key s_id (filter (ttl_passed (e\<lparr>now := t\<rparr>)) (sessions d)))" for e
proof
  show "\<exists>xs. mset xs = mset (filter (ttl_passed (e\<lparr>now := t\<rparr>)) (sessions d)) \<and>
      take n (sort_key s_id (filter (ttl_passed (e\<lparr>now := t\<rparr>)) (sessions d))) = take n xs" for t d n
    by (intro exI conjI) (rule mset_sort, simp)
qed (auto simp: ttl_passed_def split: option.splits)

interpretation lease_sweep: timed_sweep "\<lambda>t z ids. suspendSubtree (e\<lparr>now := t\<rparr>) z ids ''service_heartbeat_lost''" "\<lambda>t. lease_lost (e\<lparr>now := t\<rparr>)"
  "\<lambda>n t d. take n (sort_key (\<lambda>s. the (s_deadline s)) (sort_key s_id (filter (lease_lost (e\<lparr>now := t\<rparr>)) (sessions d))))" for e
proof
  show "\<exists>xs. mset xs = mset (filter (lease_lost (e\<lparr>now := t\<rparr>)) (sessions d)) \<and>
      take n (sort_key (\<lambda>s. the (s_deadline s)) (sort_key s_id (filter (lease_lost (e\<lparr>now := t\<rparr>)) (sessions d)))) = take n xs" for t d n
    by (intro exI conjI) (rule trans [OF mset_sort mset_sort], simp)
qed (auto simp: lease_lost_def split: option.splits)

lemma keys_none: "keys_of bad d = {} \<longleftrightarrow> filter bad (sessions d) = []"
  by (auto simp: keys_of_def filter_empty_conv)

text \<open>
  C24: no task outlives its time to live for long. Consecutive sweeps that hold their lock, at times
  between \<open>t0\<close> and \<open>T\<close>, leave no session live in any zone whose time to live had passed at \<open>t0\<close>, once there
  are enough of them: their number times the batch size is at least the number of sessions past their
  time to live at \<open>T\<close>. The store stays well-formed.
\<close>

theorem ttl_sweep_clears:
  assumes "session_inv d" "list_all (\<lambda>t. t0 \<le> t \<and> t \<le> T) ts" "t0 \<le> T"
    and "length (filter (ttl_passed (e\<lparr>now := T\<rparr>)) (sessions d)) \<le> length ts * sweeperBatchSize c"
    and "d' = fold (\<lambda>t d. snd (runTTLSweep collation (e\<lparr>now := t\<rparr>) c True d)) ts d"
  shows "filter (ttl_passed (e\<lparr>now := t0\<rparr>)) (sessions d') = [] \<and> session_inv d'"
  using ttl_sweep.runs_clear [OF assms(1,2) disjI2 assms(3) assms(5) [unfolded runTTLSweep_def ttl_batch_def]]
    le_trans [OF ttl_sweep.keys_card assms(4)]
  by (simp add: keys_none)

text \<open>
  C25: no service stays active long without its heartbeat. The same for active services past their
  heartbeat deadline: enough consecutive sweeps leave none of those overdue at \<open>t0\<close> active.
\<close>

theorem lease_sweep_clears:
  assumes "session_inv d" "list_all (\<lambda>t. t0 \<le> t \<and> t \<le> T) ts" "t0 \<le> T"
    and "length (filter (lease_lost (e\<lparr>now := T\<rparr>)) (sessions d)) \<le> length ts * sweeperBatchSize c"
    and "d' = fold (\<lambda>t d. snd (runServiceLeaseSweep collation (e\<lparr>now := t\<rparr>) c True d)) ts d"
  shows "filter (lease_lost (e\<lparr>now := t0\<rparr>)) (sessions d') = [] \<and> session_inv d'"
  using lease_sweep.runs_clear [OF assms(1,2) disjI2 assms(3) assms(5) [unfolded runServiceLeaseSweep_def lease_batch_def]]
    le_trans [OF lease_sweep.keys_card assms(4)]
  by (simp add: keys_none)

subsection \<open>What retention spares\<close>

definition anchored :: "db \<Rightarrow> bool" where
  "anchored d \<longleftrightarrow> list_all (\<lambda>g. e_status g = EActive \<longrightarrow>
     list_ex (\<lambda>s. s_id s = e_source g \<and> live s) (sessions d) \<and> list_ex (\<lambda>s. s_id s = e_target g \<and> live s) (sessions d)) (edges d)"

definition same_edge :: "edge \<Rightarrow> edge \<Rightarrow> bool" where
  "same_edge g g' \<longleftrightarrow> g' = g\<lparr>e_parent := e_parent g'\<rparr>"

definition spares :: "env \<Rightarrow> db \<Rightarrow> db \<Rightarrow> bool" where
  "spares e d d' \<longleftrightarrow>
     list_all (\<lambda>s. live s \<longrightarrow> s \<in> set (sessions d')) (sessions d) \<and>
     list_all (\<lambda>g. live_edge e g \<longrightarrow> list_ex (same_edge g) (edges d')) (edges d) \<and>
     list_all (\<lambda>r. o_status r \<noteq> OPublished \<longrightarrow> r \<in> set (outbox d')) (outbox d) \<and>
     list_all (\<lambda>r. now e < rc_expires r \<longrightarrow> r \<in> set (receipts d')) (receipts d)"

definition outbox_ids :: "env \<Rightarrow> db \<Rightarrow> bool" where
  "outbox_ids e d \<longleftrightarrow> inj (uuidv7 e) \<and> distinct (map o_id (outbox d)) \<and> (\<forall>n\<ge>uuids d. uuidv7 e n \<notin> o_id ` set (outbox d))"

definition clean_inv :: "env \<Rightarrow> db \<Rightarrow> bool" where
  "clean_inv e d \<longleftrightarrow> session_inv d \<and> anchored d \<and> edge_keys d \<and> outbox_ids e d \<and> distinct (map rc_id (receipts d))"

lemma same_edge_refl [simp]: "same_edge g g"
  by (simp add: same_edge_def)

lemma same_edge_trans: "same_edge g h \<Longrightarrow> same_edge h k \<Longrightarrow> same_edge g k"
  by (cases g; cases h; cases k) (simp add: same_edge_def)

lemma same_edge_simps:
  assumes "same_edge g h"
  shows "e_id h = e_id g" "e_status h = e_status g" "e_source h = e_source g" "e_target h = e_target g" "e_expires h = e_expires g"
  using assms by (cases g; cases h; simp add: same_edge_def)+

lemma same_edge_live: "same_edge g h \<Longrightarrow> live_edge e h = live_edge e g"
  by (simp add: live_edge_def same_edge_simps)

lemma spares_trans:
  assumes 1: "spares e d d'" and 2: "spares e d' d''"
  shows "spares e d d''"
proof -
  have "list_ex (same_edge g) (edges d'')" if g: "g \<in> set (edges d)" "live_edge e g" for g
  proof -
    obtain h where h: "h \<in> set (edges d')" "same_edge g h" using 1 g by (auto simp: spares_def list_all_iff list_ex_iff)
    then obtain k where "k \<in> set (edges d'')" "same_edge h k"
      using 2 g(2) same_edge_live [OF h(2), of e] unfolding spares_def list_all_iff list_ex_iff by blast
    then show ?thesis using same_edge_trans [OF h(2)] by (auto simp: list_ex_iff)
  qed
  then show ?thesis using 1 2 by (auto simp: spares_def list_all_iff)
qed

lemma clean_invD:
  assumes "clean_inv e d"
  shows "session_inv d" "anchored d" "edge_keys d" "outbox_ids e d" "distinct (map rc_id (receipts d))"
  using assms by (simp_all add: clean_inv_def)

lemma enqueue_outbox_ids:
  assumes "outbox_ids e d"
  shows "outbox_ids e (enqueue e t k p d)" "set (outbox d) \<subseteq> set (outbox (enqueue e t k p d))"
proof -
  have "uuidv7 e n \<noteq> uuidv7 e (uuids d)" if "Suc (uuids d) \<le> n" for n
    using assms that by (auto simp: outbox_ids_def dest: injD)
  then show "outbox_ids e (enqueue e t k p d)" using assms
    by (auto simp: outbox_ids_def enqueue_def Let_def)
  show "set (outbox d) \<subseteq> set (outbox (enqueue e t k p d))" by (auto simp: enqueue_def Let_def)
qed

lemma enqueueMany_outbox_ids:
  "outbox_ids e d \<Longrightarrow> outbox_ids e (enqueueMany e its d) \<and> set (outbox d) \<subseteq> set (outbox (enqueueMany e its d))"
proof (induction its arbitrary: d)
  case (Cons i its)
  then show ?case using enqueue_outbox_ids [OF Cons.prems, of "fst i" "fst (snd i)" "snd (snd i)"] by fastforce
qed simp

lemma expire_zones_frame:
  "\<exists>eps. snd (expire_zones zs items d) = d\<lparr>epochs := eps\<rparr>"
proof (induction zs items d rule: expire_zones.induct)
  case (1 items d)
  then show ?case by (auto intro: exI [of _ "epochs d"])
next
  case (2 z ids zs items d)
  show ?case using 2 [OF refl] by (auto simp: Let_def bumpDelegationEpoch_def split: prod.splits)
qed

lemma batch_member:
  assumes "distinct (map k xs)" "x \<in> set xs" "k x \<in> set (map k (take n ys))" "set ys \<subseteq> {y \<in> set xs. P y}"
  shows "P x"
proof -
  obtain y where "y \<in> set ys" "k y = k x" using assms(3) by (auto dest: in_set_takeD)
  then show ?thesis using assms by (auto simp: distinct_map inj_on_def)
qed

lemma expire_edges_spares:
  assumes "clean_inv e d"
  shows "clean_inv e (snd (expire_edges e c d)) \<and> spares e d (snd (expire_edges e c d))"
proof -
  note I = clean_invD [OF assms]
  let ?ids = "expire_batch e c d" and ?hit = "\<lambda>g. e_id g \<in> set (expire_batch e c d)"
  have hit: "lapsed_edge e g" if "g \<in> set (edges d)" "?hit g" for g
    using batch_member [of e_id "edges d" g _ _ "lapsed_edge e"] I(3) that unfolding edge_keys_def expire_batch_def by force
  define d1 where "d1 = d\<lparr>edges := map (\<lambda>g. if ?hit g then expired_edge e g else g) (edges d)\<rparr>"
  let ?zs = "expiredByZone (filter ?hit (edges d))"
  define items where "items = fst (expire_zones ?zs [] d1)"
  obtain eps where ez: "snd (expire_zones ?zs [] d1) = d1\<lparr>epochs := eps\<rparr>" using expire_zones_frame by blast
  have r: "snd (expire_edges e c d) = enqueueMany e items (d1\<lparr>epochs := eps\<rparr>)"
    unfolding expire_edges_def Let_def d1_def [symmetric] by (simp add: split_beta items_def ez)
  have "outbox_ids e (d1\<lparr>epochs := eps\<rparr>)" using I(4) by (simp add: outbox_ids_def d1_def)
  note ob = enqueueMany_outbox_ids [OF this, of items]
  have "anchored (snd (expire_edges e c d))"
    using I(2) by (auto simp: r d1_def anchored_def list_all_iff expired_edge_def)
  moreover have "edge_keys (snd (expire_edges e c d))"
  proof -
    have "map e_id (edges (snd (expire_edges e c d))) = map e_id (edges d)" by (simp add: r d1_def expired_edge_def)
    then show ?thesis using I(3) by (simp only: edge_keys_def)
  qed
  moreover have "g \<in> set (edges (snd (expire_edges e c d)))" if "g \<in> set (edges d)" "live_edge e g" for g
  proof -
    have "\<not> ?hit g" using hit [OF that(1)] that(2) by (auto simp: lapsed_edge_def live_edge_def)
    then show ?thesis using that(1) by (simp add: r d1_def)
  qed
  moreover have "sessions (snd (expire_edges e c d)) = sessions d" "receipts (snd (expire_edges e c d)) = receipts d"
    by (simp_all add: r d1_def)
  moreover have "outbox_ids e (snd (expire_edges e c d))" "set (outbox d) \<subseteq> set (outbox (snd (expire_edges e c d)))"
    using ob by (simp_all add: r d1_def)
  ultimately show ?thesis using I(1,5) session_inv_cong [of "snd (expire_edges e c d)" d] unfolding clean_inv_def spares_def list_all_iff list_ex_iff
    by (auto intro: same_edge_refl)
qed

lemma drop_edges_spares:
  assumes "g \<in> set (edges d)" "\<not> gone g"
  shows "list_ex (same_edge g) (edges (drop_edges gone d))"
proof -
  let ?f = "\<lambda>g. if list_ex (\<lambda>p. gone p \<and> e_parent g = Some (e_id p) \<and> e_zone g = e_zone p) (edges d) then g\<lparr>e_parent := None\<rparr> else g"
  have "?f g \<in> set (edges (drop_edges gone d))" using assms by (simp add: drop_edges_def)
  moreover have "same_edge g (?f g)" by (simp add: same_edge_def)
  ultimately show ?thesis unfolding list_ex_iff by blast
qed

lemma edge_list_sel: "edges (d\<lparr>edges := x\<rparr>) = x"
  by simp

lemma drop_edges_origin:
  assumes "h \<in> set (edges (drop_edges gone d))"
  obtains g where "g \<in> set (edges d)" "\<not> gone g" "same_edge g h"
proof -
  let ?f = "\<lambda>g. if list_ex (\<lambda>p. gone p \<and> e_parent g = Some (e_id p) \<and> e_zone g = e_zone p) (edges d) then g\<lparr>e_parent := None\<rparr> else g"
  from assms obtain g where g: "h = ?f g" "g \<in> set (filter (\<lambda>g. \<not> gone g) (edges d))"
    unfolding drop_edges_def by (simp only: edge_list_sel set_map) (rule imageE, assumption)
  have "same_edge g (?f g)" by (simp add: same_edge_def)
  then show thesis using g that by auto
qed

lemma drop_edges_frame [simp]:
  "sessions (drop_edges gone d) = sessions d" "outbox (drop_edges gone d) = outbox d" "receipts (drop_edges gone d) = receipts d"
  "uuids (drop_edges gone d) = uuids d" "invocations (drop_edges gone d) = invocations d"
  by (simp_all add: drop_edges_def)

lemma drop_edges_keys: "edge_keys d \<Longrightarrow> edge_keys (drop_edges gone d)"
proof -
  have "map e_id (edges (drop_edges gone d)) = map e_id (filter (\<lambda>g. \<not> gone g) (edges d))" by (simp add: drop_edges_def)
  then show "edge_keys d \<Longrightarrow> edge_keys (drop_edges gone d)" unfolding edge_keys_def by (simp only: distinct_map_filter)
qed

lemma drop_edges_clean:
  assumes "clean_inv e d" "\<And>g. g \<in> set (edges d) \<Longrightarrow> gone g \<Longrightarrow> e_status g \<noteq> EActive"
  shows "clean_inv e (drop_edges gone d) \<and> spares e d (drop_edges gone d)"
proof -
  note I = clean_invD [OF assms(1)]
  have "anchored (drop_edges gone d)" unfolding anchored_def list_all_iff
  proof (intro ballI impI)
    fix h assume h: "h \<in> set (edges (drop_edges gone d))" "e_status h = EActive"
    obtain g where g: "g \<in> set (edges d)" "same_edge g h" by (rule drop_edges_origin [OF h(1)])
    have "e_status g = EActive" using h(2) same_edge_simps(2) [OF g(2)] by simp
    then have "list_ex (\<lambda>s. s_id s = e_source g \<and> live s) (sessions d) \<and> list_ex (\<lambda>s. s_id s = e_target g \<and> live s) (sessions d)"
      using I(2) g(1) unfolding anchored_def list_all_iff by blast
    then show "list_ex (\<lambda>s. s_id s = e_source h \<and> live s) (sessions (drop_edges gone d)) \<and>
        list_ex (\<lambda>s. s_id s = e_target h \<and> live s) (sessions (drop_edges gone d))"
      by (simp add: same_edge_simps [OF g(2)])
  qed
  moreover have "session_inv (drop_edges gone d)" using I(1) session_inv_cong [of "drop_edges gone d" d] by simp
  moreover have "outbox_ids e (drop_edges gone d)" using I(4) by (simp add: outbox_ids_def)
  moreover have "list_ex (same_edge g) (edges (drop_edges gone d))" if "g \<in> set (edges d)" "live_edge e g" for g
    by (rule drop_edges_spares [OF that(1)]) (use assms(2) [OF that(1)] that(2) in \<open>auto simp: live_edge_def\<close>)
  ultimately show ?thesis using I drop_edges_keys [OF I(3)] by (auto simp: clean_inv_def spares_def list_all_iff)
qed

lemma delete_edges_spares:
  assumes "clean_inv e d"
  shows "clean_inv e (snd (delete_edges e c d)) \<and> spares e d (snd (delete_edges e c d))"
proof -
  let ?ids = "map e_id (take (retentionCleanupBatchSize c) (sort_key edge_closed_at (filter (old_edge e c d) (edges d))))"
  have "old_edge e c d g" if "g \<in> set (edges d)" "e_id g \<in> set ?ids" for g
    using batch_member [of e_id "edges d" g _ _ "old_edge e c d"] clean_invD(3) [OF assms] that unfolding edge_keys_def by force
  then have "e_status g \<noteq> EActive" if "g \<in> set (edges d)" "e_id g \<in> set ?ids" for g
    using that unfolding old_edge_def by blast
  from drop_edges_clean [OF assms, of "\<lambda>g. e_id g \<in> set ?ids", OF this] show ?thesis
    by (simp add: delete_edges_def Let_def)
qed

lemma session_inv_delete:
  assumes inv: "session_inv d"
    and gone: "\<And>s. s \<in> set (sessions d) \<Longrightarrow> gone s \<Longrightarrow> \<not> live s \<and> \<not> list_ex (\<lambda>k. s_parent k = Some (s_id s)) (sessions d)"
    and d': "sessions d' = filter (\<lambda>s. \<not> gone s) (sessions d)"
  shows "session_inv d'"
proof -
  have kids: "live_children (sessions d') x = live_children (sessions d) x" for x
    unfolding live_children_def d' filter_filter by (rule filter_cong [OF refl]) (use gone in blast)
  have "session_ok (sessions d') s" if s: "s \<in> set (sessions d')" for s
  proof -
    have sd: "s \<in> set (sessions d)" using s by (simp add: d')
    note ok = session_inv_ok [OF inv sd]
    have "list_ex (\<lambda>q. s_id q = p \<and> s_zone q = s_zone s \<and> s_depth s = s_depth q + 1 \<and> (live s \<longrightarrow> live q)) (sessions d')"
      if p: "s_parent s = Some p" for p
    proof -
      obtain q where q: "q \<in> set (sessions d)" "s_id q = p" "s_zone q = s_zone s" "s_depth s = s_depth q + 1" "live s \<longrightarrow> live q"
        using ok p unfolding session_ok_def list_ex_iff by auto
      have "\<not> gone q" using gone [OF q(1)] sd p q(2) by (auto simp: list_ex_iff)
      then show ?thesis using q unfolding d' list_ex_iff by auto
    qed
    then show ?thesis using ok unfolding session_ok_def kids by (auto split: option.split)
  qed
  moreover have "distinct (map s_id (sessions d'))" using inv by (simp add: d' session_inv_def distinct_map_filter)
  ultimately show ?thesis by (simp add: session_inv_def list_all_iff)
qed

lemma delete_sessions_spares:
  assumes "clean_inv e d"
  shows "clean_inv e (snd (delete_sessions e c d)) \<and> spares e d (snd (delete_sessions e c d))"
proof -
  note I = clean_invD [OF assms]
  define ids where "ids = map s_id (take (retentionCleanupBatchSize c)
                 (sort_key (\<lambda>s. the (s_terminated s)) (sort_key s_id (filter (old_session e c d) (sessions d)))))"
  have dist: "distinct (map s_id (sessions d))" using I(1) by (simp add: session_inv_def)
  have old: "old_session e c d s" if "s \<in> set (sessions d)" "s_id s \<in> set ids" for s
    using batch_member [of s_id "sessions d" s _ _ "old_session e c d"] dist that unfolding ids_def by force
  have not_live: "\<not> live s" if "s \<in> set (sessions d)" "s_id s \<in> set ids" for s
    using old [OF that] by (simp add: old_session_def live_def)
  have cut: "e_status g \<noteq> EActive" if g: "g \<in> set (edges d)" "e_source g \<in> set ids \<or> e_target g \<in> set ids" for g
  proof
    assume "e_status g = EActive"
    then have "list_ex (\<lambda>s. s_id s = e_source g \<and> live s) (sessions d) \<and> list_ex (\<lambda>s. s_id s = e_target g \<and> live s) (sessions d)"
      using I(2) g(1) unfolding anchored_def list_all_iff by blast
    then show False using g(2) not_live unfolding list_ex_iff by metis
  qed
  define d1 where "d1 = d\<lparr>invocations := map (detach_invocation e ids) (invocations d),
      sessions := filter (\<lambda>s. s_id s \<notin> set ids) (sessions d),
      topology := filter (\<lambda>(p, k). p \<notin> set ids \<and> k \<notin> set ids) (topology d)\<rparr>"
  let ?gone = "\<lambda>g. e_source g \<in> set ids \<or> e_target g \<in> set ids"
  have r: "snd (delete_sessions e c d) = drop_edges ?gone d1" by (simp add: delete_sessions_def Let_def ids_def d1_def)
  have D: "clean_inv e (drop_edges ?gone d) \<and> spares e d (drop_edges ?gone d)" by (rule drop_edges_clean [OF assms cut])
  have ed: "edges (drop_edges ?gone d1) = edges (drop_edges ?gone d)" by (simp add: drop_edges_def d1_def)
  have "session_inv (drop_edges ?gone d1)"
    by (rule session_inv_delete [OF I(1), of "\<lambda>s. s_id s \<in> set ids"]) (use old in \<open>auto simp: old_session_def live_def d1_def\<close>)
  moreover have "anchored (drop_edges ?gone d1)" unfolding anchored_def list_all_iff ed
  proof (intro ballI impI)
    fix h assume h: "h \<in> set (edges (drop_edges ?gone d))" "e_status h = EActive"
    obtain g where g: "\<not> ?gone g" "same_edge g h" by (rule drop_edges_origin [OF h(1)])
    have "list_ex (\<lambda>s. s_id s = e_source h \<and> live s) (sessions d) \<and> list_ex (\<lambda>s. s_id s = e_target h \<and> live s) (sessions d)"
      using clean_invD(2) [OF conjunct1 [OF D]] h unfolding anchored_def list_all_iff by (simp add: drop_edges_frame)
    then show "list_ex (\<lambda>s. s_id s = e_source h \<and> live s) (sessions (drop_edges ?gone d1)) \<and>
        list_ex (\<lambda>s. s_id s = e_target h \<and> live s) (sessions (drop_edges ?gone d1))"
      using g(1) same_edge_simps [OF g(2)] unfolding list_ex_iff drop_edges_frame d1_def by auto
  qed
  moreover have "edge_keys (drop_edges ?gone d1)" using drop_edges_keys [OF I(3)] ed by (simp add: edge_keys_def)
  moreover have "outbox_ids e (drop_edges ?gone d1)" using I(4) by (simp add: outbox_ids_def d1_def)
  ultimately have "clean_inv e (drop_edges ?gone d1)" using I(5) by (simp add: clean_inv_def d1_def)
  moreover have "spares e d (drop_edges ?gone d1)"
    using conjunct2 [OF D] not_live unfolding spares_def ed by (auto simp: d1_def list_all_iff)
  ultimately show ?thesis by (simp add: r)
qed

lemma delete_outbox_spares:
  assumes "clean_inv e d"
  shows "clean_inv e (snd (delete_outbox e c d)) \<and> spares e d (snd (delete_outbox e c d))"
proof -
  note I = clean_invD [OF assms]
  let ?ids = "map o_id (take (retentionCleanupBatchSize c) (sort_key o_updated (filter (old_outbox e c) (outbox d))))"
  have old: "old_outbox e c r" if "r \<in> set (outbox d)" "o_id r \<in> set ?ids" for r
    using batch_member [of o_id "outbox d" r _ _ "old_outbox e c"] I(4) that unfolding outbox_ids_def by force
  have keep: "r \<in> set (filter (\<lambda>r. o_id r \<notin> set ?ids) (outbox d))" if "r \<in> set (outbox d)" "o_status r \<noteq> OPublished" for r
    using old [OF that(1)] that unfolding old_outbox_def set_filter by blast
  have r: "snd (delete_outbox e c d) = d\<lparr>outbox := filter (\<lambda>r. o_id r \<notin> set ?ids) (outbox d)\<rparr>"
    by (simp add: delete_outbox_def Let_def)
  have "outbox_ids e (d\<lparr>outbox := filter (\<lambda>r. o_id r \<notin> set ?ids) (outbox d)\<rparr>)"
    using I(4) unfolding outbox_ids_def by (simp add: distinct_map_filter) blast
  then show ?thesis using I keep unfolding r clean_inv_def spares_def
    by (simp add: session_inv_def anchored_def edge_keys_def list_all_iff list_ex_iff) (meson same_edge_refl)
qed

lemma delete_receipts_spares:
  assumes "clean_inv e d"
  shows "clean_inv e (snd (delete_receipts e c d)) \<and> spares e d (snd (delete_receipts e c d))"
proof -
  note I = clean_invD [OF assms]
  let ?ids = "map rc_id (take (retentionCleanupBatchSize c)
                 (sort_key rc_expires (sort_key rc_id (filter (\<lambda>r. rc_expires r \<le> now e) (receipts d)))))"
  have old: "rc_expires r \<le> now e" if "r \<in> set (receipts d)" "rc_id r \<in> set ?ids" for r
    using batch_member [of rc_id "receipts d" r _ _ "\<lambda>r. rc_expires r \<le> now e"] I(5) that by force
  have keep: "r \<in> set (filter (\<lambda>r. rc_id r \<notin> set ?ids) (receipts d))" if "r \<in> set (receipts d)" "now e < rc_expires r" for r
    using old [OF that(1)] that unfolding set_filter by force
  have r: "snd (delete_receipts e c d) = d\<lparr>receipts := filter (\<lambda>r. rc_id r \<notin> set ?ids) (receipts d)\<rparr>"
    by (simp add: delete_receipts_def Let_def)
  show ?thesis using I keep unfolding r clean_inv_def spares_def
    by (simp add: session_inv_def anchored_def edge_keys_def outbox_ids_def list_all_iff list_ex_iff distinct_map_filter) (meson same_edge_refl)
qed

text \<open>
  C26: retention never removes anything in use. A cleanup keeps every live session unchanged, every
  delegation edge that is active and unexpired (at most forgetting which edge it was derived from),
  every outbox row that is not yet published, and every receipt that has not expired; and it keeps
  the store well-formed, with active edges only between live sessions.
\<close>

theorem retention_keeps_live:
  assumes "clean_inv e d"
  shows "spares e d (snd (runRetentionCleanup e c locked d)) \<and> clean_inv e (snd (runRetentionCleanup e c locked d))"
proof (cases locked)
  case False
  have "spares e d d" by (auto simp: spares_def list_all_iff list_ex_iff intro: same_edge_refl)
  then show ?thesis using False assms by (simp add: runRetentionCleanup_def)
next
  case True
  define d1 d2 d3 d4 where "d1 = snd (expire_edges e c d)" and "d2 = snd (delete_edges e c d1)" and
    "d3 = snd (delete_sessions e c d2)" and "d4 = snd (delete_outbox e c d3)"
  have 1: "clean_inv e d1 \<and> spares e d d1" unfolding d1_def by (rule expire_edges_spares [OF assms])
  have 2: "clean_inv e d2 \<and> spares e d1 d2" unfolding d2_def by (rule delete_edges_spares [OF conjunct1 [OF 1]])
  have 3: "clean_inv e d3 \<and> spares e d2 d3" unfolding d3_def by (rule delete_sessions_spares [OF conjunct1 [OF 2]])
  have 4: "clean_inv e d4 \<and> spares e d3 d4" unfolding d4_def by (rule delete_outbox_spares [OF conjunct1 [OF 3]])
  have 5: "clean_inv e (snd (delete_receipts e c d4)) \<and> spares e d4 (snd (delete_receipts e c d4))"
    by (rule delete_receipts_spares [OF conjunct1 [OF 4]])
  have "snd (runRetentionCleanup e c locked d) = snd (delete_receipts e c d4)"
    using True by (simp add: runRetentionCleanup_def split_beta Let_def d1_def d2_def d3_def d4_def)
  then show ?thesis using 1 2 3 4 5 spares_trans by metis
qed

subsection \<open>Concrete runs\<close>

text \<open>Two sweeps with batches of two end the four expired sessions of the sample store.\<close>

theorem ttl_sweep_clears_witness:
  "filter (ttl_passed (sample_env 4000000)) (sessions (fold (\<lambda>t d. snd (runTTLSweep id (sample_env t) (sample_cfg\<lparr>sweeperBatchSize := 2\<rparr>) True d))
     [4000000, 4060000] sample_db)) = []"
  using ttl_sweep_clears [OF sample_inv, of 4000000 4060000 "[4000000, 4060000]" "sample_env 0" "sample_cfg\<lparr>sweeperBatchSize := 2\<rparr>" _ id]
  by (simp add: sample_db_def sample_session_def sample_env_def ttl_passed_def)

theorem lease_sweep_clears_witness:
  "filter (lease_lost (sample_env 10000)) (sessions (fold (\<lambda>t d. snd (runServiceLeaseSweep id (sample_env t) sample_cfg True d)) [10000] sample_service_db)) = []"
  using lease_sweep_clears [OF sample_service_inv, of 10000 10000 "[10000]" "sample_env 0" sample_cfg _ id]
  by (simp add: sample_service_db_def sample_cfg_def sample_env_def)

theorem retention_keeps_live_witness:
  "spares (sample_env 1000) sample_db (snd (runRetentionCleanup (sample_env 1000) sample_cfg True sample_db))"
proof -
  have "anchored sample_db" "edge_keys sample_db" by code_simp+
  moreover have "inj (uuidv7 (sample_env 1000))" using show_nat_inj by (auto simp: inj_def sample_env_def)
  ultimately have "clean_inv (sample_env 1000) sample_db"
    using sample_inv by (simp add: clean_inv_def outbox_ids_def sample_db_def empty_db_def)
  from conjunct1 [OF retention_keeps_live [OF this]] show ?thesis .
qed

end
