(* ===== verification/Receipts.thy ===== *)
theory Receipts
  imports Sweepers
begin

text \<open>
  The life of an idempotency receipt while other requests and the retention cleanup work on the table of
  receipts (\<open>idempotency.ts\<close>, \<open>jobs/retention-cleaner.ts\<close>). A step is a keyed request up to its decision, a
  keyed request that runs to its completion within its transaction, a cleanup, or anything that leaves
  the receipts alone.
\<close>

inductive receipt_step :: "cfg \<Rightarrow> env \<Rightarrow> db \<Rightarrow> db \<Rightarrow> bool" for c e where
  decided: "startIdempotency e c i d = (x, d') \<Longrightarrow> receipt_step c e d d'"
| completed: "startIdempotency e c i d = (New k q, d1) \<Longrightarrow> receipts d2 = receipts d1 \<Longrightarrow>
    completeIdempotency e ic d2 = Inr d' \<Longrightarrow> completes i k q ic \<Longrightarrow> receipt_step c e d d'"
| cleaned: "receipt_step c e d (snd (delete_receipts e c d))"
| elsewhere: "receipts d' = receipts d \<Longrightarrow> receipt_step c e d d'"

text \<open>Any number of steps under the same keys, none later than \<open>t\<close>.\<close>

inductive receipt_run :: "cfg \<Rightarrow> env \<Rightarrow> time \<Rightarrow> db \<Rightarrow> db \<Rightarrow> bool" for c e t where
  stop: "receipt_run c e t d d"
| go: "receipt_run c e t d d1 \<Longrightarrow> hmac256 e' = hmac256 e \<Longrightarrow> now e' \<le> t \<Longrightarrow> receipt_step c e' d1 d' \<Longrightarrow> receipt_run c e t d d'"

text \<open>The receipt \<open>r\<close> is the first one of the table that answers requests under the key of \<open>i\<close>.\<close>

definition governs :: "env \<Rightarrow> cfg \<Rightarrow> istart_input \<Rightarrow> receipt \<Rightarrow> receipt list \<Rightarrow> bool" where
  "governs e c i r rs \<longleftrightarrow> distinct (map rc_id rs) \<and> receipt_matches e c i r \<and>
     (\<exists>xs ys. rs = xs @ r # ys \<and> list_all (\<lambda>q. \<not> receipt_matches e c i q) xs)"

lemma governs_filter:
  assumes "governs e c i r rs" "P r"
  shows "governs e c i r (filter P rs)"
proof -
  from assms(1) obtain xs ys where rs: "rs = xs @ r # ys" "list_all (\<lambda>q. \<not> receipt_matches e c i q) xs"
    by (auto simp: governs_def)
  have "filter P rs = filter P xs @ r # filter P ys" using assms(2) by (simp add: rs(1))
  moreover have "list_all (\<lambda>q. \<not> receipt_matches e c i q) (filter P xs)" using rs(2) by (simp add: list_all_iff)
  moreover have "distinct (map rc_id (filter P rs))" using assms(1) by (simp add: governs_def distinct_map_filter)
  ultimately show ?thesis using assms(1) unfolding governs_def by blast
qed

lemma governs_snoc:
  assumes "governs e c i r rs" "list_all (\<lambda>q. rc_id q \<noteq> rc_id s) rs"
  shows "governs e c i r (rs @ [s])"
proof -
  from assms(1) obtain xs ys where "rs @ [s] = xs @ r # (ys @ [s])" "list_all (\<lambda>q. \<not> receipt_matches e c i q) xs"
    by (auto simp: governs_def)
  moreover have "distinct (map rc_id (rs @ [s]))" using assms by (auto simp: governs_def list_all_iff)
  ultimately show ?thesis using assms(1) unfolding governs_def by blast
qed

lemma start_filters: "\<exists>P. receipts (snd (startIdempotency e c i d)) = filter P (receipts d) \<and> (\<forall>r. now e < rc_expires r \<longrightarrow> P r)"
  unfolding start_receipts by (intro exI conjI) (rule refl, auto)

lemma governs_step:
  assumes "receipt_step c e' d d'" "governs e c i r (receipts d)" "now e' < rc_expires r"
  shows "governs e c i r (receipts d')"
  using assms(1)
proof cases
  case (decided j x)
  then show ?thesis using start_filters [of e' c j d] governs_filter [OF assms(2)] assms(3) by auto
next
  case (completed j k q d1 d2 ic)
  have "governs e c i r (receipts d1)"
    using start_filters [of e' c j d] governs_filter [OF assms(2)] assms(3) completed(1) by auto
  moreover obtain s where "receipts d' = receipts d2 @ [s]" "list_all (\<lambda>q. rc_id q \<noteq> rc_id s) (receipts d2)"
    using completed(3) by (auto simp: completeIdempotency_def Let_def receipt_allowed_def)
  ultimately show ?thesis using governs_snoc completed(2) by simp
next
  case cleaned
  define due where "due = set (take (retentionCleanupBatchSize c) (sort_key rc_expires (sort_key rc_id (filter (\<lambda>r. rc_expires r \<le> now e') (receipts d)))))"
  have r: "r \<in> set (receipts d)" "inj_on rc_id (set (receipts d))" using assms(2) by (auto simp: governs_def distinct_map)
  have "due \<subseteq> {q \<in> set (receipts d). rc_expires q \<le> now e'}" unfolding due_def by (rule subset_trans [OF set_take_subset]) auto
  then have "rc_id r \<notin> rc_id ` due" using r assms(3) by (fastforce dest: inj_onD)
  then show ?thesis using governs_filter [OF assms(2)] by (simp add: cleaned delete_receipts_def Let_def due_def)
next
  case elsewhere
  then show ?thesis using assms(2) by simp
qed

lemma governs_run:
  assumes "receipt_run c e t d d'" "governs e c i r (receipts d)" "t < rc_expires r"
  shows "governs e c i r (receipts d')"
  using assms by (induction) (auto intro: governs_step)

lemma completed_governs:
  assumes "startIdempotency e c i d = (New k q, d1)" "receipts d2 = receipts d1"
    and "completeIdempotency e ic d2 = Inr d3" "completes i k q ic" "distinct (map rc_id (receipts d))"
  obtains r where "governs e c i r (receipts d3)" "rc_request r = q" "rc_status r = ic_status ic"
    "rc_response r = ic_response ic" "rc_resource r = ic_resource ic" "rc_expires r = now e + ic_retention ic * 1000"
proof -
  obtain r where r: "receipts d3 = receipts d2 @ [r]" "rc_operation r = ic_operation ic" "rc_zone r = ic_zone ic"
    "rc_scope r = ic_scope ic" "rc_key r = ic_key ic" "rc_request r = ic_request ic"
    "rc_status r = ic_status ic" "rc_response r = ic_response ic" "rc_resource r = ic_resource ic"
    "rc_expires r = now e + ic_retention ic * 1000" "list_all (\<lambda>q. rc_id q \<noteq> rc_id r) (receipts d2)"
    using assms(3) by (auto simp: completeIdempotency_def Let_def receipt_allowed_def)
  have "receipt_matches e c i r"
    using r assms(4) start_New(1) [OF assms(1)] by (simp add: receipt_matches_def in_scope_of_def completes_def)
  moreover have "distinct (map rc_id (receipts d1))"
    using start_filters [of e c i d] assms(1,5) by (auto simp: distinct_map_filter)
  ultimately have "governs e c i r (receipts d3)"
    using r(1,11) start_New(3) [OF assms(1)] assms(2)
    unfolding governs_def by (auto simp: list_all_iff)
  then show thesis using that r assms(4) by (simp add: completes_def)
qed

lemma governed_start:
  assumes "governs e c i r (receipts d)" "hmac256 e' = hmac256 e" "now e' < rc_expires r"
  shows "fst (startIdempotency e' c (i\<lparr>in_request := v\<rparr>) d) =
    (if requestDigest e' v = rc_request r then Replayed (rc_status r) (rc_response r) (rc_resource r) else Conflict)"
proof -
  let ?i = "i\<lparr>in_request := v\<rparr>"
  note m = receipt_matches_again [OF assms(2), where c = c and i = i and v = v]
  let ?d = "filter (\<lambda>r. \<not> (receipt_matches e' c ?i r \<and> rc_expires r \<le> now e')) (receipts d)"
  have "governs e c i r ?d" by (rule governs_filter [OF assms(1)]) (use assms(3) in simp)
  then obtain xs ys where d: "?d = xs @ r # ys" "list_all (\<lambda>q. \<not> receipt_matches e c i q) xs" "receipt_matches e c i r"
    by (auto simp: governs_def)
  have "find P (zs @ r # ys) = Some r" if "list_all (\<lambda>q. \<not> P q) zs" "P r" for P zs
    using that by (induction zs) auto
  from this [of "\<lambda>r. receipt_matches e c i r \<and> now e' < rc_expires r" xs]
  have "find (\<lambda>r. receipt_matches e' c ?i r \<and> now e' < rc_expires r) (xs @ r # ys) = Some r"
    unfolding m using d(2,3) assms(3) by (simp add: list_all_iff)
  then show ?thesis unfolding startIdempotency_def Let_def by (simp only: db.simps istart_input.simps d(1)) simp
qed


lemma filter_filter_length: "length (filter P (filter Q xs)) \<le> length (filter P xs)"
  by (induction xs) auto


text \<open>
  After the completion a request under another key is decided and the cleanup runs; then the first key is
  used again, for another request.
\<close>

definition between_db :: db where
  "between_db = snd (delete_receipts (sample_env 3000) sample_cfg
     (snd (startIdempotency (sample_env 2000) sample_cfg (sample_start\<lparr>in_key := ''op-2''\<rparr>) sample_done)))"

lemma between_run: "receipt_run sample_cfg (sample_env 0) (now (sample_env 5000)) sample_done between_db"
  unfolding between_db_def
  by (rule receipt_run.go [OF receipt_run.go [OF receipt_run.stop _ _ receipt_step.decided [OF surjective_pairing]] _ _ receipt_step.cleaned])
     (simp_all add: sample_env_def)

lemma sample_complete_facts:
  "distinct (map rc_id (receipts empty_db))" "completes sample_start (ic_key sample_complete) (ic_request sample_complete) sample_complete"
  "now (sample_env 5000) < now (sample_env 0) + ic_retention sample_complete * 1000"
  "hmac256 (sample_env 5000) = hmac256 (sample_env 0)" "sha256 (sample_env 5000) = sha256 (sample_env 0)"
  "json_ok (JObj [(''a'', JInt 2)])" "json_ok (in_request sample_start)" "jnorm (JObj [(''a'', JInt 2)]) \<noteq> jnorm (in_request sample_start)"
  by (simp_all add: empty_db_def completes_def sample_env_def sample_complete_def sample_start_def)



end
