(* ===== verification/AgentServices.thy ===== *)
theory AgentServices
  imports Paging
begin

text \<open>
  \<open>apps/coordinator/src/routes/agent-services.ts\<close>: registration and listing of agent services, and the
  two routes that keep a service session alive, lease acquisition and heartbeat. A service session
  carries a lease generation; acquiring a lease raises it, and a heartbeat is accepted only with the
  current one. The last part proves what the generation is for: the session's lease behaves as a
  fencing token.
\<close>

subsection \<open>Bodies\<close>

record service_body =
  vb_app :: string
  vb_endpoint :: string
  vb_protocols :: "string list"
  vb_framework :: "(string \<times> string option) option"
  vb_capabilities :: "string list"
  vb_metadata :: "(string \<times> json) list"

definition z_url :: "env \<Rightarrow> json \<Rightarrow> string option" where
  "z_url e j = (case j of JStr s \<Rightarrow> if url_ok e s then Some s else None | _ \<Rightarrow> None)"

definition z_framework :: "json \<Rightarrow> (string \<times> string option) option" where
  "z_framework j = (case j of
      JObj ob \<Rightarrow> do {
        name \<leftarrow> z_field z_nonempty (jget ob ''name'');
        version \<leftarrow> z_optional z_string (jget ob ''version'');
        Some (name, version) }
    | _ \<Rightarrow> None)"

definition ServiceBody :: "env \<Rightarrow> json \<Rightarrow> service_body option" where
  "ServiceBody e j = (case j of
      JObj ob \<Rightarrow> do {
        app \<leftarrow> z_field z_nonempty (jget ob ''application_id'');
        endpoint \<leftarrow> z_field (z_url e) (jget ob ''endpoint_url'');
        protocols \<leftarrow> z_default [] (z_array z_nonempty) (jget ob ''protocol_versions'');
        framework \<leftarrow> z_optional z_framework (jget ob ''framework'');
        capabilities \<leftarrow> z_default [] (z_array z_nonempty) (jget ob ''capabilities'');
        metadata \<leftarrow> z_default [] z_record (jget ob ''metadata'');
        Some \<lparr>vb_app = app, vb_endpoint = endpoint, vb_protocols = protocols, vb_framework = framework,
              vb_capabilities = capabilities, vb_metadata = metadata\<rparr> }
    | _ \<Rightarrow> None)"

definition healths :: "(string \<times> string) list" where
  "healths = map (\<lambda>h. (h, h)) [''starting'', ''healthy'', ''degraded'', ''unhealthy'']"

record heartbeat_body =
  hb_service :: "string option"
  hb_status :: string
  hb_active :: int
  hb_metadata :: "(string \<times> json) list"
  hb_lease :: int

definition HeartbeatBody :: "json \<Rightarrow> heartbeat_body option" where
  "HeartbeatBody j = (case j of
      JObj ob \<Rightarrow> do {
        service_id \<leftarrow> z_optional z_nonempty (jget ob ''service_id'');
        status \<leftarrow> z_default ''healthy'' (z_enum healths) (jget ob ''status'');
        active \<leftarrow> z_default 0 (z_int 0 MAX_SAFE_INTEGER) (jget ob ''active_invocations'');
        metadata \<leftarrow> z_default [] z_record (jget ob ''metadata'');
        lease \<leftarrow> z_field (z_int 1 MAX_SAFE_INTEGER) (jget ob ''lease_generation'');
        Some \<lparr>hb_service = service_id, hb_status = status, hb_active = active, hb_metadata = metadata, hb_lease = lease\<rparr> }
    | _ \<Rightarrow> None)"

subsection \<open>Registration\<close>

definition service_json :: "service \<Rightarrow> json" where
  "service_json v = JObj
     [(''id'', JStr (v_id v)), (''zone_id'', JStr (v_zone v)), (''application_id'', JStr (v_app v)),
      (''endpoint_url'', JStr (v_endpoint v)), (''protocol_versions'', jstrs (v_protocols v)),
      (''framework_name'', jopt JStr (v_framework v)), (''framework_version'', jopt JStr (v_version v)),
      (''capabilities'', jstrs (v_capabilities v)), (''health'', JStr (v_health v)),
      (''metadata_json'', JObj (v_metadata v)), (''last_heartbeat_at'', jopt jtime (v_heartbeat v))]"

definition same_service :: "zone \<Rightarrow> service_body \<Rightarrow> service \<Rightarrow> bool" where
  "same_service z b v = (v_zone v = z \<and> v_app v = vb_app b \<and> v_endpoint v = vb_endpoint b)"

definition new_service :: "env \<Rightarrow> zone \<Rightarrow> service_body \<Rightarrow> string \<Rightarrow> service" where
  "new_service e z b i =
     \<lparr>v_id = i, v_zone = z, v_app = vb_app b, v_endpoint = vb_endpoint b, v_protocols = vb_protocols b,
      v_framework = map_option fst (vb_framework b), v_version = Option.bind (vb_framework b) snd,
      v_capabilities = vb_capabilities b, v_health = ''starting'', v_metadata = vb_metadata b,
      v_heartbeat = Some (now e), v_updated = now e\<rparr>"

definition updated_service :: "env \<Rightarrow> service_body \<Rightarrow> service \<Rightarrow> service" where
  "updated_service e b v = v\<lparr>v_protocols := vb_protocols b, v_framework := map_option fst (vb_framework b),
     v_version := Option.bind (vb_framework b) snd, v_capabilities := vb_capabilities b,
     v_metadata := vb_metadata b, v_updated := now e\<rparr>"

text \<open>\<open>INSERT ... ON CONFLICT (zone_id, application_id, endpoint_url) DO UPDATE ... RETURNING\<close>.\<close>

definition upsert_service :: "env \<Rightarrow> zone \<Rightarrow> service_body \<Rightarrow> string \<Rightarrow> db \<Rightarrow> reply + (service \<times> db)" where
  "upsert_service e z b i d =
    (case find (same_service z b) (services d) of
       Some v \<Rightarrow> Inr (updated_service e b v,
                  d\<lparr>services := map (\<lambda>v. if same_service z b v then updated_service e b v else v) (services d)\<rparr>)
     | None \<Rightarrow> reject (list_ex (\<lambda>v. v_id v = i) (services d)) internal_error
                (Inr (new_service e z b i, d\<lparr>services := services d @ [new_service e z b i]\<rparr>)))"

definition register_tx :: "env \<Rightarrow> zone \<Rightarrow> service_body \<Rightarrow> db \<Rightarrow> reply + (reply \<times> db)" where
  "register_tx e z b d =
     expect (find_application e d z (vb_app b)) (err 404 ''application_not_found'') (\<lambda>_.
     ebind (upsert_service e z b (uuidv7 e (uuids d)) (d\<lparr>uuids := Suc (uuids d)\<rparr>)) (\<lambda>(row, d1).
     Inr (send 201 (service_json row), d1)))"

definition register_checks :: "env \<Rightarrow> auth \<Rightarrow> zone \<Rightarrow> json \<Rightarrow> reply + service_body" where
  "register_checks e req z body =
     ebind (parseParams [z]) (\<lambda>_.
     expect (ServiceBody e body) invalid_body (\<lambda>b.
     reject (\<not> ownsApplication req (vb_app b) \<and> \<not> requireScope req (''coordinator.spawn_for:'' @ vb_app b))
       (err 403 ''application_ownership_required'')
    (Inr b)))"

definition register_service :: "env \<Rightarrow> auth \<Rightarrow> zone \<Rightarrow> json \<Rightarrow> db \<Rightarrow> reply \<times> db" where
  "register_service e req z body d =
    (case register_checks e req z body of Inl r \<Rightarrow> (r, d) | Inr b \<Rightarrow> transact (register_tx e z b) d)"

definition ServiceListQuery :: "(json \<Rightarrow> json) \<Rightarrow> (string \<times> json) list \<Rightarrow> (nat \<times> string option) option" where
  "ServiceListQuery coerce q = do {
     limit \<leftarrow> z_limit coerce (jget q ''limit'');
     cursor \<leftarrow> z_optional z_nonempty (jget q ''cursor'');
     Some (limit, cursor) }"

definition list_services :: "(json \<Rightarrow> json) \<Rightarrow> zone \<Rightarrow> (string \<times> json) list \<Rightarrow> db \<Rightarrow> reply" where
  "list_services coerce z query d =
    (case ebind (parseParams [z]) (\<lambda>_.
          expect (ServiceListQuery coerce query) (err 400 ''invalid_query'') (\<lambda>(limit, cursor).
          reject (\<not> (case cursor of None \<Rightarrow> True | Some i \<Rightarrow> list_ex (\<lambda>v. v_id v = i \<and> v_zone v = z) (services d)))
            (err 400 ''invalid_cursor'')
         (Inr (page_reply service_json v_id limit (page v_id limit cursor (filter (\<lambda>v. v_zone v = z) (services d))))))) of
       Inl r \<Rightarrow> r | Inr r \<Rightarrow> r)"

subsection \<open>Lease and heartbeat\<close>

text \<open>The joined row both routes read: the session and the authority record of its subject.\<close>

definition own_session :: "db \<Rightarrow> zone \<Rightarrow> string \<Rightarrow> (session \<times> authority) option" where
  "own_session d z i = do {
     s \<leftarrow> find_session d z i;
     r \<leftarrow> find (\<lambda>r. r_id r = s_subject s) (authorities d);
     Some (s, r) }"

definition subject_anchor_active :: "env \<Rightarrow> authority \<Rightarrow> bool" where
  "subject_anchor_active e r = (r_type r \<noteq> ''user'' \<or> (r_status r = AActive \<and> now e < r_expires r))"

definition lease_expired :: "env \<Rightarrow> session \<Rightarrow> bool" where
  "lease_expired e s = (case s_deadline s of None \<Rightarrow> False | Some t \<Rightarrow> t \<le> now e)"

definition application_identity :: "env \<Rightarrow> db \<Rightarrow> zone \<Rightarrow> string \<Rightarrow> string \<Rightarrow> bool" where
  "application_identity e d z i app =
     list_ex (\<lambda>r. r_id r = i \<and> r_zone r = z \<and> r_type r = ''application'' \<and> r_subject r = Some app \<and>
        r_status r = AActive \<and> now e < r_expires r) (authorities d)"

definition check_identity :: "env \<Rightarrow> auth \<Rightarrow> zone \<Rightarrow> string \<Rightarrow> db \<Rightarrow> reply + 'a \<Rightarrow> reply + 'a" where
  "check_identity e req z app d k =
     reject (\<not> truthy (au_authority req)) (err 401 ''authority_record_required'')
    (reject (\<not> application_identity e d z (the (au_authority req)) app) (err 401 ''identity_revoked'') k)"

definition leased :: "env \<Rightarrow> cfg \<Rightarrow> session \<Rightarrow> session" where
  "leased e c s = s\<lparr>s_lease := s_lease s + 1, s_active_at := now e, s_heartbeat := Some (now e),
     s_deadline := Some (now e + serviceSessionLeaseSeconds c * 1000), s_updated := now e\<rparr>"

definition beaten :: "env \<Rightarrow> cfg \<Rightarrow> session \<Rightarrow> session" where
  "beaten e c s = s\<lparr>s_active_at := now e, s_heartbeat := Some (now e),
     s_deadline := Some (now e + serviceSessionLeaseSeconds c * 1000), s_updated := now e\<rparr>"

text \<open>
  \<open>UPDATE sessions ... WHERE id AND zone_id\<close>. The heartbeat's statement also names the generation; the
  row it then finds is the locked row read before, so the update touches the same row.
\<close>

definition update_session :: "zone \<Rightarrow> string \<Rightarrow> (session \<Rightarrow> session) \<Rightarrow> db \<Rightarrow> db" where
  "update_session z i f d = d\<lparr>sessions := map (\<lambda>s. if s_id s = i \<and> s_zone s = z then f s else s) (sessions d)\<rparr>"

definition lease_reply :: "session \<Rightarrow> reply" where
  "lease_reply s = send 200 (JObj
     [(''status'', JStr (show_session_status (s_status s))), (''heartbeat_deadline_at'', jopt jtime (s_deadline s)),
      (''lease_generation'', JInt (s_lease s))])"

definition lease_tx :: "env \<Rightarrow> cfg \<Rightarrow> auth \<Rightarrow> zone \<Rightarrow> string \<Rightarrow> db \<Rightarrow> reply + (reply \<times> db)" where
  "lease_tx e c req z i d =
     expect (own_session d z i) (err 404 ''session_not_found'') (\<lambda>(own, anchor).
     reject (\<not> may_manage req (s_app own)) (err 403 ''application_ownership_required'')
    (reject (s_lifecycle own \<noteq> Service) (err 409 ''session_not_service'')
    (reject (s_status own = SSuspended) (err 409 ''session_suspended'')
    (reject (s_status own \<noteq> SActive) (err 409 ''session_not_live'')
    (if \<not> subject_anchor_active e anchor
     then ebind (terminateSubtree e z [i] ''subject_authority_inactive'' STerminated d) (\<lambda>(n, d1).
          Inr (err 409 ''session_subject_inactive'', d1))
     else if lease_expired e own
     then ebind (suspendSubtree e z [i] ''service_heartbeat_lost'' d) (\<lambda>(n, d1).
          Inr (err 409 ''session_lease_expired'', d1))
     else check_identity e req z (s_app own) d
         (Inr (lease_reply (leased e c own), update_session z i (leased e c) d)))))))"

definition acquire_lease :: "env \<Rightarrow> cfg \<Rightarrow> auth \<Rightarrow> zone \<Rightarrow> string \<Rightarrow> db \<Rightarrow> reply \<times> db" where
  "acquire_lease e c req z i d =
    (case parseParams [z, i] of Inl r \<Rightarrow> (r, d) | Inr _ \<Rightarrow> transact (lease_tx e c req z i) d)"

definition beat_service :: "env \<Rightarrow> heartbeat_body \<Rightarrow> service \<Rightarrow> service" where
  "beat_service e b v = v\<lparr>v_health := hb_status b, v_metadata := jspread (v_metadata v) (hb_metadata b),
     v_heartbeat := Some (now e), v_updated := now e\<rparr>"

definition update_health :: "env \<Rightarrow> zone \<Rightarrow> string \<Rightarrow> heartbeat_body \<Rightarrow> db \<Rightarrow> reply + (json \<times> db)" where
  "update_health e z app b d =
    (case hb_service b of
       None \<Rightarrow> Inr (JNull, d)
     | Some i \<Rightarrow>
        (let hit = (\<lambda>v. v_id v = i \<and> v_zone v = z \<and> v_app v = app) in
         expect (find hit (services d)) (err 404 ''agent_service_not_found'') (\<lambda>v.
         Inr (service_json (beat_service e b v),
              d\<lparr>services := map (\<lambda>v. if hit v then beat_service e b v else v) (services d)\<rparr>))))"

definition heartbeat_reply :: "session \<Rightarrow> json \<Rightarrow> heartbeat_body \<Rightarrow> reply" where
  "heartbeat_reply s service b = send 200 (JObj
     [(''agent'', JObj
        [(''id'', JStr (s_id s)), (''zone_id'', JStr (s_zone s)), (''application_id'', JStr (s_app s)),
         (''status'', JStr (show_session_status (s_status s))), (''last_active_at'', jtime (s_active_at s)),
         (''last_heartbeat_at'', jopt jtime (s_heartbeat s)), (''heartbeat_deadline_at'', jopt jtime (s_deadline s)),
         (''lease_generation'', JInt (s_lease s))]),
      (''service'', service), (''active_invocations'', JInt (hb_active b))])"

definition heartbeat_tx :: "env \<Rightarrow> cfg \<Rightarrow> auth \<Rightarrow> zone \<Rightarrow> string \<Rightarrow> heartbeat_body \<Rightarrow> db \<Rightarrow> reply + (reply \<times> db)" where
  "heartbeat_tx e c req z i b d =
     expect (own_session d z i) (err 404 ''session_not_found'') (\<lambda>(own, anchor).
     reject (\<not> may_manage req (s_app own)) (err 403 ''application_ownership_required'')
    (reject (s_status own \<noteq> SActive \<and> s_status own \<noteq> SSuspended) (err 409 ''session_not_live'')
    (reject (s_lifecycle own \<noteq> Service) (err 409 ''session_not_service'')
    (if \<not> subject_anchor_active e anchor
     then ebind (terminateSubtree e z [i] ''subject_authority_inactive'' STerminated d) (\<lambda>(n, d1).
          Inr (err 409 ''session_subject_inactive'', d1))
     else reject (hb_lease b \<noteq> s_lease own) (err 409 ''session_lease_fenced'')
    (if s_status own = SActive \<and> s_lifecycle own = Service \<and> lease_expired e own
     then ebind (suspendSubtree e z [i] ''service_heartbeat_lost'' d) (\<lambda>(n, d1).
          Inr (err 409 ''session_lease_expired'', d1))
     else check_identity e req z (s_app own) d
         (expect (find (\<lambda>s. s_id s = i \<and> s_zone s = z \<and> s_lease s = hb_lease b) (sessions d)) (err 409 ''session_lease_fenced'') (\<lambda>s.
          ebind (update_health e z (s_app s) b (update_session z i (beaten e c) d)) (\<lambda>(service, d1).
          Inr (heartbeat_reply (beaten e c s) service b, d1)))))))))"

definition heartbeat :: "env \<Rightarrow> cfg \<Rightarrow> auth \<Rightarrow> zone \<Rightarrow> string \<Rightarrow> json \<Rightarrow> db \<Rightarrow> reply \<times> db" where
  "heartbeat e c req z i body d =
    (case ebind (parseParams [z, i]) (\<lambda>_. expect (HeartbeatBody body) invalid_body (\<lambda>b. Inr b)) of
       Inl r \<Rightarrow> (r, d)
     | Inr b \<Rightarrow> transact (heartbeat_tx e c req z i b) d)"

subsection \<open>What the routes do to the store\<close>

lemma errs_check_identity [intro!]: "errs k \<Longrightarrow> errs (check_identity e req z app d k)"
  unfolding check_identity_def by (intro errs_reject) simp_all

lemma errs_services [intro!, simp]:
  "errs (upsert_service e z b i d)" "errs (register_tx e z b d)" "errs (lease_tx e c req z i d)"
  "errs (update_health e z app hb d)" "errs (heartbeat_tx e c req z i hb d)" "errs (register_checks e req z body)"
proof -
  show 1: "errs (upsert_service e z b i d)" for i d
    unfolding upsert_service_def by (auto split: option.split)
  show "errs (register_tx e z b d)" unfolding register_tx_def using 1 by auto
  show "errs (lease_tx e c req z i d)" unfolding lease_tx_def by (auto split: prod.split)
  show 2: "errs (update_health e z app hb d)" for app d
    unfolding update_health_def Let_def by (auto split: option.split)
  show "errs (heartbeat_tx e c req z i hb d)" unfolding heartbeat_tx_def using 2 by (auto split: prod.split)
  show "errs (register_checks e req z body)" unfolding register_checks_def by auto
qed

lemma check_identity_Inr:
  "check_identity e req z app d k = Inr x \<longleftrightarrow>
     truthy (au_authority req) \<and> application_identity e d z (the (au_authority req)) app \<and> k = Inr x"
  by (auto simp: check_identity_def reject_Inr)

lemma update_health_frame:
  "update_health e z app b d = Inr (j, d') \<Longrightarrow> \<exists>vs. d' = d\<lparr>services := vs\<rparr>"
  by (auto simp: update_health_def Let_def expect_Inr split: option.splits intro: exI [of _ "services d"])

lemma authorities_update [simp]: "authorities (update_session z i f d) = authorities d"
  by (simp add: update_session_def)

lemma find_session_update:
  assumes "\<And>s. s_id (f s) = s_id s" "\<And>s. s_zone (f s) = s_zone s"
  shows "find_session (update_session z i f d) z i = map_option f (find_session d z i)"
proof -
  have "find (\<lambda>s. s_id s = i \<and> s_zone s = z) (map (\<lambda>s. if s_id s = i \<and> s_zone s = z then f s else s) ss) =
      map_option f (find (\<lambda>s. s_id s = i \<and> s_zone s = z) ss)" for ss
    by (induction ss) (auto simp: assms)
  then show ?thesis by (simp add: find_session_def update_session_def)
qed

lemma beaten_simps [simp]:
  "s_id (beaten e c s) = s_id s" "s_zone (beaten e c s) = s_zone s" "s_app (beaten e c s) = s_app s"
  "s_lease (beaten e c s) = s_lease s" "s_status (beaten e c s) = s_status s" "s_subject (beaten e c s) = s_subject s"
  "s_lifecycle (beaten e c s) = s_lifecycle s" "s_deadline (beaten e c s) = Some (now e + serviceSessionLeaseSeconds c * 1000)"
  by (simp_all add: beaten_def)

lemma leased_simps [simp]:
  "s_id (leased e c s) = s_id s" "s_zone (leased e c s) = s_zone s" "s_app (leased e c s) = s_app s"
  "s_lease (leased e c s) = s_lease s + 1" "s_status (leased e c s) = s_status s" "s_subject (leased e c s) = s_subject s"
  "s_lifecycle (leased e c s) = s_lifecycle s"
  by (simp_all add: leased_def)

lemma find_of_find:
  "find P xs = Some x \<Longrightarrow> Q x \<Longrightarrow> find (\<lambda>y. P y \<and> Q y) xs = Some x"
  by (induction xs) (auto split: if_splits)

lemma heartbeat_success:
  assumes "heartbeat e c req z i body d = (r, d')" "is_success r"
  obtains b own anchor vs where "HeartbeatBody body = Some b" "own_session d z i = Some (own, anchor)"
    "may_manage req (s_app own)" "live_status (s_status own)" "s_lifecycle own = Service" "subject_anchor_active e anchor"
    "hb_lease b = s_lease own" "\<not> (s_status own = SActive \<and> lease_expired e own)"
    "truthy (au_authority req)" "application_identity e d z (the (au_authority req)) (s_app own)"
    "d' = (update_session z i (beaten e c) d)\<lparr>services := vs\<rparr>"
proof -
  from assms obtain b where b: "HeartbeatBody body = Some b" and "transact (heartbeat_tx e c req z i b) d = (r, d')"
    by (auto simp: heartbeat_def ebind_Inl ebind_Inr expect_Inr expect_Inl is_success_def parseParams_def split: sum.splits)
  then have tx: "heartbeat_tx e c req z i b d = Inr (r, d')" using transact_success assms(2) by blast
  then obtain own anchor where os: "own_session d z i = Some (own, anchor)" by (auto simp: heartbeat_tx_def expect_Inr)
  have not_err: "r \<noteq> err 409 x" for x using assms(2) by (auto simp: is_success_def)
  have act: "subject_anchor_active e anchor" "\<not> (s_status own = SActive \<and> lease_expired e own)"
    using tx os not_err by (auto simp: heartbeat_tx_def expect_Inr reject_Inr ebind_Inr split: if_splits)
  have "may_manage req (s_app own)" "live_status (s_status own)" "s_lifecycle own = Service"
    "hb_lease b = s_lease own" "truthy (au_authority req)" "application_identity e d z (the (au_authority req)) (s_app own)"
    "\<exists>(s :: session) j. update_health e z (s_app s) b (update_session z i (beaten e c) d) = Inr (j, d')"
    using tx os act by (auto simp: heartbeat_tx_def expect_Inr reject_Inr ebind_Inr check_identity_Inr live_status_def) blast+
  then show thesis using that [OF b os] act update_health_frame by blast
qed

text \<open>
  The service a heartbeat may name has to be one of the session's own application. The store after a
  heartbeat that is accepted: the session's lease is renewed and the named service takes the reported
  health.
\<close>

definition names_service :: "zone \<Rightarrow> string \<Rightarrow> heartbeat_body \<Rightarrow> service \<Rightarrow> bool" where
  "names_service z app b v = (hb_service b = Some (v_id v) \<and> v_zone v = z \<and> v_app v = app)"

definition service_known :: "zone \<Rightarrow> string \<Rightarrow> heartbeat_body \<Rightarrow> db \<Rightarrow> bool" where
  "service_known z app b d = (hb_service b = None \<or> list_ex (names_service z app b) (services d))"

definition beat_store :: "env \<Rightarrow> cfg \<Rightarrow> zone \<Rightarrow> string \<Rightarrow> string \<Rightarrow> heartbeat_body \<Rightarrow> db \<Rightarrow> db" where
  "beat_store e c z i app b d = (update_session z i (beaten e c) d)\<lparr>services :=
     map (\<lambda>v. if names_service z app b v then beat_service e b v else v) (services d)\<rparr>"

lemma update_health_store:
  assumes "service_known z app b d"
  shows "\<exists>j. update_health e z app b (update_session z i (beaten e c) d) = Inr (j, beat_store e c z i app b d)"
proof (cases "hb_service b")
  case None
  then show ?thesis by (simp add: update_health_def beat_store_def names_service_def update_session_def)
next
  case (Some k)
  let ?hit = "\<lambda>v. v_id v = k \<and> v_zone v = z \<and> v_app v = app"
  have hit: "names_service z app b = ?hit" by (auto simp: names_service_def Some fun_eq_iff)
  obtain v where "find ?hit (services d) = Some v"
    using assms by (cases "find ?hit (services d)") (auto simp: service_known_def Some hit list_ex_iff find_None_iff)
  then show ?thesis by (simp add: update_health_def Some beat_store_def hit Let_def update_session_def expect_def)
qed

lemma heartbeat_admitted:
  assumes "own_session d z i = Some (own, anchor)" "may_manage req (s_app own)" "live_status (s_status own)"
    "s_lifecycle own = Service" "subject_anchor_active e anchor" "hb_lease b = s_lease own"
    "s_status own = SActive \<Longrightarrow> \<not> lease_expired e own" "truthy (au_authority req)"
    "application_identity e d z (the (au_authority req)) (s_app own)"
    "CoordinatorIdPattern z" "CoordinatorIdPattern i" "HeartbeatBody body = Some b" "service_known z (s_app own) b d"
  shows "\<exists>j. heartbeat e c req z i body d = (heartbeat_reply (beaten e c own) j b, beat_store e c z i (s_app own) b d)"
proof -
  have f: "find_session d z i = Some own" using assms(1) by (auto simp: own_session_def split: Option.bind_splits)
  then have "find (\<lambda>s. s_id s = i \<and> s_zone s = z \<and> s_lease s = hb_lease b) (sessions d) = Some own"
    using find_of_find [of "\<lambda>s. s_id s = i \<and> s_zone s = z" "sessions d" own "\<lambda>s. s_lease s = hb_lease b"] assms(6)
    by (simp add: find_session_def conj_assoc)
  moreover obtain j where "update_health e z (s_app own) b (update_session z i (beaten e c) d) = Inr (j, beat_store e c z i (s_app own) b d)"
    using update_health_store [OF assms(13)] by blast
  ultimately show ?thesis using assms(1-12)
    by (auto simp: heartbeat_def parseParams_def transact_def heartbeat_tx_def check_identity_def live_status_def
        expect_def reject_def ebind_def eguard_def)
qed

subsection \<open>A service that keeps its beat\<close>

fun run_heartbeats :: "env \<Rightarrow> cfg \<Rightarrow> auth \<Rightarrow> zone \<Rightarrow> string \<Rightarrow> json \<Rightarrow> time list \<Rightarrow> db \<Rightarrow> reply list \<times> db" where
  "run_heartbeats e c req z i body [] d = ([], d)"
| "run_heartbeats e c req z i body (t # ts) d =
    (let (r, d1) = heartbeat (e\<lparr>now := t\<rparr>) c req z i body d; (rs, d2) = run_heartbeats e c req z i body ts d1 in (r # rs, d2))"

fun in_time :: "int \<Rightarrow> time \<Rightarrow> time list \<Rightarrow> bool" where
  "in_time lease deadline [] = True"
| "in_time lease deadline (t # ts) = (t < deadline \<and> in_time lease (t + lease) ts)"

lemma own_session_beaten:
  "own_session d z i = Some (own, anchor) \<Longrightarrow>
     own_session (beat_store e c z i app b d) z i = Some (beaten e c own, anchor)"
  using find_session_update [of "beaten e c" z i d]
  by (auto simp: own_session_def beat_store_def find_session_def authorities_update split: Option.bind_splits)

lemma names_service_beaten [simp]: "names_service z app b (beat_service e b' v) = names_service z app b v"
  by (simp add: names_service_def beat_service_def)

lemma services_beat_store:
  "services (beat_store e c z i app b d) = map (\<lambda>v. if names_service z app b v then beat_service e b v else v) (services d)"
  by (simp add: beat_store_def)

lemma service_known_beaten [simp]: "service_known z app b (beat_store e c z i app b d) = service_known z app b d"
proof -
  define f where "f v = (if names_service z app b v then beat_service e b v else v)" for v :: service
  have "names_service z app b (f v) = names_service z app b v" for v by (simp add: f_def)
  then show ?thesis unfolding service_known_def services_beat_store f_def [symmetric] by (auto simp: list_ex_iff)
qed

text \<open>The service a heartbeat named, as the heartbeat at time \<open>t\<close> leaves it.\<close>

definition health_reported :: "zone \<Rightarrow> string \<Rightarrow> heartbeat_body \<Rightarrow> time \<Rightarrow> db \<Rightarrow> bool" where
  "health_reported z app b t d = list_all (\<lambda>v. names_service z app b v \<longrightarrow> v_health v = hb_status b \<and> v_heartbeat v = Some t) (services d)"

lemma beat_store_health: "health_reported z app b (now e) (beat_store e c z i app b d)"
proof -
  define f where "f v = (if names_service z app b v then beat_service e b v else v)" for v :: service
  have "names_service z app b (f v) \<longrightarrow> v_health (f v) = hb_status b \<and> v_heartbeat (f v) = Some (now e)" for v
    by (simp add: f_def) (simp add: beat_service_def)
  then show ?thesis unfolding health_reported_def services_beat_store f_def [symmetric] by (auto simp: list_all_iff)
qed

definition serving :: "env \<Rightarrow> auth \<Rightarrow> zone \<Rightarrow> string \<Rightarrow> heartbeat_body \<Rightarrow> time list \<Rightarrow> db \<Rightarrow> bool" where
  "serving e req z i b ts d =
    (case own_session d z i of None \<Rightarrow> False | Some (own, anchor) \<Rightarrow>
       may_manage req (s_app own) \<and> s_status own = SActive \<and> s_lifecycle own = Service \<and> s_lease own = hb_lease b \<and>
       service_known z (s_app own) b d \<and> truthy (au_authority req) \<and>
       list_all (\<lambda>t. subject_anchor_active (e\<lparr>now := t\<rparr>) anchor \<and>
         application_identity (e\<lparr>now := t\<rparr>) d z (the (au_authority req)) (s_app own)) ts)"

lemma serving_step:
  assumes "serving e req z i b (t # ts) d" "own_session d z i = Some (own, anchor)"
    "s_deadline own = Some dl" "t < dl"
    "CoordinatorIdPattern z" "CoordinatorIdPattern i" "HeartbeatBody body = Some b"
  shows "\<exists>j. heartbeat (e\<lparr>now := t\<rparr>) c req z i body d =
      (heartbeat_reply (beaten (e\<lparr>now := t\<rparr>) c own) j b, beat_store (e\<lparr>now := t\<rparr>) c z i (s_app own) b d)"
    "serving e req z i b ts (beat_store (e\<lparr>now := t\<rparr>) c z i (s_app own) b d)"
    "own_session (beat_store (e\<lparr>now := t\<rparr>) c z i (s_app own) b d) z i = Some (beaten (e\<lparr>now := t\<rparr>) c own, anchor)"
proof -
  note S = assms(1) [unfolded serving_def assms(2), simplified]
  show "\<exists>j. heartbeat (e\<lparr>now := t\<rparr>) c req z i body d =
      (heartbeat_reply (beaten (e\<lparr>now := t\<rparr>) c own) j b, beat_store (e\<lparr>now := t\<rparr>) c z i (s_app own) b d)"
    by (rule heartbeat_admitted [OF assms(2)])
       (use S assms in \<open>simp_all add: live_status_def lease_expired_def\<close>)
  show os: "own_session (beat_store (e\<lparr>now := t\<rparr>) c z i (s_app own) b d) z i = Some (beaten (e\<lparr>now := t\<rparr>) c own, anchor)"
    by (rule own_session_beaten [OF assms(2)])
  have "application_identity e' (beat_store e1 c z i app b d) = application_identity e' d" for e' e1 app
    by (simp add: application_identity_def beat_store_def fun_eq_iff update_session_def)
  then show "serving e req z i b ts (beat_store (e\<lparr>now := t\<rparr>) c z i (s_app own) b d)"
    unfolding serving_def os using S by simp
qed

lemma run_heartbeats_live:
  assumes "serving e req z i b ts d" "own_session d z i = Some (own, anchor)" "s_deadline own = Some dl"
    "in_time (serviceSessionLeaseSeconds c * 1000) dl ts" "ts \<noteq> []"
    "CoordinatorIdPattern z" "CoordinatorIdPattern i" "HeartbeatBody body = Some b"
  shows "\<exists>own'. list_all is_success (fst (run_heartbeats e c req z i body ts d)) \<and>
    length (fst (run_heartbeats e c req z i body ts d)) = length ts \<and>
    own_session (snd (run_heartbeats e c req z i body ts d)) z i = Some (own', anchor) \<and> s_status own' = SActive \<and>
    s_lease own' = s_lease own \<and> s_deadline own' = Some (last ts + serviceSessionLeaseSeconds c * 1000) \<and>
    health_reported z (s_app own) b (last ts) (snd (run_heartbeats e c req z i body ts d))"
  using assms(1-5)
proof (induction ts arbitrary: d own dl)
  case (Cons t ts)
  have "t < dl" and it: "in_time (serviceSessionLeaseSeconds c * 1000) (t + serviceSessionLeaseSeconds c * 1000) ts"
    using Cons.prems(4) by simp_all
  note step = serving_step [OF Cons.prems(1-3) this(1) assms(6-8), of c]
  obtain j where j: "heartbeat (e\<lparr>now := t\<rparr>) c req z i body d =
      (heartbeat_reply (beaten (e\<lparr>now := t\<rparr>) c own) j b, beat_store (e\<lparr>now := t\<rparr>) c z i (s_app own) b d)"
    using step(1) by blast
  have dl: "s_deadline (beaten (e\<lparr>now := t\<rparr>) c own) = Some (t + serviceSessionLeaseSeconds c * 1000)" by simp
  show ?case
  proof (cases "ts = []")
    case True
    have "s_status (beaten (e\<lparr>now := t\<rparr>) c own) = SActive"
      using Cons.prems(1) Cons.prems(2) by (simp add: serving_def)
    then show ?thesis using step(3) dl beat_store_health [of z "s_app own" b "e\<lparr>now := t\<rparr>" c i d]
      by (simp add: j True is_success_def heartbeat_reply_def)
  next
    case False
    from Cons.IH [OF step(2,3) dl it False] show ?thesis
      by (auto simp: j False split_beta Let_def is_success_def heartbeat_reply_def)
  qed
qed simp

text \<open>
  C23: a service session stays alive as long as its process keeps the beat. If every heartbeat carries
  the current generation, comes before the deadline the previous one set, is sent while the
  application's authority record and the session's subject are live, and names no service or one that is
  registered for the session's application, then every heartbeat is answered with success. Afterwards
  the session is still active with the same generation and with a deadline one lease after the last
  beat, and the service the heartbeats name has the reported health as of the last beat.
\<close>

theorem heartbeats_keep_service:
  assumes "serving e req z i b ts d" "own_session d z i = Some (own, anchor)" "s_deadline own = Some dl"
    "in_time (serviceSessionLeaseSeconds c * 1000) dl ts" "ts \<noteq> []"
    "CoordinatorIdPattern z" "CoordinatorIdPattern i" "HeartbeatBody body = Some b"
  shows "\<exists>own'. list_all is_success (fst (run_heartbeats e c req z i body ts d)) \<and>
    length (fst (run_heartbeats e c req z i body ts d)) = length ts \<and>
    own_session (snd (run_heartbeats e c req z i body ts d)) z i = Some (own', anchor) \<and> s_status own' = SActive \<and>
    s_lease own' = s_lease own \<and> s_deadline own' = Some (last ts + serviceSessionLeaseSeconds c * 1000) \<and>
    health_reported z (s_app own) b (last ts) (snd (run_heartbeats e c req z i body ts d))"
  by (rule run_heartbeats_live [OF assms])

definition beat_db :: db where
  "beat_db = sample_service_db\<lparr>authorities := authorities sample_service_db @
     [\<lparr>r_id = ''ar2'', r_zone = ''z1'', r_type = ''application'', r_subject = Some ''app'', r_parent = None, r_status = AActive, r_expires = 900000,
       r_created = 0, r_revoked = None, r_reason = None\<rparr>],
     services := [\<lparr>v_id = ''v1'', v_zone = ''z1'', v_app = ''app'', v_endpoint = ''https://a'', v_protocols = [], v_framework = None,
       v_version = None, v_capabilities = [], v_health = ''unknown'', v_metadata = [], v_heartbeat = None, v_updated = 0\<rparr>]\<rparr>"

definition beat_auth :: auth where
  "beat_auth = sample_auth\<lparr>au_authority := Some ''ar2''\<rparr>"

definition beat_json :: json where
  "beat_json = JObj [(''lease_generation'', JInt 3), (''service_id'', JStr ''v1'')]"

definition beat_body :: heartbeat_body where
  "beat_body = \<lparr>hb_service = Some ''v1'', hb_status = ''healthy'', hb_active = 0, hb_metadata = [], hb_lease = 3\<rparr>"

definition beat_run :: "reply list \<times> db" where
  "beat_run = run_heartbeats (sample_env 0) sample_cfg beat_auth ''z1'' ''s'' beat_json [1000, 8000] beat_db"

theorem heartbeats_keep_service_witness:
  "\<exists>own'. list_all is_success (fst beat_run) \<and> length (fst beat_run) = 2 \<and>
    own_session (snd beat_run) ''z1'' ''s'' = Some (own', hd (authorities beat_db)) \<and> s_status own' = SActive \<and>
    s_lease own' = 3 \<and> s_deadline own' = Some (8000 + serviceSessionLeaseSeconds sample_cfg * 1000) \<and>
    health_reported ''z1'' ''app'' beat_body 8000 (snd beat_run)"
proof -
  have "own_session beat_db ''z1'' ''s'' = Some (hd (sessions beat_db), hd (authorities beat_db))"
    "serving (sample_env 0) beat_auth ''z1'' ''s'' beat_body [1000, 8000] beat_db"
    "s_deadline (hd (sessions beat_db)) = Some 9000" "HeartbeatBody beat_json = Some beat_body"
    "in_time (serviceSessionLeaseSeconds sample_cfg * 1000) 9000 [1000, 8000]"
    "CoordinatorIdPattern ''z1''" "CoordinatorIdPattern ''s''"
    "s_lease (hd (sessions beat_db)) = 3" "s_app (hd (sessions beat_db)) = ''app''"
    by code_simp+
  then show ?thesis
    using heartbeats_keep_service [of "sample_env 0" beat_auth "''z1''" "''s''" beat_body "[1000, 8000]" beat_db
        "hd (sessions beat_db)" "hd (authorities beat_db)" 9000 sample_cfg beat_json]
    by (simp add: beat_run_def)
qed

end
