(* ===== verification/StreamSig.thy ===== *)
theory StreamSig
  imports Prelude
begin

text \<open>
  Origin signatures on Redis stream messages: \<open>packages/core/ts/src/crypto.ts\<close> and the signature
  check the stream consumers share (\<open>LifecycleRelay.verify\<close>). HMAC-SHA256 is the parameter \<open>hmac\<close>:
  a function from key and data to the digest bytes; every theorem holds for any such function. A
  record of stream values is an association list with distinct keys.
\<close>

datatype stream_value = SVStr string | SVNum int | SVBool bool | SVNull | SVUndefined

definition STREAM_SIG_FIELD :: string where
  "STREAM_SIG_FIELD = ''_sig''"

text \<open>\<open>String(v)\<close>\<close>

fun stream_string :: "stream_value \<Rightarrow> string" where
  "stream_string (SVStr s) = s"
| "stream_string (SVNum n) = show_int n"
| "stream_string (SVBool b) = (if b then ''true'' else ''false'')"
| "stream_string SVNull = ''null''"
| "stream_string SVUndefined = ''undefined''"

abbreviation nl :: char where "nl \<equiv> CHR 0x0A"

definition stream_line :: "(string \<times> stream_value) list \<Rightarrow> string \<Rightarrow> string \<Rightarrow> string" where
  "stream_line values k out =
     (case map_of values k of
        None \<Rightarrow> out
      | Some SVNull \<Rightarrow> out
      | Some SVUndefined \<Rightarrow> out
      | Some v \<Rightarrow> out @ k @ ''='' @ stream_string v @ [nl])"

definition canonicalizeStream :: "string \<Rightarrow> (string \<times> stream_value) list \<Rightarrow> string" where
  "canonicalizeStream stream values =
     (let keys = sort (filter (\<lambda>k. k \<noteq> STREAM_SIG_FIELD) (map fst values))
      in fold (stream_line values) keys (stream @ [nl]))"

text \<open>Hex coding of byte strings: \<open>digest('hex')\<close> and \<open>Buffer.from(s, 'hex')\<close>, which stops at the
  first pair that is not two hex digits.\<close>

definition hex_digit :: "nat \<Rightarrow> char" where
  "hex_digit d = (if d < 10 then char_of (48 + d) else char_of (87 + d))"

definition to_hex :: "string \<Rightarrow> string" where
  "to_hex bs = concat (map (\<lambda>b. let n = of_char b in [hex_digit (n div 16), hex_digit (n mod 16)]) bs)"

definition hex_value :: "char \<Rightarrow> nat option" where
  "hex_value c = (let n = (of_char c :: nat) in
     if 48 \<le> n \<and> n \<le> 57 then Some (n - 48)
     else if 97 \<le> n \<and> n \<le> 102 then Some (n - 87)
     else if 65 \<le> n \<and> n \<le> 70 then Some (n - 55) else None)"

fun hex_decode :: "string \<Rightarrow> string" where
  "hex_decode (a # b # cs) =
     (case (hex_value a, hex_value b) of
        (Some x, Some y) \<Rightarrow> char_of (16 * x + y) # hex_decode cs
      | _ \<Rightarrow> [])"
| "hex_decode _ = []"

definition signStream ::
    "(string \<Rightarrow> string \<Rightarrow> string) \<Rightarrow> string \<Rightarrow> string \<Rightarrow> (string \<times> stream_value) list \<Rightarrow> string" where
  "signStream hmac key stream values = to_hex (hmac key (canonicalizeStream stream values))"

definition verifyStream ::
    "(string \<Rightarrow> string \<Rightarrow> string) \<Rightarrow> bool \<Rightarrow> string option \<Rightarrow> string \<Rightarrow> (string \<times> stream_value) list \<Rightarrow> bool" where
  "verifyStream hmac requireSignature streamHmacKey stream values =
     (if \<not> requireSignature \<and> streamHmacKey = None then True
      else case (map_of values STREAM_SIG_FIELD, streamHmacKey) of
        (Some (SVStr got), Some key) \<Rightarrow>
          hex_decode got = hex_decode (signStream hmac key stream values)
      | _ \<Rightarrow> False)"

subsection \<open>Hex round trip\<close>

lemma hex_value_digit: "d < 16 \<Longrightarrow> hex_value (hex_digit d) = Some d"
  by (auto simp: hex_value_def hex_digit_def)

lemma hex_decode_to_hex [simp]: "hex_decode (to_hex bs) = bs"
proof (induction bs)
  case Nil
  then show ?case by (simp add: to_hex_def)
next
  case (Cons b bs)
  have "(of_char b :: nat) < 16 * 16" using nat_of_char_less_256 [of b] by simp
  then have "(of_char b :: nat) div 16 < 16" by (rule less_mult_imp_div_less)
  then have "hex_value (hex_digit (of_char b div 16)) = Some (of_char b div 16)"
    "hex_value (hex_digit (of_char b mod 16)) = Some (of_char b mod 16)"
    by (auto intro!: hex_value_digit)
  then show ?case using Cons.IH by (simp add: to_hex_def Let_def)
qed

lemma to_hex_inject [simp]: "to_hex a = to_hex b \<longleftrightarrow> a = b"
  by (metis hex_decode_to_hex)

subsection \<open>The canonical form as a list of lines\<close>

text \<open>The values the canonical form shows, rendered.\<close>

definition visible :: "(string \<times> stream_value) list \<Rightarrow> string \<rightharpoonup> string" where
  "visible values k =
     (if k = STREAM_SIG_FIELD then None
      else case map_of values k of
        None \<Rightarrow> None | Some SVNull \<Rightarrow> None | Some SVUndefined \<Rightarrow> None
      | Some v \<Rightarrow> Some (stream_string v))"

definition stream_keys :: "(string \<times> stream_value) list \<Rightarrow> string list" where
  "stream_keys values = sort (filter (\<lambda>k. k \<noteq> STREAM_SIG_FIELD) (map fst values))"

definition stream_pairs :: "(string \<times> stream_value) list \<Rightarrow> (string \<times> string) list" where
  "stream_pairs values =
     map (\<lambda>k. (k, the (visible values k))) (filter (\<lambda>k. visible values k \<noteq> None) (stream_keys values))"

definition pair_line :: "string \<times> string \<Rightarrow> string" where
  "pair_line p = fst p @ ''='' @ snd p"

lemma fold_stream_line:
  "STREAM_SIG_FIELD \<notin> set ks \<Longrightarrow>
   fold (stream_line values) ks out =
     out @ concat (map (\<lambda>k. pair_line (k, the (visible values k)) @ [nl])
       (filter (\<lambda>k. visible values k \<noteq> None) ks))"
  by (induction ks arbitrary: out)
    (auto simp: stream_line_def visible_def pair_line_def split: option.splits stream_value.splits)

lemma canonicalizeStream_lines:
  "canonicalizeStream stream values =
     concat (map (\<lambda>l. l @ [nl]) (stream # map pair_line (stream_pairs values)))"
  by (simp add: canonicalizeStream_def fold_stream_line stream_pairs_def stream_keys_def comp_def)

lemma set_stream_keys: "set (stream_keys values) = fst ` set values - {STREAM_SIG_FIELD}"
  by (auto simp: stream_keys_def)

lemma visible_dom: "visible values k \<noteq> None \<Longrightarrow> k \<in> set (stream_keys values)"
  by (auto simp: visible_def set_stream_keys split: option.splits if_splits dest!: map_of_SomeD)
    (metis fst_conv image_eqI map_of_SomeD)+

lemma map_of_stream_pairs: "map_of (stream_pairs values) k = visible values k"
proof (cases "visible values k")
  case None
  then show ?thesis by (auto simp: stream_pairs_def map_of_eq_None_iff)
next
  case (Some v)
  then have "k \<in> set (filter (\<lambda>k. visible values k \<noteq> None) (stream_keys values))"
    by (simp add: visible_dom)
  then show ?thesis by (simp add: stream_pairs_def map_of_map_restrict Some)
qed

lemma stream_pairs_cong:
  assumes "distinct (map fst a)" and "distinct (map fst b)" and "map_of a = map_of b"
  shows "stream_pairs a = stream_pairs b"
proof -
  have v: "visible a = visible b" by (simp add: visible_def assms(3) fun_eq_iff)
  have "fst ` set a = fst ` set b" using assms(3) by (metis dom_map_of_conv_image_fst)
  then have "stream_keys a = stream_keys b"
    using assms(1,2) by (intro sorted_distinct_set_unique) (auto simp: stream_keys_def)
  with v show ?thesis by (simp add: stream_pairs_def)
qed

text \<open>Lines without the separator can be read back from their concatenation.\<close>

lemma split_on_append: "c \<notin> set l \<Longrightarrow> split_on c (l @ c # r) = l # split_on c r"
  by (induction l) auto

lemma split_on_lines:
  "(\<forall>l \<in> set ls. c \<notin> set l) \<Longrightarrow> split_on c (concat (map (\<lambda>l. l @ [c]) ls)) = ls @ [[]]"
  by (induction ls) (auto simp: split_on_append)

lemma lines_inject:
  fixes c :: char
  assumes "\<forall>l \<in> set ls. c \<notin> set l" and "\<forall>l \<in> set ls'. c \<notin> set l"
    and "concat (map (\<lambda>l. l @ [c]) ls) = concat (map (\<lambda>l. l @ [c]) ls')"
  shows "ls = ls'"
proof -
  have "ls @ [[]] = ls' @ [[]]"
    by (rule trans [OF split_on_lines [OF assms(1), symmetric]])
      (subst assms(3), rule split_on_lines [OF assms(2)])
  then show ?thesis by simp
qed

lemma pair_line_inject:
  assumes "CHR ''='' \<notin> set k" and "CHR ''='' \<notin> set k'" and "pair_line (k, v) = pair_line (k', v')"
  shows "k = k' \<and> v = v'"
  using assms
proof (induction k arbitrary: k')
  case Nil
  then show ?case by (cases k') (auto simp: pair_line_def)
next
  case (Cons c k)
  then show ?case by (cases k') (auto simp: pair_line_def)
qed

text \<open>Field names and rendered values a producer may use without making two records collide.\<close>

definition clean_fields :: "(string \<times> stream_value) list \<Rightarrow> bool" where
  "clean_fields values =
     list_all (\<lambda>(k, v). nl \<notin> set k \<and> CHR ''='' \<notin> set k \<and> nl \<notin> set (stream_string v)) values"

lemma clean_pairs:
  assumes "clean_fields values" and "p \<in> set (stream_pairs values)"
  shows "nl \<notin> set (fst p) \<and> CHR ''='' \<notin> set (fst p) \<and> nl \<notin> set (snd p)"
proof -
  from assms(2) have "visible values (fst p) = Some (snd p)" by (auto simp: stream_pairs_def)
  then obtain v where "map_of values (fst p) = Some v" "snd p = stream_string v"
    by (auto simp: visible_def split: if_splits option.splits stream_value.splits)
  then show ?thesis using assms(1)
    by (auto simp: clean_fields_def list_all_iff dest!: map_of_SomeD)
qed

lemma pair_lines_inject:
  assumes "\<forall>p \<in> set ps. CHR ''='' \<notin> set (fst p)" and "\<forall>p \<in> set qs. CHR ''='' \<notin> set (fst p)"
    and "map pair_line ps = map pair_line qs"
  shows "ps = qs"
  using assms
proof (induction ps arbitrary: qs)
  case Nil
  then show ?case by simp
next
  case (Cons p ps)
  then obtain q qs' where qs: "qs = q # qs'" by (cases qs) auto
  from Cons.prems qs have line: "pair_line (fst p, snd p) = pair_line (fst q, snd q)"
    and keys: "CHR ''='' \<notin> set (fst p)" "CHR ''='' \<notin> set (fst q)" and tl: "map pair_line ps = map pair_line qs'"
    by simp_all
  have "p = q" using pair_line_inject [OF keys line] by (simp add: prod_eq_iff)
  moreover have "ps = qs'" by (rule Cons.IH) (use Cons.prems qs tl in simp_all)
  ultimately show ?case by (simp add: qs)
qed

subsection \<open>Properties\<close>

text \<open>
  A message carrying the signature that \<open>signStream\<close> computes for its fields passes the
  consumers' check with the same key and stream, whatever the order in which the fields arrive.
\<close>

theorem signed_message_verifies:
  assumes "distinct (map fst values)" and "distinct (map fst received)"
    and "map_of received = (map_of values)(STREAM_SIG_FIELD \<mapsto> SVStr (signStream hmac key stream values))"
  shows "verifyStream hmac requireSignature (Some key) stream received"
proof -
  let ?signed = "AList.update STREAM_SIG_FIELD (SVStr (signStream hmac key stream values)) values"
  have "map_of received = map_of ?signed" by (simp add: assms(3) update_conv')
  moreover have "distinct (map fst ?signed)" by (rule distinct_update [OF assms(1)])
  ultimately have "stream_pairs received = stream_pairs ?signed"
    using assms(2) by (intro stream_pairs_cong) auto
  moreover have "stream_pairs ?signed = stream_pairs values"
  proof -
    have v: "visible ?signed = visible values" by (auto simp: visible_def update_conv' fun_eq_iff)
    have "stream_keys ?signed = stream_keys values"
      using assms(1) distinct_update [OF assms(1)]
      by (intro sorted_distinct_set_unique)
        (auto simp: stream_keys_def dom_update [unfolded dom_map_of_conv_image_fst])
    with v show ?thesis by (simp add: stream_pairs_def)
  qed
  ultimately have "signStream hmac key stream received = signStream hmac key stream values"
    by (simp add: signStream_def canonicalizeStream_lines)
  then show ?thesis by (simp add: verifyStream_def assms(3))
qed

theorem signed_message_verifies_witness:
  "verifyStream (\<lambda>k d. k @ d) True (Some ''k'') ''s''
     [(''_sig'', SVStr (signStream (\<lambda>k d. k @ d) ''k'' ''s'' [(''event'', SVStr ''spawn'')])),
      (''event'', SVStr ''spawn'')]"
  by (rule signed_message_verifies [of "[(''event'', SVStr ''spawn'')]"])
    (auto simp: STREAM_SIG_FIELD_def)

text \<open>
  C30: the signature binds the fields of clean records. When two messages whose keys contain no newline
  or equals sign and whose values contain no newline have the same signature under a key, then they show
  the same fields on the same stream, or their two canonical forms are a collision of the HMAC under
  that key.
\<close>

theorem signStream_binds_fields:
  assumes "signStream hmac key stream a = signStream hmac key stream' b"
    and "clean_fields a" and "clean_fields b" and "nl \<notin> set stream" and "nl \<notin> set stream'"
  shows "(stream = stream' \<and> visible a = visible b) \<or>
    (canonicalizeStream stream a \<noteq> canonicalizeStream stream' b \<and>
     hmac key (canonicalizeStream stream a) = hmac key (canonicalizeStream stream' b))"
proof (cases "canonicalizeStream stream a = canonicalizeStream stream' b")
  case eq: True
  have clean: "\<forall>l \<in> set (s # map pair_line (stream_pairs vs)). nl \<notin> set l"
    if "clean_fields vs" "nl \<notin> set s" for vs s
    using that clean_pairs [OF that(1)] by (auto simp: pair_line_def)
  have "stream # map pair_line (stream_pairs a) = stream' # map pair_line (stream_pairs b)"
    by (rule lines_inject [OF clean [OF assms(2,4)] clean [OF assms(3,5)]])
      (use eq in \<open>simp add: canonicalizeStream_lines\<close>)
  moreover from this have "stream_pairs a = stream_pairs b"
    using clean_pairs [OF assms(2)] clean_pairs [OF assms(3)] by (intro pair_lines_inject) simp_all
  ultimately show ?thesis by (auto simp: fun_eq_iff map_of_stream_pairs [symmetric])
qed (use assms(1) in \<open>simp add: signStream_def\<close>)

theorem signStream_binds_fields_witness:
  "visible [(''a'', SVStr ''1'')] = visible [(''a'', SVNum 1)]"
proof -
  have "show_int 1 = ''1''" by code_simp
  then have "signStream (\<lambda>k d. d) ''k'' ''s'' [(''a'', SVStr ''1'')]
      = signStream (\<lambda>k d. d) ''k'' ''s'' [(''a'', SVNum 1)]"
    by (simp add: signStream_def canonicalizeStream_def stream_line_def STREAM_SIG_FIELD_def)
  from signStream_binds_fields [OF this] \<open>show_int 1 = ''1''\<close>
  show ?thesis by (auto simp: clean_fields_def)
qed

end
