(* ===== verification/RateLimit.thy ===== *)
theory RateLimit
  imports Idempotency
begin

text \<open>
  The fixed-window rate limiters of the coordinator, which count requests in Redis: the global one and
  the readiness one of \<open>apps/coordinator/src/app.ts\<close>, the one of \<open>routes/verify.ts\<close> and the one of
  \<open>routes/invocations.ts\<close>, with the clock of \<open>apps/coordinator/src/redis.ts\<close>. Redis is the keyspace it
  documents: a key holds an integer and an optional expiry, an expired key reads as absent, \<open>INCR\<close>
  counts from zero and keeps the expiry, \<open>EXPIRE\<close> sets it. Times are the milliseconds of the server's
  \<open>TIME\<close>.
\<close>

subsection \<open>Counters\<close>

type_synonym counters = "(string \<times> int \<times> time option) list"

definition counter_at :: "time \<Rightarrow> string \<Rightarrow> counters \<Rightarrow> (int \<times> time option) option" where
  "counter_at t key cs = (case map_of cs key of
      None \<Rightarrow> None
    | Some (n, expiry) \<Rightarrow> (case expiry of Some x \<Rightarrow> if t < x then Some (n, expiry) else None | None \<Rightarrow> Some (n, None)))"

definition redis_incr :: "time \<Rightarrow> string \<Rightarrow> counters \<Rightarrow> int \<times> counters" where
  "redis_incr t key cs = (case counter_at t key cs of
      None \<Rightarrow> (1, AList.update key (1, None) cs)
    | Some (n, expiry) \<Rightarrow> (n + 1, AList.update key (n + 1, expiry) cs))"

definition redis_expire :: "time \<Rightarrow> string \<Rightarrow> int \<Rightarrow> counters \<Rightarrow> counters" where
  "redis_expire t key seconds cs = (case counter_at t key cs of
      None \<Rightarrow> cs
    | Some (n, _) \<Rightarrow> AList.update key (n, Some (t + seconds * 1000)) cs)"

subsection \<open>The limiters\<close>

definition redisTimeMs :: "int \<times> int \<Rightarrow> time" where
  "redisTimeMs = (\<lambda>(seconds, microseconds). seconds * 1000 + microseconds div 1000)"

definition redisMinuteBucket :: "time \<Rightarrow> int" where
  "redisMinuteBucket t = t div 60000"

text \<open>The block the four limiters share: count, start the window's expiry with the first request, compare.\<close>

definition window_limited :: "int \<Rightarrow> string \<Rightarrow> time \<Rightarrow> counters \<Rightarrow> bool \<times> counters" where
  "window_limited limit key t cs =
    (let (count, cs1) = redis_incr t key cs;
         cs2 = (if count = 1 then redis_expire t key 90 cs1 else cs1)
     in (limit < count, cs2))"

definition bucket_key :: "string \<Rightarrow> time \<Rightarrow> string" where
  "bucket_key base t = base @ '':'' @ show_int (redisMinuteBucket t)"

definition invocation_prefix :: "zone \<Rightarrow> string \<Rightarrow> string" where
  "invocation_prefix z subject = ''coordinator:invocation_rl:'' @ z @ '':'' @ subject"

definition rateLimited :: "cfg \<Rightarrow> auth \<Rightarrow> zone \<Rightarrow> time \<Rightarrow> counters \<Rightarrow> bool \<times> counters" where
  "rateLimited c req z t cs =
    (if invocationRateLimitPerMin c \<le> 0 then (False, cs)
     else window_limited (invocationRateLimitPerMin c) (bucket_key (invocation_prefix z (au_client req)) t) t cs)"

definition global_limited :: "int \<Rightarrow> string \<Rightarrow> string \<Rightarrow> time \<Rightarrow> counters \<Rightarrow> bool \<times> counters" where
  "global_limited coordinatorRateLimitPerMin url ip t cs =
    (if url = ''/health'' \<or> coordinatorRateLimitPerMin \<le> 0 then (False, cs)
     else window_limited coordinatorRateLimitPerMin (bucket_key (''coordinator:global_rl:'' @ ip) t) t cs)"

definition ready_limited :: "int \<Rightarrow> string \<Rightarrow> time \<Rightarrow> counters \<Rightarrow> bool \<times> counters" where
  "ready_limited readyRateLimitPerMin ip t cs =
    (if readyRateLimitPerMin \<le> 0 then (False, cs)
     else window_limited readyRateLimitPerMin (bucket_key (''coordinator:ready_rl:'' @ ip) t) t cs)"

definition clientIp :: "string \<Rightarrow> string" where
  "clientIp ip = (if ip \<noteq> [] then ip else ''unknown'')"

definition verify_limited :: "int \<Rightarrow> string \<Rightarrow> time \<Rightarrow> counters \<Rightarrow> bool \<times> counters" where
  "verify_limited verifyRateLimitPerMin ip t cs =
    (if verifyRateLimitPerMin \<le> 0 then (False, cs)
     else window_limited verifyRateLimitPerMin (bucket_key (''coordinator:verify_rl:'' @ clientIp ip) t) t cs)"

subsection \<open>One window\<close>

lemma colon_not_shown: "CHR '':'' \<notin> set (show_int n)"
proof -
  have "CHR '':'' \<noteq> digit_char k" if "k < 10" for k
  proof
    assume "CHR '':'' = digit_char k"
    then have "of_char (CHR '':'') = (of_char (char_of (48 + k) :: char) :: nat)" by (simp add: digit_char_def)
    then show False using that by (simp add: of_char_of)
  qed
  then have "CHR '':'' \<notin> set (show_nat m)" for m using show_nat_digits [of "CHR '':''" m] by blast
  then show ?thesis by (simp add: show_int_def)
qed

lemma last_segment: "x \<notin> set ys \<Longrightarrow> takeWhile (\<lambda>c. c \<noteq> x) (rev (xs @ x # ys)) = rev ys"
  by (subst rev_append, simp) (subst takeWhile_append2, auto)

lemma bucket_key_minute:
  assumes "bucket_key p t = bucket_key p' t'"
  shows "redisMinuteBucket t = redisMinuteBucket t'"
proof -
  have last: "takeWhile (\<lambda>c. c \<noteq> CHR '':'') (rev (bucket_key q u)) = rev (show_int (redisMinuteBucket u))" for q u
    using last_segment [OF colon_not_shown, of q "redisMinuteBucket u"] by (simp add: bucket_key_def)
  have "rev (show_int (redisMinuteBucket t)) = rev (show_int (redisMinuteBucket t'))"
    using last [of p t] last [of p' t'] assms by simp
  then show ?thesis using show_int_inj by simp
qed

lemma counter_at_update: "counter_at t k (AList.update key v cs) =
    (if k = key then (case snd v of Some x \<Rightarrow> if t < x then Some v else None | None \<Rightarrow> Some v) else counter_at t k cs)"
  by (cases v) (auto simp: counter_at_def update_conv' split: option.splits)

text \<open>The state of a key inside its window, after \<open>n\<close> requests since time \<open>lo\<close>.\<close>

definition counted :: "time \<Rightarrow> time \<Rightarrow> string \<Rightarrow> nat \<Rightarrow> counters \<Rightarrow> bool" where
  "counted lo t key n cs \<longleftrightarrow>
    (if n = 0 then \<forall>t'\<ge>t. counter_at t' key cs = None
     else \<exists>x. map_of cs key = Some (int n, Some x) \<and> lo + 90000 \<le> x)"

lemma counted_step:
  assumes "counted lo t0 key n cs" "t0 \<le> t" "lo \<le> t" "t < lo + 90000"
  shows "fst (window_limited limit key t cs) \<longleftrightarrow> limit < int (Suc n)" "counted lo t key (Suc n) (snd (window_limited limit key t cs))"
proof -
  have "fst (window_limited limit key t cs) = (limit < int (Suc n)) \<and> counted lo t key (Suc n) (snd (window_limited limit key t cs))"
  proof (cases "n = 0")
    case True
    then have "counter_at t key cs = None" using assms by (auto simp: counted_def)
    then show ?thesis using True assms(3)
      by (simp add: window_limited_def redis_incr_def redis_expire_def counter_at_update counted_def update_conv')
  next
    case False
    then obtain x where "map_of cs key = Some (int n, Some x)" "lo + 90000 \<le> x" using assms(1) by (auto simp: counted_def)
    moreover from this have "counter_at t key cs = Some (int n, Some x)" using assms(4) by (auto simp: counter_at_def)
    ultimately show ?thesis using False
      by (simp add: window_limited_def redis_incr_def counted_def update_conv' add.commute)
  qed
  then show "fst (window_limited limit key t cs) \<longleftrightarrow> limit < int (Suc n)" "counted lo t key (Suc n) (snd (window_limited limit key t cs))" by auto
qed

lemma counted_other:
  assumes "counted lo t0 key n cs" "t0 \<le> t" "key' \<noteq> key"
  shows "counted lo t key n (snd (window_limited limit key' t cs))"
proof -
  have m: "map_of (snd (window_limited limit key' t cs)) key = map_of cs key"
    using assms(3) by (auto simp: window_limited_def redis_incr_def redis_expire_def Let_def update_conv' split: option.splits prod.splits)
  then have "counter_at t' key (snd (window_limited limit key' t cs)) = counter_at t' key cs" for t'
    by (simp add: counter_at_def)
  then show ?thesis using assms m by (auto simp: counted_def)
qed

subsection \<open>A sequence of requests\<close>

text \<open>Requests in the order Redis serves them: the zone, the client and the time of each.\<close>

fun serve :: "cfg \<Rightarrow> (zone \<times> auth \<times> time) list \<Rightarrow> counters \<Rightarrow> bool list" where
  "serve c [] cs = []"
| "serve c ((z, req, t) # rs) cs = (let (limited, cs') = rateLimited c req z t cs in (\<not> limited) # serve c rs cs')"

definition in_window :: "zone \<Rightarrow> string \<Rightarrow> int \<Rightarrow> (zone \<times> auth \<times> time) \<Rightarrow> bool" where
  "in_window z client minute = (\<lambda>(z', req, t). z' = z \<and> au_client req = client \<and> redisMinuteBucket t = minute)"

fun ordered :: "time \<Rightarrow> (zone \<times> auth \<times> time) list \<Rightarrow> bool" where
  "ordered t0 [] = True"
| "ordered t0 ((z, req, t) # rs) = (t0 \<le> t \<and> ordered t rs)"

lemma serve_counted:
  assumes "0 < invocationRateLimitPerMin c" "ordered t0 rs"
    "counted (minute * 60000) t0 (bucket_key (invocation_prefix z client) (minute * 60000)) n cs"
  shows "int (length (filter fst (filter (\<lambda>(ok, r). in_window z client minute r) (zip (serve c rs cs) rs))))
     \<le> max 0 (invocationRateLimitPerMin c - int n)"
  using assms(2,3)
proof (induction rs arbitrary: t0 n cs)
  case Nil
  then show ?case by simp
next
  case (Cons r rs)
  obtain z' req t where r: "r = (z', req, t)" by (cases r)
  let ?L = "invocationRateLimitPerMin c" and ?k = "bucket_key (invocation_prefix z client) (minute * 60000)"
  let ?k' = "bucket_key (invocation_prefix z' (au_client req)) t"
  let ?w = "window_limited ?L ?k' t cs"
  have t: "t0 \<le> t" "ordered t rs" using Cons.prems(1) by (simp_all add: r)
  have rl: "rateLimited c req z' t cs = ?w" using assms(1) by (simp add: rateLimited_def)
  have m: "redisMinuteBucket (minute * 60000) = minute" by (simp add: redisMinuteBucket_def)
  show ?case
  proof (cases "?k' = ?k")
    case True
    then have tm: "redisMinuteBucket t = minute" using bucket_key_minute m by metis
    then have "minute * 60000 \<le> t" "t < minute * 60000 + 90000" by (auto simp: redisMinuteBucket_def)
    note step = counted_step [OF Cons.prems(2) t(1) this, of ?L]
    have ih: "int (length (filter fst (filter (\<lambda>(ok, r). in_window z client minute r) (zip (serve c rs (snd ?w)) rs)))) \<le> max 0 (?L - int (Suc n))"
      using Cons.IH [OF t(2)] step(2) True by metis
    have "fst ?w \<longleftrightarrow> ?L < int (Suc n)" using step(1) True by metis
    then show ?thesis using ih by (auto simp: r rl split_beta Let_def)
  next
    case False
    then have "\<not> in_window z client minute r" using m by (auto simp: r in_window_def bucket_key_def)
    moreover have "counted (minute * 60000) t ?k n (snd ?w)" by (rule counted_other [OF Cons.prems(2) t(1) False])
    ultimately show ?thesis using Cons.IH [OF t(2)] by (auto simp: r rl split_beta Let_def)
  qed
qed

definition limiter_auth :: auth where
  "limiter_auth = \<lparr>au_zone = ''z1'', au_scopes = [], au_subject = ''app'', au_client = ''app'', au_session = None,
     au_edge = None, au_authority = None\<rparr>"

text \<open>
  C31: the invocation limiter holds its bound. Whatever requests Redis serves, from any clients and
  over any number of minutes, the requests of one client to one zone that pass within one minute are
  at most the configured number: the counter outlives its minute because its expiry of 90 seconds
  starts with the first request of a 60-second window, and keys of other minutes never coincide.
\<close>

theorem rate_limit_bound:
  assumes "0 < invocationRateLimitPerMin c" "ordered t0 rs"
    "\<forall>t\<ge>t0. counter_at t (bucket_key (invocation_prefix z client) (minute * 60000)) cs = None"
  shows "int (length (filter fst (filter (\<lambda>(ok, r). in_window z client minute r) (zip (serve c rs cs) rs))))
     \<le> invocationRateLimitPerMin c"
  using serve_counted [OF assms(1,2), of minute z client 0 cs] assms(1,3) by (simp add: counted_def)

theorem rate_limit_bound_witness:
  "int (length (filter fst (filter (\<lambda>(ok, r). in_window ''z1'' ''app'' 0 r)
     (zip (serve (sample_cfg\<lparr>invocationRateLimitPerMin := 1\<rparr>) [(''z1'', limiter_auth, 5), (''z1'', limiter_auth, 70)] [])
        [(''z1'', limiter_auth, 5), (''z1'', limiter_auth, 70)])))) \<le> 1"
  using rate_limit_bound [of "sample_cfg\<lparr>invocationRateLimitPerMin := 1\<rparr>" 0 "[(''z1'', limiter_auth, 5), (''z1'', limiter_auth, 70)]" "''z1''" "''app''" 0 "[]"]
  by (simp add: counter_at_def)

end
