(* ===== verification/OutboxJobs.thy ===== *)
theory OutboxJobs
  imports StreamSig RateLimit Sweepers
begin

text \<open>
  From the outbox to the consumers: \<open>jobs/outbox-publisher.ts\<close>, the requeue route of
  \<open>routes/outbox.ts\<close>, \<open>jobs/lifecycle-relay.ts\<close> and the interval runner of \<open>jobs/job.ts\<close>. The Redis
  streams are the list of the messages ever added, each with its topic and its flat list of fields.
  An \<open>XADD\<close> is stored, refused, or stored without the caller learning of it (a timeout); the outcome of
  each row is a parameter. \<open>hmac\<close> is the keyed hash, \<open>jitter\<close> the random part of the retry delay.
\<close>

subsection \<open>Publisher\<close>

datatype xadd_outcome = Stored | Refused | Unconfirmed

type_synonym message = "string \<times> string list"

text \<open>The fields of a message: an object built in this order, then flattened.\<close>

definition set_field :: "string \<times> json \<Rightarrow> (string \<times> string) list \<Rightarrow> (string \<times> string) list" where
  "set_field kv values = (case kv of (k, v) \<Rightarrow>
     if k \<in> {''outbox_id'', ''dedupe_key'', STREAM_SIG_FIELD} then values
     else AList.update k (case v of JStr s \<Rightarrow> s | _ \<Rightarrow> render v) values)"

definition payload_entries :: "json \<Rightarrow> (string \<times> json) list" where
  "payload_entries j = (case j of JObj kvs \<Rightarrow> kvs | _ \<Rightarrow> [])"

definition stream_values :: "outbox_row \<Rightarrow> (string \<times> string) list" where
  "stream_values row = fold set_field (payload_entries (o_payload row)) [(''outbox_id'', o_id row), (''dedupe_key'', o_key row)]"

definition signed_values :: "(string \<Rightarrow> string \<Rightarrow> string) \<Rightarrow> string option \<Rightarrow> outbox_row \<Rightarrow> (string \<times> string) list" where
  "signed_values hmac streamHmacKey row =
    (let values = stream_values row in
     case streamHmacKey of
       None \<Rightarrow> values
     | Some key \<Rightarrow> AList.update STREAM_SIG_FIELD (signStream hmac key (o_topic row) (map (\<lambda>(k, v). (k, SVStr v)) values)) values)"

definition streamFields :: "(string \<Rightarrow> string \<Rightarrow> string) \<Rightarrow> string option \<Rightarrow> outbox_row \<Rightarrow> string list" where
  "streamFields hmac streamHmacKey row = concat (map (\<lambda>(k, v). [k, v]) (signed_values hmac streamHmacKey row))"

definition publishable :: "env \<Rightarrow> outbox_row \<Rightarrow> bool" where
  "publishable e r = (o_producer r = ''coordinator'' \<and> o_status r = OPending \<and> o_available r \<le> now e)"

definition publish_rows :: "env \<Rightarrow> nat \<Rightarrow> db \<Rightarrow> outbox_row list" where
  "publish_rows e batchSize d = take batchSize (sort_key o_created (filter (publishable e) (outbox d)))"

definition mark_published :: "env \<Rightarrow> outbox_row \<Rightarrow> outbox_row" where
  "mark_published e r = r\<lparr>o_status := OPublished, o_attempts := o_attempts r + 1, o_published := Some (now e), o_updated := now e\<rparr>"

definition mark_retried :: "env \<Rightarrow> (string \<Rightarrow> time) \<Rightarrow> outbox_row \<Rightarrow> outbox_row" where
  "mark_retried e jitter r = r\<lparr>o_attempts := o_attempts r + 1,
     o_available := now e + min (o_attempts r + 1) 60 * 1000 + jitter (o_id r), o_updated := now e\<rparr>"

definition mark_dead :: "env \<Rightarrow> outbox_row \<Rightarrow> outbox_row" where
  "mark_dead e r = r\<lparr>o_status := ODead, o_attempts := o_attempts r + 1, o_updated := now e\<rparr>"

text \<open>
  The messages are sent row by row; the three updates follow. \<open>committed\<close> is false when the
  transaction rolls back after messages were sent.
\<close>

definition publishBatch :: "(string \<Rightarrow> string \<Rightarrow> string) \<Rightarrow> string option \<Rightarrow> env \<Rightarrow> nat \<Rightarrow> int \<Rightarrow> (outbox_row \<Rightarrow> xadd_outcome) \<Rightarrow>
    (string \<Rightarrow> time) \<Rightarrow> bool \<Rightarrow> db \<times> message list \<Rightarrow> db \<times> message list" where
  "publishBatch hmac key e batchSize maxAttempts xadd jitter committed s = (case s of (d, streams) \<Rightarrow>
    (let rows = publish_rows e batchSize d;
         streams' = streams @ map (\<lambda>r. (o_topic r, streamFields hmac key r)) (filter (\<lambda>r. xadd r \<noteq> Refused) rows);
         failed = filter (\<lambda>r. xadd r \<noteq> Stored) rows;
         published = map o_id (filter (\<lambda>r. xadd r = Stored) rows);
         dead = map o_id (filter (\<lambda>r. maxAttempts \<le> o_attempts r + 1) failed);
         retried = map o_id (filter (\<lambda>r. \<not> maxAttempts \<le> o_attempts r + 1) failed);
         update = (\<lambda>r. if o_id r \<in> set published then mark_published e r
                       else if o_id r \<in> set retried then mark_retried e jitter r
                       else if o_id r \<in> set dead then mark_dead e r else r)
     in (if committed then d\<lparr>outbox := map update (outbox d)\<rparr> else d, streams')))"

subsection \<open>Requeueing a dead row\<close>

definition requeued :: "env \<Rightarrow> outbox_row \<Rightarrow> outbox_row" where
  "requeued e r = r\<lparr>o_status := OPending, o_attempts := 0, o_available := now e, o_published := None, o_updated := now e\<rparr>"

definition requeue_outbox :: "(string \<Rightarrow> bool) \<Rightarrow> env \<Rightarrow> auth \<Rightarrow> zone \<Rightarrow> string \<Rightarrow> db \<Rightarrow> reply \<times> db" where
  "requeue_outbox uuid_ok e req z i d =
    (if \<not> requireScope req ''coordinator.admin'' then (err 403 ''coordinator_admin_required'', d)
     else if \<not> uuid_ok z \<or> \<not> uuid_ok i then (invalid_body, d)
     else let hit = (\<lambda>r. o_id r = i \<and> o_producer r = ''coordinator'' \<and> o_status r = ODead \<and>
                       jget (payload_entries (o_payload r)) ''zone_id'' = Some (JStr z)) in
       case find hit (outbox d) of
         None \<Rightarrow> (err 404 ''dead_outbox_not_found'', d)
       | Some r \<Rightarrow> (send 200 (JObj [(''id'', JStr (o_id r)), (''status'', JStr ''pending'')]),
                    d\<lparr>outbox := map (\<lambda>r. if hit r then requeued e r else r) (outbox d)\<rparr>))"

subsection \<open>Lifecycle relay\<close>

definition LIFECYCLE_STREAM :: string where "LIFECYCLE_STREAM = ''caracal.agents.lifecycle''"
definition DEDUPE_KEY_PREFIX :: string where "DEDUPE_KEY_PREFIX = ''coordinator:relay_dedupe:''"

fun fieldsToValues_loop :: "string list \<Rightarrow> (string \<times> stream_value) list \<Rightarrow> (string \<times> stream_value) list" where
  "fieldsToValues_loop (k # v # fs) values = fieldsToValues_loop fs (AList.update k (SVStr v) values)"
| "fieldsToValues_loop _ values = values"

definition fieldsToValues :: "string list \<Rightarrow> (string \<times> stream_value) list" where
  "fieldsToValues flds = fieldsToValues_loop flds []"

record relay =
  rl_seen :: counters
  rl_observed :: "string list"
  rl_duplicates :: nat
  rl_invalid :: nat
  rl_acked :: "string list"

record relay_options =
  ro_key :: "string option"
  ro_required :: bool
  ro_dedupeTtlMs :: int

text \<open>\<open>SET key 1 PX ttl NX\<close>: \<open>True\<close> when the key was absent and has been set.\<close>

definition redis_setnx :: "time \<Rightarrow> string \<Rightarrow> int \<Rightarrow> counters \<Rightarrow> bool \<times> counters" where
  "redis_setnx t key ttl cs = (if counter_at t key cs = None then (True, AList.update key (1, Some (t + ttl)) cs) else (False, cs))"

text \<open>\<open>up\<close> is false when the Redis call fails; the relay then proceeds.\<close>

definition duplicate :: "relay_options \<Rightarrow> time \<Rightarrow> bool \<Rightarrow> (string \<times> stream_value) list \<Rightarrow> counters \<Rightarrow> bool \<times> counters" where
  "duplicate opts t up values cs = (case map_of values ''outbox_id'' of
      Some (SVStr i) \<Rightarrow>
        (if i = [] \<or> \<not> up then (False, cs)
         else let (set_now, cs1) = redis_setnx t (DEDUPE_KEY_PREFIX @ i) (ro_dedupeTtlMs opts) cs in (\<not> set_now, cs1))
    | _ \<Rightarrow> (False, cs))"

definition ack :: "string \<Rightarrow> relay \<Rightarrow> relay" where
  "ack i s = s\<lparr>rl_acked := rl_acked s @ [i]\<rparr>"

definition processMessage :: "(string \<Rightarrow> string \<Rightarrow> string) \<Rightarrow> relay_options \<Rightarrow> time \<Rightarrow> bool \<Rightarrow> string \<Rightarrow> string list \<Rightarrow> relay \<Rightarrow> relay" where
  "processMessage hmac opts t up i flds s =
    (let values = fieldsToValues flds in
     if \<not> verifyStream hmac (ro_required opts) (ro_key opts) LIFECYCLE_STREAM values
     then ack i (s\<lparr>rl_invalid := Suc (rl_invalid s)\<rparr>)
     else let (dup, seen) = duplicate opts t up values (rl_seen s); s1 = s\<lparr>rl_seen := seen\<rparr> in
       if dup then ack i (s1\<lparr>rl_duplicates := Suc (rl_duplicates s)\<rparr>)
       else ack i (s1\<lparr>rl_observed := rl_observed s @ [i]\<rparr>))"

text \<open>
  Draining the messages left by other consumers. \<open>claim\<close> is one \<open>XAUTOCLAIM\<close> from a cursor: the next
  cursor and the messages. The loop ends when a page is empty or the cursor is back at its start.
\<close>

partial_function (option) drainPending ::
    "(string \<Rightarrow> string \<times> (string \<times> string list) list) \<Rightarrow> (string \<Rightarrow> string list \<Rightarrow> relay \<Rightarrow> relay) \<Rightarrow> string \<Rightarrow> nat \<Rightarrow> relay \<Rightarrow> (nat \<times> relay) option" where
  "drainPending claim process start handled s =
    (let (next, messages) = claim start; s1 = fold (\<lambda>(i, flds). process i flds) messages s; n = handled + length messages
     in if messages = [] \<or> next = [] \<or> next = ''0-0'' then Some (n, s1)
        else drainPending claim process next n s1)"

definition pollOnce ::
    "(string \<Rightarrow> string \<times> (string \<times> string list) list) \<Rightarrow> (string \<times> string list) list \<Rightarrow> (string \<Rightarrow> string list \<Rightarrow> relay \<Rightarrow> relay) \<Rightarrow> relay \<Rightarrow> (nat \<times> relay) option" where
  "pollOnce claim fresh process s = (case drainPending claim process ''0-0'' 0 s of
      None \<Rightarrow> None
    | Some (n, s1) \<Rightarrow> Some (n + length fresh, fold (\<lambda>(i, flds). process i flds) fresh s1))"

subsection \<open>The interval runner\<close>

record job =
  running :: bool
  stopped :: bool
  started_runs :: nat

definition tick :: "job \<Rightarrow> job" where
  "tick j = (if stopped j \<or> running j then j else j\<lparr>running := True, started_runs := Suc (started_runs j)\<rparr>)"

definition run_finished :: "job \<Rightarrow> job" where
  "run_finished j = j\<lparr>running := False\<rparr>"

definition stop :: "job \<Rightarrow> job" where
  "stop j = j\<lparr>stopped := True\<rparr>"

subsection \<open>A published message passes the relay's check\<close>

lemma update_fresh: "k \<notin> fst ` set xs \<Longrightarrow> AList.update k v xs = xs @ [(k, v)]"
  by (induction xs) auto

lemma fieldsToValues_flat:
  assumes "distinct (map fst kvs)" "fst ` set kvs \<inter> fst ` set vals = {}"
  shows "fieldsToValues_loop (concat (map (\<lambda>(k, v). [k, v]) kvs)) vals = vals @ map (\<lambda>(k, v). (k, SVStr v)) kvs"
  using assms
proof (induction kvs arbitrary: vals)
  case (Cons kv kvs)
  obtain k v where kv: "kv = (k, v)" by (cases kv)
  have "AList.update k (SVStr v) vals = vals @ [(k, SVStr v)]" by (rule update_fresh) (use Cons.prems(2) kv in auto)
  then show ?case using Cons.IH [of "vals @ [(k, SVStr v)]"] Cons.prems by (auto simp: kv)
qed simp

lemma stream_values_keys: "distinct (map fst (stream_values row))" "STREAM_SIG_FIELD \<notin> fst ` set (stream_values row)"
proof -
  have "distinct (map fst (fold set_field es vs)) \<and> STREAM_SIG_FIELD \<notin> fst ` set (fold set_field es vs)"
    if "distinct (map fst vs)" "STREAM_SIG_FIELD \<notin> fst ` set vs" for es vs
    using that
  proof (induction es arbitrary: vs)
    case (Cons e es)
    obtain k v where e: "e = (k, v)" by (cases e)
    have "distinct (map fst (set_field e vs))" "STREAM_SIG_FIELD \<notin> fst ` set (set_field e vs)"
      using Cons.prems by (auto simp: set_field_def e distinct_update dom_update image_Un)
    then show ?case using Cons.IH by simp
  qed simp
  then show "distinct (map fst (stream_values row))" "STREAM_SIG_FIELD \<notin> fst ` set (stream_values row)"
    by (simp_all add: stream_values_def STREAM_SIG_FIELD_def)
qed

lemma signed_values_keys: "distinct (map fst (signed_values hmac key row))"
  using stream_values_keys by (auto simp: signed_values_def Let_def distinct_update split: option.split)

lemma streamFields_values: "fieldsToValues (streamFields hmac key row) = map (\<lambda>(k, v). (k, SVStr v)) (signed_values hmac key row)"
  using fieldsToValues_flat [OF signed_values_keys, where vals = "[]"] by (simp add: fieldsToValues_def streamFields_def)

lemma canonicalizeStream_sig:
  assumes "STREAM_SIG_FIELD \<notin> fst ` set vs"
  shows "canonicalizeStream stream (vs @ [(STREAM_SIG_FIELD, x)]) = canonicalizeStream stream vs"
proof -
  have "stream_line (vs @ [(STREAM_SIG_FIELD, x)]) k = stream_line vs k" if "k \<noteq> STREAM_SIG_FIELD" for k
  proof -
    have "map_of (vs @ [(STREAM_SIG_FIELD, x)]) k = map_of vs k" using that by (simp add: map_add_def split: option.split)
    then show ?thesis by (intro ext) (simp add: stream_line_def)
  qed
  then have "fold (stream_line (vs @ [(STREAM_SIG_FIELD, x)])) ks out = fold (stream_line vs) ks out"
    if "STREAM_SIG_FIELD \<notin> set ks" for ks out using that by (induction ks arbitrary: out) auto
  then show ?thesis by (simp add: canonicalizeStream_def Let_def)
qed

lemma streamFields_verify:
  "verifyStream hmac required (Some key) (o_topic row) (fieldsToValues (streamFields hmac (Some key) row))"
proof -
  let ?vs = "map (\<lambda>(k, v). (k, SVStr v)) (stream_values row)"
  let ?sig = "signStream hmac key (o_topic row) ?vs"
  have nk: "STREAM_SIG_FIELD \<notin> fst ` set ?vs" using stream_values_keys(2) by force
  have "fieldsToValues (streamFields hmac (Some key) row) = ?vs @ [(STREAM_SIG_FIELD, SVStr ?sig)]"
    using stream_values_keys(2) by (simp add: streamFields_values signed_values_def Let_def update_fresh)
  moreover have "map_of (?vs @ [(STREAM_SIG_FIELD, SVStr ?sig)]) STREAM_SIG_FIELD = Some (SVStr ?sig)"
    using nk by (simp add: map_add_def map_of_eq_None_iff [THEN iffD2])
  ultimately show ?thesis using canonicalizeStream_sig [OF nk] by (simp add: verifyStream_def signStream_def)
qed

text \<open>
  C29: what the publisher sends, the relay accepts. The message made from any outbox row with a
  configured key, read back from its flat list of fields, passes the signature check of a consumer
  with the same key and the same stream, whatever the payload contains.
\<close>

theorem published_message_verifies:
  "verifyStream hmac required (Some key) (o_topic row) (fieldsToValues (streamFields hmac (Some key) row))"
  by (rule streamFields_verify)

subsection \<open>At least once: the life of an outbox row\<close>

text \<open>
  The outbox under every operation that touches it: handlers queue rows, publisher batches run with any
  outcome of each send and may be rolled back after sending, operators requeue, the cleaner deletes.
\<close>

inductive outbox_run :: "(string \<Rightarrow> string \<Rightarrow> string) \<Rightarrow> string option \<Rightarrow> int \<Rightarrow> db \<times> message list \<Rightarrow> bool"
  for hmac key maxAttempts where
  outbox_empty: "outbox d = [] \<Longrightarrow> outbox_run hmac key maxAttempts (d, [])"
| outbox_queue: "outbox_run hmac key maxAttempts (d, streams) \<Longrightarrow> uuidv7 e (uuids d) \<notin> o_id ` set (outbox d) \<Longrightarrow>
    outbox_run hmac key maxAttempts (enqueue e topic k p d, streams)"
| outbox_publish: "outbox_run hmac key maxAttempts s \<Longrightarrow>
    outbox_run hmac key maxAttempts (publishBatch hmac key e batchSize maxAttempts xadd jitter committed s)"
| outbox_requeue: "outbox_run hmac key maxAttempts (d, streams) \<Longrightarrow>
    outbox_run hmac key maxAttempts (snd (requeue_outbox uuid_ok e req z i d), streams)"
| outbox_clean: "outbox_run hmac key maxAttempts (d, streams) \<Longrightarrow> outbox_run hmac key maxAttempts (snd (delete_outbox e c d), streams)"

definition row_ok :: "(string \<Rightarrow> string \<Rightarrow> string) \<Rightarrow> string option \<Rightarrow> int \<Rightarrow> message list \<Rightarrow> outbox_row \<Rightarrow> bool" where
  "row_ok hmac key maxAttempts streams r = (case o_status r of
      OPending \<Rightarrow> o_published r = None \<and> o_attempts r < maxAttempts
    | OPublished \<Rightarrow> o_published r \<noteq> None \<and> (o_topic r, streamFields hmac key r) \<in> set streams
    | ODead \<Rightarrow> o_published r = None \<and> maxAttempts \<le> o_attempts r)"

definition outbox_ok :: "(string \<Rightarrow> string \<Rightarrow> string) \<Rightarrow> string option \<Rightarrow> int \<Rightarrow> db \<times> message list \<Rightarrow> bool" where
  "outbox_ok hmac key maxAttempts s = (case s of (d, streams) \<Rightarrow>
     distinct (map o_id (outbox d)) \<and> list_all (row_ok hmac key maxAttempts streams) (outbox d))"

lemma row_ok_more: "row_ok hmac key m streams r \<Longrightarrow> row_ok hmac key m (streams @ more') r"
  by (auto simp: row_ok_def split: outbox_status.splits)

lemma marks_same [simp]:
  "o_id (mark_published e r) = o_id r" "o_id (mark_retried e j r) = o_id r" "o_id (mark_dead e r) = o_id r" "o_id (requeued e r) = o_id r"
  by (simp_all add: mark_published_def mark_retried_def mark_dead_def requeued_def)

lemma streamFields_same:
  "streamFields hmac key (mark_published e r) = streamFields hmac key r"
  by (simp add: mark_published_def streamFields_def signed_values_def stream_values_def Let_def split: option.split)

lemma publish_rows_in: "r \<in> set (publish_rows e n d) \<Longrightarrow> r \<in> set (outbox d) \<and> publishable e r"
  by (auto simp: publish_rows_def dest: in_set_takeD)

lemma publishBatch_ok:
  assumes "outbox_ok hmac key m s"
  shows "outbox_ok hmac key m (publishBatch hmac key e n m xadd jitter committed s)"
proof -
  obtain d streams where s: "s = (d, streams)" by (cases s)
  have dis: "distinct (map o_id (outbox d))" and rows: "\<And>r. r \<in> set (outbox d) \<Longrightarrow> row_ok hmac key m streams r"
    using assms by (auto simp: outbox_ok_def s list_all_iff)
  define rs where "rs = publish_rows e n d"
  define sent where "sent = map (\<lambda>r. (o_topic r, streamFields hmac key r)) (filter (\<lambda>r. xadd r \<noteq> Refused) rs)"
  have same: "r' = r" if "o_id r' = o_id r" "r' \<in> set rs" "r \<in> set (outbox d)" for r r'
    using that dis publish_rows_in by (auto simp: rs_def distinct_map dest: inj_onD)
  have picked: "(o_id r \<in> set (map o_id (filter P rs))) = (r \<in> set rs \<and> P r)" if "r \<in> set (outbox d)" for r P
    using same [OF _ _ that] by (auto simp: image_iff)
  define update where "update r = (if r \<in> set rs \<and> xadd r = Stored then mark_published e r
      else if r \<in> set rs \<and> \<not> m \<le> o_attempts r + 1 then mark_retried e jitter r
      else if r \<in> set rs then mark_dead e r else r)" for r
  have ok: "row_ok hmac key m (streams @ sent) (update r)" if r: "r \<in> set (outbox d)" for r
  proof (cases "r \<in> set rs")
    case True
    then have "o_status r = OPending" using publish_rows_in by (auto simp: rs_def publishable_def)
    moreover have "o_published r = None" using rows [OF r] calculation by (simp add: row_ok_def)
    moreover have "(o_topic r, streamFields hmac key r) \<in> set sent" if "xadd r = Stored" using True that by (auto simp: sent_def)
    ultimately show ?thesis using True streamFields_same [of hmac key e r]
      by (auto simp: update_def row_ok_def mark_published_def mark_retried_def mark_dead_def)
  next
    case False
    then show ?thesis using row_ok_more [OF rows [OF r]] by (simp add: update_def)
  qed
  have ids: "o_id \<circ> update = o_id" by (auto simp: update_def)
  have "publishBatch hmac key e n m xadd jitter committed s = (if committed then d\<lparr>outbox := map update (outbox d)\<rparr> else d, streams @ sent)"
  proof -
    have "map (\<lambda>r. if o_id r \<in> set (map o_id (filter (\<lambda>r. xadd r = Stored) rs)) then mark_published e r
        else if o_id r \<in> set (map o_id (filter (\<lambda>r. \<not> m \<le> o_attempts r + 1) (filter (\<lambda>r. xadd r \<noteq> Stored) rs))) then mark_retried e jitter r
        else if o_id r \<in> set (map o_id (filter (\<lambda>r. m \<le> o_attempts r + 1) (filter (\<lambda>r. xadd r \<noteq> Stored) rs))) then mark_dead e r else r) (outbox d)
      = map update (outbox d)"
      by (rule map_cong [OF refl]) (simp only: filter_filter picked update_def, simp)
    then show ?thesis by (simp only: publishBatch_def s Let_def prod.case sent_def rs_def [symmetric])
  qed
  then show ?thesis using ok dis row_ok_more [OF rows] by (auto simp: outbox_ok_def list_all_iff ids)
qed

lemma requeue_ok:
  assumes "outbox_ok hmac key m (d, streams)" "0 < m"
  shows "outbox_ok hmac key m (snd (requeue_outbox uuid_ok e req z i d), streams)"
proof -
  have "o_id \<circ> (\<lambda>r. if P r then requeued e r else r) = o_id" for P by auto
  then show ?thesis using assms
    by (auto simp: requeue_outbox_def outbox_ok_def Let_def list_all_iff row_ok_def requeued_def split: option.split)
qed

lemma enqueue_ok:
  assumes "outbox_ok hmac key m (d, streams)" "0 < m" "uuidv7 e (uuids d) \<notin> o_id ` set (outbox d)"
  shows "outbox_ok hmac key m (enqueue e topic k p d, streams)"
  using assms by (auto simp: outbox_ok_def enqueue_def Let_def list_all_iff row_ok_def)

lemma outbox_run_ok:
  assumes "outbox_run hmac key m s" "0 < m"
  shows "outbox_ok hmac key m s"
  using assms(1)
proof induction
  case (outbox_clean d streams e c)
  then show ?case by (auto simp: outbox_ok_def delete_outbox_def Let_def list_all_iff intro: distinct_map_filter)
qed (use assms(2) publishBatch_ok requeue_ok enqueue_ok in \<open>auto simp: outbox_ok_def\<close>)

text \<open>
  C27: at-least-once delivery. However queueing, publisher batches, requeues and clean-ups follow each
  other, and whichever sends succeed, fail or are lost in a rollback, every outbox row is in one of three
  states: pending with attempts left; published, and then its message is on the stream of its topic; or
  dead, and then all its attempts were used.
\<close>

theorem outbox_at_least_once:
  assumes "outbox_run hmac key maxAttempts (d, streams)" "0 < maxAttempts" "r \<in> set (outbox d)"
  shows "row_ok hmac key maxAttempts streams r"
  using outbox_run_ok [OF assms(1,2)] assms(3) by (auto simp: outbox_ok_def list_all_iff)

definition queued_db :: db where
  "queued_db = enqueue (sample_env 0) LIFECYCLE_STREAM ''k1'' (JObj [(''event'', JStr ''session.started'')]) empty_db"

theorem outbox_at_least_once_witness:
  "row_ok (\<lambda>k m. m) None 3 [(LIFECYCLE_STREAM, streamFields (\<lambda>k m. m) None (hd (outbox queued_db)))]
     (mark_published (sample_env 0) (hd (outbox queued_db)))"
proof -
  let ?s = "publishBatch (\<lambda>k m. m) None (sample_env 0) 10 3 (\<lambda>r. Stored) (\<lambda>i. 0) True (queued_db, [])"
  have ob: "outbox queued_db = [hd (outbox queued_db)]" and p: "publishable (sample_env 0) (hd (outbox queued_db))"
    by (simp_all add: queued_db_def enqueue_def empty_db_def outbox_has_def Let_def publishable_def)
  have "outbox_run (\<lambda>k m. m) None 3 (queued_db, [])"
    unfolding queued_db_def by (rule outbox_queue [OF outbox_empty]) (simp_all add: empty_db_def)
  then have run: "outbox_run (\<lambda>k m. m) None 3 ?s" by (rule outbox_publish)
  have "publish_rows (sample_env 0) 10 queued_db = [hd (outbox queued_db)]" using p by (subst publish_rows_def, subst ob) simp
  then have s: "?s = (queued_db\<lparr>outbox := [mark_published (sample_env 0) (hd (outbox queued_db))]\<rparr>,
      [(LIFECYCLE_STREAM, streamFields (\<lambda>k m. m) None (hd (outbox queued_db)))])"
    by (subst publishBatch_def, simp add: Let_def, subst ob)
      (simp add: queued_db_def enqueue_def empty_db_def outbox_has_def Let_def)
  show ?thesis using outbox_at_least_once [OF run [unfolded s]] by simp
qed

subsection \<open>Once per window: the relay\<close>

text \<open>
  Deliveries of messages to the relay, in order: the time and the stream identifier of each. A
  message may be delivered again, and two messages may carry the same outbox identifier.
\<close>

definition relay_run :: "(string \<Rightarrow> string \<Rightarrow> string) \<Rightarrow> relay_options \<Rightarrow> (string \<Rightarrow> string list) \<Rightarrow> (time \<times> string) list \<Rightarrow> relay \<Rightarrow> relay" where
  "relay_run hmac opts message ms s = fold (\<lambda>(t, i). processMessage hmac opts t True i (message i)) ms s"

definition carries :: "(string \<Rightarrow> string list) \<Rightarrow> string \<Rightarrow> string \<Rightarrow> bool" where
  "carries message outbox_id i = (map_of (fieldsToValues (message i)) ''outbox_id'' = Some (SVStr outbox_id))"

definition accepted :: "(string \<Rightarrow> string \<Rightarrow> string) \<Rightarrow> relay_options \<Rightarrow> (string \<Rightarrow> string list) \<Rightarrow> string \<Rightarrow> bool" where
  "accepted hmac opts message i = verifyStream hmac (ro_required opts) (ro_key opts) LIFECYCLE_STREAM (fieldsToValues (message i))"

definition observations :: "(string \<Rightarrow> string list) \<Rightarrow> string \<Rightarrow> relay \<Rightarrow> nat" where
  "observations message outbox_id s = length (filter (carries message outbox_id) (rl_observed s))"

text \<open>The relay between two deliveries of a window starting at \<open>lo\<close>: not yet seen, or seen once and remembered.\<close>

definition remembers :: "relay_options \<Rightarrow> (string \<Rightarrow> string list) \<Rightarrow> string \<Rightarrow> time \<Rightarrow> bool \<Rightarrow> relay \<Rightarrow> bool" where
  "remembers opts message oid lo seen s \<longleftrightarrow>
    (if seen then observations message oid s = 1 \<and> (\<exists>n x. map_of (rl_seen s) (DEDUPE_KEY_PREFIX @ oid) = Some (n, Some x) \<and> lo + ro_dedupeTtlMs opts \<le> x)
     else observations message oid s = 0 \<and> (\<forall>t\<ge>lo. counter_at t (DEDUPE_KEY_PREFIX @ oid) (rl_seen s) = None))"

lemma processMessage_remembers:
  assumes "remembers opts message oid lo seen s" "lo \<le> t" "t < lo + ro_dedupeTtlMs opts" "oid \<noteq> []"
  shows "remembers opts message oid lo (seen \<or> accepted hmac opts message i \<and> carries message oid i)
    (processMessage hmac opts t True i (message i) s)"
proof -
  let ?k = "DEDUPE_KEY_PREFIX @ oid"
  consider "\<not> accepted hmac opts message i" | "accepted hmac opts message i" "carries message oid i"
    | "accepted hmac opts message i" "\<not> carries message oid i" by blast
  then show ?thesis
  proof cases
    case 1
    then show ?thesis using assms(1)
      by (cases seen) (simp_all add: processMessage_def accepted_def remembers_def observations_def ack_def)
  next
    case 2
    have live: "counter_at t ?k (rl_seen s) = None \<longleftrightarrow> \<not> seen"
      using assms by (auto simp: remembers_def counter_at_def split: if_splits)
    show ?thesis using 2 assms live
      by (cases seen) (auto simp: processMessage_def accepted_def remembers_def observations_def ack_def carries_def
        duplicate_def redis_setnx_def update_conv')
  next
    case 3
    have "map_of (snd (duplicate opts t True (fieldsToValues (message i)) (rl_seen s))) ?k = map_of (rl_seen s) ?k"
      using 3(2) by (auto simp: duplicate_def carries_def redis_setnx_def update_conv' split: option.splits stream_value.splits)
    then show ?thesis using 3 assms(1)
      by (cases seen) (auto simp: processMessage_def accepted_def remembers_def observations_def ack_def counter_at_def Let_def split_beta)
  qed
qed

lemma relay_run_remembers:
  assumes "remembers opts message oid lo seen s" "list_all (\<lambda>(t, i). lo \<le> t \<and> t < lo + ro_dedupeTtlMs opts) ms" "oid \<noteq> []"
  shows "remembers opts message oid lo (seen \<or> list_ex (\<lambda>(t, i). accepted hmac opts message i \<and> carries message oid i) ms) (relay_run hmac opts message ms s)"
  using assms(1,2)
proof (induction ms arbitrary: s seen)
  case (Cons m ms)
  obtain t i where m: "m = (t, i)" by (cases m)
  show ?case using Cons.IH [OF processMessage_remembers [OF Cons.prems(1) _ _ assms(3)], of t hmac i] Cons.prems(2)
    by (simp add: m relay_run_def disj_assoc)
qed (simp add: relay_run_def)

text \<open>
  C28: exactly one observation per window. Over any deliveries within one dedupe window, repeated or
  not, the relay observes an outbox identifier once when some delivered message that carries it passes
  the signature check, and never otherwise, provided Redis answers and the identifier was not seen
  before.
\<close>

theorem relay_observes_once:
  assumes "list_all (\<lambda>(t, i). lo \<le> t \<and> t < lo + ro_dedupeTtlMs opts) ms" "outbox_id \<noteq> []"
    "rl_observed s = []" "rl_seen s = []"
  shows "observations message outbox_id (relay_run hmac opts message ms s)
    = (if list_ex (\<lambda>(t, i). accepted hmac opts message i \<and> carries message outbox_id i) ms then 1 else 0)"
proof -
  have "remembers opts message outbox_id lo False s" using assms(3,4) by (simp add: remembers_def observations_def counter_at_def)
  from relay_run_remembers [OF this assms(1,2)] show ?thesis by (simp add: remembers_def split: if_splits)
qed

theorem relay_observes_once_witness:
  "observations (\<lambda>i. [''outbox_id'', ''a'']) ''a''
     (relay_run (\<lambda>k m. m) \<lparr>ro_key = None, ro_required = False, ro_dedupeTtlMs = 1000\<rparr> (\<lambda>i. [''outbox_id'', ''a''])
       [(0, ''1-0''), (5, ''2-0''), (7, ''1-0'')]
       \<lparr>rl_seen = [], rl_observed = [], rl_duplicates = 0, rl_invalid = 0, rl_acked = []\<rparr>) = 1"
  by (subst relay_observes_once [where lo = 0])
    (simp_all add: accepted_def carries_def verifyStream_def fieldsToValues_def)

text \<open>
  Draining ends when every page advances the cursor within the finite list of pending messages: the
  measure is the number of pending messages behind the cursor.
\<close>

lemma drainPending_returns:
  assumes "\<And>c. snd (claim c) \<noteq> [] \<Longrightarrow> fst (claim c) \<notin> {[], ''0-0''} \<Longrightarrow> (pending_after :: string \<Rightarrow> nat) (fst (claim c)) < pending_after c"
  shows "\<exists>n s'. drainPending claim process start handled s = Some (n, s')"
proof (induction "pending_after start" arbitrary: start handled s rule: less_induct)
  case less
  show ?case
    by (subst drainPending.simps) (use less assms [of start] in \<open>auto simp: Let_def split_beta\<close>)
qed

end
