(* ===== verification/Invocations.thy ===== *)
theory Invocations
  imports AgentServices RateLimit "HOL-Library.Multiset"
begin

text \<open>
  \<open>apps/coordinator/src/routes/invocations.ts\<close> and \<open>apps/coordinator/src/jobs/deadline-enforcer.ts\<close>:
  durable invocations, their routes and the deadline sweep. The last part states the life of an
  invocation as a small state machine, shows that every route and the sweep move a row along it, and
  draws the consequences.
\<close>

subsection \<open>Bodies\<close>

record retry_policy =
  rp_max :: int
  rp_backoff :: int

definition RetryPolicy :: "json \<Rightarrow> retry_policy option" where
  "RetryPolicy j = (case j of
      JObj ob \<Rightarrow> do {
        m \<leftarrow> z_default 3 (z_int 1 10) (jget ob ''max_attempts'');
        b \<leftarrow> z_default 1000 (z_int 0 300000) (jget ob ''backoff_ms'');
        Some \<lparr>rp_max = m, rp_backoff = b\<rparr> }
    | _ \<Rightarrow> None)"

record invocation_body =
  ib_service :: string
  ib_source :: "string option"
  ib_target :: "string option"
  ib_key :: string
  ib_method :: string
  ib_params :: json
  ib_metadata :: "(string \<times> json) list"
  ib_timeout :: int
  ib_policy :: retry_policy

definition InvocationBody :: "json \<Rightarrow> invocation_body option" where
  "InvocationBody j = (case j of
      JObj ob \<Rightarrow> do {
        service_id \<leftarrow> z_field z_nonempty (jget ob ''service_id'');
        source \<leftarrow> z_nullable z_nonempty (jget ob ''source_session_id'');
        target \<leftarrow> z_nullable z_nonempty (jget ob ''target_session_id'');
        key \<leftarrow> z_field (z_text 255) (jget ob ''idempotency_key'');
        method \<leftarrow> z_field z_nonempty (jget ob ''method'');
        params \<leftarrow> z_default (JObj []) Some (jget ob ''params'');
        metadata \<leftarrow> z_default [] z_record (jget ob ''metadata'');
        timeout \<leftarrow> z_default 30000 (z_int 1 900000) (jget ob ''timeout_ms'');
        policy \<leftarrow> z_default \<lparr>rp_max = 3, rp_backoff = 1000\<rparr> RetryPolicy (jget ob ''retry_policy'');
        Some \<lparr>ib_service = service_id, ib_source = source, ib_target = target, ib_key = key, ib_method = method,
              ib_params = params, ib_metadata = metadata, ib_timeout = timeout, ib_policy = policy\<rparr> }
    | _ \<Rightarrow> None)"

record complete_body =
  cb_status :: invocation_status
  cb_error :: "(string \<times> json) list option"
  cb_metadata :: "(string \<times> json) list"

definition CompleteBody :: "json \<Rightarrow> complete_body option" where
  "CompleteBody j = (case j of
      JObj ob \<Rightarrow> do {
        status \<leftarrow> z_field (z_enum [(''succeeded'', ISucceeded), (''failed'', IFailed)]) (jget ob ''status'');
        e \<leftarrow> z_nullable z_record (jget ob ''error'');
        metadata \<leftarrow> z_default [] z_record (jget ob ''metadata'');
        Some \<lparr>cb_status = status, cb_error = e, cb_metadata = metadata\<rparr> }
    | _ \<Rightarrow> None)"

text \<open>The body of a cancel request may be absent.\<close>

definition CancelBody :: "json option \<Rightarrow> string option option" where
  "CancelBody body = (case body of
      None \<Rightarrow> Some None
    | Some JNull \<Rightarrow> Some None
    | Some (JObj ob) \<Rightarrow> z_optional z_nonempty (jget ob ''reason'')
    | Some _ \<Rightarrow> None)"

definition invocation_statuses :: "(string \<times> invocation_status) list" where
  "invocation_statuses = map (\<lambda>s. (show_invocation_status s, s))
     [IPending, IRunning, ISucceeded, IFailed, ICancelRequested, ICanceled, ITimedOut, IDead]"

subsection \<open>Shared steps\<close>

definition policy_json :: "retry_policy \<Rightarrow> json" where
  "policy_json p = JObj [(''max_attempts'', JInt (rp_max p)), (''backoff_ms'', JInt (rp_backoff p))]"

definition INVOCATION_RETURNING :: "invocation \<Rightarrow> json" where
  "INVOCATION_RETURNING i = JObj
     [(''id'', JStr (i_id i)), (''zone_id'', JStr (i_zone i)), (''service_id'', JStr (i_service i)),
      (''source_session_id'', jopt JStr (i_source i)), (''target_session_id'', jopt JStr (i_target i)),
      (''method'', JStr (i_method i)), (''status'', JStr (show_invocation_status (i_status i))),
      (''attempts'', JInt (i_attempts i)), (''max_attempts'', JInt (i_max_attempts i)), (''timeout_ms'', JInt (i_timeout i)),
      (''retry_policy_json'', i_policy i), (''deadline_at'', jopt jtime (i_deadline i)),
      (''cancel_requested_at'', jopt jtime (i_cancel i)), (''started_at'', jopt jtime (i_started i)),
      (''completed_at'', jopt jtime (i_completed i)), (''created_at'', jtime (i_created i))]"

definition loadInvocationOwner :: "db \<Rightarrow> zone \<Rightarrow> string \<Rightarrow> string option" where
  "loadInvocationOwner d z i = do {
     r \<leftarrow> find (\<lambda>r. i_zone r = z \<and> i_id r = i) (invocations d);
     v \<leftarrow> find (\<lambda>v. v_id v = i_service r \<and> v_zone v = i_zone r) (services d);
     Some (v_app v) }"

definition authorizeInvocationCaller :: "auth \<Rightarrow> string \<Rightarrow> bool" where
  "authorizeInvocationCaller req appId =
     (ownsApplication req appId \<or> requireScope req (''coordinator.invoke_from:'' @ appId) \<or> requireScope req ''coordinator.admin'')"

text \<open>\<open>None\<close> when a named session is not live; otherwise the application of the source, when one is named.\<close>

definition invocable :: "env \<Rightarrow> zone \<Rightarrow> string list \<Rightarrow> session \<Rightarrow> bool" where
  "invocable e z ids s = (s_zone s = z \<and> s_id s \<in> set ids \<and> s_status s = SActive \<and>
     (case s_ttl s of None \<Rightarrow> False | Some t \<Rightarrow> now e < s_started s + t * 1000))"

definition loadInvocationSessions :: "env \<Rightarrow> db \<Rightarrow> zone \<Rightarrow> string option \<Rightarrow> string option \<Rightarrow> string option option" where
  "loadInvocationSessions e d z sourceId targetId =
    (let ids = map the (filter truthy [sourceId, targetId]);
         rows = filter (invocable e z ids) (sessions d)
     in if ids = [] then Some None
        else if length (uniq (map s_id rows)) \<noteq> length ids then None
        else if truthy sourceId then Some (map_option s_app (find (\<lambda>s. Some (s_id s) = sourceId) rows))
        else Some None)"

definition invocation_event :: "zone \<Rightarrow> string \<Rightarrow> string \<Rightarrow> string \<Rightarrow> json" where
  "invocation_event z serviceId invocationId event = JObj
     [(''event'', JStr event), (''zone_id'', JStr z), (''service_id'', JStr serviceId), (''invocation_id'', JStr invocationId)]"

definition enqueueInvocationEvent :: "env \<Rightarrow> zone \<Rightarrow> string \<Rightarrow> string \<Rightarrow> string \<Rightarrow> int \<Rightarrow> db \<Rightarrow> db" where
  "enqueueInvocationEvent e z serviceId invocationId event attempt d =
     enqueue e InvocationsLifecycle (event @ '':'' @ invocationId @ '':'' @ show_int attempt)
       (invocation_event z serviceId invocationId event) d"

subsection \<open>Creation\<close>

definition invocation_request :: "auth \<Rightarrow> invocation_body \<Rightarrow> json" where
  "invocation_request req b = JObj
     [(''principal'', JObj [(''client_id'', JStr (au_client req)), (''subject'', JStr (au_subject req))]),
      (''service_id'', JStr (ib_service b)), (''source_session_id'', jopt JStr (ib_source b)),
      (''target_session_id'', jopt JStr (ib_target b)), (''method'', JStr (ib_method b)), (''params'', ib_params b),
      (''metadata'', JObj (ib_metadata b)), (''timeout_ms'', JInt (ib_timeout b)), (''retry_policy'', policy_json (ib_policy b))]"

definition new_invocation :: "env \<Rightarrow> zone \<Rightarrow> invocation_body \<Rightarrow> string \<Rightarrow> invocation" where
  "new_invocation e z b i =
     \<lparr>i_id = i, i_zone = z, i_service = ib_service b, i_source = ib_source b, i_target = ib_target b,
      i_method = ib_method b, i_params = ib_params b, i_metadata = ib_metadata b, i_status = IPending, i_attempts = 0,
      i_max_attempts = rp_max (ib_policy b), i_timeout = ib_timeout b, i_policy = policy_json (ib_policy b),
      i_error = None, i_deadline = None, i_cancel = None, i_started = None, i_completed = None,
      i_created = now e, i_updated = now e\<rparr>"

definition invocation_receipt :: "cfg \<Rightarrow> zone \<Rightarrow> string \<Rightarrow> string \<Rightarrow> string \<Rightarrow> invocation \<Rightarrow> icomplete_input" where
  "invocation_receipt c z sourceApp kd qd row =
     \<lparr>ic_operation = ''invocation.create.v2'', ic_zone = z, ic_scope = sourceApp, ic_key = kd, ic_request = qd,
      ic_type = ''agent_invocation'', ic_resource = i_id row, ic_status = 201, ic_response = INVOCATION_RETURNING row,
      ic_retention = idempotencyRetentionSeconds c\<rparr>"

definition invocation_new :: "env \<Rightarrow> cfg \<Rightarrow> zone \<Rightarrow> invocation_body \<Rightarrow> string \<Rightarrow> string \<Rightarrow> string \<Rightarrow> db \<Rightarrow> reply + (reply \<times> db)" where
  "invocation_new e c z b sourceApp kd qd d =
    (let row = new_invocation e z b (uuidv7 e (uuids d));
         d1 = d\<lparr>uuids := Suc (uuids d), invocations := invocations d @ [row]\<rparr>
     in reject (list_ex (\<lambda>r. i_id r = i_id row) (invocations d)) internal_error
       (ebind (completeIdempotency e (invocation_receipt c z sourceApp kd qd row)
                 (enqueueInvocationEvent e z (ib_service b) (i_id row) ''invocation.created'' (i_attempts row) d1)) (\<lambda>d2.
        Inr (send 201 (INVOCATION_RETURNING row), d2))))"

definition invocation_admit :: "env \<Rightarrow> auth \<Rightarrow> zone \<Rightarrow> invocation_body \<Rightarrow> db \<Rightarrow> reply + string" where
  "invocation_admit e req z b d =
     expect (find (\<lambda>v. v_id v = ib_service b \<and> v_zone v = z) (services d)) (err 404 ''agent_service_not_found'') (\<lambda>v.
     expect (loadInvocationSessions e d z (ib_source b) (ib_target b)) (err 404 ''session_not_found'') (\<lambda>source.
     let sourceApp = (case source of None \<Rightarrow> v_app v | Some a \<Rightarrow> a) in
     reject (\<not> authorizeInvocationCaller req sourceApp) (err 403 ''invoker_ownership_required'')
    (Inr sourceApp)))"

text \<open>
  The route also counts the request in Redis, once it is neither a repeat nor over the receipts limit;
  the counters change whether or not the transaction commits.
\<close>

definition create_invocation :: "env \<Rightarrow> cfg \<Rightarrow> auth \<Rightarrow> zone \<Rightarrow> json \<Rightarrow> time \<Rightarrow> counters \<Rightarrow> db \<Rightarrow> reply \<times> counters \<times> db" where
  "create_invocation e c req z body t cs d =
    (case ebind (parseParams [z]) (\<lambda>_.
          expect (InvocationBody body) invalid_body (\<lambda>b.
          ebind (parseIdempotencyKey (HSingle (ib_key b))) (\<lambda>key.
          ebind (invocation_admit e req z b d) (\<lambda>sourceApp. Inr (b, sourceApp))))) of
       Inl r \<Rightarrow> (r, cs, d)
     | Inr (b, sourceApp) \<Rightarrow>
        (case startIdempotency e c \<lparr>in_operation = ''invocation.create.v2'', in_zone = z, in_scope = sourceApp,
                in_key = ib_key b, in_request = invocation_request req b\<rparr> d of
           (Conflict, _) \<Rightarrow> (err 409 ''idempotency_key_conflict'', cs, d)
         | (Limit, _) \<Rightarrow> (err 429 ''idempotency_receipt_limit_exceeded'', cs, d)
         | (Replayed status response resourceId, d1) \<Rightarrow> (\<lparr>code = status, replayed = True, payload = response\<rparr>, cs, d1)
         | (New kd qd, d1) \<Rightarrow>
            (let (limited, cs1) = rateLimited c req z t cs in
             if limited then (err 429 ''rate_limited'', cs1, d)
             else case invocation_new e c z b sourceApp kd qd d1 of
                    Inl r \<Rightarrow> (r, cs1, d) | Inr (r, d2) \<Rightarrow> (r, cs1, d2))))"

subsection \<open>Reads\<close>

definition get_invocation :: "zone \<Rightarrow> string \<Rightarrow> db \<Rightarrow> reply" where
  "get_invocation z i d =
    (case ebind (parseParams [z, i]) (\<lambda>_.
          expect (find (\<lambda>r. i_zone r = z \<and> i_id r = i) (invocations d)) (err 404 ''invocation_not_found'') (\<lambda>row.
          Inr (send 200 (INVOCATION_RETURNING row)))) of
       Inl r \<Rightarrow> r | Inr r \<Rightarrow> r)"

record invocation_query =
  iq_limit :: nat
  iq_cursor :: "string option"
  iq_status :: "invocation_status option"
  iq_service :: "string option"
  iq_session :: "string option"

definition InvocationListQuery :: "(json \<Rightarrow> json) \<Rightarrow> (string \<times> json) list \<Rightarrow> invocation_query option" where
  "InvocationListQuery coerce q = do {
     limit \<leftarrow> z_limit coerce (jget q ''limit'');
     cursor \<leftarrow> z_optional z_nonempty (jget q ''cursor'');
     status \<leftarrow> z_optional (z_enum invocation_statuses) (jget q ''status'');
     service_id \<leftarrow> z_optional z_nonempty (jget q ''service_id'');
     session_id \<leftarrow> z_optional z_nonempty (jget q ''session_id'');
     Some \<lparr>iq_limit = limit, iq_cursor = cursor, iq_status = status, iq_service = service_id, iq_session = session_id\<rparr> }"

definition invocation_matches :: "zone \<Rightarrow> invocation_query \<Rightarrow> invocation \<Rightarrow> bool" where
  "invocation_matches z q r =
     (i_zone r = z \<and> (case iq_status q of None \<Rightarrow> True | Some s \<Rightarrow> i_status r = s) \<and>
      (case iq_service q of None \<Rightarrow> True | Some v \<Rightarrow> i_service r = v) \<and>
      (case iq_session q of None \<Rightarrow> True | Some s \<Rightarrow> i_source r = Some s \<or> i_target r = Some s))"

definition operational_json :: "invocation \<Rightarrow> json" where
  "operational_json i = JObj
     [(''id'', JStr (i_id i)), (''zone_id'', JStr (i_zone i)), (''service_id'', JStr (i_service i)),
      (''source_session_id'', jopt JStr (i_source i)), (''target_session_id'', jopt JStr (i_target i)),
      (''method'', JStr (i_method i)), (''status'', JStr (show_invocation_status (i_status i))),
      (''attempts'', JInt (i_attempts i)), (''max_attempts'', JInt (i_max_attempts i)), (''timeout_ms'', JInt (i_timeout i)),
      (''deadline_at'', jopt jtime (i_deadline i)), (''started_at'', jopt jtime (i_started i)),
      (''completed_at'', jopt jtime (i_completed i)), (''created_at'', jtime (i_created i))]"

definition list_invocations :: "(json \<Rightarrow> json) \<Rightarrow> zone \<Rightarrow> (string \<times> json) list \<Rightarrow> db \<Rightarrow> reply" where
  "list_invocations coerce z query d =
    (case ebind (parseParams [z]) (\<lambda>_.
          expect (InvocationListQuery coerce query) (err 400 ''invalid_query'') (\<lambda>q.
          reject (\<not> (case iq_cursor q of None \<Rightarrow> True | Some i \<Rightarrow> list_ex (\<lambda>r. i_id r = i \<and> i_zone r = z) (invocations d)))
            (err 400 ''invalid_cursor'')
         (Inr (page_reply operational_json i_id (iq_limit q)
            (page i_id (iq_limit q) (iq_cursor q) (filter (invocation_matches z q) (invocations d))))))) of
       Inl r \<Rightarrow> r | Inr r \<Rightarrow> r)"

subsection \<open>Transitions\<close>

text \<open>
  \<open>UPDATE agent_invocations SET ... WHERE zone_id AND id AND <guard> RETURNING\<close> on the row the owner
  query has locked: \<open>ok\<close> is the guard on the row, \<open>f\<close> the assignment.
\<close>

definition update_invocation :: "zone \<Rightarrow> string \<Rightarrow> (invocation \<Rightarrow> bool) \<Rightarrow> (invocation \<Rightarrow> invocation) \<Rightarrow> db \<Rightarrow> invocation option \<times> db" where
  "update_invocation z i ok f d =
    (let hit = (\<lambda>r. i_zone r = z \<and> i_id r = i \<and> ok r) in
     (map_option f (find hit (invocations d)), d\<lparr>invocations := map (\<lambda>r. if hit r then f r else r) (invocations d)\<rparr>))"

definition startable :: "invocation \<Rightarrow> bool" where
  "startable r = (i_status r \<in> {IPending, IFailed} \<and> i_attempts r < i_max_attempts r)"

definition started :: "env \<Rightarrow> invocation \<Rightarrow> invocation" where
  "started e r = r\<lparr>i_status := IRunning, i_attempts := i_attempts r + 1, i_started := Some (now e), i_completed := None,
     i_error := None, i_deadline := Some (now e + i_timeout r), i_updated := now e\<rparr>"

definition cancelable :: "invocation \<Rightarrow> bool" where
  "cancelable r = (i_status r \<notin> {ISucceeded, ICanceled, ITimedOut, IDead, IFailed})"

definition cancel_patch :: "string option \<Rightarrow> (string \<times> json) list" where
  "cancel_patch reason = (if truthy reason then [(''cancel_reason'', JStr (the reason))] else [])"

definition canceled :: "env \<Rightarrow> string option \<Rightarrow> invocation \<Rightarrow> invocation" where
  "canceled e reason r = r\<lparr>i_status := (if i_status r \<in> {IPending, IFailed} then ICanceled else ICancelRequested),
     i_cancel := Some (now e), i_metadata := jspread (i_metadata r) (cancel_patch reason), i_updated := now e\<rparr>"

definition completable :: "invocation \<Rightarrow> bool" where
  "completable r = (i_status r \<in> {IRunning, ICancelRequested})"

definition completed :: "env \<Rightarrow> complete_body \<Rightarrow> invocation \<Rightarrow> invocation" where
  "completed e b r = r\<lparr>i_status := cb_status b, i_error := Some (jopt JObj (cb_error b)),
     i_metadata := jspread (i_metadata r) (cb_metadata b), i_completed := Some (now e), i_updated := now e\<rparr>"

text \<open>The transaction the three transition routes share: owner, authorization, guarded update, event.\<close>

definition transition_tx :: "env \<Rightarrow> auth \<Rightarrow> zone \<Rightarrow> string \<Rightarrow> (invocation \<Rightarrow> bool) \<Rightarrow> (invocation \<Rightarrow> invocation) \<Rightarrow>
    string \<Rightarrow> string \<Rightarrow> db \<Rightarrow> reply + (reply \<times> db)" where
  "transition_tx e req z i ok f refused event d =
     expect (loadInvocationOwner d z i) (err 404 ''invocation_not_found'') (\<lambda>app.
     reject (\<not> authorizeInvocationCaller req app) (err 403 ''invoker_ownership_required'')
    (let (row, d1) = update_invocation z i ok f d in
     expect row (err 409 refused) (\<lambda>r.
     Inr (send 200 (INVOCATION_RETURNING r), enqueueInvocationEvent e z (i_service r) i event (i_attempts r) d1))))"

text \<open>Path parameters, then the rate limit, then the body, then the transaction.\<close>

definition limited_route :: "cfg \<Rightarrow> auth \<Rightarrow> zone \<Rightarrow> string \<Rightarrow> time \<Rightarrow> counters \<Rightarrow> (db \<Rightarrow> reply \<times> db) \<Rightarrow> db \<Rightarrow> reply \<times> counters \<times> db" where
  "limited_route c req z i t cs k d =
    (case parseParams [z, i] of
       Inl r \<Rightarrow> (r, cs, d)
     | Inr _ \<Rightarrow>
        (let (limited, cs1) = rateLimited c req z t cs in
         if limited then (err 429 ''rate_limited'', cs1, d)
         else let (r, d1) = k d in (r, cs1, d1)))"

definition start_invocation :: "env \<Rightarrow> cfg \<Rightarrow> auth \<Rightarrow> zone \<Rightarrow> string \<Rightarrow> time \<Rightarrow> counters \<Rightarrow> db \<Rightarrow> reply \<times> counters \<times> db" where
  "start_invocation e c req z i t cs d = limited_route c req z i t cs
     (transact (transition_tx e req z i startable (started e) ''invocation_not_startable'' ''invocation.started'')) d"

definition cancel_invocation :: "env \<Rightarrow> cfg \<Rightarrow> auth \<Rightarrow> zone \<Rightarrow> string \<Rightarrow> json option \<Rightarrow> time \<Rightarrow> counters \<Rightarrow> db \<Rightarrow> reply \<times> counters \<times> db" where
  "cancel_invocation e c req z i body t cs d = limited_route c req z i t cs (\<lambda>d.
     case CancelBody body of
       None \<Rightarrow> (invalid_body, d)
     | Some reason \<Rightarrow> transact (transition_tx e req z i cancelable (canceled e reason)
                        ''invocation_not_cancelable'' ''invocation.cancel_requested'') d) d"

definition complete_invocation :: "env \<Rightarrow> cfg \<Rightarrow> auth \<Rightarrow> zone \<Rightarrow> string \<Rightarrow> json \<Rightarrow> time \<Rightarrow> counters \<Rightarrow> db \<Rightarrow> reply \<times> counters \<times> db" where
  "complete_invocation e c req z i body t cs d = limited_route c req z i t cs (\<lambda>d.
     case CompleteBody body of
       None \<Rightarrow> (invalid_body, d)
     | Some b \<Rightarrow> transact (transition_tx e req z i completable (completed e b)
                   ''invocation_not_completable'' (''invocation.'' @ show_invocation_status (cb_status b))) d) d"

subsection \<open>The deadline sweep\<close>

definition overdue :: "env \<Rightarrow> invocation \<Rightarrow> bool" where
  "overdue e r = (i_status r = IRunning \<and> (case i_deadline r of None \<Rightarrow> False | Some t \<Rightarrow> t < now e))"

definition expired_error :: "json option \<Rightarrow> json" where
  "expired_error v = (case v of
      Some (JObj ob) \<Rightarrow> JObj (jspread ob [(''reason'', JStr ''deadline_exceeded'')])
    | None \<Rightarrow> JObj [(''reason'', JStr ''deadline_exceeded'')]
    | Some j \<Rightarrow> JArr (case j of JArr xs \<Rightarrow> xs @ [JObj [(''reason'', JStr ''deadline_exceeded'')]]
                       | _ \<Rightarrow> [j, JObj [(''reason'', JStr ''deadline_exceeded'')]]))"

definition timed_out :: "env \<Rightarrow> invocation \<Rightarrow> invocation" where
  "timed_out e r = r\<lparr>i_status := (if i_attempts r < i_max_attempts r then IFailed else ITimedOut),
     i_completed := Some (now e), i_error := Some (expired_error (i_error r)), i_updated := now e\<rparr>"

definition overdue_ids :: "env \<Rightarrow> cfg \<Rightarrow> db \<Rightarrow> string list" where
  "overdue_ids e c d = map i_id (take (sweeperBatchSize c)
     (sort_key (\<lambda>r. the (i_deadline r)) (filter (overdue e) (invocations d))))"

definition deadline_item :: "invocation \<Rightarrow> outbox_item" where
  "deadline_item r = (let event = ''invocation.'' @ show_invocation_status (i_status r) in
     (InvocationsLifecycle, event @ '':'' @ i_id r @ '':'' @ show_int (i_attempts r),
      invocation_event (i_zone r) (i_service r) (i_id r) event))"

text \<open>\<open>locked\<close> is the outcome of the advisory lock.\<close>

definition runDeadlineSweep :: "env \<Rightarrow> cfg \<Rightarrow> bool \<Rightarrow> db \<Rightarrow> nat \<times> db" where
  "runDeadlineSweep e c locked d =
    (if \<not> locked then (0, d)
     else let ids = overdue_ids e c d; hit = (\<lambda>r. i_id r \<in> set ids);
              rows = map (timed_out e) (filter hit (invocations d));
              d1 = d\<lparr>invocations := map (\<lambda>r. if hit r then timed_out e r else r) (invocations d)\<rparr>
          in (length rows, enqueueMany e (map deadline_item rows) d1))"

subsection \<open>The life of an invocation\<close>

text \<open>A state is a status with the number of attempts made; \<open>m\<close> is the number of attempts allowed.\<close>

inductive moves :: "int \<Rightarrow> invocation_status \<times> int \<Rightarrow> invocation_status \<times> int \<Rightarrow> bool" for m where
  start: "st \<in> {IPending, IFailed} \<Longrightarrow> a < m \<Longrightarrow> moves m (st, a) (IRunning, a + 1)"
| cancel: "moves m (IPending, a) (ICanceled, a)"
| request: "moves m (IRunning, a) (ICancelRequested, a)"
| finish: "st \<in> {IRunning, ICancelRequested} \<Longrightarrow> st' \<in> {ISucceeded, IFailed} \<Longrightarrow> moves m (st, a) (st', a)"
| give_up: "m \<le> a \<Longrightarrow> moves m (IRunning, a) (ITimedOut, a)"

inductive_simps moves_from [simp]:
  "moves m (IPending, a) x" "moves m (IRunning, a) x" "moves m (IFailed, a) x" "moves m (ICancelRequested, a) x"
  "moves m (ISucceeded, a) x" "moves m (ICanceled, a) x" "moves m (ITimedOut, a) x" "moves m (IDead, a) x"

definition state_of :: "invocation \<Rightarrow> invocation_status \<times> int" where
  "state_of r = (i_status r, i_attempts r)"

definition evolves :: "invocation \<Rightarrow> invocation \<Rightarrow> bool" where
  "evolves r r' \<longleftrightarrow> i_id r' = i_id r \<and> i_zone r' = i_zone r \<and> i_service r' = i_service r \<and>
     i_max_attempts r' = i_max_attempts r \<and> (state_of r' = state_of r \<or> moves (i_max_attempts r) (state_of r) (state_of r'))"

definition fresh_row :: "invocation \<Rightarrow> bool" where
  "fresh_row r \<longleftrightarrow> state_of r = (IPending, 0) \<and> 1 \<le> i_max_attempts r \<and> i_max_attempts r \<le> 10"

definition follows :: "invocation list \<Rightarrow> invocation list \<Rightarrow> bool" where
  "follows rs rs' \<longleftrightarrow> (\<exists>xs ys. rs' = xs @ ys \<and> list_all2 evolves rs xs \<and> list_all fresh_row ys)"

lemma evolves_refl [simp]: "evolves r r"
  by (simp add: evolves_def)

lemma follows_map:
  assumes "\<And>r. hit r \<Longrightarrow> evolves r (f r)"
  shows "follows rs (map (\<lambda>r. if hit r then f r else r) rs)"
proof -
  have "list_all2 evolves rs (map (\<lambda>r. if hit r then f r else r) rs)" by (simp add: list_all2_conv_all_nth assms)
  then show ?thesis unfolding follows_def by (intro exI [of _ "map (\<lambda>r. if hit r then f r else r) rs"] exI [of _ "[]"]) simp
qed

lemma follows_refl [simp]: "follows rs rs"
  using follows_map [of "\<lambda>_. False"] by simp

lemma evolves_started: "startable r \<Longrightarrow> evolves r (started e r)"
  by (auto simp: evolves_def startable_def started_def state_of_def)

lemma evolves_canceled: "cancelable r \<Longrightarrow> evolves r (canceled e reason r)"
  by (cases "i_status r") (auto simp: evolves_def cancelable_def canceled_def state_of_def)

lemma evolves_completed: "completable r \<Longrightarrow> cb_status b \<in> {ISucceeded, IFailed} \<Longrightarrow> evolves r (completed e b r)"
  by (auto simp: evolves_def completable_def completed_def state_of_def)

lemma evolves_timed_out: "overdue e r \<Longrightarrow> evolves r (timed_out e r)"
  by (auto simp: evolves_def overdue_def timed_out_def state_of_def)

lemma CompleteBody_status: "CompleteBody j = Some b \<Longrightarrow> cb_status b \<in> {ISucceeded, IFailed}"
  by (cases j) (auto simp: CompleteBody_def z_field_def map_of_eq_Some_iff split: Option.bind_splits option.splits if_splits
      elim!: z_enum.elims)

lemma InvocationBody_max:
  assumes "InvocationBody j = Some b"
  shows "1 \<le> rp_max (ib_policy b) \<and> rp_max (ib_policy b) \<le> 10"
proof -
  have "1 \<le> rp_max p \<and> rp_max p \<le> 10" if "RetryPolicy k = Some p" for k p
    using that by (cases k) (auto simp: RetryPolicy_def z_default_def z_int_Some split: Option.bind_splits option.splits)
  then show ?thesis using assms
    by (cases j) (auto simp: InvocationBody_def z_default_def split: Option.bind_splits option.splits)
qed

lemma follows_ids:
  assumes "follows rs rs'"
  shows "\<exists>xs. map i_id rs' = map i_id rs @ xs"
proof -
  obtain xs ys where "rs' = xs @ ys" "list_all2 evolves rs xs" using assms by (auto simp: follows_def)
  moreover from this(2) have "map i_id xs = map i_id rs"
    by (induction rule: list_all2_induct) (auto simp: evolves_def)
  ultimately show ?thesis by simp
qed

lemma enqueueInvocationEvent_frame [simp]: "invocations (enqueueInvocationEvent e z v i ev a d) = invocations d"
  by (simp add: enqueueInvocationEvent_def)

lemma errs_transition [intro!, simp]: "errs (transition_tx e req z i ok f refused event d)"
  unfolding transition_tx_def by (auto split: prod.split)

lemma transition_follows:
  assumes "\<And>r. ok r \<Longrightarrow> evolves r (f r)"
  shows "follows (invocations d) (invocations (snd (transact (transition_tx e req z i ok f refused event) d)))"
proof (cases "transition_tx e req z i ok f refused event d")
  case (Inl r)
  then show ?thesis by (simp add: transact_def)
next
  case (Inr rd)
  then have "invocations (snd rd) = map (\<lambda>r. if i_zone r = z \<and> i_id r = i \<and> ok r then f r else r) (invocations d)"
    by (auto simp: transition_tx_def expect_Inr reject_Inr update_invocation_def Let_def)
  then show ?thesis using Inr follows_map [of "\<lambda>r. i_zone r = z \<and> i_id r = i \<and> ok r" f] assms
    by (simp add: transact_def)
qed

lemma limited_follows:
  assumes "follows (invocations d) (invocations (snd (k d)))"
  shows "follows (invocations d) (invocations (snd (snd (limited_route c req z i t cs k d))))"
  using assms by (auto simp: limited_route_def Let_def split: sum.split prod.split)

lemma overdue_ids_overdue:
  assumes "distinct (map i_id (invocations d))" "r \<in> set (invocations d)" "i_id r \<in> set (overdue_ids e c d)"
  shows "overdue e r"
proof -
  obtain r' where r': "r' \<in> set (filter (overdue e) (invocations d))" "i_id r' = i_id r"
    using assms(3) by (auto simp: overdue_ids_def dest!: in_set_takeD)
  then have "r' = r" using assms(1,2) by (auto simp: distinct_map inj_on_def)
  then show ?thesis using r' by simp
qed

lemma sweep_follows:
  assumes "distinct (map i_id (invocations d))"
  shows "follows (invocations d) (invocations (snd (runDeadlineSweep e c locked d)))"
proof (cases locked)
  case True
  let ?hit = "\<lambda>r. r \<in> set (invocations d) \<and> i_id r \<in> set (overdue_ids e c d)"
  have "map (\<lambda>r. if i_id r \<in> set (overdue_ids e c d) then timed_out e r else r) (invocations d) =
      map (\<lambda>r. if ?hit r then timed_out e r else r) (invocations d)" by simp
  moreover have "follows (invocations d) (map (\<lambda>r. if ?hit r then timed_out e r else r) (invocations d))"
    by (rule follows_map) (use overdue_ids_overdue [OF assms] evolves_timed_out in blast)
  ultimately have "follows (invocations d) (map (\<lambda>r. if i_id r \<in> set (overdue_ids e c d) then timed_out e r else r) (invocations d))"
    by (simp only:)
  then show ?thesis using True by (simp add: runDeadlineSweep_def Let_def)
qed (simp add: runDeadlineSweep_def)

lemma startIdempotency_invocations: "startIdempotency e c i d = (x, d1) \<Longrightarrow> invocations d1 = invocations d"
  by (auto simp: startIdempotency_def Let_def split: option.splits if_splits)

lemma completeIdempotency_invocations: "completeIdempotency e i d = Inr d1 \<Longrightarrow> invocations d1 = invocations d"
  by (auto simp: completeIdempotency_def Let_def reject_Inr)

lemma invocation_new_invocations:
  assumes "invocation_new e c z b sourceApp kd qd d = Inr (r, d')"
  shows "\<exists>i. i \<notin> i_id ` set (invocations d) \<and> invocations d' = invocations d @ [new_invocation e z b i]"
  using assms completeIdempotency_invocations
  by (force simp: invocation_new_def Let_def reject_Inr ebind_Inr list_ex_iff new_invocation_def)

lemma create_cases:
  assumes "create_invocation e c req z body t cs d = (r, cs', d')"
  shows "invocations d' = invocations d \<or>
    (\<exists>b i. InvocationBody body = Some b \<and> i \<notin> i_id ` set (invocations d) \<and> invocations d' = invocations d @ [new_invocation e z b i])"
proof (cases "ebind (parseParams [z]) (\<lambda>_. expect (InvocationBody body) invalid_body (\<lambda>b.
          ebind (parseIdempotencyKey (HSingle (ib_key b))) (\<lambda>key.
          ebind (invocation_admit e req z b d) (\<lambda>sourceApp. Inr (b, sourceApp)))))")
  case (Inl r)
  then show ?thesis using assms by (simp add: create_invocation_def)
next
  case (Inr p)
  obtain b app where p: "p = (b, app)" by (cases p)
  have b: "InvocationBody body = Some b" using Inr p by (auto simp: ebind_Inr expect_Inr)
  obtain x d1 where x: "startIdempotency e c \<lparr>in_operation = ''invocation.create.v2'', in_zone = z, in_scope = app,
                in_key = ib_key b, in_request = invocation_request req b\<rparr> d = (x, d1)" by fastforce
  note d1 = startIdempotency_invocations [OF x]
  show ?thesis
  proof (cases x)
    case (New kd qd)
    show ?thesis
    proof (cases "invocation_new e c z b app kd qd d1")
      case (Inl r')
      then show ?thesis using assms Inr p x New
        by (auto simp: create_invocation_def Let_def split: prod.splits if_splits)
    next
      case Ok: (Inr rd)
      then have "d' = d \<or> rd = (r, d')" using assms Inr p x New
        by (auto simp: create_invocation_def Let_def split: prod.splits if_splits)
      then show ?thesis using invocation_new_invocations [of e c z b app kd qd d1 r d'] Ok b d1 by auto
    qed
  qed (use assms Inr p x d1 in \<open>auto simp: create_invocation_def\<close>)
qed

lemma create_follows:
  "follows (invocations d) (invocations (snd (snd (create_invocation e c req z body t cs d))))"
proof -
  obtain r cs' d' where cr: "create_invocation e c req z body t cs d = (r, cs', d')" by (metis prod_cases3)
  from create_cases [OF this] show ?thesis
  proof
    assume "\<exists>b i. InvocationBody body = Some b \<and> i \<notin> i_id ` set (invocations d) \<and> invocations d' = invocations d @ [new_invocation e z b i]"
    then obtain b i where "InvocationBody body = Some b" "invocations d' = invocations d @ [new_invocation e z b i]" by blast
    moreover from this(1) have "fresh_row (new_invocation e z b i)"
      using InvocationBody_max by (simp add: fresh_row_def state_of_def new_invocation_def)
    moreover have "list_all2 evolves (invocations d) (invocations d)" by (simp add: list_all2_same)
    ultimately show ?thesis unfolding cr follows_def
      by (intro exI [of _ "invocations d"] exI [of _ "[new_invocation e z b i]"]) simp
  qed (simp add: cr)
qed

subsection \<open>Runs\<close>

datatype invocation_call =
    Create env auth zone json time
  | Start env auth zone string time
  | Cancel env auth zone string "json option" time
  | Complete env auth zone string json time
  | Sweep env bool

fun run_call :: "cfg \<Rightarrow> invocation_call \<Rightarrow> counters \<times> db \<Rightarrow> counters \<times> db" where
  "run_call c (Create e req z body t) (cs, d) = snd (create_invocation e c req z body t cs d)"
| "run_call c (Start e req z i t) (cs, d) = snd (start_invocation e c req z i t cs d)"
| "run_call c (Cancel e req z i body t) (cs, d) = snd (cancel_invocation e c req z i body t cs d)"
| "run_call c (Complete e req z i body t) (cs, d) = snd (complete_invocation e c req z i body t cs d)"
| "run_call c (Sweep e locked) (cs, d) = (cs, snd (runDeadlineSweep e c locked d))"

definition invocation_keys :: "db \<Rightarrow> bool" where
  "invocation_keys d \<longleftrightarrow> distinct (map i_id (invocations d))"

lemma run_call_follows:
  assumes "invocation_keys d"
  shows "follows (invocations d) (invocations (snd (run_call c call (cs, d))))"
proof (cases call)
  case (Cancel e req z i body t)
  then show ?thesis
    by (auto simp: cancel_invocation_def intro!: limited_follows transition_follows evolves_canceled split: option.split)
next
  case (Complete e req z i body t)
  then show ?thesis
    by (auto simp: complete_invocation_def dest: CompleteBody_status
        intro!: limited_follows transition_follows evolves_completed split: option.split)
qed (use assms in \<open>auto simp: start_invocation_def invocation_keys_def
       intro!: limited_follows transition_follows evolves_started create_follows sweep_follows\<close>)

lemma run_call_keys:
  assumes "invocation_keys d"
  shows "invocation_keys (snd (run_call c call (cs, d)))"
proof -
  have same: "distinct (map i_id rs')" if "follows rs rs'" "length rs' = length rs" "distinct (map i_id rs)" for rs rs'
    using follows_ids [OF that(1)] that(2,3) by (metis append.right_neutral length_0_conv length_append length_map add_cancel_left_right)
  have len: "length (invocations (snd (transact (transition_tx e req z i ok f refused event) d))) = length (invocations d)" for e req z i ok f refused event
    by (auto simp: transact_def transition_tx_def update_invocation_def Let_def expect_Inr reject_Inr split: sum.splits)
  have lim: "length (invocations (snd (snd (limited_route c req z i t cs k d)))) = length (invocations d)"
    if "length (invocations (snd (k d))) = length (invocations d)" for req z i t k
    using that by (auto simp: limited_route_def Let_def split: sum.split prod.split)
  show ?thesis
  proof (cases call)
    case (Create e req z body t)
    obtain r cs' d' where cr: "create_invocation e c req z body t cs d = (r, cs', d')" by (metis prod_cases3)
    then show ?thesis using create_cases [OF cr] assms Create by (auto simp: invocation_keys_def new_invocation_def)
  next
    case (Sweep e locked)
    then have "length (invocations (snd (run_call c call (cs, d)))) = length (invocations d)"
      by (simp add: runDeadlineSweep_def Let_def)
    then show ?thesis using same run_call_follows [OF assms] assms unfolding invocation_keys_def by blast
  next
    case (Start e req z i t)
    then have "length (invocations (snd (run_call c call (cs, d)))) = length (invocations d)"
      by (simp add: start_invocation_def lim len)
    then show ?thesis using same run_call_follows [OF assms] assms unfolding invocation_keys_def by blast
  next
    case (Cancel e req z i body t)
    then have "length (invocations (snd (run_call c call (cs, d)))) = length (invocations d)"
      by (auto simp: cancel_invocation_def len intro!: lim split: option.split)
    then show ?thesis using same run_call_follows [OF assms] assms unfolding invocation_keys_def by blast
  next
    case (Complete e req z i body t)
    then have "length (invocations (snd (run_call c call (cs, d)))) = length (invocations d)"
      by (auto simp: complete_invocation_def len intro!: lim split: option.split)
    then show ?thesis using same run_call_follows [OF assms] assms unfolding invocation_keys_def by blast
  qed
qed

text \<open>
  C20: the routes and the deadline sweep implement the life of an invocation. Whatever call is made
  (create, start, cancel, complete, or a sweep), every invocation keeps its identity, its service and
  its attempts limit, and either keeps its status and attempts or makes one move of the machine; an
  invocation the call adds is pending with no attempt and a limit between one and ten; and no two
  invocations share an identifier.
\<close>

theorem calls_follow_machine:
  assumes "invocation_keys d"
  shows "follows (invocations d) (invocations (snd (run_call c call (cs, d)))) \<and> invocation_keys (snd (run_call c call (cs, d)))"
  using run_call_follows [OF assms] run_call_keys [OF assms] by blast

fun trace :: "cfg \<Rightarrow> invocation_call list \<Rightarrow> counters \<times> db \<Rightarrow> db list" where
  "trace c [] s = [snd s]"
| "trace c (x # xs) s = snd s # trace c xs (run_call c x s)"

fun changes :: "nat \<Rightarrow> db list \<Rightarrow> nat" where
  "changes k (d # d' # ds) = (if state_of (invocations d' ! k) = state_of (invocations d ! k) then 0 else 1) + changes k (d' # ds)"
| "changes k ds = 0"

fun weight :: "invocation_status \<Rightarrow> nat" where
  "weight IPending = 1"
| "weight IRunning = 2"
| "weight ICancelRequested = 1"
| "weight _ = 0"

definition rank :: "int \<Rightarrow> invocation_status \<times> int \<Rightarrow> nat" where
  "rank m = (\<lambda>(st, a). 3 * nat (m - a) + weight st)"

lemma moves_rank:
  assumes "moves m x y" "snd x \<le> m"
  shows "rank m y < rank m x \<and> snd y \<le> m"
  using assms by (cases rule: moves.cases) (auto simp: rank_def nat_diff_distrib)

lemma follows_nth:
  assumes "follows rs rs'" "k < length rs"
  shows "evolves (rs ! k) (rs' ! k)" "k < length rs'"
proof -
  obtain xs ys where x: "rs' = xs @ ys" "list_all2 evolves rs xs" using assms(1) by (auto simp: follows_def)
  then have "length xs = length rs" by (simp add: list_all2_lengthD)
  then show "evolves (rs ! k) (rs' ! k)" "k < length rs'" using x assms(2) by (auto simp: nth_append list_all2_nthD)
qed

lemma trace_hd: "\<exists>ds. trace c xs s = snd s # ds"
  by (cases xs) simp_all

lemma changes_bound:
  assumes "invocation_keys (snd s)" "k < length (invocations (snd s))" "i_max_attempts (invocations (snd s) ! k) = m"
    "i_attempts (invocations (snd s) ! k) \<le> m"
  shows "changes k (trace c xs s) \<le> rank m (state_of (invocations (snd s) ! k)) \<and>
    (\<forall>d\<in>set (trace c xs s). i_attempts (invocations d ! k) \<le> m)"
  using assms
proof (induction xs arbitrary: s)
  case Nil
  then show ?case by simp
next
  case (Cons x xs)
  obtain cs d where s: "s = (cs, d)" by (cases s)
  let ?s' = "run_call c x s"
  let ?r = "invocations d ! k" and ?r' = "invocations (snd ?s') ! k"
  have k: "invocation_keys (snd ?s')" using Cons.prems(1) run_call_keys by (simp add: s)
  have f: "follows (invocations d) (invocations (snd ?s'))" using Cons.prems(1) run_call_follows by (simp add: s)
  have ev: "evolves ?r ?r'" "k < length (invocations (snd ?s'))" using follows_nth [OF f] Cons.prems(2) by (simp_all add: s)
  have m': "i_max_attempts ?r' = m" using ev(1) Cons.prems(3) by (simp add: evolves_def s)
  have st: "state_of ?r' = state_of ?r \<or> rank m (state_of ?r') < rank m (state_of ?r) \<and> i_attempts ?r' \<le> m"
    using ev(1) Cons.prems(3,4) moves_rank [of m "state_of ?r" "state_of ?r'"] by (auto simp: evolves_def s state_of_def)
  then have a': "i_attempts ?r' \<le> m" using Cons.prems(4) by (auto simp: state_of_def s)
  obtain ds where ds: "trace c xs ?s' = snd ?s' # ds" using trace_hd by blast
  show ?case using Cons.IH [OF k ev(2) m' a'] st Cons.prems(4) by (auto simp: s [symmetric] ds) (auto simp: s)
qed

text \<open>
  C21: an invocation settles. However the routes and sweeps are called, the status and attempts of an
  invocation created with \<open>m\<close> attempts change at most \<open>3 m + 1\<close> times, so from some point on they never
  change again, and it is never started more than \<open>m\<close> times.
\<close>

theorem invocation_settles:
  assumes "invocation_keys d" "k < length (invocations d)" "fresh_row (invocations d ! k)"
    "m = i_max_attempts (invocations d ! k)"
  shows "int (changes k (trace c xs (cs, d))) \<le> 3 * m + 1 \<and>
    list_all (\<lambda>d'. i_attempts (invocations d' ! k) \<le> m) (trace c xs (cs, d))"
proof -
  have st: "state_of (invocations d ! k) = (IPending, 0)" "1 \<le> m" using assms(3,4) by (auto simp: fresh_row_def)
  then have "changes k (trace c xs (cs, d)) \<le> rank m (IPending, 0) \<and> (\<forall>d'\<in>set (trace c xs (cs, d)). i_attempts (invocations d' ! k) \<le> m)"
    using changes_bound [of "(cs, d)" k m c xs] assms by (auto simp: state_of_def)
  then show ?thesis using st(2) by (auto simp: rank_def list_all_iff)
qed

subsection \<open>The sweep makes progress\<close>

lemma sweep_rows:
  "invocations (snd (runDeadlineSweep e c True d)) =
     map (\<lambda>r. if i_id r \<in> set (overdue_ids e c d) then timed_out e r else r) (invocations d)"
  by (simp add: runDeadlineSweep_def Let_def)

lemma timed_out_closed: "\<not> overdue e' (timed_out e r)" "i_status (timed_out e r) \<in> {IFailed, ITimedOut}"
  by (simp_all add: overdue_def timed_out_def)

lemma overdue_later: "overdue (e\<lparr>now := t\<rparr>) r \<Longrightarrow> t \<le> t' \<Longrightarrow> overdue (e\<lparr>now := t'\<rparr>) r"
  by (auto simp: overdue_def split: option.splits)

lemma overdue_ids_mem:
  assumes "invocation_keys d" "r \<in> set (invocations d)" "i_id r \<in> set (overdue_ids e c d)"
  shows "overdue e r"
proof -
  obtain q where "q \<in> set (invocations d)" "overdue e q" "i_id q = i_id r"
    using assms(3) by (auto simp: overdue_ids_def dest!: in_set_takeD)
  then have "q = r" using assms(1,2) by (auto simp: invocation_keys_def distinct_map dest: inj_onD)
  then show ?thesis using \<open>overdue e q\<close> by simp
qed

lemma overdue_ids_distinct:
  assumes "invocation_keys d"
  shows "distinct (overdue_ids e c d)" "set (overdue_ids e c d) \<subseteq> i_id ` set (filter (overdue e) (invocations d))"
proof -
  let ?O = "filter (overdue e) (invocations d)"
  let ?S = "sort_key (\<lambda>r. the (i_deadline r)) ?O"
  have "distinct (map i_id ?O)" using assms by (simp add: invocation_keys_def distinct_map_filter)
  then have "distinct (map i_id ?S)" by (metis mset_eq_imp_distinct_iff mset_map mset_sort)
  then show "distinct (overdue_ids e c d)" unfolding overdue_ids_def take_map [symmetric] by (rule distinct_take)
  show "set (overdue_ids e c d) \<subseteq> i_id ` set ?O" by (auto simp: overdue_ids_def dest!: in_set_takeD)
qed

text \<open>One sweep takes a full batch off the overdue invocations, or leaves none that is overdue at its time.\<close>

lemma sweep_progress:
  assumes "invocation_keys d" "d' = snd (runDeadlineSweep (e\<lparr>now := t\<rparr>) c True d)" "t0 \<le> t" "t \<le> T"
  shows "filter (overdue (e\<lparr>now := t0\<rparr>)) (invocations d') = [] \<or>
    length (filter (overdue (e\<lparr>now := T\<rparr>)) (invocations d')) + sweeperBatchSize c \<le> length (filter (overdue (e\<lparr>now := T\<rparr>)) (invocations d))"
proof -
  let ?ids = "overdue_ids (e\<lparr>now := t\<rparr>) c d" and ?P = "overdue (e\<lparr>now := T\<rparr>)" and ?n = "sweeperBatchSize c"
  let ?O = "filter (overdue (e\<lparr>now := t\<rparr>)) (invocations d)" and ?Q = "filter ?P (invocations d)"
  have rows: "filter (overdue x) (map (\<lambda>r. if i_id r \<in> set ?ids then timed_out (e\<lparr>now := t\<rparr>) r else r) rs) =
      filter (\<lambda>r. i_id r \<notin> set ?ids) (filter (overdue x) rs)" for x rs
    by (induction rs) (simp_all add: timed_out_closed)
  show ?thesis
  proof (cases "length ?O \<le> ?n")
    case True
    then have "set ?ids = i_id ` set ?O" by (simp add: overdue_ids_def)
    then have "\<not> overdue (e\<lparr>now := t0\<rparr>) r" if "r \<in> set (invocations d)" "i_id r \<notin> set ?ids" for r
      using that overdue_later [OF _ assms(3)] by auto
    then show ?thesis unfolding assms(2) sweep_rows rows by (auto simp: filter_empty_conv)
  next
    case False
    then have "length ?ids = ?n" by (simp add: overdue_ids_def)
    then have "card (set ?ids) = ?n" using distinct_card [OF overdue_ids_distinct(1) [OF assms(1)]] by simp
    moreover have "set ?ids \<subseteq> i_id ` set (filter (\<lambda>r. i_id r \<in> set ?ids) ?Q)"
      using overdue_ids_distinct(2) [OF assms(1), of "e\<lparr>now := t\<rparr>" c] overdue_later [OF _ assms(4)] by fastforce
    then have "card (set ?ids) \<le> card (set (map i_id (filter (\<lambda>r. i_id r \<in> set ?ids) ?Q)))" by (intro card_mono) simp_all
    then have "card (set ?ids) \<le> length (filter (\<lambda>r. i_id r \<in> set ?ids) ?Q)"
      using card_length [of "map i_id (filter (\<lambda>r. i_id r \<in> set ?ids) ?Q)"] by simp
    moreover have "length (filter (\<lambda>r. i_id r \<in> set ?ids) ?Q) + length (filter (\<lambda>r. i_id r \<notin> set ?ids) ?Q) = length ?Q"
      by (rule sum_length_filter_compl)
    ultimately show ?thesis unfolding assms(2) sweep_rows rows by simp
  qed
qed

definition swept :: "invocation \<Rightarrow> invocation \<Rightarrow> bool" where
  "swept r s \<longleftrightarrow> s = r \<or> i_status r = IRunning \<and> i_status s \<in> {IFailed, ITimedOut}"

lemma sweep_swept:
  assumes "invocation_keys d"
  shows "list_all2 swept (invocations d) (invocations (snd (runDeadlineSweep e c True d)))"
proof -
  have "swept r (if i_id r \<in> set (overdue_ids e c d) then timed_out e r else r)" if "r \<in> set (invocations d)" for r
    using overdue_ids_mem [OF assms that] timed_out_closed(2) by (auto simp: swept_def overdue_def)
  then show ?thesis unfolding sweep_rows list_all2_map2 by (simp add: list_all2_same)
qed

lemma swept_trans: "swept r s \<Longrightarrow> swept s u \<Longrightarrow> swept r u"
  by (auto simp: swept_def)

lemma sweeps_progress:
  assumes "invocation_keys d" "list_all (\<lambda>t. t0 \<le> t \<and> t \<le> T) ts"
    and "d' = fold (\<lambda>t d. snd (runDeadlineSweep (e\<lparr>now := t\<rparr>) c True d)) ts d"
  shows "list_all2 swept (invocations d) (invocations d') \<and>
    (filter (overdue (e\<lparr>now := t0\<rparr>)) (invocations d') = [] \<or>
     length (filter (overdue (e\<lparr>now := T\<rparr>)) (invocations d')) + length ts * sweeperBatchSize c
       \<le> length (filter (overdue (e\<lparr>now := T\<rparr>)) (invocations d)))"
  using assms
proof (induction ts arbitrary: d' rule: rev_induct)
  case Nil
  then show ?case by (simp add: list_all2_same swept_def)
next
  case (snoc t ts)
  define d1 where "d1 = fold (\<lambda>t d. snd (runDeadlineSweep (e\<lparr>now := t\<rparr>) c True d)) ts d"
  have t: "t0 \<le> t" "t \<le> T" and d': "d' = snd (runDeadlineSweep (e\<lparr>now := t\<rparr>) c True d1)" using snoc.prems by (simp_all add: d1_def)
  have I: "list_all2 swept (invocations d) (invocations d1)"
    "filter (overdue (e\<lparr>now := t0\<rparr>)) (invocations d1) = [] \<or>
     length (filter (overdue (e\<lparr>now := T\<rparr>)) (invocations d1)) + length ts * sweeperBatchSize c
       \<le> length (filter (overdue (e\<lparr>now := T\<rparr>)) (invocations d))"
    using snoc.IH [OF snoc.prems(1) _ d1_def] snoc.prems(2) by simp_all
  have k: "invocation_keys d1" unfolding d1_def using snoc.prems(1)
    by (induction ts arbitrary: d) (simp_all add: run_call_keys [of _ c "Sweep _ True" "[]", simplified])
  have S: "list_all2 swept (invocations d1) (invocations d')" unfolding d' by (rule sweep_swept [OF k])
  have "list_all2 swept (invocations d) (invocations d')" by (rule list_all2_trans [OF swept_trans I(1) S])
  moreover have "filter (overdue (e\<lparr>now := t0\<rparr>)) (invocations d') = []" if "filter (overdue (e\<lparr>now := t0\<rparr>)) (invocations d1) = []"
    using S that by (fastforce simp: filter_empty_conv list_all2_conv_all_nth in_set_conv_nth swept_def overdue_def)
  ultimately show ?case using I(2) sweep_progress [OF k d' t] by auto
qed

text \<open>
  C22: overdue work is always dealt with. Take consecutive sweeps that hold their lock, at times between \<open>t0\<close> and
  \<open>T\<close>, and enough of them: their number times the batch size is at least the number of running invocations past
  their deadline at \<open>T\<close>. Afterwards none of the running invocations that were past their deadline at \<open>t0\<close> is left: each is
  failed, or timed out, and an invocation that was not running is as before.
\<close>

theorem deadline_sweeps_clear:
  assumes "invocation_keys d" "list_all (\<lambda>t. t0 \<le> t \<and> t \<le> T) ts" "t0 \<le> T"
    and "length (filter (overdue (e\<lparr>now := T\<rparr>)) (invocations d)) \<le> length ts * sweeperBatchSize c"
    and "d' = fold (\<lambda>t d. snd (runDeadlineSweep (e\<lparr>now := t\<rparr>) c True d)) ts d"
  shows "list_all2 (\<lambda>r s. (overdue (e\<lparr>now := t0\<rparr>) r \<longrightarrow> i_status s \<in> {IFailed, ITimedOut}) \<and> (i_status r \<noteq> IRunning \<longrightarrow> s = r))
    (invocations d) (invocations d')"
proof -
  note S = sweeps_progress [OF assms(1,2,5)]
  have none: "filter (overdue (e\<lparr>now := t0\<rparr>)) (invocations d') = []"
  proof (rule ccontr)
    assume n: "filter (overdue (e\<lparr>now := t0\<rparr>)) (invocations d') \<noteq> []"
    then have "length (filter (overdue (e\<lparr>now := T\<rparr>)) (invocations d')) = 0" using S assms(4) by linarith
    then show False using n overdue_later [OF _ assms(3)] unfolding length_0_conv by (fastforce simp: filter_empty_conv)
  qed
  have "swept r s \<and> s \<in> set (invocations d') \<Longrightarrow>
      (overdue (e\<lparr>now := t0\<rparr>) r \<longrightarrow> i_status s \<in> {IFailed, ITimedOut}) \<and> (i_status r \<noteq> IRunning \<longrightarrow> s = r)" for r s
    using none by (auto simp: swept_def filter_empty_conv)
  then show ?thesis using S unfolding list_all2_conv_all_nth by (metis nth_mem)
qed

subsection \<open>Concrete runs\<close>

definition sample_invocation :: invocation where
  "sample_invocation = \<lparr>i_id = ''i1'', i_zone = ''z1'', i_service = ''v1'', i_source = None, i_target = None, i_method = ''m'',
     i_params = JObj [], i_metadata = [], i_status = IPending, i_attempts = 0, i_max_attempts = 3, i_timeout = 1000,
     i_policy = JObj [], i_error = None, i_deadline = None, i_cancel = None, i_started = None, i_completed = None,
     i_created = 0, i_updated = 0\<rparr>"

definition invocation_db :: db where
  "invocation_db = empty_db\<lparr>services := [\<lparr>v_id = ''v1'', v_zone = ''z1'', v_app = ''app'', v_endpoint = ''u'', v_protocols = [],
       v_framework = None, v_version = None, v_capabilities = [], v_health = ''healthy'', v_metadata = [], v_heartbeat = None, v_updated = 0\<rparr>],
     invocations := [sample_invocation]\<rparr>"

lemma invocation_db_keys: "invocation_keys invocation_db"
  by (simp add: invocation_keys_def invocation_db_def)

definition sample_calls :: "invocation_call list" where
  "sample_calls = [Start (sample_env 0) sample_auth ''z1'' ''i1'' 0, Sweep (sample_env 2000) True]"

theorem invocation_settles_witness:
  "int (changes 0 (trace sample_cfg sample_calls ([], invocation_db))) \<le> 10"
proof -
  have "0 < length (invocations invocation_db)" "fresh_row (invocations invocation_db ! 0)" "3 = i_max_attempts (invocations invocation_db ! 0)"
    by (simp_all add: invocation_db_def sample_invocation_def fresh_row_def state_of_def)
  from conjunct1 [OF invocation_settles [OF invocation_db_keys this, of sample_cfg sample_calls "[]"]] show ?thesis
    by (simp only: numeral_times_numeral numeral_plus_one semiring_norm)
qed

theorem deadline_sweeps_clear_witness:
  "list_all (\<lambda>r. i_status r \<in> {IFailed, ITimedOut}) (invocations (snd (runDeadlineSweep ((sample_env 0)\<lparr>now := 2000\<rparr>) sample_cfg True
     (invocation_db\<lparr>invocations := [started (sample_env 0) sample_invocation]\<rparr>))))"
proof -
  let ?r = "started (sample_env 0) sample_invocation"
  have "invocation_keys (invocation_db\<lparr>invocations := [?r]\<rparr>)" by (simp add: invocation_keys_def)
  moreover have "length (filter (overdue ((sample_env 0)\<lparr>now := 2000\<rparr>)) [?r]) \<le> 1" by simp
  ultimately have "list_all2 (\<lambda>r s. (overdue ((sample_env 0)\<lparr>now := 2000\<rparr>) r \<longrightarrow> i_status s \<in> {IFailed, ITimedOut}) \<and> (i_status r \<noteq> IRunning \<longrightarrow> s = r))
      [?r] (invocations (snd (runDeadlineSweep ((sample_env 0)\<lparr>now := 2000\<rparr>) sample_cfg True (invocation_db\<lparr>invocations := [?r]\<rparr>))))"
    using deadline_sweeps_clear [of "invocation_db\<lparr>invocations := [?r]\<rparr>" 2000 2000 "[2000]" "sample_env 0" sample_cfg, OF _ _ _ _ refl]
    by (simp add: sample_cfg_def)
  moreover have "overdue ((sample_env 0)\<lparr>now := 2000\<rparr>) ?r"
    by (simp add: overdue_def started_def sample_invocation_def sample_env_def)
  ultimately show ?thesis by (auto simp: list_all2_Cons1)
qed

text \<open>A store with one invocation, of a service the caller owns, and no rate limit.\<close>

definition single :: "invocation \<Rightarrow> db \<Rightarrow> bool" where
  "single r d \<longleftrightarrow> invocations d = [r] \<and> services d = services invocation_db \<and> i_id r = ''i1'' \<and> i_zone r = ''z1'' \<and> i_service r = ''v1''"

lemma single_tx:
  assumes "single r d"
  shows "ok r \<Longrightarrow> \<exists>p d'. transition_tx e sample_auth ''z1'' ''i1'' ok f refused event d = Inr (p, d') \<and>
           invocations d' = [f r] \<and> services d' = services d"
    "\<not> ok r \<Longrightarrow> transition_tx e sample_auth ''z1'' ''i1'' ok f refused event d = Inl (err 409 refused)"
  using assms
  by (auto simp: transition_tx_def single_def loadInvocationOwner_def invocation_db_def authorizeInvocationCaller_def
      ownsApplication_def sample_auth_def update_invocation_def expect_def reject_def enqueueInvocationEvent_def)

lemma transition_keys [simp]:
  "i_id (started e r) = i_id r" "i_zone (started e r) = i_zone r" "i_service (started e r) = i_service r"
  "i_id (canceled e reason r) = i_id r" "i_zone (canceled e reason r) = i_zone r" "i_service (canceled e reason r) = i_service r"
  "i_id (completed e b r) = i_id r" "i_zone (completed e b r) = i_zone r" "i_service (completed e b r) = i_service r"
  by (simp_all add: started_def canceled_def completed_def)

lemma single_params: "parseParams [''z1'', ''i1''] = Inr ()"
  by code_simp

abbreviation unlimited :: cfg where
  "unlimited \<equiv> sample_cfg\<lparr>invocationRateLimitPerMin := 0\<rparr>"

lemma single_route:
  assumes "single r d" "ok r" "\<And>d. k d = transact (transition_tx e sample_auth ''z1'' ''i1'' ok f refused event) d"
    "i_id (f r) = i_id r" "i_zone (f r) = i_zone r" "i_service (f r) = i_service r"
  shows "single (f r) (snd (snd (limited_route unlimited sample_auth ''z1'' ''i1'' t cs k d)))"
  using single_tx(1) [OF assms(1), of ok e f refused event] assms
  by (auto simp: limited_route_def single_params rateLimited_def transact_def single_def)

lemma single_start:
  assumes "single r (snd s)" "startable r"
  shows "single (started e r) (snd (run_call unlimited (Start e sample_auth ''z1'' ''i1'' t) s))"
  using assms by (cases s) (auto simp: start_invocation_def intro!: single_route [where f = "started e" and ok = startable])

lemma single_sample: "single sample_invocation (snd (cs, invocation_db))" "startable sample_invocation"
  by (simp_all add: single_def invocation_db_def sample_invocation_def startable_def)

theorem calls_follow_machine_witness:
  "follows (invocations invocation_db) (invocations (snd (run_call unlimited (hd sample_calls) ([], invocation_db)))) \<and>
   map state_of (invocations (snd (run_call unlimited (hd sample_calls) ([], invocation_db)))) = [(IRunning, 1)]"
proof
  show "follows (invocations invocation_db) (invocations (snd (run_call unlimited (hd sample_calls) ([], invocation_db))))"
    using calls_follow_machine [OF invocation_db_keys, of unlimited "hd sample_calls" "[]"] by blast
  show "map state_of (invocations (snd (run_call unlimited (hd sample_calls) ([], invocation_db)))) = [(IRunning, 1)]"
    using single_start [OF single_sample, of "sample_env 0" 0 "[]"]
    by (simp add: single_def sample_calls_def state_of_def started_def sample_invocation_def del: run_call.simps)
qed

end
