(* ===== verification/Coordinator.thy ===== *)
theory Coordinator
  imports Narrowing Revoke AgentServices Sweepers OutboxJobs Invocations
begin

text \<open>
  The coordinator as one state machine: every route that writes (\<open>src/apps/coordinator/src/routes/\<close>)
  and every job (\<open>src/apps/coordinator/src/jobs/\<close>) is a step on the store. The theory states when a
  store is well-formed, shows that every step keeps it so, and that no step brings back what has ended.
\<close>

section \<open>Well-formed stores\<close>

definition attached :: "db \<Rightarrow> zone \<Rightarrow> string \<Rightarrow> bool" where
  "attached d z i = list_ex (\<lambda>s. s_id s = i \<and> s_zone s = z \<and> live s) (sessions d)"

text \<open>An active delegation joins two live sessions of its zone.\<close>

definition tied :: "db \<Rightarrow> bool" where
  "tied d = list_all (\<lambda>g. e_status g = EActive \<longrightarrow> attached d (e_zone g) (e_source g) \<and> attached d (e_zone g) (e_target g)) (edges d)"

definition store_ok :: "db \<Rightarrow> bool" where
  "store_ok d \<longleftrightarrow> session_inv d \<and> edge_keys d \<and> list_all edge_fields_ok (edges d) \<and> tied d \<and>
     distinct (outbox_keys d) \<and> distinct (map i_id (invocations d))"

lemma store_okD:
  assumes "store_ok d"
  shows "session_inv d" "edge_keys d" "list_all edge_fields_ok (edges d)" "tied d" "distinct (outbox_keys d)"
    "distinct (map i_id (invocations d))"
  using assms by (simp_all add: store_ok_def)

lemma store_ok_empty: "store_ok empty_db"
  by code_simp

definition live_ids :: "db \<Rightarrow> string set" where
  "live_ids d = s_id ` {s \<in> set (sessions d). live s}"

definition active_ids :: "db \<Rightarrow> string set" where
  "active_ids d = e_id ` {g \<in> set (edges d). e_status g = EActive}"

text \<open>The store after a step that starts nothing: well-formed, with nothing live that was not live before.\<close>

definition calm :: "db \<Rightarrow> db \<Rightarrow> bool" where
  "calm d d' \<longleftrightarrow> store_ok d' \<and> live_ids d' \<subseteq> live_ids d \<and> active_ids d' \<subseteq> active_ids d \<and> (\<forall>z. epoch_of d z \<le> epoch_of d' z)"

lemma calm_refl [simp]: "store_ok d \<Longrightarrow> calm d d"
  by (simp add: calm_def)

lemma calm_trans: "calm d d' \<Longrightarrow> calm d' d'' \<Longrightarrow> calm d d''"
  by (auto simp: calm_def intro: order_trans)

lemma calm_ok: "calm d d' \<Longrightarrow> store_ok d'"
  by (simp add: calm_def)

lemma attached_cong: "sessions d' = sessions d \<Longrightarrow> attached d' = attached d"
  by (simp add: attached_def fun_eq_iff)

lemma calm_frame:
  assumes "store_ok d" "sessions d' = sessions d" "edges d' = edges d" "distinct (outbox_keys d')"
    "distinct (map i_id (invocations d'))" "\<And>z. epoch_of d z \<le> epoch_of d' z"
  shows "calm d d'"
  using assms session_inv_cong [OF assms(2)] attached_cong [OF assms(2)]
  by (simp add: calm_def store_ok_def edge_keys_def tied_def live_ids_def active_ids_def)

text \<open>Rewriting sessions in place without changing which are live.\<close>

lemma calm_sessions:
  assumes ok: "store_ok d" and S: "sessions d' = map f (sessions d)" and inv: "session_inv d'"
    and f: "\<And>s. s \<in> set (sessions d) \<Longrightarrow> s_id (f s) = s_id s \<and> s_zone (f s) = s_zone s \<and> live (f s) = live s"
    and E: "edges d' = edges d" "distinct (outbox_keys d')" "distinct (map i_id (invocations d'))" "\<And>z. epoch_of d z \<le> epoch_of d' z"
  shows "calm d d'"
proof -
  have at: "attached d' = attached d" unfolding attached_def S list_ex_iff by (auto simp: fun_eq_iff f)
  have "live_ids d' = live_ids d" by (auto simp: live_ids_def S image_iff f) (metis f)
  then show ?thesis using store_okD [OF ok] inv E by (simp add: calm_def store_ok_def tied_def at edge_keys_def active_ids_def)
qed

lemma live_unique:
  assumes "store_ok d" "s \<in> set (sessions d)"
  shows "live s \<longleftrightarrow> s_id s \<in> live_ids d"
  using assms session_id_unique [of "sessions d"] by (auto simp: live_ids_def store_ok_def session_inv_def)

lemma active_unique:
  assumes "store_ok d" "g \<in> set (edges d)"
  shows "e_status g = EActive \<longleftrightarrow> e_id g \<in> active_ids d"
  using assms edge_keys_inj [of d] by (auto simp: active_ids_def store_ok_def)

section \<open>The cascades\<close>

lemma suspend_calm:
  assumes ok: "store_ok d" and s: "suspendSubtree e z roots reason d = Inr (n, d')"
  shows "calm d d'"
proof (cases "roots = []")
  case False
  have fr: "invocations d' = invocations d" "distinct (outbox_keys d')"
    using s store_okD(5) [OF ok] False
    by (auto simp: suspendSubtree_def expect_Inr Let_def outbox_keys_def [symmetric] intro!: enqueueMany_unique split: if_splits)
  obtain ids where t: "tree d z (\<lambda>st. st = SActive) roots = Some ids"
    and S: "sessions d' = map (\<lambda>s. if s_id s \<in> set ids \<and> s_zone s = z then s\<lparr>s_status := SSuspended, s_updated := now e\<rparr> else s) (sessions d)"
    and E: "edges d' = edges d" "epochs d' = epochs d"
    by (rule suspendSubtree_Inr [OF s False]) (rule that)
  have act: "s_status s = SActive" if "s \<in> set (sessions d)" "s_id s \<in> set ids" for s
    using tree_member_live(1) [OF store_okD(1) [OF ok] t that(1)] that(2) by simp
  show ?thesis
    by (rule calm_sessions [OF ok S session_inv_suspend [OF store_okD(1) [OF ok] t S]])
      (use fr E store_okD(6) [OF ok] act in \<open>auto simp: live_def live_status_def epoch_of_def\<close>)
qed (use assms in \<open>simp add: suspendSubtree_def\<close>)

lemma terminate_frame:
  assumes "terminateSubtree e z roots reason st d = Inr (n, d')"
  shows "invocations d' = invocations d"
  using assms by (auto simp: terminateSubtree_def expect_Inr Let_def case_prod_unfold split: if_splits)

text \<open>Ending the sessions \<open>ids\<close> of a zone together with the delegations that touch them.\<close>

lemma ending_calm:
  assumes ok: "store_ok d" and inv': "session_inv d'" and S: "sessions d' = map f (sessions d)"
    and f: "\<And>s. s_id (f s) = s_id s" "\<And>s. s_zone (f s) = s_zone s"
    and lv: "\<And>s. live (f s) \<longleftrightarrow> live s \<and> \<not> (s_id s \<in> set ids \<and> s_zone s = z)"
    and dead: "\<And>s. s \<in> set (sessions d) \<Longrightarrow> s_id s \<in> set ids \<Longrightarrow> s_zone s = z \<Longrightarrow> s_id s \<in> set dead"
    and E: "edges d' = map (\<lambda>g. if touches z dead g then revoked_edge e g else g) (edges d)"
    and rest: "distinct (outbox_keys d')" "distinct (map i_id (invocations d'))" "\<And>z. epoch_of d z \<le> epoch_of d' z"
  shows "calm d d'"
proof -
  define k where "k g = (if touches z dead g then revoked_edge e g else g)" for g
  have E': "edges d' = map k (edges d)" unfolding E k_def by simp
  have k: "e_id (k g) = e_id g" "edge_fields_ok g \<Longrightarrow> edge_fields_ok (k g)" for g
    by (auto simp: k_def revoked_edge_def edge_fields_ok_def)
  have act: "e_status (k g) = EActive \<Longrightarrow> k g = g \<and> \<not> touches z dead g" for g
    by (auto simp: k_def revoked_edge_def split: if_splits)
  have "tied d'" unfolding tied_def list_all_iff E'
  proof (intro ballI impI)
    fix h assume h: "h \<in> set (map k (edges d))" "e_status h = EActive"
    then obtain g where g: "g \<in> set (edges d)" "h = k g" by auto
    then have hg: "h = g" and nt: "\<not> touches z dead g" using act h(2) by auto
    have "attached d' (e_zone g) i" if i: "i = e_source g \<or> i = e_target g" "attached d (e_zone g) i" for i
    proof -
      from i(2) obtain s where s: "s \<in> set (sessions d)" "s_id s = i" "s_zone s = e_zone g" "live s" by (auto simp: attached_def list_ex_iff)
      have "\<not> (s_id s \<in> set ids \<and> s_zone s = z)" using dead [OF s(1)] nt i(1) s(2,3) h(2) hg by (auto simp: touches_def)
      then show ?thesis unfolding attached_def list_ex_iff S by (intro bexI [of _ "f s"]) (use s f lv in auto)
    qed
    then show "attached d' (e_zone h) (e_source h) \<and> attached d' (e_zone h) (e_target h)"
      using store_okD(4) [OF ok] g(1) h(2) hg unfolding tied_def list_all_iff by blast
  qed
  moreover have "edge_keys d'" using store_okD(2) [OF ok] by (simp add: edge_keys_def E' comp_def k(1))
  moreover have "list_all edge_fields_ok (edges d')" using store_okD(3) [OF ok] k(2) by (auto simp: E' list_all_iff)
  ultimately have "store_ok d'" using inv' rest by (simp add: store_ok_def)
  moreover have "live_ids d' \<subseteq> live_ids d" by (auto simp: live_ids_def S f lv)
  moreover have "active_ids d' \<subseteq> active_ids d" using act by (force simp: active_ids_def E')
  ultimately show ?thesis using rest by (simp add: calm_def)
qed

lemma terminate_calm:
  assumes ok: "store_ok d" and st: "st = STerminated \<or> st = SExpired" and t: "terminateSubtree e z roots reason st d = Inr (n, d')"
  shows "calm d d'"
proof (cases "roots = []")
  case False
  note inv = store_okD(1) [OF ok]
  obtain ids where tree: "tree d z live_status roots = Some ids" and eff: "terminate_effect e z roots reason st ids d d'"
    by (rule terminateSubtree_Inr [OF t False]) (rule that)
  define f where "f s = (if s_id s \<in> set ids \<and> s_zone s = z then terminated_session e roots reason st s
      else if s_zone s = z \<and> 0 < lost_children (filter (\<lambda>s. s_id s \<in> set ids \<and> s_zone s = z) (sessions d)) s
      then s\<lparr>s_child_count := max (s_child_count s - lost_children (filter (\<lambda>s. s_id s \<in> set ids \<and> s_zone s = z) (sessions d)) s) 0, s_updated := now e\<rparr> else s)" for s
  have S: "sessions d' = map f (sessions d)" using eff unfolding terminate_effect_def terminate_rows_def Let_def f_def by simp
  have f: "s_id (f s) = s_id s" "s_zone (f s) = s_zone s" for s by (auto simp: f_def terminated_session_def)
  have lv: "live (f s) \<longleftrightarrow> live s \<and> \<not> (s_id s \<in> set ids \<and> s_zone s = z)" for s
    using st by (auto simp: f_def live_def live_status_def terminated_session_def)
  have inv': "session_inv d'" using session_inv_terminate [OF inv tree st] eff by (simp add: terminate_effect_def)
  show ?thesis
    by (rule ending_calm [OF ok inv' S f lv, where dead = "terminated_ids d z ids" and e = e])
      (use eff terminate_frame [OF t] store_okD(5,6) [OF ok] in \<open>auto simp: terminate_effect_def terminated_ids_def\<close>)
qed (use assms in \<open>simp add: terminateSubtree_def\<close>)

section \<open>The session routes\<close>

text \<open>The reply of a transaction: either nothing changed or the transaction ran to its end.\<close>

lemma transact_calm:
  assumes "transact f d = (r, d')" "store_ok d" "\<And>r' d''. f d = Inr (r', d'') \<Longrightarrow> calm d d''"
  shows "calm d d'"
  using assms by (auto simp: transact_cases)

lemma suspend_session_calm:
  assumes "store_ok d" "suspend_session e req z i d = (r, d')"
  shows "calm d d'"
proof (cases "parseParams [z, i]")
  case (Inr u)
  then have "transact (suspend_tx e req z i) d = (r, d')" using assms(2) by (simp add: suspend_session_def)
  then show ?thesis
    by (rule transact_calm [OF _ assms(1)])
      (auto simp: suspend_tx_def expect_Inr reject_Inr ebind_Inr dest: suspend_calm [OF assms(1)])
qed (use assms in \<open>simp add: suspend_session_def\<close>)

lemma resume_session_calm:
  assumes ok: "store_ok d" and r: "resume_session e c req z i d = (r, d')"
  shows "calm d d'"
proof (cases "parseParams [z, i]")
  case (Inr u)
  then have "transact (resume_tx e c req z i) d = (r, d')" using r by (simp add: resume_session_def)
  then show ?thesis
  proof (rule transact_calm [OF _ ok])
    fix r' d'' assume "resume_tx e c req z i d = Inr (r', d'')"
    then obtain ids its where t: "tree d z (\<lambda>st. st = SSuspended) [i] = Some ids"
      and d'': "d'' = enqueueMany e its (d\<lparr>sessions := map (\<lambda>s. if s_id s \<in> set ids \<and> s_zone s = z then resumed_session e c s else s) (sessions d)\<rparr>)"
      by (auto simp: resume_tx_def expect_Inr reject_Inr Let_def)
    then have S: "sessions d'' = map (\<lambda>s. if s_id s \<in> set ids \<and> s_zone s = z then resumed_session e c s else s) (sessions d)" by simp
    have "distinct (outbox_keys d'')" unfolding d'' by (rule enqueueMany_unique) (use store_okD(5) [OF ok] in \<open>simp add: outbox_keys_def\<close>)
    moreover have "s_status s = SSuspended" if "s \<in> set (sessions d)" "s_id s \<in> set ids" for s
      using tree_member_live(1) [OF store_okD(1) [OF ok] t that(1)] that(2) by simp
    ultimately show "calm d d''"
      by (intro calm_sessions [OF ok S session_inv_resume [OF store_okD(1) [OF ok] t S]])
        (use store_okD(6) [OF ok] in \<open>auto simp: d'' live_def live_status_def resumed_session_def epoch_of_def\<close>)
  qed
qed (use assms in \<open>simp add: resume_session_def\<close>)

lemma terminate_session_calm:
  assumes "store_ok d" "terminate_session e req z i query body d = (r, d')"
  shows "calm d d'"
proof -
  have "calm d d''" if "terminate_tx e req z i reason g d = Inr (r', d'')" for reason g r' d''
    using that terminate_calm [OF assms(1), of STerminated] by (auto simp: terminate_tx_def expect_Inr reject_Inr ebind_Inr)
  then show ?thesis
    using assms transact_calm [OF _ assms(1)] by (auto simp: terminate_session_def split: sum.splits)
qed

text \<open>Adding one edge between two live sessions of its zone.\<close>

lemma tied_snoc:
  assumes "tied d" "edges d' = edges d @ [g]" "\<And>z i. attached d z i \<Longrightarrow> attached d' z i"
    "attached d' (e_zone g) (e_source g)" "attached d' (e_zone g) (e_target g)"
  shows "tied d'"
  using assms by (auto simp: tied_def list_all_iff)

text \<open>What a step may add: sessions and edges under new identifiers, and nothing else comes to life.\<close>

definition settled :: "db \<Rightarrow> db \<Rightarrow> bool" where
  "settled d d' \<longleftrightarrow>
     (\<forall>s\<in>set (sessions d). \<forall>t\<in>set (sessions d'). s_id t = s_id s \<and> live t \<longrightarrow> live s) \<and>
     (\<forall>g\<in>set (edges d). \<forall>h\<in>set (edges d'). e_id h = e_id g \<and> e_status h = EActive \<longrightarrow> e_status g = EActive) \<and>
     (\<forall>z. epoch_of d z \<le> epoch_of d' z)"

lemma calm_settled:
  assumes "store_ok d" "calm d d'"
  shows "settled d d'"
proof -
  have "live s" if "s \<in> set (sessions d)" "t \<in> set (sessions d')" "s_id t = s_id s" "live t" for s t
  proof -
    have "s_id t \<in> live_ids d'" using that(2,4) by (simp add: live_ids_def)
    then show ?thesis using assms(2) live_unique [OF assms(1) that(1)] that(3) by (auto simp: calm_def)
  qed
  moreover have "e_status g = EActive" if "g \<in> set (edges d)" "h \<in> set (edges d')" "e_id h = e_id g" "e_status h = EActive" for g h
  proof -
    have "e_id h \<in> active_ids d'" using that(2,4) by (simp add: active_ids_def)
    then show ?thesis using assms(2) active_unique [OF assms(1) that(1)] that(3) by (auto simp: calm_def)
  qed
  ultimately show ?thesis using assms(2) by (auto simp: settled_def calm_def)
qed


lemma outbox_keys_upd [simp]:
  "outbox_keys (d\<lparr>edges := x\<rparr>) = outbox_keys d" "outbox_keys (d\<lparr>uuids := u\<rparr>) = outbox_keys d"
  "outbox_keys (d\<lparr>sessions := y\<rparr>) = outbox_keys d" "outbox_keys (d\<lparr>invocations := v\<rparr>) = outbox_keys d"
  "outbox_keys (d\<lparr>epochs := w\<rparr>) = outbox_keys d" "outbox_keys (d\<lparr>receipts := q\<rparr>) = outbox_keys d"
  by (simp_all add: outbox_keys_def)

lemma inherit_keys:
  assumes "inheritParentEdge e z b i d = Inr (edgeId, d')" "distinct (outbox_keys d)"
  shows "distinct (outbox_keys d')" "invocations d' = invocations d"
proof -
  have "distinct (outbox_keys d') \<and> invocations d' = invocations d"
    using assms unfolding inheritParentEdge_def Let_def case_prod_unfold
    by (auto simp: ebind_Inr dest!: insert_edge_Inr(1) intro!: enqueue_unique split: if_splits list.splits)
  then show "distinct (outbox_keys d')" "invocations d' = invocations d" by simp_all
qed

lemma start_finish_keys:
  assumes "start_finish e z b row edgeId receipt retention d = Inr (r, d')" "distinct (outbox_keys d)"
  shows "distinct (outbox_keys d')" "invocations d' = invocations d"
proof -
  define d1 where "d1 = enqueue e AgentsLifecycle (''spawn:'' @ s_id row) (spawn_event z b (s_id row)) d"
  have "outbox d' = outbox d1 \<and> invocations d' = invocations d1"
    using assms(1) unfolding start_finish_def Let_def d1_def by (auto simp: ebind_Inr dest: complete_frame(8,10) split: option.splits prod.splits)
  then show "distinct (outbox_keys d')" "invocations d' = invocations d"
    using enqueue_unique [OF assms(2)] unfolding d1_def by (simp_all add: outbox_keys_def)
qed

text \<open>The edges of a start: nothing, or one edge from the live parent to the new session.\<close>

lemma start_new_edges:
  assumes "start_new e c req z b subject i receipt retention d = Inr (r, d')"
  shows "edges d' = edges d \<and> epoch_of d' = epoch_of d \<or>
    (\<exists>g. edges d' = edges d @ [g] \<and> \<not> (\<exists>h\<in>set (edges d). e_id h = e_id g) \<and> edge_fields_ok g \<and> e_zone g = z \<and>
       attached d z (e_source g) \<and> e_target g = i \<and> (\<forall>z'. epoch_of d z' \<le> epoch_of d' z'))"
proof -
  obtain depth edgeId d1 d2 where A: "parent_depth req z b d = Inr depth" "insert_session (new_session e c z b subject i depth) d = Inr d1"
    "inheritParentEdge e z b i (link_child (b_parent b) i d1) = Inr (edgeId, d2)"
    "start_finish e z b (new_session e c z b subject i depth) edgeId receipt retention d2 = Inr (r, d')"
    by (rule start_new_Inr [OF assms]) (rule that)
  let ?d = "link_child (b_parent b) i d1"
  have fr: "edges ?d = edges d" "epoch_of ?d = epoch_of d"
    using insert_session_Inr(1) [OF A(2)] by (simp_all add: link_child_def epoch_of_def fun_eq_iff)
  note F = start_finish_Inr [OF A(4)]
  consider "d2 = ?d" | p g where "truthy (b_parent b)" "g = inherited_edge e z b (the (b_parent b)) i (uuidv7 e (uuids ?d)) p"
      "insert_edge g (?d\<lparr>uuids := Suc (uuids ?d)\<rparr>) = Inr (?d\<lparr>uuids := Suc (uuids ?d), edges := edges ?d @ [g]\<rparr>)"
      "edges d2 = edges ?d @ [g]" "\<forall>z'. epoch_of d2 z' = epoch_of ?d z' + (if z' = z then 1 else 0)"
    using inheritParentEdge_Inr [OF A(3)] by blast
  then show ?thesis
  proof cases
    case 1
    then show ?thesis using F(2,3) fr by simp
  next
    case (2 p g)
    have "attached d z (the (b_parent b))"
      using A(1) 2(1) by (auto simp: parent_depth_def expect_Inr attached_def list_ex_iff live_def live_status_def dest!: find_SomeD)
    moreover have "e_zone g = z" "e_source g = the (b_parent b)" "e_target g = i" by (simp_all add: 2(2) inherited_edge_def)
    moreover have "edge_fields_ok g" "\<not> (\<exists>h\<in>set (edges d). e_id h = e_id g)"
      using insert_edge_Inr(2,3) [OF 2(3)] fr(1) by (auto simp: edge_fields_ok_def 2(2) inherited_edge_def)
    ultimately show ?thesis using F(2,3) fr 2(4,5) by auto
  qed
qed


text \<open>A step that adds one session or one edge under an identifier the store does not have.\<close>

lemma settled_insert:
  assumes ok: "store_ok d" and S: "sessions d' = map f (sessions d) @ ns" and E: "edges d' = edges d @ gs"
    and f: "\<And>s. s \<in> set (sessions d) \<Longrightarrow> s_id (f s) = s_id s \<and> live (f s) = live s"
    and n: "\<And>n s. n \<in> set ns \<Longrightarrow> s \<in> set (sessions d) \<Longrightarrow> s_id s \<noteq> s_id n"
    and g: "\<And>g h. g \<in> set gs \<Longrightarrow> h \<in> set (edges d) \<Longrightarrow> e_id h \<noteq> e_id g" and "\<And>z. epoch_of d z \<le> epoch_of d' z"
  shows "settled d d'"
proof -
  have "live s" if s: "s \<in> set (sessions d)" and t: "t \<in> set (sessions d')" "s_id t = s_id s" "live t" for s t
  proof -
    consider u where "u \<in> set (sessions d)" "t = f u" | "t \<in> set ns" using t(1) by (auto simp: S)
    then show ?thesis
    proof cases
      case (1 u)
      then have "s_id u = s_id s" "live u" using f t by auto
      moreover have "distinct (map s_id (sessions d))" using store_okD(1) [OF ok] by (simp add: session_inv_def)
      ultimately show ?thesis using session_id_unique [of "sessions d" u s] 1(1) s by simp
    next
      case 2
      then show ?thesis using n [OF 2 s] t(2) by simp
    qed
  qed
  moreover have "e_status k = EActive" if "k \<in> set (edges d)" "h \<in> set (edges d')" "e_id h = e_id k" "e_status h = EActive" for k h
    using that g edge_keys_inj [OF store_okD(2) [OF ok]] by (metis E Un_iff set_append)
  ultimately show ?thesis using assms(7) by (auto simp: settled_def)
qed

lemma start_new_sound:
  assumes ok: "store_ok d" and st: "start_new e c req z b subject i receipt retention d = Inr (r, d')" and i: "i \<noteq> []"
  shows "store_ok d' \<and> settled d d'"
proof -
  note inv = store_okD(1) [OF ok]
  obtain depth where S: "sessions d' = map (count_child (b_parent b)) (sessions d) @ [new_session e c z b subject i depth]"
    and fresh: "\<forall>q\<in>set (sessions d). s_id q \<noteq> i"
    by (rule start_new_sessions [OF inv st]) (rule that)
  have n: "s_id (new_session e c z b subject i depth) = i" "s_zone (new_session e c z b subject i depth) = z" "live (new_session e c z b subject i depth)"
    by (simp_all add: new_session_def live_def live_status_def)
  have at: "attached d' x y" if "attached d x y" for x y
  proof -
    from that obtain s where "s \<in> set (sessions d)" "s_id s = y" "s_zone s = x" "live s" by (auto simp: attached_def list_ex_iff)
    then show ?thesis unfolding attached_def list_ex_iff S by (intro bexI [of _ "count_child (b_parent b) s"]) auto
  qed
  have atn: "attached d' z i" unfolding attached_def list_ex_iff S by (intro bexI [of _ "new_session e c z b subject i depth"]) (use n in auto)
  obtain depth' edgeId d1 d2 where A: "insert_session (new_session e c z b subject i depth') d = Inr d1"
    "inheritParentEdge e z b i (link_child (b_parent b) i d1) = Inr (edgeId, d2)"
    "start_finish e z b (new_session e c z b subject i depth') edgeId receipt retention d2 = Inr (r, d')"
    by (rule start_new_Inr [OF st]) (rule that)
  have k0: "distinct (outbox_keys (link_child (b_parent b) i d1))" "invocations (link_child (b_parent b) i d1) = invocations d"
    using store_okD(5) [OF ok] insert_session_Inr(1) [OF A(1)] by (simp_all add: link_child_def outbox_keys_def)
  note k1 = inherit_keys [OF A(2) k0(1)]
  note k2 = start_finish_keys [OF A(3) k1(1)]
  have base: "session_inv d'" "distinct (outbox_keys d')" "distinct (map i_id (invocations d'))"
    using start_new_inv [OF inv st i] k0 k1 k2 store_okD(6) [OF ok] by simp_all
  consider "edges d' = edges d" "epoch_of d' = epoch_of d" | g where "edges d' = edges d @ [g]" "\<not> (\<exists>h\<in>set (edges d). e_id h = e_id g)" "edge_fields_ok g" "e_zone g = z"
       "attached d z (e_source g)" "e_target g = i" "\<forall>z'. epoch_of d z' \<le> epoch_of d' z'"
    using start_new_edges [OF st] by metis
  then show ?thesis
  proof cases
    case 1
    have "tied d'" using store_okD(4) [OF ok] at unfolding tied_def 1(1) list_all_iff by blast
    then have "store_ok d'" using base store_okD(2,3) [OF ok] by (simp add: store_ok_def edge_keys_def 1)
    moreover have "settled d d'" by (rule settled_insert [OF ok S, of "[]"]) (use 1 fresh n in auto)
    ultimately show ?thesis ..
  next
    case (2 g)
    have "tied d'" by (rule tied_snoc [OF store_okD(4) [OF ok] 2(1) at]) (use 2 at atn in auto)
    then have "store_ok d'" using base store_okD(2,3) [OF ok] 2(2,3) by (auto simp: store_ok_def edge_keys_def 2(1))
    moreover have "settled d d'" by (rule settled_insert [OF ok S 2(1)]) (use 2 fresh n in auto)
    ultimately show ?thesis ..
  qed
qed

lemma settled_frame:
  assumes "sessions d0 = sessions d" "edges d0 = edges d" "epoch_of d0 = epoch_of d"
  shows "settled d0 d' = settled d d'"
  using assms by (simp add: settled_def)

lemma receipts_only_ok:
  assumes "store_ok d" "receipts_only d d0"
  shows "calm d d0"
  using receipts_only_frame [OF assms(2)] store_okD(5,6) [OF assms(1)] by (intro calm_frame [OF assms(1)]) simp_all

lemma start_session_sound:
  assumes ok: "store_ok d" and i: "\<And>n. uuidv7 e n \<noteq> []" and st: "start_session e c req z hdr generated body d = (r, d')"
  shows "store_ok d' \<and> settled d d'"
proof (cases "d' = d")
  case False
  then obtain b subject key retention where "start_tx e c req z b subject key retention d = Inr (r, d')"
    using st by (auto simp: start_session_def transact_cases split: sum.splits prod.splits)
  then show ?thesis
  proof (cases rule: start_tx_Inr)
    case (replay k st resp res)
    then show ?thesis using receipts_only_ok [OF ok] calm_settled [OF ok] calm_ok by blast
  next
    case (new receipt d0)
    have "store_ok d0" using receipts_only_ok [OF ok new(1)] by (rule calm_ok)
    from start_new_sound [OF this new(3) i] show ?thesis
      using settled_frame receipts_only_frame(1,2,5) [OF new(1)] by blast
  qed
qed (use ok calm_settled [OF ok calm_refl [OF ok]] in simp)


section \<open>The delegation routes\<close>

lemma fold_found: "fold (\<lambda>x a. if P x then Some x else a) xs a = Some y \<Longrightarrow> a = Some y \<or> y \<in> set xs \<and> P y"
  by (induction xs arbitrary: a) (auto split: if_splits)

lemma endpoints_attached:
  assumes "activeSessionEndpoints e d z i j = (Some s, Some t)"
  shows "attached d z i" "attached d z j"
proof -
  define rows where "rows = filter (\<lambda>s. s_zone s = z \<and> s_id s \<in> {i, j} \<and> active_endpoint e s) (sessions d)"
  have "fold (\<lambda>x a. if s_id x = i then Some x else a) rows None = Some s" "fold (\<lambda>x a. if s_id x = j then Some x else a) rows None = Some t"
    using assms by (simp_all add: activeSessionEndpoints_def Let_def rows_def)
  then have "s \<in> set rows \<and> s_id s = i" "t \<in> set rows \<and> s_id t = j" using fold_found by fastforce+
  then show "attached d z i" "attached d z j"
    by (auto simp: rows_def attached_def list_ex_iff active_endpoint_def live_def live_status_def)
qed

lemma delegation_finish_invocations:
  "delegation_finish e c z b response g receipt d = Inr (r, d') \<Longrightarrow> invocations d' = invocations d"
  unfolding delegation_finish_def Let_def case_prod_unfold by (auto simp: ebind_Inr dest: complete_frame(8) split: option.splits)

lemma delegation_new_sound:
  assumes ok: "store_ok d" and n: "delegation_new e c z b k receipt d = Inr (r, d')"
  shows "store_ok d' \<and> settled d d'"
proof -
  obtain rs parents pe t g b1 where A: "delegation_admit e z b k d = Inr (b1, rs, parents, pe)"
    "g = new_edge e z b1 k (uuidv7 e (uuids d)) pe t"
    "insert_edge g (d\<lparr>uuids := Suc (uuids d)\<rparr>) = Inr (d\<lparr>uuids := Suc (uuids d), edges := edges d @ [g]\<rparr>)"
    "delegation_finish e c z b1 (delegation_response b1 k rs parents (resource_scoped b k) g) g receipt
       (d\<lparr>uuids := Suc (uuids d), edges := edges d @ [g]\<rparr>) = Inr (r, d')"
    by (rule delegation_new_Inr [OF n]) (rule that)
  note F = delegation_finish_Inr [OF A(4)] and I = insert_edge_Inr [OF A(3)]
  obtain src tgt where "activeSessionEndpoints e d z (q_source b) (q_target b) = (Some src, Some tgt)"
    using delegation_admit_Inr(1) [OF A(1)] by blast
  note at = endpoints_attached [OF this]
  have g: "e_zone g = z" "e_source g = q_source b" "e_target g = q_target b" "edge_fields_ok g"
    using I(3) by (simp_all add: A(2) new_edge_def delegation_admit_Inr(3) [OF A(1)] edge_fields_ok_def)
  have S: "sessions d' = map id (sessions d) @ []" and E: "edges d' = edges d @ [g]" using F by simp_all
  have same: "attached d' = attached d" by (rule attached_cong) (use S in simp)
  have "tied d'" by (rule tied_snoc [OF store_okD(4) [OF ok] E]) (simp_all add: same g at)
  moreover have "session_inv d'" using store_okD(1) [OF ok] session_inv_cong [of d' d] S by simp
  moreover have "distinct (map i_id (invocations d'))" using store_okD(6) [OF ok] delegation_finish_invocations [OF A(4)] by simp
  ultimately have "store_ok d'" using store_okD [OF ok] I(2) F(9) g(4) by (auto simp: store_ok_def E edge_keys_def)
  moreover have "settled d d'"
    by (rule settled_insert [OF ok S E]) (use I(2) F(7) in \<open>auto simp: epoch_of_def\<close>)
  ultimately show ?thesis ..
qed

lemma create_delegation_sound:
  assumes ok: "store_ok d" and st: "create_delegation e c req z hdr body d = (r, d')"
  shows "store_ok d' \<and> settled d d'"
proof (cases "d' = d")
  case False
  then obtain b k key where "delegation_tx e c req z b k key d = Inr (r, d')"
    using st by (auto simp: create_delegation_def transact_cases split: sum.splits prod.splits)
  then show ?thesis
  proof (cases rule: delegation_tx_Inr)
    case replay
    then show ?thesis using receipts_only_ok [OF ok] calm_settled [OF ok] calm_ok by blast
  next
    case (new receipt d0)
    have "store_ok d0" using receipts_only_ok [OF ok new(1)] by (rule calm_ok)
    from delegation_new_sound [OF this new(2)] show ?thesis
      using settled_frame receipts_only_frame(1,2,5) [OF new(1)] by blast
  qed
qed (use ok calm_settled [OF ok calm_refl [OF ok]] in simp)

text \<open>Closing edges in place, by revocation or expiry.\<close>

lemma calm_edges:
  assumes ok: "store_ok d" and S: "sessions d' = sessions d" and E: "edges d' = map k (edges d)"
    and k: "\<And>g. g \<in> set (edges d) \<Longrightarrow> e_id (k g) = e_id g \<and> edge_fields_ok (k g) \<and> (e_status (k g) = EActive \<longrightarrow> k g = g)"
    and "distinct (outbox_keys d')" "distinct (map i_id (invocations d'))" "\<And>z. epoch_of d z \<le> epoch_of d' z"
  shows "calm d d'"
proof -
  have "map e_id (map k (edges d)) = map e_id (edges d)" using k by simp
  then have keys: "edge_keys d'" using store_okD(2) [OF ok] by (simp only: edge_keys_def E)
  have "tied d'" using store_okD(4) [OF ok] k unfolding tied_def E list_all_iff attached_cong [OF S] by fastforce
  moreover have "active_ids d' \<subseteq> active_ids d" using k by (force simp: active_ids_def E)
  ultimately show ?thesis using assms(5-) keys k session_inv_cong [OF S] store_okD(1) [OF ok]
    by (auto simp: calm_def store_ok_def E list_all_iff live_ids_def S)
qed

lemma revoke_calm:
  assumes ok: "store_ok d" and st: "revoke_delegation e req z i d = (r, d')"
  shows "calm d d'"
proof (cases "parseParams [z, i]")
  case (Inr u)
  then have "transact (revoke_tx e req z i) d = (r, d')" using st by (simp add: revoke_delegation_def)
  then show ?thesis
  proof (rule transact_calm [OF _ ok])
    fix r' d'' assume "revoke_tx e req z i d = Inr (r', d'')"
    then obtain ids roots n d2 p its where
      t: "terminateSubtree e z roots ''delegation_revoked'' STerminated (snd (revoke_edges e ids d)) = Inr (n, d2)"
      and d'': "d'' = enqueueMany e its (enqueue e DelegationsInvalidate (''edge_revoke:'' @ i) p (snd (bumpDelegationEpoch z d2)))"
      by (auto simp: revoke_tx_def expect_Inr reject_Inr ebind_Inr Let_def case_prod_unfold)
    have 1: "calm d (snd (revoke_edges e ids d))"
      by (rule calm_edges [OF ok, where k = "\<lambda>g. if e_id g \<in> set ids then revoked_edge e g else g"])
        (use store_okD [OF ok] in \<open>auto simp: revoke_edges_def revoked_edge_def edge_fields_ok_def list_all_iff epoch_of_def\<close>)
    have 2: "calm (snd (revoke_edges e ids d)) d2" by (rule terminate_calm [OF calm_ok [OF 1] _ t]) simp
    have "calm d2 d''"
      by (rule calm_frame [OF calm_ok [OF 2]])
        (use store_okD(5,6) [OF calm_ok [OF 2]] in \<open>auto simp: d'' intro!: enqueueMany_unique enqueue_unique\<close>)
    then show "calm d d''" using 1 2 calm_trans by blast
  qed
qed (use assms in \<open>simp add: revoke_delegation_def\<close>)


section \<open>Services, leases and heartbeats\<close>

lemma register_calm:
  assumes "store_ok d" "register_service e req z body d = (r, d')"
  shows "calm d d'"
proof -
  have "calm d d''" if "register_tx e z b d = Inr (r', d'')" for b r' d''
    using that store_okD(5,6) [OF assms(1)]
    by (intro calm_frame [OF assms(1)])
      (auto simp: register_tx_def upsert_service_def expect_Inr ebind_Inr reject_Inr outbox_keys_def epoch_of_def split: option.splits)
  then show ?thesis using assms transact_calm [OF _ assms(1)] by (auto simp: register_service_def split: sum.splits)
qed

text \<open>Rewriting one session of a service.\<close>

lemma update_session_calm:
  assumes ok: "store_ok d" and own: "find_session d z i = Some own" "s_lifecycle own = Service"
    and f: "\<And>s. same_place s (f s)" "\<And>s. s_status (f s) = s_status s" "\<And>s. s_child_count (f s) = s_child_count s"
      "\<And>s. s_lifecycle s = Service \<Longrightarrow> session_fields_ok s \<Longrightarrow> session_fields_ok (f s)"
  shows "calm d (update_session z i f d)"
proof -
  let ?f = "\<lambda>s. if s_id s = i \<and> s_zone s = z then f s else s"
  note inv = store_okD(1) [OF ok]
  have S: "sessions (update_session z i f d) = map ?f (sessions d)" by (simp add: update_session_def)
  have hit: "s = own" if "s \<in> set (sessions d)" "s_id s = i" for s
  proof -
    have "own \<in> set (sessions d)" "s_id own = i" using own(1) find_SomeD by (fastforce simp: find_session_def)+
    moreover have "distinct (map s_id (sessions d))" using inv by (simp add: session_inv_def)
    ultimately show ?thesis using session_id_unique [of "sessions d" s own] that by simp
  qed
  have "session_inv (update_session z i f d)"
  proof (rule session_inv_map_live [OF inv S])
    fix s assume s: "s \<in> set (sessions d)"
    have fo: "session_fields_ok s" using session_inv_ok [OF inv s] by (simp add: session_ok_def)
    show "same_place s (?f s)" using f(1) [of s] by (simp add: same_place_def)
    show "session_fields_ok (?f s)" using fo f(4) [OF _ fo] hit [OF s] own(2) by auto
    show "live (?f s) = live s" "s_child_count (?f s) = s_child_count s" by (simp_all add: live_def f)
  qed
  then show ?thesis
    by (rule calm_sessions [OF ok S]) (use f store_okD(5,6) [OF ok] in \<open>auto simp: live_def update_session_def same_place_def epoch_of_def\<close>)
qed

lemma leased_calm:
  assumes "store_ok d" "find_session d z i = Some own" "s_lifecycle own = Service"
  shows "calm d (update_session z i (leased e c) d)" "calm d (update_session z i (beaten e c) d)"
  by (rule update_session_calm [OF assms]; auto simp: same_place_def leased_def beaten_def session_fields_ok_def)+

lemma own_sessionD: "own_session d z i = Some (s, a) \<Longrightarrow> find_session d z i = Some s"
  by (auto simp: own_session_def split: Option.bind_splits)

lemma lease_calm:
  assumes ok: "store_ok d" and st: "acquire_lease e c req z i d = (r, d')"
  shows "calm d d'"
proof -
  have "calm d d''" if "lease_tx e c req z i d = Inr (r', d'')" for r' d''
    using that terminate_calm [OF ok, of STerminated] suspend_calm [OF ok] leased_calm(1) [OF ok]
    by (auto simp: lease_tx_def expect_Inr reject_Inr ebind_Inr check_identity_def split: if_splits dest!: own_sessionD)
  then show ?thesis using st ok transact_calm [OF _ ok] by (auto simp: acquire_lease_def split: sum.splits)
qed

lemma heartbeat_calm:
  assumes ok: "store_ok d" and st: "heartbeat e c req z i body d = (r, d')"
  shows "calm d d'"
proof -
  have sv: "calm d (d1\<lparr>services := vs\<rparr>)" if "calm d d1" for d1 vs
    by (rule calm_trans [OF that], rule calm_frame [OF calm_ok [OF that]])
      (use store_okD(5,6) [OF calm_ok [OF that]] in \<open>auto simp: outbox_keys_def epoch_of_def\<close>)
  have "calm d d''" if "heartbeat_tx e c req z i b d = Inr (r', d'')" for b r' d''
    using that terminate_calm [OF ok, of STerminated] suspend_calm [OF ok] sv [OF leased_calm(2) [OF ok]]
    by (auto simp: heartbeat_tx_def expect_Inr reject_Inr ebind_Inr check_identity_def split: if_splits dest!: own_sessionD update_health_frame)
  then show ?thesis using st ok transact_calm [OF _ ok] by (auto simp: heartbeat_def split: sum.splits)
qed

section \<open>Invocations, the outbox and the jobs\<close>

text \<open>Steps that leave sessions, edges and epochs alone.\<close>

definition aside :: "db \<Rightarrow> db \<Rightarrow> bool" where
  "aside d d' \<longleftrightarrow> sessions d' = sessions d \<and> edges d' = edges d \<and> epochs d' = epochs d \<and>
     (distinct (outbox_keys d) \<longrightarrow> distinct (outbox_keys d'))"

lemma aside_refl [simp]: "aside d d"
  by (simp add: aside_def)

lemma aside_calm:
  assumes "store_ok d" "aside d d'" "distinct (map i_id (invocations d'))"
  shows "calm d d'"
  by (rule calm_frame [OF assms(1)]) (use assms store_okD(5) [OF assms(1)] in \<open>auto simp: aside_def epoch_of_def\<close>)

lemma transition_aside: "aside d (snd (transact (transition_tx e req z i ok f refused event) d))"
  by (auto simp: transact_def aside_def transition_tx_def expect_Inr reject_Inr update_invocation_def Let_def enqueueInvocationEvent_def
      intro!: enqueue_unique split: sum.splits)

lemma limited_aside: "aside d (snd (k d)) \<Longrightarrow> aside d (snd (snd (limited_route c req z i t cs k d)))"
  by (simp add: limited_route_def Let_def case_prod_unfold split: sum.split)

lemma invocation_new_aside:
  assumes "invocation_new e c z b app kd qd d = Inr (r, d')"
  shows "aside d d'"
proof -
  let ?row = "new_invocation e z b (uuidv7 e (uuids d))"
  define d1 where "d1 = enqueueInvocationEvent e z (ib_service b) (i_id ?row) ''invocation.created'' (i_attempts ?row)
    (d\<lparr>uuids := Suc (uuids d), invocations := invocations d @ [?row]\<rparr>)"
  have "completeIdempotency e (invocation_receipt c z app kd qd ?row) d1 = Inr d'"
    using assms by (auto simp: invocation_new_def Let_def reject_Inr ebind_Inr d1_def)
  note F = complete_frame [OF this]
  have "aside d d1" unfolding d1_def enqueueInvocationEvent_def by (auto simp: aside_def intro!: enqueue_unique)
  then show ?thesis using F by (simp add: aside_def outbox_keys_def)
qed

lemma startIdempotency_aside:
  assumes "startIdempotency e c i d = (x, d1)"
  shows "aside d d1"
proof -
  have "receipts_only d d1" using startIdempotency_only [where d = d and u = "uuids d"] assms by simp
  then show ?thesis by (auto simp: receipts_only_def aside_def)
qed

lemma create_aside: "aside d (snd (snd (create_invocation e c req z body t cs d)))"
proof -
  have "aside d d2" if "startIdempotency e c i d = (x, d1)" "invocation_new e c z b app kd qd d1 = Inr (r, d2)" for i x d1 b app kd qd r d2
    using startIdempotency_aside [OF that(1)] invocation_new_aside [OF that(2)] by (auto simp: aside_def)
  then show ?thesis unfolding create_invocation_def
    by (auto split: sum.split prod.split istart.split intro: startIdempotency_aside)
qed

lemma run_call_aside: "aside d (snd (run_call c call (cs, d)))"
proof (cases call)
  case (Create e req z body t)
  then show ?thesis using create_aside by simp
next
  case (Start e req z i t)
  then show ?thesis by (simp add: start_invocation_def limited_aside transition_aside)
next
  case (Cancel e req z i body t)
  then show ?thesis by (auto simp: cancel_invocation_def intro!: limited_aside transition_aside split: option.split)
next
  case (Complete e req z i body t)
  then show ?thesis by (auto simp: complete_invocation_def intro!: limited_aside transition_aside split: option.split)
next
  case (Sweep e locked)
  then show ?thesis by (auto simp: runDeadlineSweep_def Let_def aside_def intro!: enqueueMany_unique)
qed

lemma run_call_calm: "store_ok d \<Longrightarrow> calm d (snd (run_call c call (cs, d)))"
  by (rule aside_calm [OF _ run_call_aside]) (use run_call_keys store_okD(6) in \<open>auto simp: invocation_keys_def\<close>)

lemma publish_calm:
  assumes "store_ok d"
  shows "calm d (fst (publishBatch hmac key e n k xadd jitter committed (d, streams)))"
  by (rule aside_calm [OF assms])
    (use store_okD(6) [OF assms] in \<open>auto simp: publishBatch_def Let_def aside_def outbox_keys_def comp_def mark_published_def mark_retried_def mark_dead_def
      elim!: back_subst [of distinct] intro!: map_cong\<close>)

lemma requeue_calm:
  assumes "store_ok d"
  shows "calm d (snd (requeue_outbox ok e req z i d))"
  by (rule aside_calm [OF assms])
    (use store_okD(6) [OF assms] in \<open>auto simp: requeue_outbox_def Let_def aside_def outbox_keys_def comp_def requeued_def
      elim!: back_subst [of distinct] intro!: map_cong split: option.split\<close>)


lemma sweep_zones_calm:
  assumes "\<And>z ids d n d'. store_ok d \<Longrightarrow> f z ids d = Inr (n, d') \<Longrightarrow> calm d d'" "store_ok d" "sweep_zones f zs m d = Inr (k, d')"
  shows "calm d d'"
  using assms(2,3)
proof (induction zs arbitrary: m d)
  case (Cons p zs)
  obtain z ids where p: "p = (z, ids)" by (cases p)
  with Cons.prems obtain n d1 where d1: "f z ids d = Inr (n, d1)" "sweep_zones f zs (m + n) d1 = Inr (k, d')"
    by (auto simp: ebind_Inr)
  have c: "calm d d1" by (rule assms(1) [OF Cons.prems(1) d1(1)])
  from Cons.IH [OF calm_ok [OF c] d1(2)] show ?case by (rule calm_trans [OF c])
qed simp

lemma run_sweep_calm:
  assumes "\<And>z ids d n d'. store_ok d \<Longrightarrow> f z ids d = Inr (n, d') \<Longrightarrow> calm d d'" "store_ok d"
  shows "calm d (snd (run_sweep collation f locked expired d))"
  using assms(2) sweep_zones_calm [OF assms(1,2)] by (auto simp: run_sweep_def split: sum.split)

lemma ttl_sweep_calm: "store_ok d \<Longrightarrow> calm d (snd (runTTLSweep collation e c locked d))"
  unfolding runTTLSweep_def by (rule run_sweep_calm) (auto intro: terminate_calm)

lemma lease_sweep_calm: "store_ok d \<Longrightarrow> calm d (snd (runServiceLeaseSweep collation e c locked d))"
  unfolding runServiceLeaseSweep_def by (rule run_sweep_calm) (auto intro: suspend_calm)

lemma expire_zones_epochs: "epoch_of d z \<le> epoch_of (snd (expire_zones zs its d)) z"
proof (induction zs arbitrary: its d)
  case (Cons p zs)
  obtain z' ids where p: "p = (z', ids)" by (cases p)
  have "epoch_of d z \<le> epoch_of (snd (bumpDelegationEpoch z' d)) z" by simp
  then show ?case using order_trans [OF _ Cons.IH] by (simp only: p expire_zones.simps Let_def case_prod_unfold)
qed simp

lemma expire_edges_calm:
  assumes ok: "store_ok d"
  shows "calm d (snd (expire_edges e c d))"
proof -
  let ?hit = "\<lambda>g. e_id g \<in> set (expire_batch e c d)"
  define d1 where "d1 = d\<lparr>edges := map (\<lambda>g. if ?hit g then expired_edge e g else g) (edges d)\<rparr>"
  have hit: "e_status g = EActive" if "g \<in> set (edges d)" "?hit g" for g
    using batch_member [of e_id "edges d" g _ _ "lapsed_edge e"] store_okD(2) [OF ok] that
    unfolding edge_keys_def expire_batch_def lapsed_edge_def by force
  have 1: "calm d d1"
    by (rule calm_edges [OF ok, where k = "\<lambda>g. if ?hit g then expired_edge e g else g"])
      (use store_okD [OF ok] hit in \<open>auto simp: d1_def expired_edge_def edge_fields_ok_def list_all_iff epoch_of_def\<close>)
  let ?zs = "expiredByZone (filter ?hit (edges d))"
  obtain eps where ez: "snd (expire_zones ?zs [] d1) = d1\<lparr>epochs := eps\<rparr>" using expire_zones_frame by blast
  have "snd (expire_edges e c d) = enqueueMany e (fst (expire_zones ?zs [] d1)) (d1\<lparr>epochs := eps\<rparr>)"
    unfolding expire_edges_def Let_def d1_def [symmetric] by (simp add: split_beta ez)
  then have "calm d1 (snd (expire_edges e c d))"
    using store_okD(5,6) [OF calm_ok [OF 1]] expire_zones_epochs [of d1 _ ?zs "[]"]
    by (intro calm_frame [OF calm_ok [OF 1]]) (auto simp: ez intro!: enqueueMany_unique)
  with 1 show ?thesis by (rule calm_trans)
qed

lemma same_edge_typed:
  assumes "same_edge g h"
  shows "e_zone h = e_zone g" "edge_fields_ok h = edge_fields_ok g"
  using assms by (cases g; cases h; simp add: same_edge_def edge_fields_ok_def)+

text \<open>Deleting edges, and the sessions that none of the remaining active edges needs.\<close>

lemma drop_calm:
  assumes ok: "store_ok d" and S: "session_inv d'" "set (sessions d') \<subseteq> set (sessions d)" and E: "edges d' = edges (drop_edges gone d)"
    and keep: "\<And>g s. g \<in> set (edges d) \<Longrightarrow> \<not> gone g \<Longrightarrow> s \<in> set (sessions d) \<Longrightarrow> live s \<Longrightarrow> s_id s = e_source g \<or> s_id s = e_target g \<Longrightarrow> s \<in> set (sessions d')"
    and fr: "outbox d' = outbox d" "map i_id (invocations d') = map i_id (invocations d)" "epochs d' = epochs d"
  shows "calm d d'"
proof -
  have o: "\<exists>g. g \<in> set (edges d) \<and> \<not> gone g \<and> same_edge g h" if "h \<in> set (edges d')" for h
    using that unfolding E by (rule drop_edges_origin) blast
  have "attached d' (e_zone h) (e_source h) \<and> attached d' (e_zone h) (e_target h)" if h: "h \<in> set (edges d')" "e_status h = EActive" for h
  proof -
    obtain g where g: "g \<in> set (edges d)" "\<not> gone g" "same_edge g h" using o h(1) by blast
    have at: "attached d (e_zone g) (e_source g) \<and> attached d (e_zone g) (e_target g)"
      using store_okD(4) [OF ok] g(1) h(2) same_edge_simps(2) [OF g(3)] unfolding tied_def list_all_iff by auto
    have "attached d' (e_zone g) i" if "i = e_source g \<or> i = e_target g" "attached d (e_zone g) i" for i
      using that keep [OF g(1,2)] unfolding attached_def list_ex_iff by blast
    then show ?thesis using at by (simp add: same_edge_simps [OF g(3)] same_edge_typed [OF g(3)])
  qed
  then have "tied d'" by (simp add: tied_def list_all_iff)
  moreover have "edge_keys d'" using drop_edges_keys [OF store_okD(2) [OF ok], of gone] E by (simp add: edge_keys_def)
  moreover have "list_all edge_fields_ok (edges d')"
    using o same_edge_typed(2) store_okD(3) [OF ok] unfolding list_all_iff by blast
  moreover have "active_ids d' \<subseteq> active_ids d"
  proof
    fix i assume "i \<in> active_ids d'"
    then obtain h where h: "h \<in> set (edges d')" "e_status h = EActive" "e_id h = i" by (auto simp: active_ids_def)
    then obtain g where "g \<in> set (edges d)" "same_edge g h" using o by blast
    then show "i \<in> active_ids d" using h same_edge_simps(1,2) by (auto simp: active_ids_def intro!: image_eqI [of _ _ g])
  qed
  ultimately show ?thesis
    using S fr store_okD(5,6) [OF ok] by (auto simp: calm_def store_ok_def outbox_keys_def live_ids_def epoch_of_def)
qed

lemma drop_edges_epochs: "epochs (drop_edges gone d) = epochs d"
  by (simp add: drop_edges_def)

lemma delete_edges_calm:
  assumes "store_ok d"
  shows "calm d (snd (delete_edges e c d))"
  unfolding delete_edges_def Let_def snd_conv
  by (rule drop_calm [OF assms])
    (simp_all add: drop_edges_frame store_okD(1) [OF assms] session_inv_cong [OF drop_edges_frame(1)] drop_edges_epochs)


lemma delete_sessions_calm:
  assumes ok: "store_ok d"
  shows "calm d (snd (delete_sessions e c d))"
proof -
  note inv = store_okD(1) [OF ok]
  define ids where "ids = map s_id (take (retentionCleanupBatchSize c)
                 (sort_key (\<lambda>s. the (s_terminated s)) (sort_key s_id (filter (old_session e c d) (sessions d)))))"
  have old: "old_session e c d s" if "s \<in> set (sessions d)" "s_id s \<in> set ids" for s
    using batch_member [of s_id "sessions d" s _ _ "old_session e c d"] inv that unfolding ids_def session_inv_def by force
  let ?gone = "\<lambda>g. e_source g \<in> set ids \<or> e_target g \<in> set ids"
  define d1 where "d1 = d\<lparr>invocations := map (detach_invocation e ids) (invocations d),
      sessions := filter (\<lambda>s. s_id s \<notin> set ids) (sessions d),
      topology := filter (\<lambda>(p, k). p \<notin> set ids \<and> k \<notin> set ids) (topology d)\<rparr>"
  have r: "snd (delete_sessions e c d) = drop_edges ?gone d1" by (simp add: delete_sessions_def Let_def ids_def d1_def)
  have S: "sessions (drop_edges ?gone d1) = filter (\<lambda>s. s_id s \<notin> set ids) (sessions d)" by (simp add: d1_def)
  have "session_inv (drop_edges ?gone d1)"
    by (rule session_inv_delete [OF inv, of "\<lambda>s. s_id s \<in> set ids"]) (use old S in \<open>auto simp: old_session_def live_def\<close>)
  moreover have "edges (drop_edges ?gone d1) = edges (drop_edges ?gone d)" by (simp add: drop_edges_def d1_def)
  moreover have "map i_id (map (detach_invocation e ids) (invocations d)) = map i_id (invocations d)"
    by (simp add: detach_invocation_def)
  ultimately show ?thesis unfolding r
    by (intro drop_calm [OF ok, of _ ?gone]) (auto simp: S drop_edges_epochs d1_def)
qed

lemma delete_rows_calm:
  assumes "store_ok d"
  shows "calm d (snd (delete_outbox e c d))" "calm d (snd (delete_receipts e c d))"
  by (rule aside_calm [OF assms]; use store_okD(6) [OF assms] in
      \<open>simp add: delete_outbox_def delete_receipts_def Let_def aside_def outbox_keys_def distinct_map_filter\<close>)+

lemma retention_calm:
  assumes "store_ok d"
  shows "calm d (snd (runRetentionCleanup e c locked d))"
proof (cases locked)
  case True
  note 1 = expire_edges_calm [OF assms, of e c]
  note 2 = delete_edges_calm [OF calm_ok [OF 1], of e c]
  note 3 = delete_sessions_calm [OF calm_ok [OF 2], of e c]
  note 4 = delete_rows_calm(1) [OF calm_ok [OF 3], of e c]
  note 5 = delete_rows_calm(2) [OF calm_ok [OF 4], of e c]
  have "snd (runRetentionCleanup e c locked d) =
      snd (delete_receipts e c (snd (delete_outbox e c (snd (delete_sessions e c (snd (delete_edges e c (snd (expire_edges e c d)))))))))"
    using True by (simp add: runRetentionCleanup_def split_beta Let_def)
  then show ?thesis using calm_trans [OF calm_trans [OF calm_trans [OF calm_trans [OF 1 2] 3] 4] 5] by simp
qed (use assms in \<open>simp add: runRetentionCleanup_def\<close>)

section \<open>The coordinator as a state machine\<close>

text \<open>
  One step is a request to a route that writes, a run of a job, or a change of the tables the
  control plane writes: applications, authority records and resources. Requests and runs carry their
  own clock and identifiers, the caller and the body are arbitrary, and the outcome of Redis calls and
  locks is arbitrary too. Identifiers of new rows are never empty.
\<close>

inductive coord_step :: "cfg \<Rightarrow> db \<Rightarrow> db \<Rightarrow> bool" for c where
  start: "start_session e c req z hdr generated body d = (r, d') \<Longrightarrow> (\<And>n. uuidv7 e n \<noteq> []) \<Longrightarrow> coord_step c d d'"
| suspend: "suspend_session e req z i d = (r, d') \<Longrightarrow> coord_step c d d'"
| resume: "resume_session e c req z i d = (r, d') \<Longrightarrow> coord_step c d d'"
| terminate: "terminate_session e req z i query tbody d = (r, d') \<Longrightarrow> coord_step c d d'"
| delegate: "create_delegation e c req z hdr body d = (r, d') \<Longrightarrow> coord_step c d d'"
| revoke: "revoke_delegation e req z i d = (r, d') \<Longrightarrow> coord_step c d d'"
| register: "register_service e req z body d = (r, d') \<Longrightarrow> coord_step c d d'"
| lease: "acquire_lease e c req z i d = (r, d') \<Longrightarrow> coord_step c d d'"
| beat: "heartbeat e c req z i body d = (r, d') \<Longrightarrow> coord_step c d d'"
| invocation: "run_call c call (cs, d) = (cs', d') \<Longrightarrow> coord_step c d d'"
| requeue: "requeue_outbox ok e req z i d = (r, d') \<Longrightarrow> coord_step c d d'"
| publish: "publishBatch hmac key e n k xadd jitter committed (d, streams) = (d', streams') \<Longrightarrow> coord_step c d d'"
| ttl_sweep: "runTTLSweep collation e c locked d = (m, d') \<Longrightarrow> coord_step c d d'"
| lease_sweep: "runServiceLeaseSweep collation e c locked d = (m, d') \<Longrightarrow> coord_step c d d'"
| retention: "runRetentionCleanup e c locked d = (rr, d') \<Longrightarrow> coord_step c d d'"
| control_plane: "coord_step c d (d\<lparr>applications := as, authorities := rs, resources := qs\<rparr>)"

lemma calm_sound: "store_ok d \<Longrightarrow> calm d d' \<Longrightarrow> store_ok d' \<and> settled d d'"
  using calm_ok calm_settled by blast

lemma coord_step_sound:
  assumes ok: "store_ok d" and step: "coord_step c d d'"
  shows "store_ok d' \<and> settled d d'"
  using step
proof cases
  case (start e req z hdr generated body r)
  then show ?thesis using start_session_sound [OF ok] by blast
next
  case (delegate e req z hdr body r)
  then show ?thesis using create_delegation_sound [OF ok] by blast
next
  case (invocation call cs cs')
  then show ?thesis using calm_sound [OF ok run_call_calm [OF ok, of c call cs]] by simp
next
  case (requeue p e req z i r)
  then show ?thesis using calm_sound [OF ok requeue_calm [OF ok, of p e req z i]] by simp
next
  case (publish hmac key e n k xadd jitter committed streams streams')
  then show ?thesis using calm_sound [OF ok publish_calm [OF ok, of hmac key e n k xadd jitter committed streams]] by simp
next
  case (ttl_sweep collation e locked m)
  then show ?thesis using calm_sound [OF ok ttl_sweep_calm [OF ok, of collation e c locked]] by simp
next
  case (lease_sweep collation e locked m)
  then show ?thesis using calm_sound [OF ok lease_sweep_calm [OF ok, of collation e c locked]] by simp
next
  case (retention e locked rr)
  then show ?thesis using calm_sound [OF ok retention_calm [OF ok, of e c locked]] by simp
next
  case (control_plane as rs qs)
  then show ?thesis
    by (intro calm_sound [OF ok aside_calm [OF ok]]) (use store_okD(6) [OF ok] in \<open>simp_all add: aside_def outbox_keys_def\<close>)
qed (auto intro!: calm_sound [OF ok] intro: suspend_session_calm [OF ok] resume_session_calm [OF ok] terminate_session_calm [OF ok]
    revoke_calm [OF ok] register_calm [OF ok] lease_calm [OF ok] heartbeat_calm [OF ok])

end
