(* ===== verification/CoordAuth.thy ===== *)
theory CoordAuth
  imports AgentServices
begin

text \<open>
  The bearer check in front of every coordinator route: \<open>apps/coordinator/src/auth.ts\<close>. The JWT library
  is a parameter: \<open>decodeJwt\<close> reads the claims of a token without checking it (\<open>None\<close> when it throws)
  and \<open>jwtVerify\<close> checks signature, issuer, audience, algorithm and expiry against the key set of one
  zone, and yields the payload or the code of the error it throws. The cache of key-set resolvers is
  the list of the zones it holds, oldest first; the resolver of a zone is determined by the zone.
\<close>

subsection \<open>Configuration, requests and the library\<close>

type_synonym jwt_payload = "(string \<times> json) list"

record jose =
  decodeJwt :: "string \<Rightarrow> jwt_payload option"
  jwtVerify :: "zone \<Rightarrow> string \<Rightarrow> string \<Rightarrow> string \<Rightarrow> string option + jwt_payload"

record auth_cfg =
  ac_issuerUrl :: string
  ac_audience :: string
  ac_requiredScope :: string
  ac_coordinatorToken :: string
  ac_jwksCacheMax :: nat

record request =
  rq_method :: string
  rq_url :: string
  rq_authorization :: "string option"
  rq_zone :: "string option"

definition pathOnly :: "string \<Rightarrow> string" where
  "pathOnly url = takeWhile (\<lambda>c. c \<noteq> CHR ''?'') url"

subsection \<open>The resolver cache\<close>

definition jwksForZone :: "nat \<Rightarrow> zone \<Rightarrow> zone list \<Rightarrow> zone list" where
  "jwksForZone cacheMax z cache =
    (if z \<in> set cache then removeAll z cache @ [z]
     else let grown = cache @ [z] in drop (length grown - cacheMax) grown)"

subsection \<open>Claims\<close>

definition claim_string :: "jwt_payload \<Rightarrow> string \<Rightarrow> string option" where
  "claim_string p k = (case jget p k of Some (JStr s) \<Rightarrow> Some s | _ \<Rightarrow> None)"

definition isSessionMandate :: "jwt_payload \<Rightarrow> bool" where
  "isSessionMandate p = (jget p ''use'' = Some (JStr ''session''))"

definition emptyArray :: "json option \<Rightarrow> bool" where
  "emptyArray v = (v = None \<or> v = Some (JArr []))"

datatype subject_proof = ProofOk string string | ProofBad int string

definition validateSubjectProofClaims :: "jwt_payload \<Rightarrow> string \<Rightarrow> subject_proof" where
  "validateSubjectProofClaims p applicationId =
    (if jget p ''client_id'' \<noteq> Some (JStr applicationId) then ProofBad 403 ''subject_proof_application_mismatch''
     else if claim_string p ''sub'' \<in> {None, Some []} \<or> claim_string p ''sid'' \<in> {None, Some []} \<or>
       jget p ''root_sid'' \<noteq> jget p ''sid'' \<or> \<not> isSessionMandate p \<or> jget p ''sub_type'' \<noteq> Some (JStr ''user'') \<or>
       (jget p ''scope'' \<noteq> None \<and> jget p ''scope'' \<noteq> Some (JStr [])) \<or>
       \<not> emptyArray (jget p ''target'') \<or> \<not> emptyArray (jget p ''delegation_path'') \<or>
       jget p ''agent_session_id'' \<noteq> None \<or> jget p ''delegation_edge_id'' \<noteq> None \<or>
       jget p ''source_session_id'' \<noteq> None \<or> jget p ''target_session_id'' \<noteq> None \<or>
       (case jget p ''iat'' of Some (JInt _) \<Rightarrow> False | Some (JFrac _) \<Rightarrow> False | _ \<Rightarrow> True) \<or>
       claim_string p ''jti'' \<in> {None, Some []}
     then ProofBad 401 ''invalid_subject_proof''
     else ProofOk (the (claim_string p ''sid'')) (the (claim_string p ''sub'')))"

definition classifyError :: "string option \<Rightarrow> string" where
  "classifyError thrown = (case thrown of None \<Rightarrow> ''unknown_error'' | Some c \<Rightarrow>
     (if c = ''ERR_JWT_EXPIRED'' then ''token_expired''
      else if c = ''ERR_JWT_CLAIM_VALIDATION_FAILED'' then ''claim_invalid''
      else if c = ''ERR_JWS_SIGNATURE_VERIFICATION_FAILED'' then ''signature_invalid''
      else if c = ''ERR_JOSE_ALG_NOT_ALLOWED'' then ''algorithm_not_allowed''
      else if c = ''ERR_JWKS_NO_MATCHING_KEY'' then ''jwks_no_matching_key''
      else if c = ''ERR_JWKS_TIMEOUT'' then ''jwks_timeout''
      else if starts_with ''ERR_JOSE_'' c then ''jose_error'' else ''unknown_error''))"

definition MAX_BEARER_BYTES :: nat where "MAX_BEARER_BYTES = 4096"

definition verifySubjectProof :: "jose \<Rightarrow> auth_cfg \<Rightarrow> string \<Rightarrow> zone \<Rightarrow> string \<Rightarrow> subject_proof" where
  "verifySubjectProof j ac token z applicationId =
    (if token = [] \<or> MAX_BEARER_BYTES < length token then ProofBad 401 ''invalid_subject_proof''
     else case decodeJwt j token of
       None \<Rightarrow> ProofBad 401 ''invalid_subject_proof''
     | Some decoded \<Rightarrow>
        (if jget decoded ''zone_id'' \<noteq> Some (JStr z) then ProofBad 401 ''invalid_subject_proof''
         else case jwtVerify j z token (ac_issuerUrl ac) (ac_audience ac) of
           Inl _ \<Rightarrow> ProofBad 401 ''invalid_subject_proof''
         | Inr verified \<Rightarrow> validateSubjectProofClaims verified applicationId))"

subsection \<open>The operator token\<close>

definition matchesOperatorToken :: "auth_cfg \<Rightarrow> string \<Rightarrow> bool" where
  "matchesOperatorToken ac token = (ac_coordinatorToken ac \<noteq> [] \<and> token = ac_coordinatorToken ac)"

definition path_parts :: "string \<Rightarrow> string list" where
  "path_parts path = filter (\<lambda>p. p \<noteq> []) (split_on (CHR ''/'') path)"

definition part :: "nat \<Rightarrow> string list \<Rightarrow> string" where
  "part n ps = (if n < length ps then ps ! n else [])"

definition operatorZone :: "string \<Rightarrow> string \<Rightarrow> zone option" where
  "operatorZone method path =
    (let parts = path_parts path; n = length parts; get = (method = ''GET''); patch = (method = ''PATCH'') in
     if part 0 parts \<noteq> ''zones'' \<or> part 1 parts = [] \<or> \<not> CoordinatorIdPattern (part 1 parts) then None
     else if part 2 parts = ''agents'' \<and>
         ((get \<and> (n = 3 \<or> n = 4)) \<or>
          (get \<and> n = 5 \<and> (part 4 parts = ''children'' \<or> part 4 parts = ''effective-authority'')) \<or>
          (patch \<and> n = 5 \<and> (part 4 parts = ''suspend'' \<or> part 4 parts = ''resume'')) \<or>
          (method = ''DELETE'' \<and> n = 4)) then Some (part 1 parts)
     else if part 2 parts = ''delegations'' \<and>
         ((get \<and> n = 4 \<and> part 3 parts = ''active'') \<or>
          (get \<and> n = 5 \<and> (part 3 parts = ''inbound'' \<or> part 3 parts = ''outbound'')) \<or>
          (get \<and> n = 6 \<and> part 3 parts = ''inbound'') \<or>
          (get \<and> n = 5 \<and> (part 4 parts = ''traverse'' \<or> part 4 parts = ''impact'')) \<or>
          (patch \<and> n = 5 \<and> part 4 parts = ''revoke'')) then Some (part 1 parts)
     else if part 2 parts = ''agent-services'' \<and> get \<and> n = 3 then Some (part 1 parts)
     else if part 2 parts = ''invocations'' \<and> get \<and> n = 3 then Some (part 1 parts)
     else if part 2 parts = ''outbox'' \<and> method = ''POST'' \<and> n = 5 \<and> part 4 parts = ''requeue'' then Some (part 1 parts)
     else None)"

subsection \<open>The bearer check\<close>

definition PUBLIC_PATHS :: "string list" where "PUBLIC_PATHS = [''/health'', ''/ready'', ''/v1/verify'']"
definition OPERATOR_TOKEN_PATHS :: "string list" where "OPERATOR_TOKEN_PATHS = [''/metrics'', ''/stats'']"
definition BEARER_PREFIX :: string where "BEARER_PREFIX = ''Bearer ''"
definition OPERATOR_SUBJECT :: string where "OPERATOR_SUBJECT = ''caracal-operator''"

definition validateRuntimeIdentity :: "env \<Rightarrow> db \<Rightarrow> zone \<Rightarrow> string \<Rightarrow> string option \<Rightarrow> bool" where
  "validateRuntimeIdentity e d z clientId authorityRecordId =
    (case find_application e d z clientId of
       None \<Rightarrow> False
     | Some _ \<Rightarrow> \<not> truthy authorityRecordId \<or> authority_live e d z (the authorityRecordId))"

definition operator_auth :: "auth_cfg \<Rightarrow> zone \<Rightarrow> auth" where
  "operator_auth ac z = \<lparr>au_zone = z, au_scopes = [ac_requiredScope ac, ''coordinator.admin''], au_subject = OPERATOR_SUBJECT,
     au_client = OPERATOR_SUBJECT, au_session = None, au_edge = None, au_authority = None\<rparr>"

text \<open>The checks on a verified payload.\<close>

definition payload_scopes :: "jwt_payload \<Rightarrow> string list" where
  "payload_scopes p = (case claim_string p ''scope'' of None \<Rightarrow> [] | Some s \<Rightarrow> filter (\<lambda>t. t \<noteq> []) (split_ws s))"

definition check_payload :: "auth_cfg \<Rightarrow> env \<Rightarrow> db \<Rightarrow> zone \<Rightarrow> string option \<Rightarrow> jwt_payload \<Rightarrow> reply + auth" where
  "check_payload ac e d tokenZone paramZone p =
     reject (claim_string p ''zone_id'' \<in> {None, Some []} \<or> claim_string p ''zone_id'' \<noteq> Some tokenZone) (err 401 ''invalid_token'')
    (reject (\<not> isSessionMandate p) (err 401 ''invalid_token'')
    (reject (claim_string p ''sub'' \<in> {None, Some []}) (err 401 ''invalid_token'')
    (reject (ac_requiredScope ac \<notin> set (payload_scopes p)) (err 403 ''missing_scope'')
    (reject (truthy paramZone \<and> paramZone \<noteq> Some tokenZone) (err 403 ''zone_mismatch'')
    (reject (claim_string p ''client_id'' \<in> {None, Some []}) (err 401 ''invalid_token'')
    (reject (\<not> validateRuntimeIdentity e d tokenZone (the (claim_string p ''client_id'')) (claim_string p ''sid''))
       (err 401 ''identity_revoked'')
    (Inr \<lparr>au_zone = tokenZone, au_scopes = payload_scopes p, au_subject = the (claim_string p ''sub''),
          au_client = the (claim_string p ''client_id''), au_session = claim_string p ''agent_session_id'',
          au_edge = claim_string p ''delegation_edge_id'', au_authority = claim_string p ''sid''\<rparr>)))))))"

text \<open>The mandate path, with the resolver cache it touches.\<close>

definition verify_mandate :: "jose \<Rightarrow> auth_cfg \<Rightarrow> env \<Rightarrow> db \<Rightarrow> string option \<Rightarrow> string \<Rightarrow> zone list \<Rightarrow> (reply + auth) \<times> zone list" where
  "verify_mandate j ac e d paramZone token cache =
    (case decodeJwt j token of
       None \<Rightarrow> (Inl (err 401 ''invalid_token''), cache)
     | Some claims \<Rightarrow>
        (case claim_string claims ''zone_id'' of
           None \<Rightarrow> (Inl (err 401 ''invalid_token''), cache)
         | Some z \<Rightarrow>
            (if \<not> CoordinatorIdPattern z then (Inl (err 401 ''invalid_token''), cache)
             else let cache1 = jwksForZone (ac_jwksCacheMax ac) z cache in
               case jwtVerify j z token (ac_issuerUrl ac) (ac_audience ac) of
                 Inl _ \<Rightarrow> (Inl (err 401 ''invalid_token''), cache1)
               | Inr verified \<Rightarrow> (check_payload ac e d z paramZone verified, cache1))))"

text \<open>
  \<open>Inl\<close> is the reply that ends the request; \<open>Inr None\<close> lets a public or an operator-token path through
  without an identity; \<open>Inr (Some a)\<close> attaches the identity \<open>a\<close>.
\<close>

definition bearer_token :: "request \<Rightarrow> string option" where
  "bearer_token rq = (case rq_authorization rq of
      None \<Rightarrow> None
    | Some h \<Rightarrow> if \<not> starts_with BEARER_PREFIX h then None
               else let token = trim (drop (length BEARER_PREFIX) h) in
                    if token = [] \<or> MAX_BEARER_BYTES < length token then None else Some token)"

definition verifyBearer :: "jose \<Rightarrow> auth_cfg \<Rightarrow> env \<Rightarrow> db \<Rightarrow> request \<Rightarrow> zone list \<Rightarrow> (reply + auth option) \<times> zone list" where
  "verifyBearer j ac e d rq cache =
    (let path = pathOnly (rq_url rq) in
     if path \<in> set PUBLIC_PATHS then (Inr None, cache)
     else case bearer_token rq of
       None \<Rightarrow> (Inl (err 401 ''missing_token''), cache)
     | Some token \<Rightarrow>
        (if matchesOperatorToken ac token \<and> path \<in> set OPERATOR_TOKEN_PATHS then (Inr None, cache)
         else if matchesOperatorToken ac token \<and> operatorZone (rq_method rq) path \<noteq> None
         then (Inr (Some (operator_auth ac (the (operatorZone (rq_method rq) path)))), cache)
         else if path \<in> set OPERATOR_TOKEN_PATHS then (Inl (err 403 ''operator_token_required''), cache)
         else case verify_mandate j ac e d (rq_zone rq) token cache of
             (Inl r, cache1) \<Rightarrow> (Inl r, cache1)
           | (Inr a, cache1) \<Rightarrow> (Inr (Some a), cache1)))"

subsection \<open>Who is admitted\<close>

text \<open>The identity a verified mandate stands for, written without the order of the checks.\<close>

definition mandate_identity :: "jose \<Rightarrow> auth_cfg \<Rightarrow> env \<Rightarrow> db \<Rightarrow> string option \<Rightarrow> string \<Rightarrow> auth \<Rightarrow> bool" where
  "mandate_identity j ac e d paramZone token a \<longleftrightarrow>
    (\<exists>claims p. decodeJwt j token = Some claims \<and> claim_string claims ''zone_id'' = Some (au_zone a) \<and>
       CoordinatorIdPattern (au_zone a) \<and>
       jwtVerify j (au_zone a) token (ac_issuerUrl ac) (ac_audience ac) = Inr p \<and>
       claim_string p ''zone_id'' = Some (au_zone a) \<and> isSessionMandate p \<and>
       claim_string p ''sub'' = Some (au_subject a) \<and> au_subject a \<noteq> [] \<and>
       claim_string p ''client_id'' = Some (au_client a) \<and> au_client a \<noteq> [] \<and>
       au_scopes a = payload_scopes p \<and> ac_requiredScope ac \<in> set (au_scopes a) \<and>
       au_session a = claim_string p ''agent_session_id'' \<and> au_edge a = claim_string p ''delegation_edge_id'' \<and>
       au_authority a = claim_string p ''sid'' \<and>
       (truthy paramZone \<longrightarrow> paramZone = Some (au_zone a)) \<and>
       find_application e d (au_zone a) (au_client a) \<noteq> None \<and>
       (truthy (au_authority a) \<longrightarrow> authority_live e d (au_zone a) (the (au_authority a))))"

lemma id_pattern_ne: "CoordinatorIdPattern z \<Longrightarrow> z \<noteq> []"
  by (auto simp: CoordinatorIdPattern_def)

lemma check_payload_iff:
  assumes "CoordinatorIdPattern z"
  shows "check_payload ac e d z pz p = Inr a \<longleftrightarrow>
    au_zone a = z \<and> claim_string p ''zone_id'' = Some z \<and> isSessionMandate p \<and>
    claim_string p ''sub'' = Some (au_subject a) \<and> au_subject a \<noteq> [] \<and>
    claim_string p ''client_id'' = Some (au_client a) \<and> au_client a \<noteq> [] \<and>
    au_scopes a = payload_scopes p \<and> ac_requiredScope ac \<in> set (au_scopes a) \<and>
    au_session a = claim_string p ''agent_session_id'' \<and> au_edge a = claim_string p ''delegation_edge_id'' \<and>
    au_authority a = claim_string p ''sid'' \<and> (truthy pz \<longrightarrow> pz = Some z) \<and>
    find_application e d z (au_client a) \<noteq> None \<and>
    (truthy (au_authority a) \<longrightarrow> authority_live e d z (the (au_authority a)))"
    (is "_ = ?R")
proof
  assume "check_payload ac e d z pz p = Inr a"
  then show ?R by (auto simp: check_payload_def reject_Inr validateRuntimeIdentity_def split: option.splits)
next
  assume R: ?R
  then obtain n where "find_application e d z (au_client a) = Some n" by blast
  then have "validateRuntimeIdentity e d z (au_client a) (claim_string p ''sid'')"
    using R by (auto simp: validateRuntimeIdentity_def)
  with R id_pattern_ne [OF assms] show "check_payload ac e d z pz p = Inr a"
    unfolding check_payload_def reject_Inr by clarsimp
qed

lemma verify_mandate_iff:
  "fst (verify_mandate j ac e d pz token cache) = Inr a \<longleftrightarrow> mandate_identity j ac e d pz token a"
proof (cases "decodeJwt j token")
  case None
  then show ?thesis by (simp add: verify_mandate_def mandate_identity_def)
next
  case (Some claims)
  show ?thesis
  proof (cases "\<exists>z p. claim_string claims ''zone_id'' = Some z \<and> CoordinatorIdPattern z \<and>
      jwtVerify j z token (ac_issuerUrl ac) (ac_audience ac) = Inr p")
    case True
    then obtain z p where zp: "claim_string claims ''zone_id'' = Some z" "CoordinatorIdPattern z"
      "jwtVerify j z token (ac_issuerUrl ac) (ac_audience ac) = Inr p" by blast
    then have "fst (verify_mandate j ac e d pz token cache) = check_payload ac e d z pz p"
      by (simp add: verify_mandate_def Some Let_def)
    moreover have "check_payload ac e d z pz p = Inr a \<longleftrightarrow> mandate_identity j ac e d pz token a"
    proof
      assume "check_payload ac e d z pz p = Inr a"
      note c = this [unfolded check_payload_iff [OF zp(2)]]
      show "mandate_identity j ac e d pz token a" unfolding mandate_identity_def
        by (rule exI [of _ claims], rule exI [of _ p]) (use c zp Some in clarsimp)
    next
      assume "mandate_identity j ac e d pz token a"
      then obtain p' where m: "claim_string claims ''zone_id'' = Some (au_zone a)"
        "jwtVerify j (au_zone a) token (ac_issuerUrl ac) (ac_audience ac) = Inr p'"
        and r: "check_payload ac e d (au_zone a) pz p' = Inr a"
        unfolding mandate_identity_def using Some check_payload_iff [of "au_zone a" ac e d pz _ a] by force
      then have "au_zone a = z" "p' = p" using zp by simp_all
      then show "check_payload ac e d z pz p = Inr a" using r by simp
    qed
    ultimately show ?thesis by simp
  next
    case False
    then show ?thesis
      by (auto simp: verify_mandate_def mandate_identity_def Some Let_def split: option.splits sum.splits)
  qed
qed

text \<open>
  C2: who is let in, and as whom. The bearer check attaches an identity exactly in two cases. With
  the configured operator token, on a route of the operator's table, it is the operator of the zone
  in the path. Otherwise it is the identity of a session mandate: one that the library verified
  against the key set of its own zone with the configured issuer and audience, whose claims name
  that zone, a subject, a client and the required scope, whose zone is the one in the path if the
  path names one, whose client is a live application of the zone and whose authority record, if it
  names one, is live there.
\<close>

theorem verifyBearer_admits_iff:
  "fst (verifyBearer j ac e d rq cache) = Inr (Some a) \<longleftrightarrow>
     (\<exists>token. bearer_token rq = Some token \<and> pathOnly (rq_url rq) \<notin> set PUBLIC_PATHS \<and>
        pathOnly (rq_url rq) \<notin> set OPERATOR_TOKEN_PATHS \<and>
        (if matchesOperatorToken ac token \<and> operatorZone (rq_method rq) (pathOnly (rq_url rq)) \<noteq> None
         then a = operator_auth ac (the (operatorZone (rq_method rq) (pathOnly (rq_url rq))))
         else mandate_identity j ac e d (rq_zone rq) token a))"
proof -
  have none: "operatorZone m p = None" if "p \<in> set OPERATOR_TOKEN_PATHS" for m p
    using that by (auto simp: OPERATOR_TOKEN_PATHS_def operatorZone_def path_parts_def part_def)
  show ?thesis
  proof (cases "bearer_token rq")
    case None
    then show ?thesis by (simp add: verifyBearer_def Let_def)
  next
    case (Some token)
    have m: "mandate_identity j ac e d (rq_zone rq) token a \<longleftrightarrow> fst (verify_mandate j ac e d (rq_zone rq) token cache) = Inr a"
      by (simp add: verify_mandate_iff)
    show ?thesis using none by (auto simp: m verifyBearer_def Let_def Some split: prod.splits sum.splits)
  qed
qed

subsection \<open>What the operator token may change\<close>

lemma list_of_length:
  "length ps = Suc n \<longleftrightarrow> (\<exists>x qs. ps = x # qs \<and> length qs = n)"
  by (cases ps) auto

lemma parts_of_length:
  "n = 4 \<Longrightarrow> length ps = n \<longleftrightarrow> (\<exists>a b c x. ps = [a, b, c, x])"
  "n = 5 \<Longrightarrow> length ps = n \<longleftrightarrow> (\<exists>a b c x y. ps = [a, b, c, x, y])"
  by (auto simp: numeral_eq_Suc list_of_length)

definition operator_change :: "string \<Rightarrow> string list \<Rightarrow> zone \<Rightarrow> bool" where
  "operator_change method parts z \<longleftrightarrow> (\<exists>i.
     method = ''PATCH'' \<and> parts \<in> {[''zones'', z, ''agents'', i, ''suspend''], [''zones'', z, ''agents'', i, ''resume''],
                                  [''zones'', z, ''delegations'', i, ''revoke'']} \<or>
     method = ''DELETE'' \<and> parts = [''zones'', z, ''agents'', i] \<or>
     method = ''POST'' \<and> parts = [''zones'', z, ''outbox'', i, ''requeue''])"

text \<open>
  C35: what the operator token may change. Apart from reads, the operator's table holds five routes:
  suspend, resume and terminate a session, revoke a delegation, and requeue a dead outbox row, each
  in the zone the path names. No other method or path is granted to the operator token.
\<close>

theorem operator_mutations:
  assumes "method \<noteq> ''GET''"
  shows "operatorZone method path = Some z \<longleftrightarrow> CoordinatorIdPattern z \<and> operator_change method (path_parts path) z"
proof -
  define ps where "ps = path_parts path"
  have p4: "length ps = 4 \<longleftrightarrow> (\<exists>a b c x. ps = [a, b, c, x])" and p5: "length ps = 5 \<longleftrightarrow> (\<exists>a b c x y. ps = [a, b, c, x, y])"
    by (simp_all add: parts_of_length)
  have "operatorZone method path = Some z \<longleftrightarrow>
    part 0 ps = ''zones'' \<and> part 1 ps = z \<and> z \<noteq> [] \<and> CoordinatorIdPattern z \<and>
    (part 2 ps = ''agents'' \<and> (method = ''PATCH'' \<and> length ps = 5 \<and> (part 4 ps = ''suspend'' \<or> part 4 ps = ''resume'') \<or>
        method = ''DELETE'' \<and> length ps = 4) \<or>
     part 2 ps = ''delegations'' \<and> method = ''PATCH'' \<and> length ps = 5 \<and> part 4 ps = ''revoke'' \<or>
     part 2 ps = ''outbox'' \<and> method = ''POST'' \<and> length ps = 5 \<and> part 4 ps = ''requeue'')"
    using assms unfolding operatorZone_def ps_def [symmetric] Let_def by (auto split: if_splits)
  also have "\<dots> \<longleftrightarrow> CoordinatorIdPattern z \<and> operator_change method ps z"
  proof
    assume L: "part 0 ps = ''zones'' \<and> part 1 ps = z \<and> z \<noteq> [] \<and> CoordinatorIdPattern z \<and>
      (part 2 ps = ''agents'' \<and> (method = ''PATCH'' \<and> length ps = 5 \<and> (part 4 ps = ''suspend'' \<or> part 4 ps = ''resume'') \<or>
        method = ''DELETE'' \<and> length ps = 4) \<or>
       part 2 ps = ''delegations'' \<and> method = ''PATCH'' \<and> length ps = 5 \<and> part 4 ps = ''revoke'' \<or>
       part 2 ps = ''outbox'' \<and> method = ''POST'' \<and> length ps = 5 \<and> part 4 ps = ''requeue'')"
    then have "length ps = 4 \<or> length ps = 5" by blast
    then show "CoordinatorIdPattern z \<and> operator_change method ps z"
    proof
      assume "length ps = 4"
      then obtain a b c x where "ps = [a, b, c, x]" using p4 by blast
      then show ?thesis using L by (auto simp: part_def operator_change_def)
    next
      assume "length ps = 5"
      then obtain a b c x y where "ps = [a, b, c, x, y]" using p5 by blast
      then show ?thesis using L by (auto simp: part_def operator_change_def)
    qed
  next
    assume "CoordinatorIdPattern z \<and> operator_change method ps z"
    then show "part 0 ps = ''zones'' \<and> part 1 ps = z \<and> z \<noteq> [] \<and> CoordinatorIdPattern z \<and>
      (part 2 ps = ''agents'' \<and> (method = ''PATCH'' \<and> length ps = 5 \<and> (part 4 ps = ''suspend'' \<or> part 4 ps = ''resume'') \<or>
        method = ''DELETE'' \<and> length ps = 4) \<or>
       part 2 ps = ''delegations'' \<and> method = ''PATCH'' \<and> length ps = 5 \<and> part 4 ps = ''revoke'' \<or>
       part 2 ps = ''outbox'' \<and> method = ''POST'' \<and> length ps = 5 \<and> part 4 ps = ''requeue'')"
      using id_pattern_ne [of z] unfolding operator_change_def insert_iff empty_iff
      by (elim conjE exE disjE) (simp_all add: part_def)
  qed
  finally show ?thesis by (simp add: ps_def)
qed

theorem operator_mutations_witness:
  "operatorZone ''DELETE'' ''/zones/z1/agents/s'' = Some ''z1'' \<and> operatorZone ''POST'' ''/zones/z1/agents'' = None"
proof
  have "CoordinatorIdPattern ''z1'' \<and> operator_change ''DELETE'' (path_parts ''/zones/z1/agents/s'') ''z1''"
    by (simp add: path_parts_def operator_change_def CoordinatorIdPattern_def id_char_def)
  then show "operatorZone ''DELETE'' ''/zones/z1/agents/s'' = Some ''z1''"
    using operator_mutations [of "''DELETE''" "''/zones/z1/agents/s''" "''z1''"] by simp
  have "\<not> operator_change ''POST'' (path_parts ''/zones/z1/agents'') z" for z
    by (simp add: path_parts_def operator_change_def)
  then show "operatorZone ''POST'' ''/zones/z1/agents'' = None"
    using operator_mutations [of "''POST''" "''/zones/z1/agents''"] by (cases "operatorZone ''POST'' ''/zones/z1/agents''") auto
qed

subsection \<open>The resolver cache is a least-recently-used cache\<close>

lemma remdups_snoc: "remdups (xs @ [z]) = filter (\<lambda>x. x \<noteq> z) (remdups xs) @ [z]"
  by (induction xs) auto

lemma uniq_Cons: "uniq (z # xs) = z # removeAll z (uniq xs)"
  by (simp add: uniq_def remdups_snoc removeAll_filter_not_eq rev_filter) (rule filter_cong, auto)

lemma removeAll_take:
  assumes "distinct u" "z \<in> set (take m u)"
  shows "removeAll z (take m u) = take (m - 1) (removeAll z u)"
proof -
  obtain i where i: "i < m" "i < length u" "u ! i = z" using assms(2) by (auto simp: in_set_conv_nth)
  define l r where "l = take i u" and "r = drop (Suc i) u"
  have u: "u = l @ z # r" using id_take_nth_drop [OF i(2)] i(3) by (simp add: l_def r_def)
  have l: "length l = i" using i by (simp add: l_def)
  have nz: "z \<notin> set l" "z \<notin> set r" using assms(1) u by auto
  have "removeAll z u = l @ r" using nz by (simp add: u)
  moreover have "take m u = l @ z # take (m - Suc i) r" using i(1) l by (simp add: u take_Cons')
  moreover have "z \<notin> set (take (m - Suc i) r)" using nz(2) by (meson in_set_takeD)
  ultimately show ?thesis using nz(1) l i(1) by simp
qed

lemma jwksForZone_lru:
  assumes "0 < m"
  shows "jwksForZone m z (rev (take m (uniq xs))) = rev (take m (uniq (z # xs)))"
proof (cases "z \<in> set (take m (uniq xs))")
  case True
  have "removeAll z (rev (take m (uniq xs))) = rev (take (m - 1) (removeAll z (uniq xs)))"
    using removeAll_take [OF distinct_uniq True] by (simp add: removeAll_filter_not_eq rev_filter [symmetric])
  then show ?thesis using True assms by (simp add: jwksForZone_def uniq_Cons take_Cons')
next
  case False
  define u where "u = uniq xs"
  have "take (m - 1) (removeAll z u) = take (m - 1) u"
  proof -
    have "removeAll z u = take m u @ removeAll z (drop m u)"
      using False unfolding u_def [symmetric] by (metis append_take_drop_id removeAll_append removeAll_id)
    then show ?thesis by (cases "m \<le> length u") (auto simp: min_def)
  qed
  moreover have "jwksForZone m z (rev (take m u)) = rev (z # take (m - 1) u)"
  proof (cases "m \<le> length u")
    case True
    have "drop 1 (rev (take m u)) = rev (take (m - 1) u)" using True assms
      by (simp add: drop_rev min_def butlast_take [symmetric] take_take)
    then show ?thesis using False True assms
      by (auto simp: jwksForZone_def u_def [symmetric] Let_def min_def drop_append)
  next
    case shorter: False
    then show ?thesis using False assms by (auto simp: jwksForZone_def u_def [symmetric] Let_def)
  qed
  ultimately show ?thesis using assms by (simp add: uniq_Cons u_def [symmetric] take_Cons')
qed

text \<open>
  The cache of key-set resolvers is a least-recently-used cache. After any sequence of lookups it
  holds exactly the most recently used distinct zones, at most the configured number of them, ordered
  from the least to the most recent.
\<close>

theorem jwks_cache_lru:
  assumes "0 < m"
  shows "fold (jwksForZone m) zs [] = rev (take m (uniq (rev zs)))"
proof (induction zs rule: rev_induct)
  case Nil
  then show ?case by (simp add: uniq_def)
next
  case (snoc z zs)
  then show ?case using jwksForZone_lru [OF assms, of z "rev zs"] by simp
qed

theorem jwks_cache_lru_witness:
  "fold (jwksForZone 2) [''a'', ''b'', ''a'', ''c''] [] = [''a'', ''c'']"
  using jwks_cache_lru [of 2 "[''a'', ''b'', ''a'', ''c'']"] by (simp add: uniq_def)

end
