(* ===== verification/AdminAudit.thy ===== *)
theory AdminAudit
  imports CoordAuth StreamSig
begin

text \<open>
  The administrators' audit log: the hash chain of \<open>packages/adminAudit/ts/src/index.ts\<close> and the hooks
  that feed it, \<open>apps/coordinator/src/admin-audit.ts\<close> and \<open>apps/api/src/admin-audit.ts\<close>. The table is the
  list of its rows in the order of insertion. Hash functions come from the environment and
  \<open>decodeURIComponent\<close> is an argument, \<open>None\<close> when it throws. A transaction holds the chain's lock from
  the read of the head to the insert, so inserts are one after the other.
\<close>

section \<open>Records\<close>

record audit_record =
  aa_request :: string
  aa_actor :: "string option"
  aa_name :: "string option"
  aa_scope :: "string option"
  aa_action :: string
  aa_method :: string
  aa_path :: string
  aa_zone :: "string option"
  aa_type :: "string option"
  aa_entity :: "string option"
  aa_status :: int
  aa_payload :: "(string \<times> json) list option"

record audit_row =
  av_rec :: audit_record
  av_id :: string
  av_at :: time
  av_content :: "string option"
  av_prev :: "string option"
  av_hmac :: "string option"
  av_seq :: "int option"

definition MUTATING_METHODS :: "string list" where
  "MUTATING_METHODS = [''POST'', ''PUT'', ''PATCH'', ''DELETE'']"

definition stripNul :: "string \<Rightarrow> string" where
  "stripNul v = (if CHR 0x00 \<in> set v then filter (\<lambda>c. c \<noteq> CHR 0x00) v else v)"

fun sanitizeJson :: "json \<Rightarrow> json" where
  "sanitizeJson (JStr s) = JStr (stripNul s)"
| "sanitizeJson (JArr xs) = JArr (map sanitizeJson xs)"
| "sanitizeJson (JObj kvs) = JObj (foldl (\<lambda>out (k, v). AList.update k v out) []
     (map (\<lambda>(k, v). (stripNul k, sanitizeJson v)) kvs))"
| "sanitizeJson v = v"

definition sanitizeRecord :: "audit_record \<Rightarrow> audit_record" where
  "sanitizeRecord r = r\<lparr>aa_request := stripNul (aa_request r), aa_actor := map_option stripNul (aa_actor r),
     aa_name := map_option stripNul (aa_name r), aa_scope := map_option stripNul (aa_scope r),
     aa_action := stripNul (aa_action r), aa_method := stripNul (aa_method r), aa_path := stripNul (aa_path r),
     aa_zone := map_option stripNul (aa_zone r), aa_type := map_option stripNul (aa_type r),
     aa_entity := map_option stripNul (aa_entity r),
     aa_payload := map_option (\<lambda>p. case sanitizeJson (JObj p) of JObj q \<Rightarrow> q | _ \<Rightarrow> []) (aa_payload r)\<rparr>"

definition content_fields :: "string \<Rightarrow> time \<Rightarrow> audit_record \<Rightarrow> string list" where
  "content_fields i occurredAt r =
    (let text = (\<lambda>v. case v of None \<Rightarrow> [] | Some s \<Rightarrow> s) in
     [i, aa_request r, text (aa_actor r), text (aa_name r), text (aa_scope r), aa_action r, aa_method r, aa_path r,
      text (aa_zone r), text (aa_type r), text (aa_entity r), show_int (aa_status r),
      (case aa_payload r of None \<Rightarrow> [] | Some p \<Rightarrow> render (JObj p)), toISOString occurredAt])"

definition contentHash :: "env \<Rightarrow> string \<Rightarrow> time \<Rightarrow> audit_record \<Rightarrow> string" where
  "contentHash e i occurredAt r = sha256 e (concat (map (\<lambda>s. s @ [CHR 0x1F]) (content_fields i occurredAt r)))"

definition chainHmac :: "env \<Rightarrow> string option \<Rightarrow> string \<Rightarrow> string \<Rightarrow> string" where
  "chainHmac e key contentSha prevSha = (if key = None \<or> key = Some [] then [] else hmac256 e (the key) (contentSha @ ''|'' @ prevSha))"

text \<open>The row that \<open>ORDER BY chain_seq DESC NULLS LAST LIMIT 1\<close> yields for a zone.\<close>

definition later_row :: "audit_row \<Rightarrow> audit_row \<Rightarrow> audit_row" where
  "later_row b r = (case (av_seq r, av_seq b) of (Some n, Some m) \<Rightarrow> if m < n then r else b | (Some n, None) \<Rightarrow> r | _ \<Rightarrow> b)"

definition chain_head :: "string option \<Rightarrow> audit_row list \<Rightarrow> string \<times> int" where
  "chain_head z rows =
    (case filter (\<lambda>r. aa_zone (av_rec r) = z) rows of
       [] \<Rightarrow> ([], 0)
     | r # rs \<Rightarrow> (let h = foldl later_row r rs in
         ((case av_content h of None \<Rightarrow> [] | Some c \<Rightarrow> c), (case av_seq h of None \<Rightarrow> 0 | Some n \<Rightarrow> n))))"

definition audit_row_of :: "env \<Rightarrow> string option \<Rightarrow> audit_record \<Rightarrow> string \<Rightarrow> audit_row list \<Rightarrow> audit_row" where
  "audit_row_of e key r0 i rows =
    (let r = sanitizeRecord r0; (prevSha, seq) = chain_head (aa_zone r) rows;
         contentSha = contentHash e i (now e) r; mac = chainHmac e key contentSha prevSha
     in \<lparr>av_rec = r, av_id = i, av_at = now e, av_content = Some contentSha,
         av_prev = (if prevSha = [] then None else Some prevSha), av_hmac = (if mac = [] then None else Some mac),
         av_seq = Some (seq + 1)\<rparr>)"

text \<open>The insert fails on the primary key.\<close>

definition insertAdminAuditRecord :: "env \<Rightarrow> string option \<Rightarrow> audit_record \<Rightarrow> string \<Rightarrow> audit_row list \<Rightarrow> reply + audit_row list" where
  "insertAdminAuditRecord e key r i rows =
     reject (list_ex (\<lambda>q. av_id q = i) rows) internal_error (Inr (rows @ [audit_row_of e key r i rows]))"


section \<open>The coordinator's hook\<close>

definition audit_entities :: "string list" where
  "audit_entities = [''agents'', ''agent-services'', ''delegations'', ''invocations'', ''applications'', ''outbox'']"

text \<open>The last segment that names a collection and has a segment after it.\<close>

definition entityFromUrl :: "string list \<Rightarrow> string \<Rightarrow> (string \<times> string) option" where
  "entityFromUrl kinds url = (let segments = path_parts (pathOnly url) in
     find (\<lambda>(candidate, n). candidate \<in> set kinds) (rev (zip segments (tl segments))))"

definition after_prefix :: "string \<Rightarrow> string \<Rightarrow> string option" where
  "after_prefix p s = (if starts_with p s then Some (drop (length p) s) else None)"

definition zoneFromParams :: "(string \<Rightarrow> string option) \<Rightarrow> request \<Rightarrow> string option" where
  "zoneFromParams decode rq =
    (if truthy (rq_zone rq) then rq_zone rq
     else case after_prefix ''/zones/'' (pathOnly (rq_url rq)) of
       None \<Rightarrow> None
     | Some rest \<Rightarrow> (let z = takeWhile (\<lambda>c. c \<noteq> CHR ''/'') rest in if z = [] then None else decode z))"

definition coordinator_record :: "(string \<Rightarrow> string option) \<Rightarrow> string \<Rightarrow> request \<Rightarrow> auth \<Rightarrow> int \<Rightarrow> audit_record" where
  "coordinator_record decode rid rq auth status =
    (let path = pathOnly (rq_url rq); entity = entityFromUrl audit_entities (rq_url rq) in
     \<lparr>aa_request = rid, aa_actor = Some (au_subject auth), aa_name = Some (au_client auth), aa_scope = Some (join '' '' (au_scopes auth)),
      aa_action = rq_method rq @ '' '' @ path, aa_method = rq_method rq, aa_path = path, aa_zone = zoneFromParams decode rq,
      aa_type = map_option fst entity, aa_entity = map_option snd entity, aa_status = status, aa_payload = None\<rparr>)"

definition auditExempt :: "string \<Rightarrow> bool" where
  "auditExempt path = (path \<in> {''/health'', ''/ready'', ''/metrics'', ''/stats''})"

text \<open>
  Whether the record could be written: without an identity there is nothing to write, and the database
  may be unavailable.
\<close>

definition persist :: "env \<Rightarrow> string option \<Rightarrow> bool \<Rightarrow> audit_record option \<Rightarrow> string \<Rightarrow> audit_row list \<Rightarrow> audit_row list option" where
  "persist e key up r i rows =
    (case r of None \<Rightarrow> Some rows
     | Some rec \<Rightarrow> if \<not> up then None
                 else case insertAdminAuditRecord e key rec i rows of Inl _ \<Rightarrow> None | Inr rows' \<Rightarrow> Some rows')"

text \<open>
  Both hooks on one reply: a successful mutation is recorded before it is reported, or reported as a
  failure; a failure is recorded after it was reported.
\<close>

definition audited :: "bool \<Rightarrow> bool \<Rightarrow> (audit_row list \<Rightarrow> audit_row list option) \<Rightarrow> reply \<Rightarrow> audit_row list \<Rightarrow> reply \<times> audit_row list" where
  "audited covered mutating write r rows =
    (if covered \<and> code r < 400 \<and> mutating
     then case write rows of None \<Rightarrow> (err 500 ''audit_unavailable'', rows) | Some rows' \<Rightarrow> (r, rows')
     else if covered \<and> 400 \<le> code r then (case write rows of None \<Rightarrow> (r, rows) | Some rows' \<Rightarrow> (r, rows'))
     else (r, rows))"

definition coordinator_audit :: "env \<Rightarrow> string option \<Rightarrow> (string \<Rightarrow> string option) \<Rightarrow> bool \<Rightarrow> string \<Rightarrow> request \<Rightarrow> auth option \<Rightarrow>
    string \<Rightarrow> reply \<Rightarrow> audit_row list \<Rightarrow> reply \<times> audit_row list" where
  "coordinator_audit e key decode up rid rq auth i r rows =
     audited (\<not> auditExempt (pathOnly (rq_url rq))) (rq_method rq \<in> set MUTATING_METHODS)
       (persist e key up (map_option (\<lambda>a. coordinator_record decode rid rq a (code r)) auth) i) r rows"

section \<open>The API's hook\<close>

record actor =
  am_id :: string
  am_name :: string
  am_scope :: string
  am_zone :: "string option"
  am_createdBy :: "string option"

record api_request =
  ap_id :: string
  ap_method :: string
  ap_url :: string
  ap_actor :: "actor option"
  ap_account :: "string option"
  ap_authorizedBy :: "string option"
  ap_createdVia :: "string option"
  ap_body :: "json option"

definition SECRET_FIELD_NAMES :: "string list" where
  "SECRET_FIELD_NAMES = [''client_secret'', ''secret'', ''password'', ''token'', ''private_key'', ''api_key'', ''assertion'',
     ''bearer_token'', ''access_token'', ''refresh_token'']"

definition SECRET_ACTION_SEGMENTS :: "string list" where
  "SECRET_ACTION_SEGMENTS = [''rotate-secret'']"

definition COLLECTION_SEGMENT :: "string list" where
  "COLLECTION_SEGMENT = [''zones'', ''applications'', ''workloads'', ''resources'', ''providers'', ''provider-connections'', ''policies'',
     ''policy-sets'', ''policy-templates'', ''grants'', ''subject-issuers'', ''subjects'', ''approvals'', ''admin-tokens'',
     ''operator-conversations'']"

definition CHANGE_FIELD_DEPTH :: nat where
  "CHANGE_FIELD_DEPTH = 3"

definition CHANGE_FIELD_LIMIT :: nat where
  "CHANGE_FIELD_LIMIT = 64"

definition push_field :: "string \<Rightarrow> string list \<Rightarrow> string list" where
  "push_field path fs = (if length fs < CHANGE_FIELD_LIMIT then fs @ [path] else fs)"

definition field_path :: "string \<Rightarrow> string \<Rightarrow> string" where
  "field_path pre key = (if pre \<noteq> [] then pre @ ''.'' @ key else key)"

fun collectChangedFields :: "(string \<times> json) list \<Rightarrow> string \<Rightarrow> nat \<Rightarrow> string list \<Rightarrow> bool \<times> string list" where
  "collectChangedFields [] pre depth fs = (False, fs)"
| "collectChangedFields ((key, JObj sub) # rest) pre depth fs =
    (if to_lower key \<in> set SECRET_FIELD_NAMES then (True, snd (collectChangedFields rest pre depth fs))
     else if depth < CHANGE_FIELD_DEPTH
     then let (nested, fs1) = collectChangedFields sub (field_path pre key) (Suc depth) fs;
              fs2 = (if length fs1 = length fs \<and> \<not> nested then push_field (field_path pre key) fs1 else fs1);
              (secret, fs3) = collectChangedFields rest pre depth fs2
          in (nested \<or> secret, fs3)
     else collectChangedFields rest pre depth (push_field (field_path pre key) fs))"
| "collectChangedFields ((key, v) # rest) pre depth fs =
    (if to_lower key \<in> set SECRET_FIELD_NAMES then (True, snd (collectChangedFields rest pre depth fs))
     else collectChangedFields rest pre depth (push_field (field_path pre key) fs))"


text \<open>The verb after the innermost entity, when it is not itself a collection.\<close>

definition actionSegment :: "string \<Rightarrow> string option" where
  "actionSegment url = (let segments = path_parts (pathOnly url); n = length segments in
     case find (\<lambda>i. segments ! i \<in> set COLLECTION_SEGMENT) (rev [0..<n - 1]) of
       None \<Rightarrow> None
     | Some i \<Rightarrow> if i + 2 < n \<and> segments ! (i + 2) \<notin> set COLLECTION_SEGMENT then Some (segments ! (i + 2)) else None)"

definition changeSummary :: "string \<Rightarrow> string \<Rightarrow> json option \<Rightarrow> (string \<times> string list \<times> bool) option" where
  "changeSummary verb url body =
    (let action = actionSegment url;
         (found, fs) = (case body of Some (JObj kvs) \<Rightarrow> collectChangedFields kvs [] 0 [] | _ \<Rightarrow> (False, []));
         secretRotated = (found \<or> (case action of None \<Rightarrow> False | Some a \<Rightarrow> a \<in> set SECRET_ACTION_SEGMENTS));
         changeKind = (if verb = ''DELETE'' then ''delete''
                       else if action \<noteq> None then (if secretRotated then ''secret_rotation'' else ''action'')
                       else if verb = ''POST'' then ''create''
                       else if secretRotated then ''secret_rotation'' else ''update'')
     in if changeKind = ''update'' \<and> fs = [] then None else Some (changeKind, sort fs, secretRotated))"

definition zoneFromUrl :: "(string \<Rightarrow> string option) \<Rightarrow> string \<Rightarrow> string option" where
  "zoneFromUrl decode url =
    (case after_prefix ''/v1/zones/'' url of
       None \<Rightarrow> None
     | Some rest \<Rightarrow> (let z = takeWhile (\<lambda>c. c \<noteq> CHR ''/'' \<and> c \<noteq> CHR ''?'') rest in if z = [] then None else decode z))"

definition isProviderOAuthCallback :: "string \<Rightarrow> string \<Rightarrow> bool" where
  "isProviderOAuthCallback verb url = (verb = ''GET'' \<and>
    (case after_prefix ''/v1/zones/'' url of
       None \<Rightarrow> False
     | Some rest \<Rightarrow> takeWhile (\<lambda>c. c \<noteq> CHR ''/'') rest \<noteq> [] \<and>
        (case after_prefix ''/provider-connections/oauth/callback'' (dropWhile (\<lambda>c. c \<noteq> CHR ''/'') rest) of
           None \<Rightarrow> False | Some t \<Rightarrow> t = [] \<or> hd t = CHR ''?'')))"

text \<open>The response body is given parsed, \<open>None\<close> when it is not JSON text.\<close>

definition createdEntity :: "string \<Rightarrow> string \<Rightarrow> int \<Rightarrow> json option \<Rightarrow> (string \<times> string) option" where
  "createdEntity verb path status body =
    (if verb \<noteq> ''POST'' \<or> status \<noteq> 201 \<or> path_parts path = [] \<or> last (path_parts path) \<notin> set COLLECTION_SEGMENT then None
     else case body of
       Some (JObj kvs) \<Rightarrow> (case jget kvs ''id'' of Some (JStr i) \<Rightarrow> Some (last (path_parts path), i) | _ \<Rightarrow> None)
     | _ \<Rightarrow> None)"

definition summary_json :: "string \<times> string list \<times> bool \<Rightarrow> (string \<times> json) list" where
  "summary_json s = (case s of (kind, fs, secret) \<Rightarrow>
     [(''change_kind'', JStr kind), (''changed_fields'', jstrs fs)] @ (if secret then [(''secret_rotated'', JBool True)] else []))"

definition api_record :: "(string \<Rightarrow> string option) \<Rightarrow> api_request \<Rightarrow> int \<Rightarrow> json option \<Rightarrow> audit_record" where
  "api_record decode rq status response =
    (let actor = ap_actor rq; path = pathOnly (ap_url rq); entity = entityFromUrl COLLECTION_SEGMENT (ap_url rq);
         created = createdEntity (ap_method rq) path status response;
         zoneScoped = (case actor of Some a \<Rightarrow> if am_scope a = ''zone'' \<and> truthy (am_zone a) then am_zone a else None | None \<Rightarrow> None);
         rls = (case zoneScoped of
                  Some z \<Rightarrow> [(''rls_mode'', JStr ''zone_scoped''), (''rls_zone_guc'', JStr z)]
                | None \<Rightarrow> [(''rls_mode'', JStr ''control_plane_wildcard''), (''rls_zone_guc'', JStr ''*'')]);
         operator = (case ap_account rq of None \<Rightarrow> [] | Some a \<Rightarrow> [(''operator'', JStr a)]);
         change = (if status < 400 then (case changeSummary (ap_method rq) (ap_url rq) (ap_body rq) of None \<Rightarrow> [] | Some s \<Rightarrow> summary_json s)
                   else [])
     in \<lparr>aa_request = ap_id rq, aa_actor = map_option am_id actor, aa_name = map_option am_name actor,
         aa_scope = map_option am_scope actor, aa_action = ap_method rq @ '' '' @ path, aa_method = ap_method rq, aa_path = path,
         aa_zone = (case zoneFromUrl decode (ap_url rq) of
                      Some z \<Rightarrow> Some z
                    | None \<Rightarrow> (case created of Some (t, i) \<Rightarrow> if t = ''zones'' then Some i else None | None \<Rightarrow> None)),
         aa_type = map_option fst (if created \<noteq> None then created else entity),
         aa_entity = map_option snd (if created \<noteq> None then created else entity),
         aa_status = status, aa_payload = Some (rls @ operator @ change)\<rparr>)"

definition api_audit :: "env \<Rightarrow> bool \<Rightarrow> string option \<Rightarrow> (string \<Rightarrow> string option) \<Rightarrow> bool \<Rightarrow> api_request \<Rightarrow> json option \<Rightarrow>
    string \<Rightarrow> reply \<Rightarrow> audit_row list \<Rightarrow> reply \<times> audit_row list" where
  "api_audit e enabled key decode up rq response i r rows =
    (if \<not> enabled then (r, rows)
     else audited (starts_with ''/v1/'' (ap_url rq))
       (ap_method rq \<in> set MUTATING_METHODS \<or> isProviderOAuthCallback (ap_method rq) (ap_url rq))
       (persist e key up (Some (api_record decode rq (code r) (if code r < 400 then response else None))) i) r rows)"


section \<open>The chain of a zone\<close>

definition zone_log :: "string option \<Rightarrow> audit_row list \<Rightarrow> audit_row list" where
  "zone_log z rows = filter (\<lambda>r. aa_zone (av_rec r) = z) rows"

definition row_hash :: "env \<Rightarrow> audit_row \<Rightarrow> string" where
  "row_hash e r = contentHash e (av_id r) (av_at r) (av_rec r)"

text \<open>
  The repository has no verifier of this table; the two checks below are the ones its columns provide for.
  Without the key: hashes, links and numbering.
\<close>

fun linked :: "env \<Rightarrow> string \<Rightarrow> int \<Rightarrow> audit_row list \<Rightarrow> bool" where
  "linked e prevSha n [] = True"
| "linked e prevSha n (r # rs) \<longleftrightarrow> av_content r = Some (row_hash e r) \<and> av_prev r = (if prevSha = [] then None else Some prevSha) \<and>
     av_seq r = Some (n + 1) \<and> linked e (row_hash e r) (n + 1) rs"

text \<open>And with it: the code of every link.\<close>

fun signed :: "env \<Rightarrow> string \<Rightarrow> string \<Rightarrow> audit_row list \<Rightarrow> bool" where
  "signed e k prevSha [] = True"
| "signed e k prevSha (r # rs) \<longleftrightarrow> av_hmac r = Some (hmac256 e k (row_hash e r @ ''|'' @ prevSha)) \<and> signed e k (row_hash e r) rs"

definition chain_ok :: "env \<Rightarrow> audit_row list \<Rightarrow> bool" where
  "chain_ok e rows \<longleftrightarrow> (\<forall>z. linked e [] 0 (zone_log z rows))"

lemma linked_snoc:
  "linked e p n (rs @ [r]) \<longleftrightarrow> linked e p n rs \<and> av_content r = Some (row_hash e r) \<and>
     av_prev r = (let q = (if rs = [] then p else row_hash e (last rs)) in if q = [] then None else Some q) \<and> av_seq r = Some (n + int (length rs) + 1)"
  by (induction rs arbitrary: p n) (auto simp: Let_def)

lemma signed_snoc:
  "signed e k p (rs @ [r]) \<longleftrightarrow> signed e k p rs \<and>
     av_hmac r = Some (hmac256 e k (row_hash e r @ ''|'' @ (if rs = [] then p else row_hash e (last rs))))"
  by (induction rs arbitrary: p) auto

lemma linked_later:
  assumes "linked e p n (r # rs)"
  shows "foldl later_row r rs = last (r # rs)"
  using assms
proof (induction rs arbitrary: r p n)
  case (Cons q rs)
  have "later_row r q = q" using Cons.prems by (simp add: later_row_def)
  then show ?case using Cons.IH [of _ _ q] Cons.prems by simp
qed simp

lemma chain_head_linked:
  assumes "linked e [] 0 (zone_log z rows)"
  shows "chain_head z rows = (if zone_log z rows = [] then [] else row_hash e (last (zone_log z rows)), int (length (zone_log z rows)))"
proof (cases "zone_log z rows")
  case Nil
  then show ?thesis by (simp add: chain_head_def zone_log_def)
next
  case (Cons r rs)
  obtain ys y where y: "r # rs = ys @ [y]" by (metis list.discI rev_exhaust)
  have h: "av_content y = Some (row_hash e y)" "av_seq y = Some (int (length ys) + 1)"
    using assms by (simp_all add: Cons y linked_snoc del: linked.simps)
  have f: "foldl later_row r rs = y" using linked_later [of e "[]" 0 r rs] assms Cons y by (simp del: linked.simps)
  have "length rs = length ys" using arg_cong [OF y, of length] by simp
  moreover have "last (r # rs) = y" by (simp add: y)
  ultimately show ?thesis using f h by (simp add: chain_head_def zone_log_def [symmetric] Cons Let_def)
qed

lemma zone_log_snoc: "zone_log z (rows @ [r]) = zone_log z rows @ (if aa_zone (av_rec r) = z then [r] else [])"
  by (simp add: zone_log_def)

text \<open>One insert extends the chain of its zone.\<close>

lemma insert_linked:
  assumes "chain_ok e rows" "insertAdminAuditRecord (e\<lparr>now := t\<rparr>) key r i rows = Inr rows'"
  shows "chain_ok e rows'"
proof -
  define q where "q = audit_row_of (e\<lparr>now := t\<rparr>) key r i rows"
  have rows': "rows' = rows @ [q]" using assms(2) by (simp add: insertAdminAuditRecord_def q_def reject_Inr)
  have zq: "aa_zone (av_rec q) = aa_zone (sanitizeRecord r)" and cq: "av_content q = Some (row_hash e q)"
    by (simp_all add: q_def audit_row_of_def Let_def case_prod_unfold row_hash_def contentHash_def)
  have "linked e [] 0 (zone_log z rows')" for z
  proof (cases "aa_zone (sanitizeRecord r) = z")
    case True
    have l: "linked e [] 0 (zone_log z rows)" using assms(1) by (simp add: chain_ok_def)
    show ?thesis using l chain_head_linked [OF l] cq True
      by (simp add: rows' zone_log_snoc zq linked_snoc) (simp add: q_def audit_row_of_def Let_def)
  next
    case False
    then show ?thesis using assms(1) by (simp add: rows' zone_log_snoc zq chain_ok_def)
  qed
  then show ?thesis by (simp add: chain_ok_def)
qed


text \<open>A log built by inserts: clock, key, record and identifier of each.\<close>

type_synonym insertion = "time \<times> string option \<times> audit_record \<times> string"

fun audit_run :: "env \<Rightarrow> insertion list \<Rightarrow> audit_row list \<Rightarrow> audit_row list" where
  "audit_run e [] rows = rows"
| "audit_run e ((t, key, r, i) # ins) rows =
     audit_run e ins (case insertAdminAuditRecord (e\<lparr>now := t\<rparr>) key r i rows of Inl _ \<Rightarrow> rows | Inr rows' \<Rightarrow> rows')"

lemma audit_run_linked: "chain_ok e rows \<Longrightarrow> chain_ok e (audit_run e ins rows)"
proof (induction e ins rows rule: audit_run.induct)
  case (2 e t key r i ins rows)
  show ?case unfolding audit_run.simps
    by (rule "2.IH") (use "2.prems" insert_linked in \<open>auto split: sum.split\<close>)
qed simp

lemma audit_run_ids: "distinct (map av_id rows) \<Longrightarrow> distinct (map av_id (audit_run e ins rows))"
proof (induction e ins rows rule: audit_run.induct)
  case (2 e t key r i ins rows)
  have "av_id (audit_row_of (e\<lparr>now := t\<rparr>) key r i rows) = i" by (simp add: audit_row_of_def Let_def case_prod_unfold)
  then show ?case unfolding audit_run.simps
    by (intro "2.IH") (use "2.prems" in \<open>auto simp: insertAdminAuditRecord_def reject_def list_ex_iff\<close>)
qed simp

lemma audit_run_mem: "r \<in> set (audit_run e ins rows) \<Longrightarrow> r \<in> set rows \<or> (\<exists>t key q. (t, key, q, av_id r) \<in> set ins)"
proof (induction e ins rows rule: audit_run.induct)
  case (2 e t key q i ins rows)
  have "av_id (audit_row_of (e\<lparr>now := t\<rparr>) key q i rows) = i" by (simp add: audit_row_of_def Let_def case_prod_unfold)
  then show ?case using "2.IH" "2.prems" by (auto simp: insertAdminAuditRecord_def reject_def split: if_splits)
qed simp

text \<open>When the zone's records are written with the key, every link is signed.\<close>

definition all_signed :: "env \<Rightarrow> string \<Rightarrow> string option \<Rightarrow> audit_row list \<Rightarrow> bool" where
  "all_signed e k z rows \<longleftrightarrow> signed e k [] (zone_log z rows)"

lemma insert_signed:
  assumes ok: "chain_ok e rows" and sg: "all_signed e k z rows" and k: "k \<noteq> []" "\<And>m. hmac256 e k m \<noteq> []"
    and ins: "insertAdminAuditRecord (e\<lparr>now := t\<rparr>) key r i rows = Inr rows'" and key: "aa_zone (sanitizeRecord r) = z \<Longrightarrow> key = Some k"
  shows "all_signed e k z rows'"
proof -
  define q where "q = audit_row_of (e\<lparr>now := t\<rparr>) key r i rows"
  have rows': "rows' = rows @ [q]" using ins by (simp add: insertAdminAuditRecord_def q_def reject_Inr)
  have zq: "aa_zone (av_rec q) = aa_zone (sanitizeRecord r)" by (simp add: q_def audit_row_of_def Let_def case_prod_unfold)
  show ?thesis
  proof (cases "aa_zone (sanitizeRecord r) = z")
    case True
    have l: "linked e [] 0 (zone_log z rows)" using ok by (simp add: chain_ok_def)
    have hq: "row_hash e q = contentHash e i t (sanitizeRecord r)"
      by (simp add: q_def audit_row_of_def Let_def case_prod_unfold row_hash_def)
    have "av_hmac q = Some (hmac256 e k (row_hash e q @ ''|'' @ fst (chain_head z rows)))"
      using True key k unfolding hq by (simp add: q_def audit_row_of_def Let_def case_prod_unfold chainHmac_def contentHash_def)
    then show ?thesis using sg True by (simp add: all_signed_def rows' zone_log_snoc zq signed_snoc chain_head_linked [OF l])
  next
    case False
    then show ?thesis using sg by (simp add: all_signed_def rows' zone_log_snoc zq)
  qed
qed

lemma audit_run_signed:
  assumes "chain_ok e rows" "all_signed e k z rows" "k \<noteq> []" "\<And>m. hmac256 e k m \<noteq> []"
    and "\<forall>(t, key, r, i) \<in> set ins. aa_zone (sanitizeRecord r) = z \<longrightarrow> key = Some k"
  shows "all_signed e k z (audit_run e ins rows)"
  using assms
proof (induction e ins rows rule: audit_run.induct)
  case (2 e t key r i ins rows)
  show ?case unfolding audit_run.simps
    by (rule "2.IH") (use "2.prems" insert_linked insert_signed [OF "2.prems"(1-4)] in \<open>auto split: sum.split\<close>)
qed simp


section \<open>Tamper evidence\<close>

definition row_fields :: "audit_row \<Rightarrow> string list" where
  "row_fields r = content_fields (av_id r) (av_at r) (av_rec r)"

definition clean_row :: "audit_row \<Rightarrow> bool" where
  "clean_row r = list_all (\<lambda>f. CHR 0x1F \<notin> set f) (row_fields r)"

text \<open>The text that is hashed for a row, and the texts that are signed for the links of a log.\<close>

definition hashed_text :: "audit_row \<Rightarrow> string" where
  "hashed_text r = concat (map (\<lambda>s. s @ [CHR 0x1F]) (row_fields r))"

fun link_texts :: "env \<Rightarrow> string \<Rightarrow> audit_row list \<Rightarrow> string list" where
  "link_texts e prevSha [] = []"
| "link_texts e prevSha (r # rs) = (row_hash e r @ ''|'' @ prevSha) # link_texts e (row_hash e r) rs"

text \<open>
  Two different texts of a list with the same digest. Digests are written in hexadecimal: they are not empty
  and do not contain the bar that separates them.
\<close>

definition collision :: "(string \<Rightarrow> string) \<Rightarrow> string list \<Rightarrow> bool" where
  "collision h texts \<longleftrightarrow> list_ex (\<lambda>m. list_ex (\<lambda>m'. m \<noteq> m' \<and> h m = h m') texts) texts"

definition hex_digests :: "env \<Rightarrow> string \<Rightarrow> bool" where
  "hex_digests e k \<longleftrightarrow> (\<forall>m. sha256 e m \<noteq> [] \<and> CHR ''|'' \<notin> set (sha256 e m) \<and> hmac256 e k m \<noteq> [])"

lemma no_collision: "\<not> collision h texts \<longleftrightarrow> inj_on h (set texts)"
  by (auto simp: collision_def list_ex_iff inj_on_def)

lemma row_hash_text: "row_hash e r = sha256 e (hashed_text r)"
  by (simp add: row_hash_def contentHash_def hashed_text_def row_fields_def)

lemma hex_digestsD:
  assumes "hex_digests e k"
  shows "row_hash e r \<noteq> []" "CHR ''|'' \<notin> set (row_hash e r)" "hmac256 e k m \<noteq> []"
  using assms by (simp_all add: hex_digests_def row_hash_text)

lemma hashed_text_fields: "clean_row r \<Longrightarrow> clean_row q \<Longrightarrow> hashed_text r = hashed_text q \<Longrightarrow> row_fields r = row_fields q"
  unfolding hashed_text_def by (rule lines_inject [of _ "CHR 0x1F"]) (simp_all add: clean_row_def list_all_iff)

lemma sep_inject: "c \<notin> set a \<Longrightarrow> c \<notin> set b \<Longrightarrow> a @ c # x = b @ c # y \<Longrightarrow> a = b \<and> x = y"
proof (induction a arbitrary: b)
  case Nil
  then show ?case by (cases b) auto
next
  case (Cons d a)
  then show ?case by (cases b) auto
qed

lemma hashed_text_id:
  assumes "hashed_text r = hashed_text q" "CHR 0x1F \<notin> set (av_id r)" "CHR 0x1F \<notin> set (av_id q)"
  shows "av_id r = av_id q"
proof -
  have "\<exists>x. hashed_text r = av_id r @ CHR 0x1F # x" for r by (simp add: hashed_text_def row_fields_def content_fields_def Let_def)
  then obtain x y where "hashed_text r = av_id r @ CHR 0x1F # x" "hashed_text q = av_id q @ CHR 0x1F # y" by blast
  then have "av_id r @ CHR 0x1F # x = av_id q @ CHR 0x1F # y" using assms(1) by (simp only:)
  then show ?thesis using sep_inject [OF assms(2,3)] by blast
qed

lemma link_texts_nth:
  "i < length rows \<Longrightarrow> link_texts e p rows ! i = row_hash e (rows ! i) @ ''|'' @ (if i = 0 then p else row_hash e (rows ! (i - 1)))"
proof (induction rows arbitrary: p i)
  case (Cons r rows)
  then show ?case by (cases i) (auto simp: nth_Cons' split: if_splits)
qed simp

lemma length_link_texts [simp]: "length (link_texts e p rows) = length rows"
  by (induction rows arbitrary: p) auto

lemma signed_texts: "signed e k p rows \<longleftrightarrow> map av_hmac rows = map (\<lambda>m. Some (hmac256 e k m)) (link_texts e p rows)"
  by (induction rows arbitrary: p) auto

text \<open>A row whose code was issued for some link of the genuine log, and whose predecessor is known.\<close>

lemma reused_code:
  assumes H: "hex_digests e k" "inj_on (hmac256 e k) M" and L: "signed e k [] rows" "distinct (map (row_hash e) rows)" "set (link_texts e [] rows) \<subseteq> M"
    and n: "n \<le> length rows" "p = (if n = 0 then [] else row_hash e (rows ! (n - 1)))"
    and f: "av_hmac f = Some (hmac256 e k (row_hash e f @ ''|'' @ p))" "av_hmac f \<in> av_hmac ` set rows" "row_hash e f @ ''|'' @ p \<in> M"
  shows "n < length rows \<and> row_hash e f = row_hash e (rows ! n)"
proof -
  from f(2) obtain i where i: "i < length rows" "av_hmac f = av_hmac (rows ! i)" by (auto simp: in_set_conv_nth)
  let ?q = "if i = 0 then [] else row_hash e (rows ! (i - 1))"
  have m: "row_hash e (rows ! i) @ ''|'' @ ?q \<in> M"
    using nth_mem [of i "link_texts e [] rows"] i(1) L(3) unfolding link_texts_nth [OF i(1)] by auto
  have "av_hmac (rows ! i) = Some (hmac256 e k (row_hash e (rows ! i) @ ''|'' @ ?q))"
    using arg_cong [OF L(1) [unfolded signed_texts], of "\<lambda>xs. xs ! i"] i(1) link_texts_nth [OF i(1), of e "[]"] by simp
  then have "row_hash e f @ CHR ''|'' # p = row_hash e (rows ! i) @ CHR ''|'' # ?q" using inj_onD [OF H(2) _ f(3) m] f(1) i(2) by simp
  from sep_inject [OF hex_digestsD(2) [OF H(1)] hex_digestsD(2) [OF H(1)] this] have eq: "row_hash e f = row_hash e (rows ! i)" "p = ?q" by simp_all
  have ne: "[] \<noteq> row_hash e r" for r using hex_digestsD(1) [OF H(1), of r] by auto
  have "i = n"
  proof (cases "n = 0")
    case True
    then show ?thesis using eq(2) n(2) ne by (auto split: if_splits)
  next
    case False
    then have "i \<noteq> 0" "row_hash e (rows ! (n - 1)) = row_hash e (rows ! (i - 1))" using eq(2) n(2) ne ne [symmetric] by (auto split: if_splits)
    moreover have "n - 1 < length rows" "i - 1 < length rows" using i(1) n(1) False by linarith+
    ultimately have "n - 1 = i - 1" using L(2) by (metis length_map nth_eq_iff_index_eq nth_map)
    then show ?thesis using False \<open>i \<noteq> 0\<close> by linarith
  qed
  then show ?thesis using i(1) eq(1) by simp
qed

lemma signed_prefix:
  assumes H: "hex_digests e k" "inj_on (hmac256 e k) M" and L: "signed e k [] rows" "distinct (map (row_hash e) rows)" "set (link_texts e [] rows) \<subseteq> M"
    and "n \<le> length rows" "signed e k (if n = 0 then [] else row_hash e (rows ! (n - 1))) log" "av_hmac ` set log \<subseteq> av_hmac ` set rows"
      "set (link_texts e (if n = 0 then [] else row_hash e (rows ! (n - 1))) log) \<subseteq> M"
  shows "map (row_hash e) log = take (length log) (drop n (map (row_hash e) rows)) \<and> n + length log \<le> length rows"
  using assms(6-)
proof (induction log arbitrary: n)
  case (Cons f log)
  have s: "n < length rows" "row_hash e f = row_hash e (rows ! n)"
    using reused_code [OF H L Cons.prems(1) refl, of f] Cons.prems(2-4) by simp_all
  have "map (row_hash e) log = take (length log) (drop (Suc n) (map (row_hash e) rows)) \<and> Suc n + length log \<le> length rows"
    by (rule Cons.IH) (use Cons.prems s in auto)
  moreover have "drop n (map (row_hash e) rows) = row_hash e (rows ! n) # drop (Suc n) (map (row_hash e) rows)"
    using s(1) by (simp add: Cons_nth_drop_Suc [symmetric] drop_map)
  ultimately show ?case using s(2) by simp
qed simp

lemma genuine_log:
  assumes "hex_digests e k" "k \<noteq> []" "\<forall>(t, key, r, i) \<in> set ins. CHR 0x1F \<notin> set i \<and> (aa_zone (sanitizeRecord r) = z \<longrightarrow> key = Some k)"
    and "inj_on (sha256 e) (hashed_text ` set (zone_log z (audit_run e ins [])))"
  shows "signed e k [] (zone_log z (audit_run e ins []))" "distinct (map (row_hash e) (zone_log z (audit_run e ins [])))"
proof -
  let ?L = "zone_log z (audit_run e ins [])"
  have ok: "chain_ok e []" "all_signed e k z []" by (simp_all add: chain_ok_def all_signed_def zone_log_def)
  have "\<forall>(t, key, r, i) \<in> set ins. aa_zone (sanitizeRecord r) = z \<longrightarrow> key = Some k" using assms(3) by auto
  then show "signed e k [] ?L" using audit_run_signed [OF ok assms(2) hex_digestsD(3) [OF assms(1)], of ins] by (simp add: all_signed_def)
  have ids: "distinct (map av_id ?L)" using audit_run_ids [of "[]" e ins] by (simp add: zone_log_def distinct_map_filter)
  have bare: "CHR 0x1F \<notin> set (av_id r)" if "r \<in> set ?L" for r
    using audit_run_mem [of r e ins "[]"] that assms(3) by (auto simp: zone_log_def)
  have "inj_on (row_hash e) (set ?L)"
  proof (rule inj_onI)
    fix r q assume rq: "r \<in> set ?L" "q \<in> set ?L" "row_hash e r = row_hash e q"
    then have "hashed_text r = hashed_text q" using inj_onD [OF assms(4)] imageI unfolding row_hash_text by meson
    then have "av_id r = av_id q" using hashed_text_id bare rq(1,2) by blast
    then show "r = q" using ids rq(1,2) by (meson distinct_map inj_onD)
  qed
  then show "distinct (map (row_hash e) ?L)" using ids by (simp add: distinct_map)
qed

text \<open>
  C32: the audit log is tamper evident up to losing its end. Take a log that was written with the signing
  key under identifiers without the separator 0x1F, and any other log of a zone whose link codes verify with
  that key and all occur in the genuine log of the zone. Then either the texts of the two logs
  exhibit a collision, of SHA-256 among the hashed texts or of HMAC among the signed ones, or the other
  log is a beginning of the genuine log: the hashed texts of its rows are those of the first rows of the
  genuine log, in order, and so are the fields of every row in which no field contains the separator
  on either side.
\<close>

theorem audit_log_tamper_evident:
  assumes H: "hex_digests e k" and k: "k \<noteq> []"
    and ins: "\<forall>(t, key, r, i) \<in> set ins. CHR 0x1F \<notin> set i \<and> (aa_zone (sanitizeRecord r) = z \<longrightarrow> key = Some k)"
    and L: "L = zone_log z (audit_run e ins [])"
    and check: "signed e k [] log" and reuse: "av_hmac ` set log \<subseteq> av_hmac ` set L"
  shows "collision (sha256 e) (map hashed_text (L @ log)) \<or> collision (hmac256 e k) (link_texts e [] L @ link_texts e [] log) \<or>
    (length log \<le> length L \<and> map hashed_text log = take (length log) (map hashed_text L) \<and>
     (\<forall>n < length log. clean_row (log ! n) \<and> clean_row (L ! n) \<longrightarrow> row_fields (log ! n) = row_fields (L ! n)))"
proof -
  have "length log \<le> length L \<and> map hashed_text log = take (length log) (map hashed_text L)"
    if S: "inj_on (sha256 e) (hashed_text ` (set L \<union> set log))" and M: "inj_on (hmac256 e k) (set (link_texts e [] L) \<union> set (link_texts e [] log))"
  proof -
    note G = genuine_log [OF H k ins inj_on_subset [OF S [unfolded L]], folded L]
    have P: "map (row_hash e) log = take (length log) (map (row_hash e) L)" "length log \<le> length L"
      using signed_prefix [OF H M G, of 0 log] check reuse by auto
    have "hashed_text (log ! n) = hashed_text (L ! n)" if n: "n < length log" for n
      using arg_cong [OF P(1), of "\<lambda>xs. xs ! n"] P(2) n inj_onD [OF S, of "hashed_text (log ! n)" "hashed_text (L ! n)"]
      by (simp add: row_hash_text)
    then show ?thesis using P(2) by (auto intro: nth_equalityI)
  qed
  moreover have "row_fields (log ! n) = row_fields (L ! n)" if "length log \<le> length L" "map hashed_text log = take (length log) (map hashed_text L)"
      "n < length log" "clean_row (log ! n)" "clean_row (L ! n)" for n
    using hashed_text_fields [OF that(4,5)] arg_cong [OF that(2), of "\<lambda>xs. xs ! n"] that(1,3) by simp
  ultimately show ?thesis using no_collision [of "sha256 e" "map hashed_text (L @ log)"]
      no_collision [of "hmac256 e k" "link_texts e [] L @ link_texts e [] log"]
    by (auto simp: image_Un)
qed

text \<open>
  The fields of a record are not escaped before they are hashed. Two different records, both as they
  are stored, have the same hash when a field contains the separator: what is the end of the actor's
  name in one is the beginning of the actor's scope in the other.
\<close>

theorem content_hash_ambiguous:
  "\<exists>r q. r \<noteq> q \<and> sanitizeRecord r = r \<and> sanitizeRecord q = q \<and> (\<forall>e i t. contentHash e i t r = contentHash e i t q)"
proof -
  define r where "r = \<lparr>aa_request = [], aa_actor = None, aa_name = Some [CHR ''a'', CHR 0x1F, CHR ''b''], aa_scope = Some ''c'', aa_action = [],
    aa_method = [], aa_path = [], aa_zone = None, aa_type = None, aa_entity = None, aa_status = 200, aa_payload = None\<rparr>"
  define q where "q = r\<lparr>aa_name := Some ''a'', aa_scope := Some [CHR ''b'', CHR 0x1F, CHR ''c'']\<rparr>"
  have "\<forall>e i t. contentHash e i t r = contentHash e i t q" by (simp add: contentHash_def content_fields_def r_def q_def)
  moreover have "r \<noteq> q" "sanitizeRecord r = r" "sanitizeRecord q = q"
    by (simp_all add: r_def q_def sanitizeRecord_def stripNul_def)
  ultimately show ?thesis by blast
qed

section \<open>Reported and recorded\<close>

text \<open>
  C33: the coordinator never reports an unrecorded success. When the hook lets a successful reply of a
  mutating request with an identity through, the log has exactly one new row, that of the request with
  the status that is reported, linked to the chain of its zone.
\<close>

theorem coordinator_success_audited:
  assumes "coordinator_audit e key decode up rid rq (Some a) i r rows = (r', rows')" "code r' < 400"
    and "rq_method rq \<in> set MUTATING_METHODS" "\<not> auditExempt (pathOnly (rq_url rq))"
  shows "r' = r \<and> rows' = rows @ [audit_row_of e key (coordinator_record decode rid rq a (code r')) i rows]"
  using assms
  by (auto simp: coordinator_audit_def audited_def persist_def insertAdminAuditRecord_def reject_def split: if_splits option.splits sum.splits)


section \<open>What the record of a change says\<close>

text \<open>The shape of a body: its objects with their field names, nothing below a secret name, no values.\<close>

fun erase :: "json \<Rightarrow> json" where
  "erase (JObj kvs) = JObj (map (\<lambda>(k, v). (k, if to_lower k \<in> set SECRET_FIELD_NAMES then JNull else erase v)) kvs)"
| "erase v = JNull"

definition erase_field :: "string \<times> json \<Rightarrow> string \<times> json" where
  "erase_field kv = (fst kv, if to_lower (fst kv) \<in> set SECRET_FIELD_NAMES then JNull else erase (snd kv))"

lemma erase_obj: "erase (JObj kvs) = JObj (map erase_field kvs)"
  by (simp add: erase_field_def case_prod_unfold)

lemma collect_erased: "collectChangedFields (map erase_field kvs) pre depth fs = collectChangedFields kvs pre depth fs"
proof (induction kvs pre depth fs rule: collectChangedFields.induct)
  case (2 key sub rest pre depth fs)
  then show ?case by (cases "to_lower key \<in> set SECRET_FIELD_NAMES") (auto simp: erase_field_def [of "(key, _)"] erase_obj Let_def simp del: erase.simps(1) split: prod.splits)
qed (simp_all add: erase_field_def)

lemma changeSummary_erased: "changeSummary verb url (map_option erase body) = changeSummary verb url body"
proof (cases body)
  case (Some v)
  then show ?thesis
  proof (cases v)
    case (JObj kvs)
    then show ?thesis using Some collect_erased [of kvs "[]" 0 "[]"] by (simp add: changeSummary_def erase_obj del: erase.simps(1))
  qed (simp_all add: changeSummary_def)
qed simp

text \<open>
  C34: no value of a request body enters the audit log. The record of a request is the same for the body
  and for its shape, which keeps only the field names and nothing below a secret name.
\<close>

theorem audit_record_hides_values:
  "api_record decode (rq\<lparr>ap_body := map_option erase (ap_body rq)\<rparr>) status response = api_record decode rq status response"
  by (simp add: api_record_def changeSummary_erased)

text \<open>A secret inside an array is not noticed: the change is recorded as a plain update.\<close>

lemma secret_in_array_unnoticed:
  "changeSummary ''PATCH'' ''/v1/zones/z1/providers/p1'' (Some (JObj [(''keys'', JArr [JObj [(''client_secret'', JStr s)]])]))
   = Some (''update'', [''keys''], False)"
  by (simp add: changeSummary_def actionSegment_def path_parts_def pathOnly_def COLLECTION_SEGMENT_def SECRET_FIELD_NAMES_def
      to_lower_def to_lower_char_def push_field_def field_path_def CHANGE_FIELD_LIMIT_def upt_rec)


section \<open>Concrete logs\<close>

text \<open>Hash functions without collisions: every character as two letters.\<close>

definition nibbles :: "char \<Rightarrow> string" where
  "nibbles c = [char_of (65 + (of_char c :: nat) div 16), char_of (65 + (of_char c :: nat) mod 16)]"

lemma nibbles_inject: "nibbles c = nibbles d \<longleftrightarrow> c = d"
proof
  assume eq: "nibbles c = nibbles d"
  have lt: "(of_char x :: nat) < 256" for x :: char by (rule nat_of_char_less_256)
  have "(of_char c :: nat) div 16 = of_char d div 16" "(of_char c :: nat) mod 16 = of_char d mod 16"
    using eq lt [of c] lt [of d] by (simp_all add: nibbles_def)
  then have "(of_char c :: nat) = of_char d" by (metis div_mult_mod_eq)
  then show "c = d" by simp
qed simp

definition audit_env :: env where
  "audit_env = (sample_env 0)\<lparr>sha256 := \<lambda>m. CHR ''h'' # concat (map nibbles m), hmac256 := \<lambda>k m. CHR ''m'' # m\<rparr>"

lemma concat_nibbles_inject: "concat (map nibbles m) = concat (map nibbles n) \<longleftrightarrow> m = n"
proof (induction m arbitrary: n)
  case Nil
  then show ?case by (cases n) (auto simp: nibbles_def)
next
  case (Cons c m)
  show ?case
  proof (cases n)
    case (Cons d n')
    have "concat (map nibbles (c # m)) = concat (map nibbles (d # n')) \<longleftrightarrow> nibbles c = nibbles d \<and> concat (map nibbles m) = concat (map nibbles n')"
      by (auto simp: nibbles_def)
    then show ?thesis using Cons.IH nibbles_inject by (simp add: Cons)
  qed (simp add: nibbles_def)
qed

lemma audit_env_hashes: "hex_digests audit_env k" "inj (sha256 audit_env)" "inj (hmac256 audit_env k)"
proof -
  have "CHR ''|'' \<notin> set (nibbles c)" for c
  proof -
    have lt: "(of_char c :: nat) < 256" by (rule nat_of_char_less_256)
    have ne: "char_of n \<noteq> CHR ''|''" if "n < 124" for n :: nat
    proof
      assume "char_of n = CHR ''|''"
      then have "(of_char (char_of n) :: nat) = of_char CHR ''|''" by simp
      then show False using that by simp
    qed
    have "(of_char c :: nat) div 16 < 16" "(of_char c :: nat) mod 16 < 16" using lt by (simp_all add: less_mult_imp_div_less)
    then have "char_of (65 + (of_char c :: nat) div 16) \<noteq> CHR ''|''" "char_of (65 + (of_char c :: nat) mod 16) \<noteq> CHR ''|''"
      by (intro ne; linarith)+
    then show ?thesis unfolding nibbles_def by (simp only: list.set insert_iff empty_iff simp_thms) metis
  qed
  then show "hex_digests audit_env k" by (auto simp: hex_digests_def audit_env_def)
  show "inj (sha256 audit_env)" "inj (hmac256 audit_env k)" by (auto simp: audit_env_def inj_def concat_nibbles_inject)
qed

definition sample_entry :: "string \<Rightarrow> audit_record" where
  "sample_entry action = \<lparr>aa_request = ''r1'', aa_actor = Some ''app'', aa_name = None, aa_scope = None, aa_action = action, aa_method = ''POST'',
     aa_path = ''/'', aa_zone = Some ''z1'', aa_type = None, aa_entity = None, aa_status = 200, aa_payload = None\<rparr>"

definition sample_log :: "audit_row list" where
  "sample_log = zone_log (Some ''z1'') (audit_run audit_env [(0, Some ''k'', sample_entry ''a'', ''i1''), (0, Some ''k'', sample_entry ''b'', ''i2'')] [])"

lemma audit_row_of_simps [simp]:
  "av_id (audit_row_of e key r i rows) = i" "av_rec (audit_row_of e key r i rows) = sanitizeRecord r" "av_at (audit_row_of e key r i rows) = now e"
  by (simp_all add: audit_row_of_def Let_def case_prod_unfold)

lemma sample_log_eq:
  "sample_log = [audit_row_of audit_env (Some ''k'') (sample_entry ''a'') ''i1'' [],
     audit_row_of audit_env (Some ''k'') (sample_entry ''b'') ''i2'' [audit_row_of audit_env (Some ''k'') (sample_entry ''a'') ''i1'' []]]"
proof -
  have "audit_env\<lparr>now := 0\<rparr> = audit_env" "aa_zone (sanitizeRecord (sample_entry x)) = Some ''z1''" for x
    by (simp_all add: audit_env_def sample_env_def sample_entry_def sanitizeRecord_def stripNul_def)
  then show ?thesis by (simp add: sample_log_def zone_log_def insertAdminAuditRecord_def reject_def)
qed

lemma sample_log_clean: "list_all clean_row sample_log"
proof -
  have "CHR 0x1F \<notin> set (toISOString 0)" by code_simp
  moreover have "CHR 0x1F \<notin> set (show_int 200)" by code_simp
  ultimately show ?thesis
    by (simp add: sample_log_eq clean_row_def row_fields_def content_fields_def sample_entry_def sanitizeRecord_def stripNul_def audit_env_def sample_env_def)
qed

lemma signed_take: "signed e k p rows \<Longrightarrow> signed e k p (take n rows)"
proof (induction rows arbitrary: p n)
  case (Cons r rows)
  then show ?case by (cases n) auto
qed simp

lemma sample_log_signed: "signed audit_env ''k'' [] (take 1 sample_log)"
proof -
  have "all_signed audit_env ''k'' (Some ''z1'') (audit_run audit_env [(0, Some ''k'', sample_entry ''a'', ''i1''), (0, Some ''k'', sample_entry ''b'', ''i2'')] [])"
    by (rule audit_run_signed) (simp_all add: chain_ok_def all_signed_def zone_log_def hex_digestsD(3) [OF audit_env_hashes(1)])
  then show ?thesis unfolding all_signed_def sample_log_def by (rule signed_take)
qed

theorem audit_log_tamper_evident_witness:
  "map hashed_text (take 1 sample_log) = take 1 (map hashed_text sample_log) \<and> row_fields (take 1 sample_log ! 0) = row_fields (sample_log ! 0)"
proof -
  have n: "length (take 1 sample_log) = 1" "clean_row (sample_log ! 0)" using sample_log_clean by (simp_all add: sample_log_eq)
  have c: "\<not> collision (sha256 audit_env) xs" "\<not> collision (hmac256 audit_env ''k'') xs" for xs
    using audit_env_hashes(2,3) unfolding no_collision by (blast intro: inj_on_subset)+
  from audit_log_tamper_evident [OF audit_env_hashes(1) _ _ sample_log_def sample_log_signed] c n
  show ?thesis by (auto dest: in_set_takeD)
qed

theorem coordinator_success_audited_witness:
  "case coordinator_audit audit_env (Some ''k'') Some True ''r1'' \<lparr>rq_method = ''PATCH'', rq_url = ''/zones/z1/agents/a/suspend'',
      rq_authorization = None, rq_zone = Some ''z1''\<rparr> (Some sample_auth) ''i1'' (send 200 JNull) [] of
    (r, rows) \<Rightarrow> r = send 200 JNull \<and> length rows = 1"
proof -
  define rq where "rq = \<lparr>rq_method = ''PATCH'', rq_url = ''/zones/z1/agents/a/suspend'', rq_authorization = None, rq_zone = Some ''z1''\<rparr>"
  obtain r rows where eq: "coordinator_audit audit_env (Some ''k'') Some True ''r1'' rq (Some sample_auth) ''i1'' (send 200 JNull) [] = (r, rows)"
    by (cases "coordinator_audit audit_env (Some ''k'') Some True ''r1'' rq (Some sample_auth) ''i1'' (send 200 JNull) []")
  have m: "rq_method rq \<in> set MUTATING_METHODS" "\<not> auditExempt (pathOnly (rq_url rq))"
    by (simp_all add: rq_def MUTATING_METHODS_def auditExempt_def pathOnly_def)
  then have "code r < 400" using eq
    by (auto simp: coordinator_audit_def audited_def persist_def insertAdminAuditRecord_def reject_def)
  from coordinator_success_audited [OF eq this m] show ?thesis using eq by (simp add: rq_def)
qed

end
