(* ===== verification/Revocations.thy ===== *)
theory Revocations
  imports OutboxJobs "HOL-Library.Log_Nat"
begin

text \<open>
  What resource servers know of revocations: the in-memory store (\<open>packages/revocation/ts/src/inmem.ts\<close>),
  the Redis store and the two stream consumers that feed it (\<open>packages/backends/redis/ts/src/revocation.ts\<close>).
  The interface \<open>RevocationStore\<close> (\<open>iface.ts\<close>) is the locale \<open>revocation_store\<close>; both stores are
  interpretations of it. Times are milliseconds of one monotonic clock. A Redis call may fail; which
  calls of a step succeed is the parameter \<open>up\<close>.
\<close>

subsection \<open>Numbers in strings\<close>

definition is_digit :: "char \<Rightarrow> bool" where
  "is_digit c = (let n = (of_char c :: nat) in 48 \<le> n \<and> n \<le> 57)"

definition digit_value :: "char \<Rightarrow> int" where
  "digit_value c = int (of_char c) - 48"

definition digits_value :: "int \<Rightarrow> string \<Rightarrow> int" where
  "digits_value base s = foldl (\<lambda>n c. n * base + digit_value c) 0 s"

text \<open>
  The value of a decimal literal as a double, when that is a safe integer. Up to \<open>2 ^ -1075\<close> it rounds to 0; from
  there to the midpoint below 1 the nearest double is a fraction; above 1 it is the 53-bit significand
  nearest to it, ties to even.
\<close>

definition round_even :: "rat \<Rightarrow> int" where
  "round_even x = (let f = \<lfloor>x\<rfloor>; r = x - of_int f in
     if r < 1 / 2 \<or> (r = 1 / 2 \<and> even f) then f else f + 1)"

definition safe_round :: "rat \<Rightarrow> int option" where
  "safe_round x =
    (if x \<le> 1 / 2 ^ 1075 then Some 0
     else if x < 1 - 1 / 2 ^ 54 then None
     else if x < 1 then Some 1
     else if 2 ^ 53 \<le> x then None
     else let k = floorlog 2 (nat \<lfloor>x\<rfloor>) - 1; unit = 2 ^ (52 - k); m = round_even (x * of_int unit)
          in if unit dvd m \<and> m div unit \<le> MAX_SAFE_INTEGER then Some (m div unit) else None)"

definition signed :: "string \<Rightarrow> bool \<times> string" where
  "signed s = (case s of c # cs \<Rightarrow> if c = CHR ''-'' then (True, cs) else if c = CHR ''+'' then (False, cs) else (False, s) | [] \<Rightarrow> (False, s))"

definition exponent :: "string \<Rightarrow> int option" where
  "exponent s = (case s of
      [] \<Rightarrow> Some 0
    | c # cs \<Rightarrow> let (neg, ds) = signed cs in
        if c \<in> {CHR ''e'', CHR ''E''} \<and> ds \<noteq> [] \<and> list_all is_digit ds
        then Some (if neg then - digits_value 10 ds else digits_value 10 ds) else None)"

definition decimal :: "string \<Rightarrow> int option" where
  "decimal s =
    (let whole = takeWhile is_digit s; rest = dropWhile is_digit s in
     if rest = [] \<and> whole \<noteq> []
     then (let n = digits_value 10 whole in if n \<le> MAX_SAFE_INTEGER then Some n else None)
     else let (frac, rest1) = (case rest of
              c # cs \<Rightarrow> if c = CHR ''.'' then (takeWhile is_digit cs, dropWhile is_digit cs) else ([], rest)
            | [] \<Rightarrow> ([], rest))
       in if whole = [] \<and> frac = [] then None
          else (case exponent rest1 of
              None \<Rightarrow> None
            | Some x \<Rightarrow> let n = of_int (digits_value 10 (whole @ frac)); p = x - int (length frac)
                in safe_round (if 0 \<le> p then n * 10 ^ nat p else n / 10 ^ nat (- p))))"

definition radix_value :: "char \<Rightarrow> int option" where
  "radix_value c = (if is_digit c then Some (digit_value c)
     else map_option int (hex_value (to_lower_char c)))"

definition radix :: "int \<Rightarrow> string \<Rightarrow> int option" where
  "radix base s = (if s \<noteq> [] \<and> list_all (\<lambda>c. case radix_value c of Some v \<Rightarrow> v < base | None \<Rightarrow> False) s
     then (let n = foldl (\<lambda>n c. n * base + the (radix_value c)) 0 s in if n \<le> MAX_SAFE_INTEGER then Some n else None)
     else None)"

text \<open>\<open>Number(s)\<close> when it is a safe integer.\<close>

definition safe_number :: "string \<Rightarrow> int option" where
  "safe_number str = (let s = trim str in
     if s = [] then Some 0
     else if to_lower (take 2 s) = ''0x'' then radix 16 (drop 2 s)
     else if to_lower (take 2 s) = ''0o'' then radix 8 (drop 2 s)
     else if to_lower (take 2 s) = ''0b'' then radix 2 (drop 2 s)
     else let (neg, u) = signed s in map_option (\<lambda>n. if neg then - n else n) (decimal u))"

subsection \<open>The in-memory store\<close>

record inmem =
  im_entries :: "(string \<times> time) list"
  im_epochs :: "(string \<times> int \<times> time) list"
  im_defaultTtlMs :: int
  im_maxEntries :: nat

definition inmem_new :: "int option \<Rightarrow> nat option \<Rightarrow> inmem" where
  "inmem_new ttl maxEntries = \<lparr>im_entries = [], im_epochs = [],
     im_defaultTtlMs = (case ttl of Some v \<Rightarrow> v | None \<Rightarrow> 24 * 60 * 60 * 1000),
     im_maxEntries = (case maxEntries of Some v \<Rightarrow> v | None \<Rightarrow> 100000)\<rparr>"

definition inmem_isRevoked :: "time \<Rightarrow> string \<Rightarrow> inmem \<Rightarrow> bool \<times> inmem" where
  "inmem_isRevoked t anchor s = (case map_of (im_entries s) anchor of
      None \<Rightarrow> (False, s)
    | Some x \<Rightarrow> if x \<le> t then (False, s\<lparr>im_entries := AList.delete anchor (im_entries s)\<rparr>) else (True, s))"

definition reapExpired :: "time \<Rightarrow> inmem \<Rightarrow> inmem" where
  "reapExpired t s = s\<lparr>im_entries := filter (\<lambda>(a, x). \<not> x \<le> t) (im_entries s)\<rparr>"

text \<open>\<open>None\<close>: the store is full and throws.\<close>

definition inmem_markRevoked :: "time \<Rightarrow> string \<Rightarrow> int option \<Rightarrow> inmem \<Rightarrow> inmem option" where
  "inmem_markRevoked t anchor ttlMs s =
    (let full = (\<lambda>s. im_maxEntries s \<le> length (im_entries s)); s1 = (if full s then reapExpired t s else s) in
     if full s \<and> full s1 then None
     else Some (s1\<lparr>im_entries := AList.update anchor (t + (case ttlMs of Some v \<Rightarrow> v | None \<Rightarrow> im_defaultTtlMs s)) (im_entries s1)\<rparr>))"

definition inmem_currentDelegationEpoch :: "time \<Rightarrow> string \<Rightarrow> inmem \<Rightarrow> int \<times> inmem" where
  "inmem_currentDelegationEpoch t z s = (case map_of (im_epochs s) z of
      None \<Rightarrow> (0, s)
    | Some (epoch, x) \<Rightarrow> if x \<le> t then (0, s\<lparr>im_epochs := AList.delete z (im_epochs s)\<rparr>) else (epoch, s))"

definition inmem_markDelegationEpoch :: "time \<Rightarrow> string \<Rightarrow> int \<Rightarrow> int option \<Rightarrow> inmem \<Rightarrow> inmem" where
  "inmem_markDelegationEpoch t z epoch ttlMs s =
    (let (current, s1) = inmem_currentDelegationEpoch t z s in
     if epoch \<le> current then s1
     else s1\<lparr>im_epochs := AList.update z (epoch, t + (case ttlMs of Some v \<Rightarrow> v | None \<Rightarrow> im_defaultTtlMs s)) (im_epochs s1)\<rparr>)"

subsection \<open>The Redis store\<close>

datatype redis_call = RGet string | RSet string | REval string | XAdd string | XAck string

type_synonym keyspace = "(string \<times> string \<times> time) list"

definition redis_get :: "time \<Rightarrow> string \<Rightarrow> keyspace \<Rightarrow> string option" where
  "redis_get t key ks = (case map_of ks key of Some (v, x) \<Rightarrow> if t < x then Some v else None | None \<Rightarrow> None)"

definition redis_set_px :: "time \<Rightarrow> string \<Rightarrow> string \<Rightarrow> int \<Rightarrow> keyspace \<Rightarrow> keyspace" where
  "redis_set_px t key v ttl ks = AList.update key (v, t + ttl) ks"

text \<open>The Lua script: compare as decimal strings, by length and then by characters.\<close>

definition lua_normalize :: "string \<Rightarrow> string" where
  "lua_normalize v =
    (if v = [] \<or> \<not> list_all is_digit v then ''0''
     else let w = dropWhile (\<lambda>c. c = CHR ''0'') v in if w = [] then ''0'' else w)"

definition MAX_EPOCH_SCRIPT :: "time \<Rightarrow> string \<Rightarrow> string \<Rightarrow> int \<Rightarrow> keyspace \<Rightarrow> keyspace" where
  "MAX_EPOCH_SCRIPT t key arg ttl ks =
    (let current = lua_normalize (case redis_get t key ks of Some v \<Rightarrow> v | None \<Rightarrow> ''0''); candidate = lua_normalize arg in
     if length current < length candidate \<or> (length candidate = length current \<and> current < candidate)
     then redis_set_px t key arg ttl ks else ks)"

record redis_store =
  rs_keyPrefix :: string
  rs_defaultTtlMs :: int
  rs_failClosed :: bool
  rs_keys :: keyspace

definition DEFAULT_REVOCATION_TTL_MS :: int where "DEFAULT_REVOCATION_TTL_MS = 24 * 60 * 60 * 1000"

definition redis_store_new :: "string option \<Rightarrow> int option \<Rightarrow> bool option \<Rightarrow> keyspace \<Rightarrow> redis_store" where
  "redis_store_new keyPrefix ttl failClosed ks = \<lparr>
     rs_keyPrefix = (case keyPrefix of Some v \<Rightarrow> v | None \<Rightarrow> ''caracal:revoked:sessions:''),
     rs_defaultTtlMs = (case ttl of Some v \<Rightarrow> v | None \<Rightarrow> DEFAULT_REVOCATION_TTL_MS),
     rs_failClosed = (case failClosed of Some v \<Rightarrow> v | None \<Rightarrow> True), rs_keys = ks\<rparr>"

definition anchor_key :: "redis_store \<Rightarrow> string \<Rightarrow> string" where
  "anchor_key s anchor = rs_keyPrefix s @ anchor"

definition delegationEpochKey :: "redis_store \<Rightarrow> string \<Rightarrow> string" where
  "delegationEpochKey s z = rs_keyPrefix s @ ''delegation-epoch:'' @ z"

text \<open>\<open>None\<close>: the call throws.\<close>

definition redis_isRevoked :: "(redis_call \<Rightarrow> bool) \<Rightarrow> time \<Rightarrow> string \<Rightarrow> redis_store \<Rightarrow> bool option" where
  "redis_isRevoked up t anchor s =
    (if anchor = [] then Some False
     else if up (RGet (anchor_key s anchor)) then Some (redis_get t (anchor_key s anchor) (rs_keys s) \<noteq> None)
     else if rs_failClosed s then Some True else None)"

definition redis_markRevoked :: "(redis_call \<Rightarrow> bool) \<Rightarrow> time \<Rightarrow> string \<Rightarrow> int option \<Rightarrow> redis_store \<Rightarrow> redis_store option" where
  "redis_markRevoked up t anchor ttlMs s =
    (if anchor = [] then Some s
     else if \<not> up (RSet (anchor_key s anchor)) then None
     else Some (s\<lparr>rs_keys := redis_set_px t (anchor_key s anchor) ''1''
                    (case ttlMs of Some v \<Rightarrow> v | None \<Rightarrow> rs_defaultTtlMs s) (rs_keys s)\<rparr>))"

definition redis_currentDelegationEpoch :: "(redis_call \<Rightarrow> bool) \<Rightarrow> time \<Rightarrow> string \<Rightarrow> redis_store \<Rightarrow> int option" where
  "redis_currentDelegationEpoch up t z s =
    (if up (RGet (delegationEpochKey s z))
     then (case (case redis_get t (delegationEpochKey s z) (rs_keys s) of None \<Rightarrow> Some 0 | Some v \<Rightarrow> safe_number v) of
             Some epoch \<Rightarrow> if 0 < epoch then Some epoch else Some 0
           | None \<Rightarrow> Some 0)
     else if rs_failClosed s then Some MAX_SAFE_INTEGER else None)"

definition redis_markDelegationEpoch :: "(redis_call \<Rightarrow> bool) \<Rightarrow> time \<Rightarrow> string \<Rightarrow> int \<Rightarrow> int option \<Rightarrow> redis_store \<Rightarrow> redis_store option" where
  "redis_markDelegationEpoch up t z epoch ttlMs s =
    (if z = [] \<or> \<not> \<bar>epoch\<bar> \<le> MAX_SAFE_INTEGER \<or> epoch < 0 then Some s
     else if \<not> up (REval (delegationEpochKey s z)) then None
     else Some (s\<lparr>rs_keys := MAX_EPOCH_SCRIPT t (delegationEpochKey s z) (show_int epoch)
                    (case ttlMs of Some v \<Rightarrow> v | None \<Rightarrow> rs_defaultTtlMs s) (rs_keys s)\<rparr>))"

subsection \<open>The stream consumers\<close>

definition REVOCATION_STREAM :: string where "REVOCATION_STREAM = ''caracal.sessions.revoke''"
definition DELEGATION_INVALIDATION_STREAM :: string where "DELEGATION_INVALIDATION_STREAM = ''caracal.delegations.invalidate''"

record consumer =
  cs_stream :: string
  cs_streamHmacKey :: "string option"
  cs_requireSignature :: bool

text \<open>What a consumer changes: the store, the acknowledged messages and the dead letters.\<close>

record feed =
  fd_store :: redis_store
  fd_acked :: "string list"
  fd_dead :: "(string \<times> string \<times> (string \<times> stream_value) list) list"

definition consumer_new :: "string \<Rightarrow> string option \<Rightarrow> string option \<Rightarrow> bool option \<Rightarrow> consumer option" where
  "consumer_new defaultStream stream streamHmacKey requireSignature =
    (let required = (case requireSignature of Some b \<Rightarrow> b | None \<Rightarrow> streamHmacKey \<noteq> None) in
     if required \<and> streamHmacKey = None then None
     else Some \<lparr>cs_stream = (case stream of Some v \<Rightarrow> v | None \<Rightarrow> defaultStream),
                cs_streamHmacKey = streamHmacKey, cs_requireSignature = required\<rparr>)"

fun redis_fieldsToValues_loop :: "string list \<Rightarrow> (string \<times> stream_value) list \<Rightarrow> (string \<times> stream_value) list" where
  "redis_fieldsToValues_loop (k # v # fs) out = redis_fieldsToValues_loop fs (AList.update k (SVStr v) out)"
| "redis_fieldsToValues_loop [k] out = AList.update k (SVStr []) out"
| "redis_fieldsToValues_loop [] out = out"

definition redis_fieldsToValues :: "string list \<Rightarrow> (string \<times> stream_value) list" where
  "redis_fieldsToValues flds = redis_fieldsToValues_loop flds []"

definition string_fields :: "stream_value option list \<Rightarrow> string list" where
  "string_fields vs = concat (map (\<lambda>v. case v of Some (SVStr s) \<Rightarrow> if s = [] then [] else [s] | _ \<Rightarrow> []) vs)"

definition message_anchors :: "(string \<times> stream_value) list \<Rightarrow> string list" where
  "message_anchors values = uniq (string_fields (map (map_of values)
     [''session_id'', ''sid'', ''root_sid'', ''agent_session_id'', ''delegation_edge_id'']))"

text \<open>Each step returns whether it completed; a step that throws leaves the message unacknowledged.\<close>

definition deadLetter :: "(redis_call \<Rightarrow> bool) \<Rightarrow> consumer \<Rightarrow> string \<Rightarrow> (string \<times> stream_value) list \<Rightarrow> string \<Rightarrow> feed \<Rightarrow> feed \<times> bool" where
  "deadLetter up c i values reason f =
    (if up (XAdd (cs_stream c @ ''.dead'')) then (f\<lparr>fd_dead := fd_dead f @ [(i, reason, values)]\<rparr>, True) else (f, False))"

definition consumer_ack :: "(redis_call \<Rightarrow> bool) \<Rightarrow> string \<Rightarrow> feed \<Rightarrow> feed \<times> bool" where
  "consumer_ack up i f = (if up (XAck i) then (f\<lparr>fd_acked := fd_acked f @ [i]\<rparr>, True) else (f, False))"

definition and_then :: "feed \<times> bool \<Rightarrow> (feed \<Rightarrow> feed \<times> bool) \<Rightarrow> feed \<times> bool" where
  "and_then r k = (case r of (f, ok) \<Rightarrow> if ok then k f else (f, False))"

fun mark_anchors :: "(redis_call \<Rightarrow> bool) \<Rightarrow> time \<Rightarrow> string list \<Rightarrow> feed \<Rightarrow> feed \<times> bool" where
  "mark_anchors up t [] f = (f, True)"
| "mark_anchors up t (a # as) f = (case redis_markRevoked up t a None (fd_store f) of
      None \<Rightarrow> (f, False)
    | Some s \<Rightarrow> mark_anchors up t as (f\<lparr>fd_store := s\<rparr>))"

definition revocation_message :: "(string \<Rightarrow> string \<Rightarrow> string) \<Rightarrow> consumer \<Rightarrow> (redis_call \<Rightarrow> bool) \<Rightarrow> time \<Rightarrow> string \<Rightarrow> string list \<Rightarrow> feed \<Rightarrow> feed \<times> bool" where
  "revocation_message hmac c up t i flds f =
    (let values = redis_fieldsToValues flds; anchors = message_anchors values in
     if \<not> verifyStream hmac (cs_requireSignature c) (cs_streamHmacKey c) (cs_stream c) values
     then and_then (deadLetter up c i values ''invalid_signature'' f) (consumer_ack up i)
     else if anchors = []
     then and_then (deadLetter up c i values ''missing_revocation_anchor'' f) (consumer_ack up i)
     else and_then (mark_anchors up t anchors f) (consumer_ack up i))"

definition invalidation_message :: "(string \<Rightarrow> string \<Rightarrow> string) \<Rightarrow> consumer \<Rightarrow> (redis_call \<Rightarrow> bool) \<Rightarrow> time \<Rightarrow> string \<Rightarrow> string list \<Rightarrow> feed \<Rightarrow> feed \<times> bool" where
  "invalidation_message hmac c up t i flds f =
    (let values = redis_fieldsToValues flds in
     if \<not> verifyStream hmac (cs_requireSignature c) (cs_streamHmacKey c) (cs_stream c) values
     then and_then (deadLetter up c i values ''invalid_signature'' f) (consumer_ack up i)
     else let epoch = (case map_of values ''epoch'' of Some (SVStr s) \<Rightarrow> safe_number s | _ \<Rightarrow> None) in
       and_then (case (map_of values ''zone_id'', epoch) of
            (Some (SVStr z), Some n) \<Rightarrow>
              if 0 \<le> n then (case redis_markDelegationEpoch up t z n None (fd_store f) of
                  None \<Rightarrow> (f, False) | Some s \<Rightarrow> (f\<lparr>fd_store := s\<rparr>, True))
              else deadLetter up c i values ''invalid_delegation_epoch'' f
          | _ \<Rightarrow> deadLetter up c i values ''invalid_delegation_epoch'' f) (consumer_ack up i))"

fun process_all :: "(string \<Rightarrow> string list \<Rightarrow> feed \<Rightarrow> feed \<times> bool) \<Rightarrow> (string \<times> string list) list \<Rightarrow> feed \<Rightarrow> feed \<times> bool" where
  "process_all process [] f = (f, True)"
| "process_all process ((i, flds) # ms) f = and_then (process i flds f) (process_all process ms)"

partial_function (option) replayPending ::
    "(string \<Rightarrow> string \<times> (string \<times> string list) list) \<Rightarrow> (string \<Rightarrow> string list \<Rightarrow> feed \<Rightarrow> feed \<times> bool) \<Rightarrow> string \<Rightarrow> nat \<Rightarrow> feed \<Rightarrow>
     (nat \<times> feed \<times> bool) option" where
  "replayPending claim process start handled f =
    (let (next, messages) = claim start; (f1, ok) = process_all process messages f; n = handled + length messages
     in if \<not> ok \<or> messages = [] \<or> next = [] \<or> next = ''0-0'' then Some (n, f1, ok)
        else replayPending claim process next n f1)"

definition consumer_pollOnce ::
    "(string \<Rightarrow> string \<times> (string \<times> string list) list) \<Rightarrow> (string \<times> string list) list \<Rightarrow>
     (string \<Rightarrow> string list \<Rightarrow> feed \<Rightarrow> feed \<times> bool) \<Rightarrow> feed \<Rightarrow> (nat \<times> feed \<times> bool) option" where
  "consumer_pollOnce claim fresh process f = (case replayPending claim process ''0-0'' 0 f of
      None \<Rightarrow> None
    | Some (n, f1, ok) \<Rightarrow> if \<not> ok then Some (n, f1, False)
        else let (f2, ok2) = process_all process fresh f1 in Some (n + length fresh, f2, ok2))"

subsection \<open>Decimal strings\<close>

lemma digit_char_is_digit: "k < 10 \<Longrightarrow> is_digit (digit_char k) \<and> digit_value (digit_char k) = int k"
  by (simp add: digit_char_def is_digit_def digit_value_def of_char_of)

lemma show_nat_value: "list_all is_digit (show_nat n) \<and> show_nat n \<noteq> [] \<and> digits_value 10 (show_nat n) = int n"
proof (induction n rule: show_nat.induct)
  case (1 n)
  have "int (n div 10) * 10 + int (n mod 10) = int n" by presburger
  with 1 show ?case using digit_char_is_digit [of n] digit_char_is_digit [of "n mod 10"]
    by (subst (1 2 3) show_nat.simps) (auto simp: digits_value_def)
qed

lemma digit_not_special:
  assumes "is_digit c"
  shows "\<not> is_space c" "c \<noteq> CHR ''-''" "c \<noteq> CHR ''+''" "to_lower_char c \<notin> {CHR ''x'', CHR ''o'', CHR ''b''}"
  using assms by (auto simp: is_digit_def is_space_def to_lower_char_def Let_def split: if_splits)

lemma trim_digits:
  assumes "list_all is_digit s"
  shows "trim s = s"
proof -
  have "dropWhile is_space xs = xs" if "list_all is_digit xs" for xs using that digit_not_special(1) by (cases xs) auto
  then show ?thesis using assms by (simp add: trim_def trim_start_def)
qed

lemma safe_number_show:
  assumes "0 \<le> n" "n \<le> MAX_SAFE_INTEGER"
  shows "safe_number (show_int n) = Some n"
proof -
  let ?s = "show_nat (nat n)"
  note d = show_nat_value [of "nat n"]
  obtain c cs where s: "?s = c # cs" using d by (cases ?s) auto
  have "signed ?s = (False, ?s)" using d digit_not_special(2,3) by (auto simp: s signed_def)
  moreover have tw: "takeWhile is_digit ?s = ?s" "dropWhile is_digit ?s = []"
    using d by (auto simp: takeWhile_eq_all_conv dropWhile_eq_Nil_conv list_all_iff)
  then have "decimal ?s = Some n" using assms d unfolding decimal_def Let_def tw by simp
  moreover have "to_lower (take 2 ?s) \<noteq> ''0x''" "to_lower (take 2 ?s) \<noteq> ''0o''" "to_lower (take 2 ?s) \<noteq> ''0b''"
    using d digit_not_special(4) by (cases cs; auto simp: s to_lower_def)+
  ultimately show ?thesis using assms(1) d by (simp add: safe_number_def show_int_def trim_digits)
qed

text \<open>The script's comparison of decimal strings is the comparison of the numbers they denote.\<close>

definition epoch_text :: "string \<Rightarrow> int" where
  "epoch_text v = (if v = [] \<or> \<not> list_all is_digit v then 0 else digits_value 10 v)"

lemma digits_value_append: "digits_value b (xs @ ys) = digits_value b xs * b ^ length ys + digits_value b ys"
proof -
  have "foldl (\<lambda>n c. n * b + digit_value c) m ys = m * b ^ length ys + foldl (\<lambda>n c. n * b + digit_value c) 0 ys" for m
  proof (induction ys arbitrary: m)
    case (Cons y ys)
    show ?case unfolding foldl.simps Cons.IH [of "m * b + digit_value y"] Cons.IH [of "0 * b + digit_value y"] by (simp add: algebra_simps)
  qed simp
  then show ?thesis unfolding digits_value_def foldl_append .
qed

lemma digits_value_bound: "list_all is_digit s \<Longrightarrow> 0 \<le> digits_value 10 s \<and> digits_value 10 s < 10 ^ length s"
proof (induction s rule: rev_induct)
  case (snoc c cs)
  then have "0 \<le> digit_value c" "digit_value c \<le> 9" by (simp_all add: is_digit_def digit_value_def Let_def)
  then show ?case using snoc by (simp add: digits_value_def)
qed (simp add: digits_value_def)

lemma lua_normalize_value:
  assumes "w = lua_normalize v"
  shows "list_all is_digit w" "digits_value 10 w = epoch_text v" "w = ''0'' \<or> (\<exists>c cs. w = c # cs \<and> 1 \<le> digit_value c)"
proof -
  have zeros: "digits_value 10 (dropWhile (\<lambda>c. c = CHR ''0'') v) = digits_value 10 v"
    by (induction v) (auto simp: digits_value_def digit_value_def)
  have nil: "digits_value 10 [] = 0" by (simp add: digits_value_def)
  have zero: "digits_value 10 ''0'' = 0" "list_all is_digit ''0''" by (simp_all add: digits_value_def digit_value_def is_digit_def)
  have "1 \<le> digit_value (hd xs)" if "dropWhile (\<lambda>c. c = CHR ''0'') v = xs" "xs \<noteq> []" "list_all is_digit v" for xs
  proof -
    have "hd xs \<noteq> CHR ''0''" "is_digit (hd xs)"
      using that hd_dropWhile [of "\<lambda>c. c = CHR ''0''" v] set_dropWhileD [of _ "\<lambda>c. c = CHR ''0''" v] hd_in_set [of xs]
      by (auto simp: list_all_iff)
    moreover from this have "(of_char (hd xs) :: nat) \<noteq> of_char (CHR ''0'')" using of_char_eq_iff by blast
    ultimately show ?thesis by (simp add: is_digit_def digit_value_def Let_def)
  qed
  then have lead: "\<exists>c cs. dropWhile (\<lambda>c. c = CHR ''0'') v = c # cs \<and> 1 \<le> digit_value c"
    if "dropWhile (\<lambda>c. c = CHR ''0'') v \<noteq> []" "list_all is_digit v" using that by (metis list.collapse)
  have alld: "list_all is_digit (dropWhile (\<lambda>c. c = CHR ''0'') v)" if "list_all is_digit v"
    using that set_dropWhileD by (fastforce simp: list_all_iff)
  show "list_all is_digit w" using zero alld by (simp add: assms lua_normalize_def Let_def)
  show "digits_value 10 w = epoch_text v"
  proof (cases "v = [] \<or> \<not> list_all is_digit v")
    case False
    then show ?thesis using zero(1) zeros nil by (cases "dropWhile (\<lambda>c. c = CHR ''0'') v = []") (simp_all add: assms lua_normalize_def epoch_text_def del: dropWhile_eq_Nil_conv)
  qed (use zero(1) in \<open>simp_all add: assms lua_normalize_def epoch_text_def\<close>)
  show "w = ''0'' \<or> (\<exists>c cs. w = c # cs \<and> 1 \<le> digit_value c)" using lead by (auto simp: assms lua_normalize_def Let_def)
qed

lemma lex_less_iff:
  assumes "length a = length b" "list_all is_digit a" "list_all is_digit b"
  shows "a < b \<longleftrightarrow> digits_value 10 a < digits_value 10 b"
  using assms
proof (induction a b rule: list_induct2)
  case (Cons x xs y ys)
  have v: "digits_value 10 (c # cs) = digit_value c * 10 ^ length cs + digits_value 10 cs" for c cs
    using digits_value_append [of 10 "[c]" cs] by (simp add: digits_value_def)
  note b = digits_value_bound [of xs] digits_value_bound [of ys]
  have ord: "x < y \<longleftrightarrow> digit_value x < digit_value y" "x = y \<longleftrightarrow> digit_value x = digit_value y"
    by (auto simp: digit_value_def less_char_def)
  consider "digit_value x < digit_value y" | "x = y" | "digit_value y < digit_value x" using ord(2) by linarith
  then show ?case
  proof cases
    case 1
    then have "digit_value x * 10 ^ length xs + 10 ^ length xs \<le> digit_value y * 10 ^ length xs"
      by (metis add.commute distrib_right int_one_le_iff_zero_less mult.left_neutral mult_right_mono zless_imp_add1_zle zero_le_numeral zero_le_power)
    then show ?thesis using 1 Cons b by (simp add: v ord)
  next
    case 2
    then show ?thesis using Cons by (simp add: v)
  next
    case 3
    then have "digit_value y * 10 ^ length ys + 10 ^ length ys \<le> digit_value x * 10 ^ length ys"
      by (metis add.commute distrib_right int_one_le_iff_zero_less mult.left_neutral mult_right_mono zless_imp_add1_zle zero_le_numeral zero_le_power)
    then show ?thesis using 3 Cons b by (auto simp: v ord)
  qed
qed (simp add: digits_value_def)

lemma script_compares:
  "length (lua_normalize u) < length (lua_normalize v) \<or> (length (lua_normalize v) = length (lua_normalize u) \<and> lua_normalize u < lua_normalize v)
    \<longleftrightarrow> epoch_text u < epoch_text v"
proof -
  define a b where ab: "a = lua_normalize u" "b = lua_normalize v"
  note a = lua_normalize_value [OF ab(1)] and b = lua_normalize_value [OF ab(2)]
  have longer: "digits_value 10 x < digits_value 10 y" if L: "length x < length y" "list_all is_digit x" "list_all is_digit y"
    "y = ''0'' \<or> (\<exists>c cs. y = c # cs \<and> 1 \<le> digit_value c)" "x \<noteq> []" for x y
  proof -
    have "y \<noteq> ''0''" using L(1,5) by (cases x) auto
    then obtain c cs where y: "y = c # cs" "1 \<le> digit_value c" using L(4) by blast
    have "digits_value 10 y = digit_value c * 10 ^ length cs + digits_value 10 cs"
      using digits_value_append [of 10 "[c]" cs] by (simp add: y digits_value_def)
    moreover have "10 ^ length cs \<le> digit_value c * 10 ^ length cs" using y(2) by simp
    moreover have "(10 :: int) ^ length x \<le> 10 ^ length cs" using L(1) by (simp add: y)
    moreover have "list_all is_digit cs" using L(3) by (simp add: y)
    ultimately show ?thesis using digits_value_bound [OF L(2)] digits_value_bound [of cs] by linarith
  qed
  have ne: "a \<noteq> []" "b \<noteq> []" using a(3) b(3) by auto
  consider "length a < length b" | "length a = length b" | "length b < length a" by linarith
  then show ?thesis unfolding ab [symmetric] a(2) [symmetric] b(2) [symmetric]
  proof cases
    case 1
    then show "(length a < length b \<or> length b = length a \<and> a < b) = (digits_value 10 a < digits_value 10 b)" using longer [OF 1 a(1) b(1) b(3) ne(1)] by simp
  next
    case 2
    then show "(length a < length b \<or> length b = length a \<and> a < b) = (digits_value 10 a < digits_value 10 b)" using lex_less_iff a(1) b(1) by simp
  next
    case 3
    then show "(length a < length b \<or> length b = length a \<and> a < b) = (digits_value 10 a < digits_value 10 b)" using longer [OF 3 b(1) a(1) a(3) ne(2)] by simp
  qed
qed

subsection \<open>The contract of a revocation store\<close>

text \<open>
  The interface \<open>RevocationStore\<close> with calls that do not fail: \<open>None\<close> is a refusal of the store.
  \<open>good\<close> tells which anchors it takes.
\<close>

locale revocation_store =
  fixes inv :: "'s \<Rightarrow> bool"
    and good :: "string \<Rightarrow> bool"
    and is_revoked :: "time \<Rightarrow> string \<Rightarrow> 's \<Rightarrow> bool"
    and mark_revoked :: "time \<Rightarrow> string \<Rightarrow> 's \<Rightarrow> 's option"
    and current_epoch :: "time \<Rightarrow> string \<Rightarrow> 's \<Rightarrow> int"
    and mark_epoch :: "time \<Rightarrow> string \<Rightarrow> int \<Rightarrow> 's \<Rightarrow> 's option"
    and ttl :: "'s \<Rightarrow> int"
  assumes mark_inv: "inv s \<Longrightarrow> mark_revoked t a s = Some s' \<Longrightarrow> inv s' \<and> ttl s' = ttl s"
    and epoch_inv: "inv s \<Longrightarrow> mark_epoch t z n s = Some s' \<Longrightarrow> inv s' \<and> ttl s' = ttl s"
    and marked: "inv s \<Longrightarrow> mark_revoked t a s = Some s' \<Longrightarrow> good a \<Longrightarrow> t \<le> t' \<Longrightarrow> t' < t + ttl s \<Longrightarrow> is_revoked t' a s'"
    and kept: "inv s \<Longrightarrow> mark_revoked t b s = Some s' \<Longrightarrow> a \<noteq> b \<Longrightarrow> t \<le> t' \<Longrightarrow> is_revoked t' a s' \<longleftrightarrow> is_revoked t' a s"
    and kept_epoch: "inv s \<Longrightarrow> mark_revoked t b s = Some s' \<Longrightarrow> good b \<Longrightarrow> current_epoch t' z s' = current_epoch t' z s"
    and raised: "inv s \<Longrightarrow> mark_epoch t z n s = Some s' \<Longrightarrow> z \<noteq> [] \<Longrightarrow> 0 \<le> n \<Longrightarrow> n \<le> MAX_SAFE_INTEGER \<Longrightarrow> current_epoch t z s < n \<Longrightarrow>
      t \<le> t' \<Longrightarrow> t' < t + ttl s \<Longrightarrow> current_epoch t' z s' = n"
    and not_lowered: "inv s \<Longrightarrow> mark_epoch t z n s = Some s' \<Longrightarrow> z' \<noteq> z \<or> n \<le> current_epoch t z s \<Longrightarrow> t \<le> t' \<Longrightarrow> current_epoch t' z' s' = current_epoch t' z' s"
    and epoch_apart: "inv s \<Longrightarrow> mark_epoch t z n s = Some s' \<Longrightarrow> good a \<Longrightarrow> is_revoked t' a s' \<longleftrightarrow> is_revoked t' a s"
begin

text \<open>A mark never shortens a revocation that was to last until \<open>x\<close>, as long as a fresh one would.\<close>

lemma mark_keeps_revoked:
  assumes "inv s" "mark_revoked t b s = Some s'" "good a" "\<forall>t'. t \<le> t' \<and> t' < x \<longrightarrow> is_revoked t' a s" "x \<le> t + ttl s"
  shows "\<forall>t'. t \<le> t' \<and> t' < x \<longrightarrow> is_revoked t' a s'"
  using assms marked [OF assms(1,2)] kept [OF assms(1,2)] by (cases "a = b") auto

text \<open>The epoch a store reports at the time of a mark is the maximum of the old one and the mark.\<close>

lemma mark_epoch_max:
  assumes "inv s" "mark_epoch t z n s = Some s'" "z \<noteq> []" "0 \<le> n" "n \<le> MAX_SAFE_INTEGER" "0 < ttl s"
  shows "current_epoch t z s' = max n (current_epoch t z s)"
  using raised [OF assms(1-5), of t] not_lowered [OF assms(1,2), of z t] assms(6) by (cases "current_epoch t z s < n") auto

end

lemma reap_lookup:
  assumes "distinct (map fst es)"
  shows "map_of (filter (\<lambda>(a, x). \<not> x \<le> (t :: int)) es) k = (case map_of es k of Some x \<Rightarrow> if x \<le> t then None else Some x | None \<Rightarrow> None)"
  using assms
proof (induction es)
  case (Cons e es)
  then show ?case by (cases e; cases "fst e = k"; cases "map_of es k") (auto dest: map_of_SomeD simp: image_iff)
qed simp

lemma inmem_reads:
  "fst (inmem_isRevoked t a s) \<longleftrightarrow> (\<exists>x. map_of (im_entries s) a = Some x \<and> t < x)"
  "fst (inmem_currentDelegationEpoch t z s) = (case map_of (im_epochs s) z of Some (n, x) \<Rightarrow> if t < x then n else 0 | None \<Rightarrow> 0)"
  by (auto simp: inmem_isRevoked_def inmem_currentDelegationEpoch_def split: option.split)

lemma inmem_markRevoked_effect:
  assumes "distinct (map fst (im_entries s))" "inmem_markRevoked t a None s = Some s'"
  shows "distinct (map fst (im_entries s'))" "im_defaultTtlMs s' = im_defaultTtlMs s" "im_epochs s' = im_epochs s"
    "map_of (im_entries s') a = Some (t + im_defaultTtlMs s)"
    "k \<noteq> a \<Longrightarrow> map_of (im_entries s') k = map_of (im_entries s) k \<or> (map_of (im_entries s') k = None \<and> (\<exists>x. map_of (im_entries s) k = Some x \<and> x \<le> t))"
  using assms reap_lookup [OF assms(1), of t k]
  by (auto simp: inmem_markRevoked_def Let_def reapExpired_def distinct_map_filter distinct_update update_conv' split: if_splits option.splits)

lemma inmem_markDelegationEpoch_effect:
  "im_entries (inmem_markDelegationEpoch t z n None s) = im_entries s"
  "im_defaultTtlMs (inmem_markDelegationEpoch t z n None s) = im_defaultTtlMs s"
  "z' \<noteq> z \<Longrightarrow> map_of (im_epochs (inmem_markDelegationEpoch t z n None s)) z' = map_of (im_epochs s) z'"
  "fst (inmem_currentDelegationEpoch t z s) < n \<Longrightarrow> map_of (im_epochs (inmem_markDelegationEpoch t z n None s)) z = Some (n, t + im_defaultTtlMs s)"
  "n \<le> fst (inmem_currentDelegationEpoch t z s) \<Longrightarrow> t \<le> t' \<Longrightarrow>
    fst (inmem_currentDelegationEpoch t' z (inmem_markDelegationEpoch t z n None s)) = fst (inmem_currentDelegationEpoch t' z s)"
  by (auto simp: inmem_markDelegationEpoch_def inmem_currentDelegationEpoch_def update_conv' delete_conv' split: option.splits if_splits)

interpretation inmem_store: revocation_store "\<lambda>s. distinct (map fst (im_entries s))" "\<lambda>a. True"
  "\<lambda>t a s. fst (inmem_isRevoked t a s)" "\<lambda>t a s. inmem_markRevoked t a None s"
  "\<lambda>t z s. fst (inmem_currentDelegationEpoch t z s)" "\<lambda>t z n s. Some (inmem_markDelegationEpoch t z n None s)" im_defaultTtlMs
proof (unfold_locales, goal_cases)
  case (4 s t b s' a t')
  from inmem_markRevoked_effect(5) [OF 4(1-3)] 4(4) show ?case unfolding inmem_reads by (elim disjE) (simp, auto)
next
  case (7 s t z n s' z' t')
  then show ?case using inmem_markDelegationEpoch_effect(5) [of n t z s t'] inmem_markDelegationEpoch_effect(3) [of z' z t n s]
    by (cases "z' = z") (auto simp: inmem_reads)
qed (auto simp: inmem_reads inmem_markRevoked_effect inmem_markDelegationEpoch_effect)

subsection \<open>The Redis store keeps the contract\<close>

text \<open>An anchor that is not itself the name of an epoch key.\<close>

definition redis_anchor :: "string \<Rightarrow> bool" where
  "redis_anchor a \<longleftrightarrow> a \<noteq> [] \<and> \<not> starts_with ''delegation-epoch:'' a"

abbreviation working :: "redis_call \<Rightarrow> bool" where
  "working \<equiv> \<lambda>call. True"

lemma keys_apart: "redis_anchor a \<Longrightarrow> anchor_key s a \<noteq> delegationEpochKey s z"
  by (auto simp: redis_anchor_def anchor_key_def delegationEpochKey_def starts_with_def)

lemma key_inject [simp]: "anchor_key s a = anchor_key s b \<longleftrightarrow> a = b" "delegationEpochKey s z = delegationEpochKey s z' \<longleftrightarrow> z = z'"
  by (simp_all add: anchor_key_def delegationEpochKey_def)

definition epoch_values :: "redis_store \<Rightarrow> bool" where
  "epoch_values s \<longleftrightarrow> (\<forall>z v x. map_of (rs_keys s) (delegationEpochKey s z) = Some (v, x) \<longrightarrow>
     (\<exists>n. 0 \<le> n \<and> n \<le> MAX_SAFE_INTEGER \<and> v = show_int n))"

lemma epoch_text_show: "0 \<le> n \<Longrightarrow> epoch_text (show_int n) = n"
  using show_nat_value [of "nat n"] by (simp add: epoch_text_def show_int_def)

lemma redis_reads:
  "redis_isRevoked working t a s = Some True \<longleftrightarrow> a \<noteq> [] \<and> (\<exists>v x. map_of (rs_keys s) (anchor_key s a) = Some (v, x) \<and> t < x)"
  "epoch_values s \<Longrightarrow> the (redis_currentDelegationEpoch working t z s) =
     (case map_of (rs_keys s) (delegationEpochKey s z) of Some (v, x) \<Rightarrow> if t < x then epoch_text v else 0 | None \<Rightarrow> 0)"
proof -
  show "redis_isRevoked working t a s = Some True \<longleftrightarrow> a \<noteq> [] \<and> (\<exists>v x. map_of (rs_keys s) (anchor_key s a) = Some (v, x) \<and> t < x)"
    by (auto simp: redis_isRevoked_def redis_get_def split: option.splits)
next
  assume inv: "epoch_values s"
  show "the (redis_currentDelegationEpoch working t z s) =
     (case map_of (rs_keys s) (delegationEpochKey s z) of Some (v, x) \<Rightarrow> if t < x then epoch_text v else 0 | None \<Rightarrow> 0)"
  proof (cases "map_of (rs_keys s) (delegationEpochKey s z)")
    case (Some p)
    obtain v x where p: "p = (v, x)" by (cases p)
    obtain n where n: "0 \<le> n" "n \<le> MAX_SAFE_INTEGER" "v = show_int n" using inv Some by (auto simp: epoch_values_def p)
    then show ?thesis using Some
      by (simp add: p redis_currentDelegationEpoch_def redis_get_def safe_number_show epoch_text_show)
  qed (simp add: redis_currentDelegationEpoch_def redis_get_def)
qed

lemma redis_markRevoked_effect:
  assumes "redis_markRevoked working t a None s = Some s'"
  shows "rs_keyPrefix s' = rs_keyPrefix s" "rs_defaultTtlMs s' = rs_defaultTtlMs s"
    "a \<noteq> [] \<Longrightarrow> map_of (rs_keys s') (anchor_key s a) = Some (''1'', t + rs_defaultTtlMs s)"
    "k \<noteq> anchor_key s a \<Longrightarrow> map_of (rs_keys s') k = map_of (rs_keys s) k"
    "epoch_values s \<Longrightarrow> epoch_values s'"
proof -
  show frame: "rs_keyPrefix s' = rs_keyPrefix s" "rs_defaultTtlMs s' = rs_defaultTtlMs s"
    and at: "a \<noteq> [] \<Longrightarrow> map_of (rs_keys s') (anchor_key s a) = Some (''1'', t + rs_defaultTtlMs s)"
    and off: "k \<noteq> anchor_key s a \<Longrightarrow> map_of (rs_keys s') k = map_of (rs_keys s) k" for k
    using assms by (auto simp: redis_markRevoked_def redis_set_px_def update_conv' split: if_splits)
  assume inv: "epoch_values s"
  have one: "''1'' = show_int 1" by code_simp
  show "epoch_values s'" unfolding epoch_values_def
  proof (intro allI impI)
    fix z v x assume m: "map_of (rs_keys s') (delegationEpochKey s' z) = Some (v, x)"
    have k: "delegationEpochKey s' z = delegationEpochKey s z" by (simp add: delegationEpochKey_def frame)
    show "\<exists>n. 0 \<le> n \<and> n \<le> MAX_SAFE_INTEGER \<and> v = show_int n"
    proof (cases "a \<noteq> [] \<and> delegationEpochKey s z = anchor_key s a")
      case True
      then show ?thesis using m at one by (auto simp: k MAX_SAFE_INTEGER_def intro!: exI [of _ 1])
    next
      case False
      then have "map_of (rs_keys s') (delegationEpochKey s z) = map_of (rs_keys s) (delegationEpochKey s z)"
        using off assms by (cases "a = []") (auto simp: redis_markRevoked_def)
      then show ?thesis using m inv by (auto simp: k epoch_values_def)
    qed
  qed
qed

lemma redis_markDelegationEpoch_effect:
  assumes "redis_markDelegationEpoch working t z n None s = Some s'" "epoch_values s"
  shows "rs_keyPrefix s' = rs_keyPrefix s" "rs_defaultTtlMs s' = rs_defaultTtlMs s"
    "k \<noteq> delegationEpochKey s z \<Longrightarrow> map_of (rs_keys s') k = map_of (rs_keys s) k"
    "z \<noteq> [] \<Longrightarrow> 0 \<le> n \<Longrightarrow> n \<le> MAX_SAFE_INTEGER \<Longrightarrow> the (redis_currentDelegationEpoch working t z s) < n \<Longrightarrow>
      map_of (rs_keys s') (delegationEpochKey s z) = Some (show_int n, t + rs_defaultTtlMs s)"
    "n \<le> the (redis_currentDelegationEpoch working t z s) \<Longrightarrow> s' = s"
    "epoch_values s'"
proof -
  have current: "epoch_text (case redis_get t (delegationEpochKey s z) (rs_keys s) of Some v \<Rightarrow> v | None \<Rightarrow> ''0'') = the (redis_currentDelegationEpoch working t z s)"
    by (subst redis_reads(2) [OF assms(2)]) (auto simp: redis_get_def epoch_text_def digits_value_def digit_value_def split: option.split)
  have script: "MAX_EPOCH_SCRIPT t (delegationEpochKey s z) (show_int n) ttl (rs_keys s) =
      (if the (redis_currentDelegationEpoch working t z s) < n then redis_set_px t (delegationEpochKey s z) (show_int n) ttl (rs_keys s) else rs_keys s)"
    if "0 \<le> n" for ttl
    unfolding MAX_EPOCH_SCRIPT_def Let_def script_compares current epoch_text_show [OF that] ..
  have eq: "s' = (if z = [] \<or> \<not> \<bar>n\<bar> \<le> MAX_SAFE_INTEGER \<or> n < 0 then s
     else if the (redis_currentDelegationEpoch working t z s) < n
     then s\<lparr>rs_keys := AList.update (delegationEpochKey s z) (show_int n, t + rs_defaultTtlMs s) (rs_keys s)\<rparr> else s)"
  proof (cases "z = [] \<or> \<not> \<bar>n\<bar> \<le> MAX_SAFE_INTEGER \<or> n < 0")
    case False
    then have "0 \<le> n" by simp
    have "Some s' = Some (s\<lparr>rs_keys := MAX_EPOCH_SCRIPT t (delegationEpochKey s z) (show_int n) (rs_defaultTtlMs s) (rs_keys s)\<rparr>)"
      using assms(1) unfolding redis_markDelegationEpoch_def if_not_P [OF False] by simp
    then show ?thesis unfolding script [OF \<open>0 \<le> n\<close>] if_not_P [OF False] by (simp add: redis_set_px_def)
  qed (use assms(1) in \<open>simp add: redis_markDelegationEpoch_def\<close>)
  show "rs_keyPrefix s' = rs_keyPrefix s" "rs_defaultTtlMs s' = rs_defaultTtlMs s"
    "k \<noteq> delegationEpochKey s z \<Longrightarrow> map_of (rs_keys s') k = map_of (rs_keys s) k"
    "z \<noteq> [] \<Longrightarrow> 0 \<le> n \<Longrightarrow> n \<le> MAX_SAFE_INTEGER \<Longrightarrow> the (redis_currentDelegationEpoch working t z s) < n \<Longrightarrow>
      map_of (rs_keys s') (delegationEpochKey s z) = Some (show_int n, t + rs_defaultTtlMs s)"
    "n \<le> the (redis_currentDelegationEpoch working t z s) \<Longrightarrow> s' = s"
    by (simp_all add: eq update_conv')
  have key: "delegationEpochKey s' z' = delegationEpochKey s z'" for z' by (simp add: eq delegationEpochKey_def)
  have "map_of (rs_keys s) (delegationEpochKey s z') = Some (v, x) \<or> (0 \<le> n \<and> n \<le> MAX_SAFE_INTEGER \<and> v = show_int n)"
    if "map_of (rs_keys s') (delegationEpochKey s z') = Some (v, x)" for z' v x
    using that by (simp add: eq update_conv' split: if_splits)
  then show "epoch_values s'" using assms(2) unfolding epoch_values_def key by blast
qed

interpretation redis_store: revocation_store epoch_values redis_anchor
  "\<lambda>t a s. redis_isRevoked working t a s = Some True" "\<lambda>t a s. redis_markRevoked working t a None s"
  "\<lambda>t z s. the (redis_currentDelegationEpoch working t z s)" "\<lambda>t z n s. redis_markDelegationEpoch working t z n None s" rs_defaultTtlMs
proof (unfold_locales, goal_cases)
  case (1 s t a s') then show ?case using redis_markRevoked_effect(2,5) by blast
next
  case (2 s t z n s') then show ?case using redis_markDelegationEpoch_effect(2,6) by blast
next
  case (3 s t a s' t')
  then show ?case using redis_markRevoked_effect(1,3) [OF 3(2)] by (auto simp: redis_reads redis_anchor_def anchor_key_def)
next
  case (4 s t b s' a t')
  then show ?case using redis_markRevoked_effect(1,4) [OF 4(2)] by (auto simp: redis_reads anchor_key_def)
next
  case (5 s t b s' t' z)
  then show ?case using redis_markRevoked_effect(1,4,5) [OF 5(2)] keys_apart [OF 5(3), of s z]
    by (auto simp: redis_reads(2) delegationEpochKey_def)
next
  case (6 s t z n s' t')
  then show ?case using redis_markDelegationEpoch_effect(1,4,6) [OF 6(2,1)] by (auto simp: redis_reads(2) epoch_text_show delegationEpochKey_def)
next
  case (7 s t z n s' z' t')
  then show ?case using redis_markDelegationEpoch_effect(1,3,5,6) [OF 7(2,1)]
    by (cases "z' = z") (auto simp: redis_reads(2) delegationEpochKey_def)
next
  case (8 s t z n s' a t')
  then show ?case using redis_markDelegationEpoch_effect(1,3) [OF 8(2,1)] keys_apart [OF 8(3), of s z]
    by (auto simp: redis_reads(1) anchor_key_def)
qed

subsection \<open>What the consumers make of a message\<close>

lemma up_working:
  "redis_markRevoked up t a ttl s = Some s' \<Longrightarrow> redis_markRevoked working t a ttl s = Some s'"
  "redis_markDelegationEpoch up t z n ttl s = Some s' \<Longrightarrow> redis_markDelegationEpoch working t z n ttl s = Some s'"
  by (auto simp: redis_markRevoked_def redis_markDelegationEpoch_def split: if_splits)

text \<open>The store answers that an anchor is revoked at every time up to \<open>x\<close>.\<close>

definition revoked_until :: "time \<Rightarrow> time \<Rightarrow> string \<Rightarrow> redis_store \<Rightarrow> bool" where
  "revoked_until t x a s \<longleftrightarrow> (\<forall>t'. t \<le> t' \<and> t' < x \<longrightarrow> redis_isRevoked working t' a s = Some True)"

text \<open>What every step of a consumer keeps: a sound store, its lifetime, and what is revoked until \<open>x\<close>.\<close>

definition keeps :: "time \<Rightarrow> redis_store \<Rightarrow> redis_store \<Rightarrow> bool" where
  "keeps t s s' \<longleftrightarrow> epoch_values s \<longrightarrow> epoch_values s' \<and> rs_defaultTtlMs s' = rs_defaultTtlMs s \<and>
     (\<forall>a x. redis_anchor a \<and> x \<le> t + rs_defaultTtlMs s \<and> revoked_until t x a s \<longrightarrow> revoked_until t x a s')"

lemma keeps_refl [simp]: "keeps t s s"
  by (simp add: keeps_def)

lemma keeps_trans: "keeps t s s1 \<Longrightarrow> keeps t s1 s2 \<Longrightarrow> keeps t s s2"
  by (auto simp: keeps_def)

lemma markRevoked_keeps:
  assumes "redis_markRevoked up t b None s = Some s'"
  shows "keeps t s s'"
  using redis_store.mark_inv [of s t b s'] redis_store.mark_keeps_revoked [of s t b s'] up_working(1) [OF assms]
  unfolding keeps_def revoked_until_def by blast

lemma markDelegationEpoch_keeps:
  assumes "redis_markDelegationEpoch up t z n None s = Some s'"
  shows "keeps t s s'"
  using redis_store.epoch_inv [of s t z n s'] redis_store.epoch_apart [of s t z n s'] up_working(2) [OF assms]
  unfolding keeps_def revoked_until_def by blast

lemma mark_anchors_keeps: "keeps t (fd_store f) (fd_store (fst (mark_anchors up t as f)))"
proof (induction as arbitrary: f)
  case (Cons a as)
  show ?case
  proof (cases "redis_markRevoked up t a None (fd_store f)")
    case (Some s)
    then show ?thesis using keeps_trans [OF markRevoked_keeps [OF Some]] Cons.IH [of "f\<lparr>fd_store := s\<rparr>"] by simp
  qed simp
qed simp

lemma mark_anchors_revokes:
  assumes "snd (mark_anchors up t as f)" "a \<in> set as" "redis_anchor a" "epoch_values (fd_store f)"
  shows "revoked_until t (t + rs_defaultTtlMs (fd_store f)) a (fd_store (fst (mark_anchors up t as f)))"
  using assms(1,2,4)
proof (induction as arbitrary: f)
  case (Cons b as)
  from Cons.prems(1) obtain s where s: "redis_markRevoked up t b None (fd_store f) = Some s" "snd (mark_anchors up t as (f\<lparr>fd_store := s\<rparr>))"
    by (auto split: option.splits)
  have inv: "epoch_values s" "rs_defaultTtlMs s = rs_defaultTtlMs (fd_store f)"
    using redis_store.mark_inv [OF Cons.prems(3) up_working(1) [OF s(1)]] by auto
  show ?case
  proof (cases "a \<in> set as")
    case True
    then show ?thesis using Cons.IH [OF s(2)] s(1) inv by simp
  next
    case False
    then have "revoked_until t (t + rs_defaultTtlMs s) a s"
      using redis_store.marked [OF Cons.prems(3) up_working(1) [OF s(1)]] Cons.prems(2) assms(3) inv by (auto simp: revoked_until_def)
    then show ?thesis using mark_anchors_keeps [of t "f\<lparr>fd_store := s\<rparr>" up as] s(1) inv assms(3) by (auto simp: keeps_def)
  qed
qed simp

lemma ack_letter_store [simp]:
  "fd_store (fst (consumer_ack up i f)) = fd_store f" "fd_store (fst (deadLetter up c i v r f)) = fd_store f"
  by (simp_all add: consumer_ack_def deadLetter_def)

lemma and_then_ack [simp]: "fd_store (fst (and_then r (consumer_ack up i))) = fd_store (fst r)"
  by (cases r) (simp add: and_then_def)

lemma and_then_snd: "snd (and_then r k) \<longleftrightarrow> snd r \<and> snd (k (fst r))"
  by (cases r) (simp add: and_then_def)

lemma revocation_message_keeps: "keeps t (fd_store f) (fd_store (fst (revocation_message hmac c up t i flds f)))"
  using mark_anchors_keeps by (simp add: revocation_message_def Let_def)

lemma invalidation_message_keeps: "keeps t (fd_store f) (fd_store (fst (invalidation_message hmac c up t i flds f)))"
  using markDelegationEpoch_keeps
  by (simp add: invalidation_message_def Let_def split: option.split stream_value.split)

text \<open>Both consumers at work on one store, their Redis calls failing or not.\<close>

datatype feed_event = Revocation string "string list" | Invalidation string "string list"

fun feed_step :: "(string \<Rightarrow> string \<Rightarrow> string) \<Rightarrow> consumer \<Rightarrow> consumer \<Rightarrow> time \<times> (redis_call \<Rightarrow> bool) \<times> feed_event \<Rightarrow> feed \<Rightarrow> feed" where
  "feed_step hmac rc ic (t, up, Revocation i flds) f = fst (revocation_message hmac rc up t i flds f)"
| "feed_step hmac rc ic (t, up, Invalidation i flds) f = fst (invalidation_message hmac ic up t i flds f)"

definition feed_run :: "(string \<Rightarrow> string \<Rightarrow> string) \<Rightarrow> consumer \<Rightarrow> consumer \<Rightarrow> (time \<times> (redis_call \<Rightarrow> bool) \<times> feed_event) list \<Rightarrow> feed \<Rightarrow> feed" where
  "feed_run hmac rc ic evs f = fold (feed_step hmac rc ic) evs f"

lemma feed_step_keeps: "keeps (fst ev) (fd_store f) (fd_store (feed_step hmac rc ic ev f))"
  by (cases "(hmac, rc, ic, ev, f)" rule: feed_step.cases) (simp_all add: revocation_message_keeps invalidation_message_keeps)

lemma feed_run_revoked:
  assumes "sorted (map fst evs)" "\<forall>ev\<in>set evs. t0 \<le> fst ev" "epoch_values (fd_store f)" "redis_anchor a"
    "x \<le> t0 + rs_defaultTtlMs (fd_store f)" "revoked_until t0 x a (fd_store f)" "\<forall>ev\<in>set evs. fst ev \<le> t'" "t0 \<le> t'"
  shows "revoked_until t' x a (fd_store (feed_run hmac rc ic evs f))"
  using assms(1-3,5-8)
proof (induction evs arbitrary: t0 f)
  case Nil
  then show ?case by (auto simp: feed_run_def revoked_until_def)
next
  case (Cons ev evs)
  let ?f = "feed_step hmac rc ic ev f"
  have t: "t0 \<le> fst ev" using Cons.prems(2) by simp
  have "revoked_until (fst ev) x a (fd_store f)" using Cons.prems(5) t by (auto simp: revoked_until_def)
  moreover have "x \<le> fst ev + rs_defaultTtlMs (fd_store f)" using Cons.prems(4) t by simp
  ultimately have k: "epoch_values (fd_store ?f)" "rs_defaultTtlMs (fd_store ?f) = rs_defaultTtlMs (fd_store f)" "revoked_until (fst ev) x a (fd_store ?f)"
    using feed_step_keeps [of ev f hmac rc ic] Cons.prems(3) assms(4) unfolding keeps_def by blast+
  have "revoked_until t' x a (fd_store (feed_run hmac rc ic evs ?f))"
    by (rule Cons.IH [of "fst ev"]) (use Cons.prems k t in auto)
  then show ?case by (simp add: feed_run_def)
qed

subsection \<open>Messages of the outbox\<close>

lemma redis_fieldsToValues_flat:
  "redis_fieldsToValues (concat (map (\<lambda>(k, v). [k, v]) kvs)) = fieldsToValues (concat (map (\<lambda>(k, v). [k, v]) kvs))"
proof -
  have "redis_fieldsToValues_loop (concat (map (\<lambda>(k, v). [k, v]) kvs)) out = fieldsToValues_loop (concat (map (\<lambda>(k, v). [k, v]) kvs)) out" for out
    by (induction kvs arbitrary: out) auto
  then show ?thesis by (simp add: redis_fieldsToValues_def fieldsToValues_def)
qed

definition field_text :: "json \<Rightarrow> string" where
  "field_text v = (case v of JStr s \<Rightarrow> s | _ \<Rightarrow> render v)"

lemma stream_values_lookup:
  assumes "o_payload row = JObj kvs" "distinct (map fst kvs)" "k \<notin> {''outbox_id'', ''dedupe_key'', STREAM_SIG_FIELD}" "map_of kvs k = Some v"
  shows "map_of (stream_values row) k = Some (field_text v)"
proof -
  have "map_of (fold set_field kvs vs) k = (case map_of kvs k of Some v \<Rightarrow> Some (field_text v) | None \<Rightarrow> map_of vs k)"
    if "distinct (map fst kvs)" for kvs vs using that
  proof (induction kvs arbitrary: vs)
    case (Cons kv kvs)
    obtain k' v' where kv: "kv = (k', v')" by (cases kv)
    have "map_of (set_field kv vs) k = (if k' = k then Some (field_text v') else map_of vs k)"
      using assms(3) by (auto simp: kv set_field_def field_text_def update_conv')
    moreover have "map_of kvs k = None" if "k' = k" using Cons.prems that by (auto simp: kv map_of_eq_None_iff)
    ultimately show ?case using Cons by (auto simp: kv split: option.splits)
  qed simp
  then show ?thesis using assms by (simp add: stream_values_def payload_entries_def)
qed

lemma message_lookup:
  assumes "o_payload row = JObj kvs" "distinct (map fst kvs)" "k \<notin> {''outbox_id'', ''dedupe_key'', STREAM_SIG_FIELD}" "map_of kvs k = Some v"
  shows "map_of (redis_fieldsToValues (streamFields hmac key row)) k = Some (SVStr (field_text v))"
proof -
  have "map_of (signed_values hmac key row) k = Some (field_text v)"
    using stream_values_lookup [OF assms] assms(3) by (simp add: signed_values_def Let_def update_conv' split: option.split)
  moreover have "redis_fieldsToValues (streamFields hmac key row) = map (\<lambda>(k, v). (k, SVStr v)) (signed_values hmac key row)"
    using redis_fieldsToValues_flat [of "signed_values hmac key row"] streamFields_values [of hmac key row] unfolding streamFields_def by simp
  ultimately show ?thesis by (simp add: map_of_map)
qed

end
