(* ===== verification/Verifier.thy ===== *)
theory Verifier
  imports Revocations Identity
begin

text \<open>
  The check a resource server makes on a mandate: \<open>packages/verify/ts/src/authenticate.ts\<close>, \<open>fetch.ts\<close> and
  \<open>types.ts\<close>, with the FastMCP adapter (\<open>packages/adapters/fastmcp/ts/src/middleware.ts\<close>). A revocation
  store is the record of its two reads, as the interface of \<open>packages/revocation\<close> has them;
  \<open>None\<close> as an answer means that the read threw. The key set fetch and the JWT library are the parameters
  of \<open>verify\<close>.
\<close>

datatype auth_code =
    MissingToken | InvalidToken | InvalidZone | InsufficientScope | SessionRevoked | DelegationStale
  | SessionRequired | DelegationRequired | ChainMismatch | HopCountExceeded

record auth_error =
  ae_code :: auth_code
  ae_description :: string
  ae_hint :: string

fun code_text :: "auth_code \<Rightarrow> string" where
  "code_text MissingToken = ''missing_token''"
| "code_text InvalidToken = ''invalid_token''"
| "code_text InvalidZone = ''invalid_zone''"
| "code_text InsufficientScope = ''insufficient_scope''"
| "code_text SessionRevoked = ''session_revoked''"
| "code_text DelegationStale = ''delegation_stale''"
| "code_text SessionRequired = ''session_required''"
| "code_text DelegationRequired = ''delegation_required''"
| "code_text ChainMismatch = ''chain_mismatch''"
| "code_text HopCountExceeded = ''hop_count_exceeded''"

fun defaultDescription :: "auth_code \<Rightarrow> string" where
  "defaultDescription MissingToken = ''Missing bearer token''"
| "defaultDescription InvalidZone = ''Token zone validation failed''"
| "defaultDescription InsufficientScope = ''Required scope is missing''"
| "defaultDescription SessionRevoked = ''Session revoked''"
| "defaultDescription DelegationStale = ''Delegation graph changed''"
| "defaultDescription SessionRequired = ''Session required''"
| "defaultDescription DelegationRequired = ''Delegation required''"
| "defaultDescription ChainMismatch = ''Delegation chain validation failed''"
| "defaultDescription HopCountExceeded = ''Hop count exceeded''"
| "defaultDescription InvalidToken = ''Token validation failed''"

fun defaultHint :: "auth_code \<Rightarrow> string" where
  "defaultHint MissingToken = ''Send Authorization: Bearer <Caracal mandate>.''"
| "defaultHint InvalidZone = ''Check the configured zoneId and the mandate zone_id claim.''"
| "defaultHint InsufficientScope = ''Request a mandate that includes every required scope for this route.''"
| "defaultHint SessionRevoked = ''Refresh the mandate or start a new authorized session.''"
| "defaultHint DelegationStale = ''Refresh the mandate so delegated authority is evaluated against the latest graph.''"
| "defaultHint SessionRequired = ''Use a resource mandate issued for a governed Session.''"
| "defaultHint DelegationRequired = ''Use a mandate produced by a delegated grant flow.''"
| "defaultHint ChainMismatch = ''Check requireChainContains and the mandate delegation chain.''"
| "defaultHint HopCountExceeded = ''Reduce delegation depth or raise maxHopCount deliberately.''"
| "defaultHint InvalidToken = ''Check issuer, audience, signature, expiry, token use, scopes, and targets.''"

definition authErrorWith :: "auth_code \<Rightarrow> string \<Rightarrow> auth_error" where
  "authErrorWith c description = \<lparr>ae_code = c, ae_description = description, ae_hint = defaultHint c\<rparr>"

definition authError :: "auth_code \<Rightarrow> auth_error" where
  "authError c = authErrorWith c (defaultDescription c)"

fun httpStatusForAuthError :: "auth_code \<Rightarrow> int" where
  "httpStatusForAuthError InsufficientScope = 403"
| "httpStatusForAuthError SessionRequired = 403"
| "httpStatusForAuthError DelegationRequired = 403"
| "httpStatusForAuthError ChainMismatch = 403"
| "httpStatusForAuthError HopCountExceeded = 403"
| "httpStatusForAuthError _ = 401"

definition BEARER_SCHEME :: string where "BEARER_SCHEME = ''bearer''"

definition extractBearer :: "string option \<Rightarrow> string option" where
  "extractBearer header = (case header of
      None \<Rightarrow> None
    | Some h \<Rightarrow>
        if to_lower (take (length BEARER_SCHEME) h) \<noteq> BEARER_SCHEME then None
        else let v = drop (length BEARER_SCHEME) h in
          if length v = length (trim_start v) then None
          else let token = trim v in if token = [] then None else Some token)"

record store_api =
  api_isRevoked :: "string \<Rightarrow> bool option"
  api_currentDelegationEpoch :: "(string \<Rightarrow> int option) option"

record auth_deps =
  dp_config :: jwt_config
  dp_revocations :: "store_api option"

definition claim_anchors :: "claims \<Rightarrow> string list" where
  "claim_anchors cl = uniq (filter (\<lambda>a. a \<noteq> []) (concat (map (\<lambda>v. case v of Some a \<Rightarrow> [a] | None \<Rightarrow> [])
     [Some (c_authorityRecordId cl), Some (c_rootAuthorityRecordId cl), c_sessionId cl, c_delegationId cl])))"

text \<open>Each of the two checks returns \<open>None\<close> when the store throws, else the error it found, if any.\<close>

definition graphEpochError :: "claims \<Rightarrow> store_api \<Rightarrow> auth_error option option" where
  "graphEpochError cl revocations = (case (c_graphEpoch cl, api_currentDelegationEpoch revocations) of
      (Some epoch, Some currentDelegationEpoch) \<Rightarrow>
        map_option (\<lambda>current. if epoch < current then Some (authError DelegationStale) else None) (currentDelegationEpoch (c_zoneId cl))
    | _ \<Rightarrow> Some None)"

definition checkActiveAuthority :: "claims \<Rightarrow> store_api \<Rightarrow> time \<Rightarrow> auth_error option option" where
  "checkActiveAuthority cl revocations nowMs =
    (if c_authorityRecordId cl = [] then Some (Some (authError InvalidToken))
     else if c_expiresAt cl * 1000 \<le> nowMs then Some (Some (authErrorWith InvalidToken ''Token expired during execution''))
     else let checks = map (api_isRevoked revocations) (claim_anchors cl) in
       if None \<in> set checks then None
       else if Some True \<in> set checks then Some (Some (authError SessionRevoked))
       else graphEpochError cl revocations)"

fun verify_failure :: "verify_error \<Rightarrow> auth_error" where
  "verify_failure (ScopeInsufficientError missing) = authErrorWith InsufficientScope (''Missing scope: '' @ missing)"
| "verify_failure SessionRequiredError = authErrorWith SessionRequired ''Session required''"
| "verify_failure DelegationRequiredError = authErrorWith DelegationRequired ''Delegation required''"
| "verify_failure (ChainMismatchError missing) = authErrorWith ChainMismatch (''Delegation chain missing application: '' @ missing)"
| "verify_failure HopCountExceededError = authErrorWith HopCountExceeded ''Hop count exceeded''"
| "verify_failure ZoneInvalidError = authError InvalidZone"
| "verify_failure (TokenInvalidError _) = authError InvalidToken"

definition resource_config :: "jwt_config \<Rightarrow> jwt_config" where
  "resource_config c = c\<lparr>requiredUse := (case requiredUse c of Some u \<Rightarrow> Some u | None \<Rightarrow> Some MANDATE_USE_RESOURCE)\<rparr>"

definition authenticate ::
    "(string \<Rightarrow> string \<Rightarrow> 'k option) \<Rightarrow> (string \<Rightarrow> 'k \<Rightarrow> string \<Rightarrow> string \<Rightarrow> payload option) \<Rightarrow> time \<Rightarrow>
     string \<Rightarrow> auth_deps \<Rightarrow> auth_error + claims" where
  "authenticate getKeySet jwtVerify nowMs token deps =
    (if token = [] then Inl (authError MissingToken)
     else case verify getKeySet jwtVerify token (resource_config (dp_config deps)) of
         Inl e \<Rightarrow> Inl (verify_failure e)
       | Inr cl \<Rightarrow>
           (case dp_revocations deps of
              None \<Rightarrow> Inl (authErrorWith InvalidToken ''Revocation store required'')
            | Some revocations \<Rightarrow>
                (case checkActiveAuthority cl revocations nowMs of
                   None \<Rightarrow> Inl (authError InvalidToken)
                 | Some (Some e) \<Rightarrow> Inl e
                 | Some None \<Rightarrow> Inr cl)))"

text \<open>Per-route requirements; a field that is not given keeps the default.\<close>

record auth_overrides =
  ov_requiredScopes :: "string list option"
  ov_requiredTargets :: "string list option"
  ov_requiredUse :: "string option option"
  ov_requireSession :: "bool option"
  ov_requireDelegation :: "bool option"
  ov_requireChainContains :: "string list option"
  ov_maxHopCount :: "int option option"

definition override_with :: "'a option \<Rightarrow> 'a \<Rightarrow> 'a" where
  "override_with v old = (case v of Some new \<Rightarrow> new | None \<Rightarrow> old)"

definition spread_config :: "jwt_config \<Rightarrow> auth_overrides \<Rightarrow> jwt_config" where
  "spread_config c ov = c\<lparr>
     requiredScopes := override_with (ov_requiredScopes ov) (requiredScopes c),
     requiredTargets := override_with (ov_requiredTargets ov) (requiredTargets c),
     requiredUse := override_with (ov_requiredUse ov) (requiredUse c),
     requireSession := override_with (ov_requireSession ov) (requireSession c),
     requireDelegation := override_with (ov_requireDelegation ov) (requireDelegation c),
     requireChainContains := override_with (ov_requireChainContains ov) (requireChainContains c),
     maxHopCount := override_with (ov_maxHopCount ov) (maxHopCount c)\<rparr>"

definition spread_deps :: "auth_deps \<Rightarrow> auth_overrides \<Rightarrow> auth_deps" where
  "spread_deps deps ov = deps\<lparr>dp_config := spread_config (dp_config deps) ov\<rparr>"

text \<open>A verifier is its defaults; \<open>require\<close> makes a new one.\<close>

definition verifier_require :: "auth_deps \<Rightarrow> auth_overrides \<Rightarrow> auth_deps" where
  "verifier_require defaults ov = spread_deps defaults ov"

definition verifier_authenticate where
  "verifier_authenticate getKeySet jwtVerify nowMs defaults token ov = authenticate getKeySet jwtVerify nowMs token (spread_deps defaults ov)"

definition verifier_authorization where
  "verifier_authorization getKeySet jwtVerify nowMs defaults header ov =
     authenticate getKeySet jwtVerify nowMs (case extractBearer header of Some t \<Rightarrow> t | None \<Rightarrow> []) (spread_deps defaults ov)"

definition authenticateRequest where
  "authenticateRequest getKeySet jwtVerify nowMs header deps =
     authenticate getKeySet jwtVerify nowMs (case extractBearer header of Some t \<Rightarrow> t | None \<Rightarrow> []) deps"

definition authErrorBody :: "auth_error \<Rightarrow> json" where
  "authErrorBody e = JObj ([(''error'', JStr (code_text (ae_code e))), (''error_description'', JStr (ae_description e))] @
     (if ae_hint e = [] then [] else [(''error_hint'', JStr (ae_hint e))]))"

definition unauthorizedResponse :: "auth_error \<Rightarrow> int \<times> string" where
  "unauthorizedResponse e = (httpStatusForAuthError (ae_code e), render (authErrorBody e))"

definition verifyFastMcpToken where
  "verifyFastMcpToken getKeySet jwtVerify nowMs token deps route =
     (case authenticate getKeySet jwtVerify nowMs token (spread_deps deps route) of
        Inl e \<Rightarrow> Inl e
      | Inr cl \<Rightarrow> Inr (c_sub cl, c_zoneId cl, c_scope cl))"

subsection \<open>When a mandate is admitted\<close>

lemma authenticate_Inr:
  "authenticate ks jv nowMs token deps = Inr cl \<longleftrightarrow>
    token \<noteq> [] \<and> verify ks jv token (resource_config (dp_config deps)) = Inr cl \<and>
    (\<exists>api. dp_revocations deps = Some api \<and> checkActiveAuthority cl api nowMs = Some None)"
  by (auto simp: authenticate_def split: sum.splits option.splits)

lemma checkActiveAuthority_ok:
  "checkActiveAuthority cl api nowMs = Some None \<longleftrightarrow>
    c_authorityRecordId cl \<noteq> [] \<and> nowMs < c_expiresAt cl * 1000 \<and>
    (\<forall>a\<in>set (claim_anchors cl). api_isRevoked api a = Some False) \<and>
    (\<forall>epoch current. c_graphEpoch cl = Some epoch \<and> api_currentDelegationEpoch api = Some current \<longrightarrow>
       (\<exists>n. current (c_zoneId cl) = Some n \<and> n \<le> epoch))"
proof -
  have checks: "None \<notin> set (map f xs) \<and> Some True \<notin> set (map f xs) \<longleftrightarrow> (\<forall>a\<in>set xs. f a = Some False)" for f :: "string \<Rightarrow> bool option" and xs
  proof (induction xs)
    case (Cons x xs)
    then show ?case by (cases "f x") auto
  qed simp
  have epoch: "graphEpochError cl api = Some None \<longleftrightarrow>
    (\<forall>epoch current. c_graphEpoch cl = Some epoch \<and> api_currentDelegationEpoch api = Some current \<longrightarrow> (\<exists>n. current (c_zoneId cl) = Some n \<and> n \<le> epoch))"
    by (auto simp: graphEpochError_def not_less split: option.splits)
  show ?thesis using checks [of "api_isRevoked api" "claim_anchors cl"] epoch
    unfolding checkActiveAuthority_def Let_def by (auto simp: not_le simp del: set_map)
qed

lemma claim_anchors_mem:
  "a \<in> set (claim_anchors cl) \<longleftrightarrow> a \<noteq> [] \<and>
    (a = c_authorityRecordId cl \<or> a = c_rootAuthorityRecordId cl \<or> c_sessionId cl = Some a \<or> c_delegationId cl = Some a)"
  by (auto simp: claim_anchors_def split: option.splits)

text \<open>The Redis store as the verifier sees it at a time, with Redis calls failing or not.\<close>

definition redis_api :: "(redis_call \<Rightarrow> bool) \<Rightarrow> time \<Rightarrow> redis_store \<Rightarrow> store_api" where
  "redis_api up t s = \<lparr>api_isRevoked = (\<lambda>a. redis_isRevoked up t a s),
     api_currentDelegationEpoch = Some (\<lambda>z. redis_currentDelegationEpoch up t z s)\<rparr>"

definition inmem_api :: "time \<Rightarrow> inmem \<Rightarrow> store_api" where
  "inmem_api t s = \<lparr>api_isRevoked = (\<lambda>a. Some (fst (inmem_isRevoked t a s))),
     api_currentDelegationEpoch = Some (\<lambda>z. Some (fst (inmem_currentDelegationEpoch t z s)))\<rparr>"

text \<open>A failing Redis never turns a refusal into an admission.\<close>

lemma redis_down_fails_closed:
  "redis_isRevoked up t a s = Some False \<Longrightarrow> redis_isRevoked working t a s = Some False"
  "redis_currentDelegationEpoch up t z s = Some n \<Longrightarrow> n = MAX_SAFE_INTEGER \<or> redis_currentDelegationEpoch working t z s = Some n"
  by (auto simp: redis_isRevoked_def redis_currentDelegationEpoch_def split: if_splits)

lemma revoked_not_admitted:
  assumes "authenticate ks jv nowMs token deps = Inr cl" "dp_revocations deps = Some (redis_api up t s)" "a \<in> set (claim_anchors cl)"
  shows "redis_isRevoked working t a s = Some False"
  using assms redis_down_fails_closed(1) by (auto simp: authenticate_Inr checkActiveAuthority_ok redis_api_def)

lemma stale_not_admitted:
  assumes "authenticate ks jv nowMs token deps = Inr cl" "dp_revocations deps = Some (redis_api up t s)"
    "c_graphEpoch cl = Some epoch" "epoch < MAX_SAFE_INTEGER"
  shows "the (redis_currentDelegationEpoch working t (c_zoneId cl) s) \<le> epoch"
  using assms redis_down_fails_closed(2) [of up t "c_zoneId cl" s] by (fastforce simp: authenticate_Inr checkActiveAuthority_ok redis_api_def)

text \<open>\<open>require\<close> composes: requirements given to a verifier and to a call add up, the later ones winning.\<close>

lemma verifier_require_spread:
  "verifier_authenticate ks jv nowMs (verifier_require defaults ov) token ov' =
   authenticate ks jv nowMs token (spread_deps (spread_deps defaults ov) ov')"
  "issuer (dp_config (spread_deps defaults ov)) = issuer (dp_config defaults)"
  "zoneId (dp_config (spread_deps defaults ov)) = zoneId (dp_config defaults)"
  "dp_revocations (spread_deps defaults ov) = dp_revocations defaults"
  by (simp_all add: verifier_authenticate_def verifier_require_def spread_deps_def spread_config_def)

end
