(* ===== verification/ApiOutbox.thy ===== *)
theory ApiOutbox
  imports OutboxJobs Revocations
begin

text \<open>
  The control plane's outbox, \<open>apps/api/src/outbox.ts\<close>: rows written inside the transaction of a route and
  a dispatcher that claims them under a lock with a lifetime and sends them to the Redis streams. The
  table is the list of its rows, \<open>available_at = 'infinity'\<close> is \<open>None\<close>. As in the coordinator's publisher an
  \<open>XADD\<close> is stored, refused, or stored without the dispatcher recording it; \<open>extra\<close> is the random part of
  the delay in whole seconds. Streams are not trimmed.
\<close>

section \<open>Rows\<close>

type_synonym event_payload = "(string \<times> stream_value) list"

record event_row =
  ev_id :: string
  ev_stream :: string
  ev_payload :: event_payload
  ev_attempts :: nat
  ev_available :: "time option"
  ev_locked :: "time option"
  ev_worker :: "string option"
  ev_failed :: bool
  ev_dispatched :: "time option"
  ev_request :: "string option"
  ev_created :: time

type_synonym event_entry = "string \<times> event_payload \<times> string option"

definition event_row_of :: "env \<Rightarrow> string \<Rightarrow> event_entry \<Rightarrow> event_row" where
  "event_row_of e i entry = (case entry of (stream, p, rid) \<Rightarrow>
     \<lparr>ev_id = i, ev_stream = stream, ev_payload = p, ev_attempts = 0, ev_available = Some (now e), ev_locked = None, ev_worker = None,
      ev_failed = False, ev_dispatched = None, ev_request = rid, ev_created = now e\<rparr>)"

text \<open>One statement for all rows; it fails on the primary key. \<open>n\<close> counts the identifiers drawn so far.\<close>

definition enqueueOutboxBatch :: "env \<Rightarrow> event_entry list \<Rightarrow> nat \<Rightarrow> event_row list \<Rightarrow> reply + (nat \<times> event_row list)" where
  "enqueueOutboxBatch e entries n rows =
    (let ids = map (uuidv7 e) [n..<n + length entries] in
     reject (\<not> distinct ids \<or> list_ex (\<lambda>r. ev_id r \<in> set ids) rows) internal_error
       (Inr (n + length entries, rows @ map2 (event_row_of e) ids entries)))"

section \<open>Dispatcher\<close>

definition flattenForXAdd :: "event_payload \<Rightarrow> string list" where
  "flattenForXAdd p = concat (map (\<lambda>(k, v). if v = SVNull \<or> v = SVUndefined then [] else [k, stream_string v]) p)"

definition event_values :: "event_row \<Rightarrow> event_payload" where
  "event_values row = fold (\<lambda>(k, v) m. AList.update k v m) (ev_payload row) [(''outbox_id'', SVStr (ev_id row))]"

definition event_fields :: "(string \<Rightarrow> string \<Rightarrow> string) \<Rightarrow> string option \<Rightarrow> event_row \<Rightarrow> string list" where
  "event_fields hmac streamHmacKey row =
    (let vs = event_values row in
     flattenForXAdd (case streamHmacKey of
         None \<Rightarrow> vs
       | Some key \<Rightarrow> AList.update STREAM_SIG_FIELD (SVStr (signStream hmac key (ev_stream row) vs)) vs))"

definition backoffSeconds :: "nat \<Rightarrow> int \<Rightarrow> int" where
  "backoffSeconds attempts extra = min 60 (2 ^ min attempts 6) + extra"

definition claimable :: "env \<Rightarrow> event_row \<Rightarrow> bool" where
  "claimable e r = (ev_dispatched r = None \<and> (case ev_available r of None \<Rightarrow> False | Some t \<Rightarrow> t \<le> now e) \<and>
     (case ev_locked r of None \<Rightarrow> True | Some t \<Rightarrow> t < now e))"

definition claimed :: "env \<Rightarrow> int \<Rightarrow> string \<Rightarrow> event_row \<Rightarrow> event_row" where
  "claimed e lockSec worker r = r\<lparr>ev_locked := Some (now e + lockSec * 1000), ev_worker := Some worker, ev_attempts := Suc (ev_attempts r)\<rparr>"

definition claimBatch :: "env \<Rightarrow> nat \<Rightarrow> int \<Rightarrow> string \<Rightarrow> event_row list \<Rightarrow> event_row list \<times> event_row list" where
  "claimBatch e batchSize lockSec worker rows =
    (let ids = map ev_id (take batchSize (sort_key (\<lambda>r. the (ev_available r)) (filter (claimable e) rows))); hit = (\<lambda>r. ev_id r \<in> set ids)
     in (map (claimed e lockSec worker) (filter hit rows), map (\<lambda>r. if hit r then claimed e lockSec worker r else r) rows))"

definition dispatched_row :: "env \<Rightarrow> event_row \<Rightarrow> event_row" where
  "dispatched_row e r = r\<lparr>ev_dispatched := Some (now e), ev_locked := None, ev_failed := False\<rparr>"

definition failed_row :: "env \<Rightarrow> nat \<Rightarrow> int \<Rightarrow> event_row \<Rightarrow> event_row" where
  "failed_row e maxAttempts extra r =
    (if maxAttempts \<le> ev_attempts r then r\<lparr>ev_locked := None, ev_available := None, ev_failed := True\<rparr>
     else r\<lparr>ev_locked := None, ev_available := Some (now e + backoffSeconds (ev_attempts r) extra * 1000), ev_failed := True\<rparr>)"

definition dispatch :: "(string \<Rightarrow> string \<Rightarrow> string) \<Rightarrow> string option \<Rightarrow> env \<Rightarrow> nat \<Rightarrow> (event_row \<Rightarrow> xadd_outcome) \<Rightarrow> (event_row \<Rightarrow> int) \<Rightarrow>
    event_row \<Rightarrow> event_row list \<times> message list \<Rightarrow> event_row list \<times> message list" where
  "dispatch hmac key e maxAttempts xadd extra row s = (case s of (rows, streams) \<Rightarrow>
    (let update = (\<lambda>f. map (\<lambda>r. if ev_id r = ev_id row then f r else r) rows); sent = streams @ [(ev_stream row, event_fields hmac key row)]
     in case xadd row of
          Stored \<Rightarrow> (update (dispatched_row e), sent)
        | Refused \<Rightarrow> (update (failed_row e maxAttempts (extra row)), streams)
        | Unconfirmed \<Rightarrow> (update (failed_row e maxAttempts (extra row)), sent)))"

text \<open>
  One tick. A tick that finds another one running, or the dispatcher stopping, does nothing. When the
  database fails the loop ends after \<open>stop_at\<close> rows and the rest stay locked.
\<close>

definition tick :: "(string \<Rightarrow> string \<Rightarrow> string) \<Rightarrow> string option \<Rightarrow> env \<Rightarrow> nat \<Rightarrow> int \<Rightarrow> string \<Rightarrow> nat \<Rightarrow> (event_row \<Rightarrow> xadd_outcome) \<Rightarrow>
    (event_row \<Rightarrow> int) \<Rightarrow> nat \<Rightarrow> bool \<Rightarrow> event_row list \<times> message list \<Rightarrow> event_row list \<times> message list" where
  "tick hmac key e batchSize lockSec worker maxAttempts xadd extra stop_at busy s =
    (if busy then s
     else let (rows, rows') = claimBatch e batchSize lockSec worker (fst s) in
       fold (dispatch hmac key e maxAttempts xadd extra) (take stop_at rows) (rows', snd s))"

section \<open>What a consumer reads\<close>

lemma event_values_keys: "distinct (map fst (event_values row))"
proof -
  have "distinct (map fst (fold (\<lambda>(k, v) m. AList.update k v m) p xs))" if "distinct (map fst xs)" for p :: event_payload and xs
    using that by (induction p arbitrary: xs) (auto simp: case_prod_unfold distinct_update)
  then show ?thesis by (simp add: event_values_def)
qed


definition present :: "event_payload \<Rightarrow> (string \<times> string) list" where
  "present p = map (\<lambda>(k, v). (k, stream_string v)) (filter (\<lambda>(k, v). v \<noteq> SVNull \<and> v \<noteq> SVUndefined) p)"

lemma flatten_present: "flattenForXAdd p = concat (map (\<lambda>(k, v). [k, v]) (present p))"
  by (induction p) (auto simp: flattenForXAdd_def present_def)

lemma present_keys:
  assumes "distinct (map fst p)"
  shows "distinct (map fst (present p))"
proof -
  have "map fst (present p) = map fst (filter (\<lambda>(k, v). v \<noteq> SVNull \<and> v \<noteq> SVUndefined) p)" by (simp add: present_def case_prod_unfold)
  then show ?thesis using assms by (simp only: distinct_map_filter)
qed

lemma received:
  assumes "distinct (map fst p)"
  shows "redis_fieldsToValues (flattenForXAdd p) = map (\<lambda>(k, v). (k, SVStr v)) (present p)"
  using fieldsToValues_flat [OF present_keys [OF assms], of "[]"] by (simp add: fieldsToValues_def flatten_present redis_fieldsToValues_flat)

lemma map_of_present:
  assumes "distinct (map fst p)"
  shows "map_of (present p) k = (case map_of p k of None \<Rightarrow> None | Some v \<Rightarrow> if v = SVNull \<or> v = SVUndefined then None else Some (stream_string v))"
  using assms
proof (induction p)
  case (Cons a p)
  then have "map_of p (fst a) = None" by (simp add: map_of_eq_None_iff)
  then show ?case using Cons by (cases a) (auto simp: present_def split: option.splits)
qed (simp add: present_def)

lemma map_of_received:
  assumes "distinct (map fst p)"
  shows "map_of (redis_fieldsToValues (flattenForXAdd p)) k =
    (case map_of p k of None \<Rightarrow> None | Some v \<Rightarrow> if v = SVNull \<or> v = SVUndefined then None else Some (SVStr (stream_string v)))"
  using map_of_present [OF assms, of k] by (simp add: received [OF assms] map_of_map split: option.splits if_splits)

lemma stream_pairs_visible:
  assumes "visible a = visible b" "distinct (map fst a)" "distinct (map fst b)"
  shows "stream_pairs a = stream_pairs b"
proof -
  have S: "set (filter (\<lambda>k. visible x k \<noteq> None) (stream_keys x)) = {k. visible x k \<noteq> None}" for x
    using visible_dom [of x] by auto
  have "set (filter (\<lambda>k. visible a k \<noteq> None) (stream_keys a)) = set (filter (\<lambda>k. visible b k \<noteq> None) (stream_keys b))"
    unfolding S using assms(1) by simp
  moreover have "sorted (filter P (stream_keys x))" "distinct (map fst x) \<Longrightarrow> distinct (filter P (stream_keys x))" for x P
    by (simp_all add: stream_keys_def sorted_wrt_filter)
  ultimately have "filter (\<lambda>k. visible a k \<noteq> None) (stream_keys a) = filter (\<lambda>k. visible b k \<noteq> None) (stream_keys b)"
    using assms(2,3) by (intro sorted_distinct_set_unique)
  then show ?thesis using assms(1) by (simp add: stream_pairs_def)
qed

text \<open>A dispatched message passes the signature check of a consumer with the key.\<close>

lemma event_fields_verify:
  "verifyStream hmac required (Some key) (ev_stream row) (redis_fieldsToValues (event_fields hmac (Some key) row))"
proof -
  let ?vs = "event_values row" and ?sig = "signStream hmac key (ev_stream row) (event_values row)"
  let ?ws = "AList.update STREAM_SIG_FIELD (SVStr ?sig) ?vs"
  let ?rs = "redis_fieldsToValues (flattenForXAdd ?ws)"
  have d: "distinct (map fst ?ws)" by (simp add: distinct_update event_values_keys)
  have "visible ?rs k = visible ?vs k" for k
    using map_of_received [OF d, of k] by (auto simp: visible_def update_conv split: option.splits stream_value.splits)
  then have "stream_pairs ?rs = stream_pairs ?vs"
    by (intro stream_pairs_visible ext event_values_keys) (simp_all add: received [OF d] comp_def case_prod_unfold present_keys [OF d])
  then have "canonicalizeStream (ev_stream row) ?rs = canonicalizeStream (ev_stream row) ?vs" by (simp add: canonicalizeStream_lines)
  moreover have "map_of ?rs STREAM_SIG_FIELD = Some (SVStr ?sig)" using map_of_received [OF d, of STREAM_SIG_FIELD] by (simp add: update_conv)
  ultimately show ?thesis by (simp add: event_fields_def Let_def verifyStream_def signStream_def)
qed

lemma event_lookup:
  assumes "map_of (event_values row) k = Some (SVStr x)" "k \<noteq> STREAM_SIG_FIELD"
  shows "map_of (redis_fieldsToValues (event_fields hmac key row)) k = Some (SVStr x)"
proof -
  let ?ws = "case key of None \<Rightarrow> event_values row
    | Some k \<Rightarrow> AList.update STREAM_SIG_FIELD (SVStr (signStream hmac k (ev_stream row) (event_values row))) (event_values row)"
  have "distinct (map fst ?ws)" by (simp add: distinct_update event_values_keys split: option.split)
  from map_of_received [OF this, of k] assms show ?thesis
    by (simp add: event_fields_def Let_def update_conv split: option.splits)
qed


section \<open>At least once\<close>

definition event_ok :: "(string \<Rightarrow> string \<Rightarrow> string) \<Rightarrow> string option \<Rightarrow> nat \<Rightarrow> message list \<Rightarrow> event_row \<Rightarrow> bool" where
  "event_ok hmac key maxAttempts streams r \<longleftrightarrow>
     (ev_dispatched r \<noteq> None \<longrightarrow> (ev_stream r, event_fields hmac key r) \<in> set streams) \<and>
     (ev_dispatched r = None \<and> ev_available r = None \<longrightarrow> maxAttempts \<le> ev_attempts r)"

definition same_event :: "event_row \<Rightarrow> event_row \<Rightarrow> bool" where
  "same_event r q \<longleftrightarrow> ev_id q = ev_id r \<and> ev_stream q = ev_stream r \<and> ev_payload q = ev_payload r"

lemma same_event_fields: "same_event r q \<Longrightarrow> event_fields hmac key q = event_fields hmac key r"
  by (auto simp: same_event_def event_fields_def event_values_def Let_def split: option.split)

lemma event_updates [simp]:
  "same_event r (claimed e l w r)" "same_event r (dispatched_row e r)" "same_event r (failed_row e m x r)"
  by (simp_all add: same_event_def claimed_def dispatched_row_def failed_row_def)

lemmas event_fields_kept [simp] = event_updates [THEN same_event_fields]

lemma event_ok_more: "event_ok hmac key m streams r \<Longrightarrow> set streams \<subseteq> set streams' \<Longrightarrow> event_ok hmac key m streams' r"
  by (auto simp: event_ok_def)

lemma dispatch_ok:
  assumes "list_all (event_ok hmac key m streams) rows" "distinct (map ev_id rows)" "row \<in> set rows"
    and "dispatch hmac key e m xadd extra row (rows, streams) = (rows', streams')"
  shows "list_all (event_ok hmac key m streams') rows'" "map ev_id rows' = map ev_id rows" "set streams \<subseteq> set streams'"
proof -
  have sub: "set streams \<subseteq> set streams'" using assms(4) by (auto simp: dispatch_def Let_def split: xadd_outcome.splits)
  define f where "f = (if xadd row = Stored then dispatched_row e else failed_row e m (extra row))"
  have rows': "rows' = map (\<lambda>r. if ev_id r = ev_id row then f r else r) rows"
    using assms(4) by (auto simp: dispatch_def Let_def f_def split: xadd_outcome.splits)
  have one: "r = row" if "r \<in> set rows" "ev_id r = ev_id row" for r using that assms(2,3) by (meson distinct_map inj_onD)
  have "event_ok hmac key m streams' (f row)"
  proof (cases "xadd row = Stored")
    case True
    then have "(ev_stream row, event_fields hmac key row) \<in> set streams'" using assms(4) by (auto simp: dispatch_def Let_def)
    moreover have "ev_stream (dispatched_row e row) = ev_stream row" "ev_dispatched (dispatched_row e row) \<noteq> None" by (simp_all add: dispatched_row_def)
    ultimately show ?thesis using True by (auto simp: event_ok_def f_def)
  next
    case False
    have "event_ok hmac key m streams' row" using assms(1,3) event_ok_more [OF _ sub] by (simp add: list_all_iff)
    moreover have "ev_stream (failed_row e m (extra row) row) = ev_stream row" "ev_dispatched (failed_row e m (extra row) row) = ev_dispatched row"
      "ev_attempts (failed_row e m (extra row) row) = ev_attempts row" "ev_available (failed_row e m (extra row) row) = None \<Longrightarrow> m \<le> ev_attempts row"
      by (auto simp: failed_row_def split: if_splits)
    ultimately show ?thesis using False by (auto simp: event_ok_def f_def)
  qed
  then show "list_all (event_ok hmac key m streams') rows'"
    using assms(1) one event_ok_more [OF _ sub] unfolding rows' list_all_iff by auto
  show "map ev_id rows' = map ev_id rows" using event_updates by (auto simp: rows' f_def same_event_def)
  show "set streams \<subseteq> set streams'" by (rule sub)
qed


lemma dispatch_all_ok:
  assumes "list_all (event_ok hmac key m streams) rows" "distinct (map ev_id rows)" "ev_id ` set batch \<subseteq> ev_id ` set rows"
    and "\<And>row r. row \<in> set batch \<Longrightarrow> r \<in> set rows \<Longrightarrow> ev_id r = ev_id row \<Longrightarrow> r = row" "distinct (map ev_id batch)"
    and "fold (dispatch hmac key e m xadd extra) batch (rows, streams) = (rows', streams')"
  shows "list_all (event_ok hmac key m streams') rows' \<and> map ev_id rows' = map ev_id rows \<and> set streams \<subseteq> set streams'"
  using assms
proof (induction batch arbitrary: rows streams)
  case (Cons row batch)
  obtain rows1 streams1 where d: "dispatch hmac key e m xadd extra row (rows, streams) = (rows1, streams1)"
    by (cases "dispatch hmac key e m xadd extra row (rows, streams)")
  have row: "row \<in> set rows" using Cons.prems(3,4) by force
  note D = dispatch_ok [OF Cons.prems(1,2) row d]
  have kept: "r = r0" if "r0 \<in> set batch" "r \<in> set rows1" "ev_id r = ev_id r0" for r r0
  proof -
    have "ev_id r \<noteq> ev_id row" using that Cons.prems(5) by force
    then have "r \<in> set rows" using d that(2) by (auto simp: dispatch_def Let_def failed_row_def dispatched_row_def split: xadd_outcome.splits if_splits)
    then show ?thesis using Cons.prems(4) that by simp
  qed
  have ids: "ev_id ` set batch \<subseteq> ev_id ` set rows1" using Cons.prems(3) D(2) by (metis image_set insert_subset list.simps(15) image_insert)
  have "list_all (event_ok hmac key m streams') rows' \<and> map ev_id rows' = map ev_id rows1 \<and> set streams1 \<subseteq> set streams'"
    by (rule Cons.IH [OF D(1) _ ids kept]) (use Cons.prems d D(2) in auto)
  then show ?case using D(2,3) by auto
qed simp

text \<open>The life of the outbox: rows are added by routes and ticks run, whatever their outcome.\<close>

inductive event_run :: "(string \<Rightarrow> string \<Rightarrow> string) \<Rightarrow> string option \<Rightarrow> nat \<Rightarrow> event_row list \<times> message list \<Rightarrow> bool"
  for hmac key maxAttempts where
  events_none: "event_run hmac key maxAttempts ([], [])"
| events_queued: "event_run hmac key maxAttempts (rows, streams) \<Longrightarrow> enqueueOutboxBatch e entries n rows = Inr (n', rows') \<Longrightarrow>
    event_run hmac key maxAttempts (rows', streams)"
| events_tick: "event_run hmac key maxAttempts s \<Longrightarrow>
    event_run hmac key maxAttempts (tick hmac key e batchSize lockSec worker maxAttempts xadd extra stop_at busy s)"

lemma claim_facts:
  assumes "list_all (event_ok hmac key m streams) rows" "distinct (map ev_id rows)" "claimBatch e b l w rows = (batch, rows')"
  shows "list_all (event_ok hmac key m streams) rows'" "map ev_id rows' = map ev_id rows" "set batch \<subseteq> set rows'" "distinct (map ev_id batch)"
proof -
  let ?hit = "\<lambda>r. ev_id r \<in> set (map ev_id (take b (sort_key (\<lambda>r. the (ev_available r)) (filter (claimable e) rows))))"
  have eq: "batch = map (claimed e l w) (filter ?hit rows)" "rows' = map (\<lambda>r. if ?hit r then claimed e l w r else r) rows"
    using assms(3) by (simp_all add: claimBatch_def Let_def)
  have "event_ok hmac key m streams (claimed e l w r)" if "event_ok hmac key m streams r" for r
  proof -
    have "ev_stream (claimed e l w r) = ev_stream r" "ev_dispatched (claimed e l w r) = ev_dispatched r"
      "ev_attempts (claimed e l w r) = Suc (ev_attempts r)" "ev_available (claimed e l w r) = ev_available r" by (simp_all add: claimed_def)
    then show ?thesis using that by (auto simp: event_ok_def)
  qed
  then show "list_all (event_ok hmac key m streams) rows'" using assms(1) by (auto simp: eq(2) list_all_iff)
  show "map ev_id rows' = map ev_id rows" by (auto simp: eq(2) claimed_def)
  show "set batch \<subseteq> set rows'" by (auto simp: eq)
  have "map ev_id batch = map ev_id (filter ?hit rows)" by (simp add: eq(1) claimed_def)
  then show "distinct (map ev_id batch)" using assms(2) by (simp only: distinct_map_filter)
qed


lemma event_run_ok:
  "event_run hmac key m s \<Longrightarrow> list_all (event_ok hmac key m (snd s)) (fst s) \<and> distinct (map ev_id (fst s))"
proof (induction rule: event_run.induct)
  case (events_queued rows streams e entries n n' rows')
  define ids where "ids = map (uuidv7 e) [n..<n + length entries]"
  have ok: "distinct ids" "list_all (\<lambda>r. ev_id r \<notin> set ids) rows" "rows' = rows @ map2 (event_row_of e) ids entries"
    using events_queued.hyps(2) [unfolded enqueueOutboxBatch_def Let_def, folded ids_def] by (auto simp: reject_Inr list_ex_iff list_all_iff)
  have len: "length ids = length entries" by (simp add: ids_def)
  have "map ev_id (map2 (event_row_of e) ids entries) = ids"
    using len by (intro nth_equalityI) (auto simp: event_row_of_def split: prod.splits)
  moreover have "event_ok hmac key m streams r" if "r \<in> set (map2 (event_row_of e) ids entries)" for r
    using that by (auto simp: event_ok_def event_row_of_def)
  ultimately show ?case using events_queued.IH ok(1,2) by (auto simp: ok(3) list_all_iff simp del: map_map)
next
  case (events_tick s e batchSize lockSec worker xadd extra stop_at busy)
  obtain rows streams where s: "s = (rows, streams)" by (cases s)
  show ?case
  proof (cases busy)
    case False
    obtain batch rows1 where c: "claimBatch e batchSize lockSec worker rows = (batch, rows1)"
      by (cases "claimBatch e batchSize lockSec worker rows")
    note C = claim_facts [OF _ _ c, of hmac key m streams]
    obtain rows' streams' where f: "fold (dispatch hmac key e m xadd extra) (take stop_at batch) (rows1, streams) = (rows', streams')"
      by (cases "fold (dispatch hmac key e m xadd extra) (take stop_at batch) (rows1, streams)")
    have ok: "list_all (event_ok hmac key m streams) rows" "distinct (map ev_id rows)" using events_tick.IH s by simp_all
    have d1: "distinct (map ev_id rows1)" using C(2) [OF ok] ok(2) by simp
    have sub: "set (take stop_at batch) \<subseteq> set rows1" using C(3) [OF ok] set_take_subset by fast
    have "list_all (event_ok hmac key m streams') rows' \<and> map ev_id rows' = map ev_id rows1 \<and> set streams \<subseteq> set streams'"
    proof (rule dispatch_all_ok [OF C(1) [OF ok] d1 _ _ _ f])
      show "ev_id ` set (take stop_at batch) \<subseteq> ev_id ` set rows1" using sub by (rule image_mono)
      show "r = row" if "row \<in> set (take stop_at batch)" "r \<in> set rows1" "ev_id r = ev_id row" for row r
        using that sub d1 by (meson distinct_map inj_onD subsetD)
      show "distinct (map ev_id (take stop_at batch))" using C(4) [OF ok] by (simp flip: take_map)
    qed
    then show ?thesis using d1 by (simp add: tick_def False s c f)
  qed (use events_tick.IH in \<open>simp add: tick_def\<close>)
qed simp

end
