(* ===== verification/Propagation.thy ===== *)
theory Propagation
  imports Verifier ApiOutbox
begin

text \<open>
  From a row of an outbox to a rejected mandate. Two services announce revocations, each with its own outbox
  and its own way to make a message of a row; the consumers of a resource server read both. The locale
  is the contract between them: a signed message verifies on its stream, and the anchors a row names are
  anchors of its message.
\<close>

section \<open>The contract of an announcing outbox\<close>

definition anchor_fields :: "string list" where
  "anchor_fields = [''session_id'', ''agent_session_id'', ''delegation_edge_id'']"

locale announcer =
  fixes topic :: "'row \<Rightarrow> string" and flds :: "(string \<Rightarrow> string \<Rightarrow> string) \<Rightarrow> string option \<Rightarrow> 'row \<Rightarrow> string list"
    and names :: "'row \<Rightarrow> string \<Rightarrow> bool"
  assumes verifies: "verifyStream hmac required (Some k) (topic row) (redis_fieldsToValues (flds hmac (Some k) row))"
    and anchors: "names row a \<Longrightarrow> a \<noteq> [] \<Longrightarrow> a \<in> set (message_anchors (redis_fieldsToValues (flds hmac key row)))"
begin

lemma accepted:
  assumes "consumer_new stream None key required = Some c" "topic row = stream"
  shows "verifyStream hmac (cs_requireSignature c) (cs_streamHmacKey c) (cs_stream c) (redis_fieldsToValues (flds hmac key row))"
proof -
  have c: "cs_stream c = topic row" "cs_streamHmacKey c = key" "key = None \<Longrightarrow> \<not> cs_requireSignature c"
    using assms by (auto simp: consumer_new_def Let_def split: if_splits option.splits)
  show ?thesis
  proof (cases key)
    case None
    then show ?thesis using c by (simp add: verifyStream_def)
  next
    case (Some k)
    then show ?thesis using verifies [of hmac "cs_requireSignature c" k row] c by simp
  qed
qed

lemma consumed:
  assumes "consumer_new REVOCATION_STREAM None key required = Some rc" "topic row = REVOCATION_STREAM"
    "names row a" "redis_anchor a" "epoch_values (fd_store f)" "snd (revocation_message hmac rc up t m (flds hmac key row) f)"
  defines "f' \<equiv> fst (revocation_message hmac rc up t m (flds hmac key row) f)"
  shows "revoked_until t (t + rs_defaultTtlMs (fd_store f)) a (fd_store f') \<and> epoch_values (fd_store f') \<and>
    rs_defaultTtlMs (fd_store f') = rs_defaultTtlMs (fd_store f)"
proof -
  let ?vs = "redis_fieldsToValues (flds hmac key row)"
  have ok: "verifyStream hmac (cs_requireSignature rc) (cs_streamHmacKey rc) (cs_stream rc) ?vs" by (rule accepted [OF assms(1,2)])
  have mem: "a \<in> set (message_anchors ?vs)" by (rule anchors [OF assms(3)]) (use assms(4) in \<open>simp add: redis_anchor_def\<close>)
  then have ne: "message_anchors ?vs \<noteq> []" by auto
  have eq: "revocation_message hmac rc up t m (flds hmac key row) f = and_then (mark_anchors up t (message_anchors ?vs) f) (consumer_ack up m)"
    using ok ne by (simp add: revocation_message_def)
  have "snd (mark_anchors up t (message_anchors ?vs) f)" using assms(6) unfolding eq and_then_snd by simp
  then show ?thesis
    using mark_anchors_revokes [OF _ mem assms(4,5)] mark_anchors_keeps [of t f up "message_anchors ?vs"] assms(5)
    unfolding f'_def eq and_then_ack by (auto simp: keeps_def)
qed

text \<open>Once its message is consumed, no mandate with an anchor the row names is admitted.\<close>

lemma cuts_off:
  assumes "consumer_new REVOCATION_STREAM None key required = Some rc" "topic row = REVOCATION_STREAM" "names row a" "redis_anchor a"
    and "epoch_values (fd_store f)" "snd (revocation_message hmac rc up t m (flds hmac key row) f)"
    and "sorted (map fst evs)" "\<forall>ev\<in>set evs. t \<le> fst ev \<and> fst ev \<le> t'" "t \<le> t'" "t' < t + rs_defaultTtlMs (fd_store f)"
    and "dp_revocations deps = Some (redis_api up' t' (fd_store
         (feed_run hmac rc ic evs (fst (revocation_message hmac rc up t m (flds hmac key row) f)))))"
    and "authenticate ks jv nowMs token deps = Inr cl"
  shows "a \<notin> set (claim_anchors cl)"
proof
  define f' where "f' = fst (revocation_message hmac rc up t m (flds hmac key row) f)"
  note c = consumed [OF assms(1-6), folded f'_def] and api = assms(11) [folded f'_def]
  assume "a \<in> set (claim_anchors cl)"
  then have "redis_isRevoked working t' a (fd_store (feed_run hmac rc ic evs f')) = Some False"
    by (rule revoked_not_admitted [OF assms(12) api])
  moreover have "revoked_until t' (t + rs_defaultTtlMs (fd_store f)) a (fd_store (feed_run hmac rc ic evs f'))"
    by (rule feed_run_revoked [of evs t]) (use c assms in auto)
  ultimately show False using assms(10) by (simp add: revoked_until_def)
qed

end

section \<open>Both outboxes keep it\<close>

definition row_names :: "outbox_row \<Rightarrow> string \<Rightarrow> bool" where
  "row_names row a = (case o_payload row of
     JObj kvs \<Rightarrow> distinct (map fst kvs) \<and> list_ex (\<lambda>k. map_of kvs k = Some (JStr a)) anchor_fields | _ \<Rightarrow> False)"

definition event_names :: "event_row \<Rightarrow> string \<Rightarrow> bool" where
  "event_names row a = list_ex (\<lambda>k. map_of (event_values row) k = Some (SVStr a)) anchor_fields"

lemma string_field_mem: "Some (SVStr a) \<in> set ws \<Longrightarrow> a \<noteq> [] \<Longrightarrow> a \<in> set (string_fields ws)"
  unfolding string_fields_def by (induction ws) auto

lemma anchor_of_field:
  assumes "k \<in> set anchor_fields" "map_of vs k = Some (SVStr a)" "a \<noteq> []"
  shows "a \<in> set (message_anchors vs)"
proof -
  have "set anchor_fields \<subseteq> set [''session_id'', ''sid'', ''root_sid'', ''agent_session_id'', ''delegation_edge_id'']"
    by (simp add: anchor_fields_def)
  with assms(1) have "k \<in> set [''session_id'', ''sid'', ''root_sid'', ''agent_session_id'', ''delegation_edge_id'']" by (rule rev_subsetD)
  from image_eqI [where f = "map_of vs", OF assms(2) [symmetric] this] show ?thesis
    unfolding message_anchors_def set_uniq by (intro string_field_mem assms(3)) (simp only: set_map)
qed

interpretation coordinator_rows: announcer o_topic streamFields row_names
proof
  fix hmac required k row
  show "verifyStream hmac required (Some k) (o_topic row) (redis_fieldsToValues (streamFields hmac (Some k) row))"
    using streamFields_verify [of hmac required k row] redis_fieldsToValues_flat by (simp add: streamFields_def)
next
  fix row a hmac key assume n: "row_names row a" "a \<noteq> []"
  then obtain kvs k where k: "o_payload row = JObj kvs" "distinct (map fst kvs)" "k \<in> set anchor_fields" "map_of kvs k = Some (JStr a)"
    by (auto simp: row_names_def list_ex_iff split: json.splits)
  have "map_of (redis_fieldsToValues (streamFields hmac key row)) k = Some (SVStr a)"
  proof -
    have "set anchor_fields \<inter> {''outbox_id'', ''dedupe_key'', STREAM_SIG_FIELD} = {}" by (simp add: anchor_fields_def STREAM_SIG_FIELD_def)
    then have "k \<notin> {''outbox_id'', ''dedupe_key'', STREAM_SIG_FIELD}" using k(3) by blast
    from message_lookup [OF k(1,2) this k(4), of hmac key] show ?thesis by (simp add: field_text_def)
  qed
  then show "a \<in> set (message_anchors (redis_fieldsToValues (streamFields hmac key row)))" using anchor_of_field k(3) n(2) by blast
qed

interpretation api_rows: announcer ev_stream event_fields event_names
proof
  fix hmac required k row
  show "verifyStream hmac required (Some k) (ev_stream row) (redis_fieldsToValues (event_fields hmac (Some k) row))" by (rule event_fields_verify)
next
  fix row a hmac key assume n: "event_names row a" "a \<noteq> []"
  then obtain k where k: "k \<in> set anchor_fields" "map_of (event_values row) k = Some (SVStr a)" by (auto simp: event_names_def list_ex_iff)
  have "map_of (redis_fieldsToValues (event_fields hmac key row)) k = Some (SVStr a)"
  proof (rule event_lookup [OF k(2)])
    have "STREAM_SIG_FIELD \<notin> set anchor_fields" by (simp add: anchor_fields_def STREAM_SIG_FIELD_def)
    then show "k \<noteq> STREAM_SIG_FIELD" using k(1) by auto
  qed
  then show "a \<in> set (message_anchors (redis_fieldsToValues (event_fields hmac key row)))" using anchor_of_field k(1) n(2) by blast
qed

end
