(* ===== verification/ControlPlane.thy ===== *)
theory ControlPlane
  imports Coordinator AdminAudit Propagation
begin

text \<open>
  The parts of the control plane that write the coordinator's store or end authority:
  \<open>apps/api/src/routes/subjects.ts\<close> (the kill switch of a subject), \<open>routes/zones.ts\<close> (zones and the
  shutdown of dynamic registration), \<open>routes/grants.ts\<close>, the jobs \<open>dcr-gc.ts\<close> and \<open>sessions-reaper.ts\<close>, and
  what they use: \<open>attribution.ts\<close>, \<open>reserved-namespace.ts\<close>, \<open>routes/patch.ts\<close>, \<open>zone-guard.ts\<close> and
  \<open>db.ts\<close>. The control plane shares the coordinator's database: the state holds the
  coordinator's tables and the tables the routes write besides. Row-level security and the mutation gate
  in front of the routes are not part of the model.
\<close>

section \<open>State\<close>

record zone_row =
  zn_id :: string
  zn_name :: string
  zn_slug :: string
  zn_dcr :: bool
  zn_owner :: "string option"
  zn_badge :: bool
  zn_governed :: bool
  zn_archived :: "time option"
  zn_created_by :: "string option"
  zn_created_via :: bool
  zn_updated_by :: "string option"
  zn_updated_via :: bool
  zn_created :: time
  zn_updated :: time

record grant_row =
  dg_id :: string
  dg_zone :: zone
  dg_app :: string
  dg_user :: string
  dg_resource :: string
  dg_scopes :: "string list"
  dg_status :: authority_status
  dg_created_by :: "string option"
  dg_created_via :: bool
  dg_updated_by :: "string option"
  dg_updated_via :: bool
  dg_created :: time
  dg_updated :: time

record connection =
  pc_id :: string
  pc_zone :: zone
  pc_subject :: string
  pc_provider :: string
  pc_status :: authority_status
  pc_updated :: time

record world =
  store :: db
  zone_rows :: "zone_row list"
  event_outbox :: "event_row list"
  delegated_grants :: "grant_row list"
  provider_connections :: "connection list"
  admin_audit_events :: "audit_row list"

text \<open>A transaction: \<open>TxAbort\<close> and every other failure roll back. Serialization failures, which are retried, do not occur.\<close>

definition withTransaction :: "(world \<Rightarrow> reply + (reply \<times> world)) \<Rightarrow> world \<Rightarrow> reply \<times> world" where
  "withTransaction f w = (case f w of Inl r \<Rightarrow> (r, w) | Inr rw \<Rightarrow> rw)"

definition fresh_id :: "env \<Rightarrow> world \<Rightarrow> string \<times> world" where
  "fresh_id e w = (uuidv7 e (uuids (store w)), w\<lparr>store := (store w)\<lparr>uuids := Suc (uuids (store w))\<rparr>\<rparr>)"

definition enqueue_events :: "env \<Rightarrow> event_entry list \<Rightarrow> world \<Rightarrow> reply + world" where
  "enqueue_events e entries w = ebind (enqueueOutboxBatch e entries (uuids (store w)) (event_outbox w)) (\<lambda>(n, rows).
     Inr (w\<lparr>event_outbox := rows, store := (store w)\<lparr>uuids := n\<rparr>\<rparr>))"

text \<open>The routes write their own audit record without the signing key.\<close>

definition audit_event :: "env \<Rightarrow> audit_record \<Rightarrow> world \<Rightarrow> reply + world" where
  "audit_event e rec w = (let (i, w1) = fresh_id e w in
     ebind (insertAdminAuditRecord e None rec i (admin_audit_events w1)) (\<lambda>rows. Inr (w1\<lparr>admin_audit_events := rows\<rparr>)))"

definition zoneExists :: "world \<Rightarrow> zone \<Rightarrow> bool" where
  "zoneExists w z = list_ex (\<lambda>r. zn_id r = z \<and> zn_archived r = None) (zone_rows w)"

section \<open>Attribution and reserved names\<close>

record attribution =
  at_actor :: string
  at_via :: bool

text \<open>\<open>pattern\<close> is the test of the identity in the header against the Unicode pattern of the source.\<close>

definition resolveCreatedBy :: "(string \<Rightarrow> bool) \<Rightarrow> api_request \<Rightarrow> reply + string" where
  "resolveCreatedBy pattern rq =
    (if truthy (ap_authorizedBy rq) \<and> pattern (the (ap_authorizedBy rq)) then Inr (the (ap_authorizedBy rq))
     else case ap_account rq of
       Some a \<Rightarrow> Inr a
     | None \<Rightarrow> expect (ap_actor rq) internal_error (\<lambda>a. Inr (''admin:'' @ am_id a)))"

definition isOperatorOrigin :: "api_request \<Rightarrow> bool" where
  "isOperatorOrigin rq = (ap_createdVia rq = Some ''operator'')"

definition zoneCoauthorEnabled :: "world \<Rightarrow> zone \<Rightarrow> bool" where
  "zoneCoauthorEnabled w z = (case find (\<lambda>r. zn_id r = z) (zone_rows w) of Some r \<Rightarrow> zn_badge r | None \<Rightarrow> True)"

definition resolveAttribution :: "(string \<Rightarrow> bool) \<Rightarrow> api_request \<Rightarrow> world \<Rightarrow> zone option \<Rightarrow> reply + attribution" where
  "resolveAttribution pattern rq w z = ebind (resolveCreatedBy pattern rq) (\<lambda>a.
     Inr \<lparr>at_actor = a, at_via = (isOperatorOrigin rq \<and> (case z of None \<Rightarrow> True | Some i \<Rightarrow> zoneCoauthorEnabled w i))\<rparr>)"

datatype reserved_type = ZoneSlug | ZoneName | ApplicationName | ResourceIdentifier | ProviderIdentifier | PolicyName

fun RESERVED_PREFIX :: "reserved_type \<Rightarrow> string" where
  "RESERVED_PREFIX ZoneSlug = ''caracal-sys-''"
| "RESERVED_PREFIX ZoneName = ''caracal.sys/''"
| "RESERVED_PREFIX ApplicationName = ''caracal.sys/''"
| "RESERVED_PREFIX ResourceIdentifier = ''caracal-sys://''"
| "RESERVED_PREFIX ProviderIdentifier = ''provider://caracal-sys-''"
| "RESERVED_PREFIX PolicyName = ''caracal.sys/''"

definition isInternalProvisioner :: "actor \<Rightarrow> bool" where
  "isInternalProvisioner a = (am_createdBy a = Some ''env-bootstrap'')"

definition isReservedZone :: "string option \<Rightarrow> string option \<Rightarrow> bool" where
  "isReservedZone nm slug =
    (let text = (\<lambda>v. to_lower (trim (case v of None \<Rightarrow> [] | Some s \<Rightarrow> s))) in
     starts_with (RESERVED_PREFIX ZoneName) (text nm) \<or> starts_with (RESERVED_PREFIX ZoneSlug) (text slug))"

text \<open>The error, or the exception of reading a property of an actor that is not there.\<close>

definition assertReservedNamespace :: "reserved_type \<Rightarrow> string option \<Rightarrow> actor option \<Rightarrow> reply + unit" where
  "assertReservedNamespace t v a = (case v of
       None \<Rightarrow> Inr ()
     | Some s \<Rightarrow> if \<not> starts_with (RESERVED_PREFIX t) (to_lower (trim s)) then Inr ()
         else expect a internal_error (\<lambda>a. eguard (isInternalProvisioner a) (err 409 ''reserved_namespace'')))"

definition OSS_ORG_ID :: string where
  "OSS_ORG_ID = ''ORG-0000-0000-0000''"

definition CARACAL_ORG_ID :: string where
  "CARACAL_ORG_ID = ''ORG-CRC0-SYS0-0001''"

definition resolveOssOrg :: "string option \<Rightarrow> string" where
  "resolveOssOrg orgId = (if orgId = Some CARACAL_ORG_ID then CARACAL_ORG_ID else OSS_ORG_ID)"

text \<open>The loop ends when the generator yields an identifier that is not reserved; \<open>n\<close> counts the draws.\<close>

partial_function (option) mintZoneId :: "(nat \<Rightarrow> string) \<Rightarrow> nat \<Rightarrow> (string \<times> nat) option" where
  "mintZoneId generate n = (if generate n \<in> {OSS_ORG_ID} then mintZoneId generate (Suc n) else Some (generate n, Suc n))"

declare mintZoneId.simps [code]

section \<open>Ending authority\<close>

subsection \<open>Authority records\<close>

definition SESSION_REVOKE_BATCH :: nat where
  "SESSION_REVOKE_BATCH = 1000"

definition subject_active :: "zone \<Rightarrow> string \<Rightarrow> authority \<Rightarrow> bool" where
  "subject_active z u a = (r_zone a = z \<and> r_status a = AActive \<and> r_subject a = Some u)"

definition revoked_record :: "env \<Rightarrow> string \<Rightarrow> authority \<Rightarrow> authority" where
  "revoked_record e reason a = a\<lparr>r_status := ARevoked, r_revoked := Some (now e), r_reason := Some reason\<rparr>"

text \<open>One page of the loop: the identifiers it returns and the table after it.\<close>

definition revoke_page :: "env \<Rightarrow> string \<Rightarrow> zone \<Rightarrow> string \<Rightarrow> authority list \<Rightarrow> string list \<times> authority list" where
  "revoke_page e reason z u rs =
    (let page = map r_id (take SESSION_REVOKE_BATCH (sort_key r_created (filter (subject_active z u) rs))); hit = (\<lambda>a. r_id a \<in> set page)
     in (map r_id (filter hit rs), map (\<lambda>a. if hit a then revoked_record e reason a else a) rs))"

lemma length_filter_mono: "(\<And>x. P x \<Longrightarrow> Q x) \<Longrightarrow> length (filter P xs) \<le> length (filter Q xs)"
  by (induction xs) auto

lemma revoke_page_shrinks:
  assumes "revoke_page e reason z u rs = (ids, rs')" "ids \<noteq> []"
  shows "length (filter (subject_active z u) rs') < length (filter (subject_active z u) rs)"
proof -
  define page where "page = map r_id (take SESSION_REVOKE_BATCH (sort_key r_created (filter (subject_active z u) rs)))"
  let ?f = "\<lambda>a. if r_id a \<in> set page then revoked_record e reason a else a"
  have r: "ids = map r_id (filter (\<lambda>a. r_id a \<in> set page) rs)" "rs' = map ?f rs"
    using assms(1) unfolding revoke_page_def Let_def page_def by simp_all
  have "subject_active z u (?f a) \<longleftrightarrow> subject_active z u a \<and> r_id a \<notin> set page" for a
    by (auto simp: subject_active_def revoked_record_def)
  then have l: "length (filter (subject_active z u) rs') = length (filter (\<lambda>a. subject_active z u a \<and> r_id a \<notin> set page) rs)"
    by (simp add: r(2) filter_map comp_def)
  have "page \<noteq> []" using assms(2) r(1) by (auto simp: filter_empty_conv)
  then obtain x where "x \<in> set page" by (cases page) auto
  then obtain a where "a \<in> set (take SESSION_REVOKE_BATCH (sort_key r_created (filter (subject_active z u) rs)))" "r_id a = x"
    by (auto simp: page_def)
  then have a: "a \<in> set rs" "subject_active z u a" "r_id a \<in> set page"
    using \<open>x \<in> set page\<close> by (auto dest: in_set_takeD)
  have "length (filter (\<lambda>a. subject_active z u a \<and> r_id a \<notin> set page) rs) < length (filter (subject_active z u) rs)"
    using a
  proof (induction rs)
    case (Cons b rs)
    have "length (filter (\<lambda>a. subject_active z u a \<and> r_id a \<notin> set page) rs) \<le> length (filter (subject_active z u) rs)"
      by (rule length_filter_mono) simp
    then show ?case using Cons by auto
  qed simp
  then show ?thesis using l by simp
qed

function revoke_pages :: "env \<Rightarrow> string \<Rightarrow> zone \<Rightarrow> string \<Rightarrow> authority list \<Rightarrow> string list \<times> authority list" where
  "revoke_pages e reason z u rs =
    (let (ids, rs') = revoke_page e reason z u rs in
     if length ids < SESSION_REVOKE_BATCH then (ids, rs')
     else let (ids', rs'') = revoke_pages e reason z u rs' in (ids @ ids', rs''))"
  by pat_completeness auto

termination
proof (relation "measure (\<lambda>(e, reason, z, u, rs). length (filter (subject_active z u) rs))")
  fix e reason z u rs x ids rs'
  assume "x = revoke_page e reason z u rs" "(ids, rs') = x" "\<not> length ids < SESSION_REVOKE_BATCH"
  then show "((e, reason, z, u, rs'), e, reason, z, u, rs) \<in> measure (\<lambda>(e, reason, z, u, rs). length (filter (subject_active z u) rs))"
    using revoke_page_shrinks [of e reason z u rs ids rs'] by (cases ids) (simp_all add: SESSION_REVOKE_BATCH_def)
qed simp

declare revoke_pages.simps [simp del]

text \<open>A recursive \<open>UNION\<close>: the rows of each round are the new ones the step finds, until a round finds none.\<close>

function grow :: "(string list \<Rightarrow> string list) \<Rightarrow> string list \<Rightarrow> string list \<Rightarrow> string list \<Rightarrow> string list" where
  "grow step table front seen =
    (let fresh = filter (\<lambda>i. i \<in> set table \<and> i \<notin> set seen) (uniq (step front)) in
     if fresh = [] then seen else grow step table fresh (seen @ fresh))"
  by pat_completeness auto

termination
proof (relation "measure (\<lambda>(step, table, front, seen). card (set table - set seen))")
  fix step :: "string list \<Rightarrow> string list" and table front seen fresh
  assume f: "fresh = filter (\<lambda>i. i \<in> set table \<and> i \<notin> set seen) (uniq (step front))" "fresh \<noteq> []"
  from f(2) obtain i where "i \<in> set fresh" by (cases fresh) auto
  then have "i \<in> set table - set seen" "i \<notin> set table - set (seen @ fresh)" using f(1) by auto
  then have "set table - set (seen @ fresh) \<subset> set table - set seen" by auto
  then show "((step, table, fresh, seen @ fresh), step, table, front, seen) \<in> measure (\<lambda>(step, table, front, seen). card (set table - set seen))"
    by (simp add: psubset_card_mono)
qed simp

declare grow.simps [simp del]

definition active_records :: "db \<Rightarrow> zone \<Rightarrow> string list \<Rightarrow> string list" where
  "active_records d z ids = map r_id (filter (\<lambda>a. r_zone a = z \<and> r_status a = AActive \<and> (\<exists>p\<in>set ids. r_parent a = Some p)) (authorities d))"

subsection \<open>Sessions and delegations\<close>

definition session_closure :: "db \<Rightarrow> zone \<Rightarrow> string list \<Rightarrow> string list" where
  "session_closure d z roots = grow (children d z live_status) (map s_id (sessions d)) roots roots"

definition ended_session :: "env \<Rightarrow> session \<Rightarrow> session" where
  "ended_session e s = s\<lparr>s_status := STerminated, s_terminated := Some (now e), s_updated := now e\<rparr>"

definition end_sessions :: "env \<Rightarrow> zone \<Rightarrow> string list \<Rightarrow> db \<Rightarrow> session list \<times> db" where
  "end_sessions e z ids d =
    (let hit = (\<lambda>s. s_zone s = z \<and> s_id s \<in> set ids) in
     (filter hit (sessions d), d\<lparr>sessions := map (\<lambda>s. if hit s then ended_session e s else s) (sessions d)\<rparr>))"

definition end_edges :: "env \<Rightarrow> zone \<Rightarrow> string list \<Rightarrow> db \<Rightarrow> edge list \<times> db" where
  "end_edges e z ids d =
    (if ids = [] then ([], d)
     else (filter (touches z ids) (edges d), d\<lparr>edges := map (\<lambda>g. if touches z ids g then revoked_edge e g else g) (edges d)\<rparr>))"

text \<open>What both shutdowns do to the sessions: terminate the closure, revoke the delegations it touches.\<close>

definition end_closure :: "env \<Rightarrow> zone \<Rightarrow> string list \<Rightarrow> db \<Rightarrow> session list \<times> edge list \<times> db" where
  "end_closure e z roots d =
    (let (ss, d1) = end_sessions e z (session_closure d z roots) d; (gs, d2) = end_edges e z (map s_id ss) d1 in (ss, gs, d2))"

definition record_event :: "zone \<Rightarrow> string \<Rightarrow> string \<Rightarrow> string \<Rightarrow> event_entry" where
  "record_event z reason rid i = (SessionsRevoke, [(''zone_id'', SVStr z), (''session_id'', SVStr i), (''reason'', SVStr reason)], Some rid)"

definition session_events :: "zone \<Rightarrow> string \<Rightarrow> string \<Rightarrow> session \<Rightarrow> event_entry list" where
  "session_events z reason rid s =
    [(AgentsLifecycle, [(''event'', SVStr ''terminate''), (''zone_id'', SVStr z), (''agent_session_id'', SVStr (s_id s)),
        (''parent_id'', case s_parent s of None \<Rightarrow> SVNull | Some p \<Rightarrow> SVStr p), (''reason'', SVStr reason)], Some rid),
     (SessionsRevoke, [(''zone_id'', SVStr z), (''session_id'', SVStr (s_subject s)), (''agent_session_id'', SVStr (s_id s)),
        (''reason'', SVStr reason)], Some rid)]"

definition edge_event :: "zone \<Rightarrow> string \<Rightarrow> string \<Rightarrow> edge \<Rightarrow> event_entry" where
  "edge_event z reason rid g = (SessionsRevoke, [(''zone_id'', SVStr z), (''delegation_edge_id'', SVStr (e_id g)), (''reason'', SVStr reason)], Some rid)"

definition cascade_events :: "zone \<Rightarrow> string \<Rightarrow> string \<Rightarrow> string list \<Rightarrow> session list \<Rightarrow> edge list \<Rightarrow> event_entry list" where
  "cascade_events z reason rid ids ss gs =
     map (record_event z reason rid) ids @ concat (map (session_events z reason rid) ss) @ map (edge_event z reason rid) gs"

section \<open>The kill switch of a subject\<close>

definition RevokeBody :: "json option \<Rightarrow> (string \<times> string option) option" where
  "RevokeBody body = do {
     ob \<leftarrow> z_record (case body of None \<Rightarrow> JObj [] | Some JNull \<Rightarrow> JObj [] | Some j \<Rightarrow> j);
     u \<leftarrow> z_field (z_text 512) (jget ob ''subject_id'');
     reason \<leftarrow> z_optional (\<lambda>j. case z_string j of Some s \<Rightarrow> if length s \<le> 512 then Some s else None | None \<Rightarrow> None) (jget ob ''reason'');
     Some (u, reason) }"

definition governed :: "db \<Rightarrow> zone \<Rightarrow> string \<Rightarrow> session \<Rightarrow> bool" where
  "governed d z u s = (s_zone s = z \<and> live_status (s_status s) \<and>
     list_ex (\<lambda>a. r_id a = s_subject s \<and> r_zone a = z \<and> r_subject a = Some u) (authorities d))"

definition governed_ids :: "db \<Rightarrow> zone \<Rightarrow> string \<Rightarrow> string list" where
  "governed_ids d z u = map s_id (filter (governed d z u) (sessions d))"

definition revoke_connections :: "env \<Rightarrow> zone \<Rightarrow> string \<Rightarrow> connection list \<Rightarrow> nat \<times> connection list" where
  "revoke_connections e z u cs =
    (let hit = (\<lambda>c. pc_zone c = z \<and> pc_subject c = u \<and> pc_status c = AActive) in
     (length (filter hit cs), map (\<lambda>c. if hit c then c\<lparr>pc_status := ARevoked, pc_updated := now e\<rparr> else c) cs))"

definition subject_audit :: "api_request \<Rightarrow> zone \<Rightarrow> string \<Rightarrow> string \<Rightarrow> nat \<Rightarrow> nat \<Rightarrow> nat \<Rightarrow> nat \<Rightarrow> audit_record" where
  "subject_audit rq z u reason n m k l =
    \<lparr>aa_request = ap_id rq, aa_actor = map_option am_id (ap_actor rq), aa_name = map_option am_name (ap_actor rq),
     aa_scope = map_option am_scope (ap_actor rq), aa_action = ''Subject authority revoked'', aa_method = ''POST'',
     aa_path = ''/v1/zones/'' @ z @ ''/subjects/revoke'', aa_zone = Some z, aa_type = Some ''subjects'', aa_entity = Some u, aa_status = 200,
     aa_payload = Some [(''subject_id'', JStr u), (''reason'', JStr reason), (''revoked_authority_records'', JInt (int n)),
       (''terminated_sessions'', JInt (int m)), (''revoked_delegations'', JInt (int k)), (''revoked_connections'', JInt (int l))]\<rparr>"

definition revoke_subject_tx :: "env \<Rightarrow> api_request \<Rightarrow> zone \<Rightarrow> string \<Rightarrow> string \<Rightarrow> world \<Rightarrow> reply + (reply \<times> world)" where
  "revoke_subject_tx e rq z u reason w =
    reject (\<not> list_ex (\<lambda>a. r_zone a = z \<and> r_subject a = Some u) (authorities (store w))) (err 404 ''subject_not_found'')
    (let (ids, rs) = revoke_pages e ''subject_revoked'' z u (authorities (store w));
         d1 = (store w)\<lparr>authorities := rs\<rparr>;
         (ss, gs, d2) = end_closure e z (governed_ids d1 z u) d1;
         (l, cs) = revoke_connections e z u (provider_connections w)
     in ebind (enqueue_events e (cascade_events z reason (ap_id rq) ids ss gs) (w\<lparr>store := d2, provider_connections := cs\<rparr>)) (\<lambda>w1.
        ebind (audit_event e (subject_audit rq z u reason (length ids) (length ss) (length gs) l) w1) (\<lambda>w2.
        Inr (send 200 (JObj [(''subject_id'', JStr u), (''authority_records'', JInt (int (length ids))), (''sessions'', JInt (int (length ss))),
               (''delegations'', JInt (int (length gs))), (''connections'', JInt (int l))]), w2))))"

definition revoke_subject :: "env \<Rightarrow> api_request \<Rightarrow> zone \<Rightarrow> world \<Rightarrow> reply \<times> world" where
  "revoke_subject e rq z w =
    (case ebind (parseParams [z]) (\<lambda>_. expect (RevokeBody (ap_body rq)) (err 400 ''invalid_subject_revoke'') Inr) of
       Inl r \<Rightarrow> (r, w)
     | Inr (u, reason) \<Rightarrow> withTransaction (revoke_subject_tx e rq z u (case reason of None \<Rightarrow> ''subject_revoked'' | Some t \<Rightarrow> t)) w)"

section \<open>Delegated grants\<close>

definition scope_char :: "char \<Rightarrow> bool" where
  "scope_char c = (let n = (of_char c :: nat) in (97 \<le> n \<and> n \<le> 122) \<or> (48 \<le> n \<and> n \<le> 57) \<or>
     c \<in> {CHR '':'', CHR ''_'', CHR ''.'', CHR ''/'', CHR ''-''})"

definition GrantScope :: "json \<Rightarrow> string option" where
  "GrantScope j = (case z_text 200 j of Some s \<Rightarrow> if list_all scope_char s then Some s else None | None \<Rightarrow> None)"

definition GrantBody :: "json option \<Rightarrow> (string \<times> string \<times> string \<times> string list) option" where
  "GrantBody body = do {
     j \<leftarrow> body;
     ob \<leftarrow> z_record j;
     app \<leftarrow> z_field z_nonempty (jget ob ''application_id'');
     user \<leftarrow> z_field z_nonempty (jget ob ''user_id'');
     rsrc \<leftarrow> z_field z_nonempty (jget ob ''resource_id'');
     scopes \<leftarrow> z_field (z_array_max 64 GrantScope) (jget ob ''scopes'');
     if scopes = [] then None else Some (app, user, rsrc, scopes) }"

definition grant_json :: "grant_row \<Rightarrow> json" where
  "grant_json g = JObj [(''id'', JStr (dg_id g)), (''zone_id'', JStr (dg_zone g)), (''application_id'', JStr (dg_app g)),
     (''user_id'', JStr (dg_user g)), (''resource_id'', JStr (dg_resource g)), (''scopes'', jstrs (dg_scopes g)), (''status'', JStr ''active''),
     (''created_by'', jopt JStr (dg_created_by g)), (''created_via_operator'', JBool (dg_created_via g)), (''created_at'', jtime (dg_created g))]"

text \<open>\<open>controlAudience\<close> is the identifier of the control resource the process is configured with. The insert fails on the primary key.\<close>

definition createDelegatedGrant :: "env \<Rightarrow> string \<Rightarrow> zone \<Rightarrow> string \<times> string \<times> string \<times> string list \<Rightarrow> attribution \<Rightarrow> world \<Rightarrow> reply + (grant_row \<times> world)" where
  "createDelegatedGrant e controlAudience z input ab w = (case input of (app, user, rsrc, scopes) \<Rightarrow>
     reject (\<not> list_ex (\<lambda>a. a_id a = app \<and> a_zone a = z \<and> usable_application e a) (applications (store w))) (err 404 ''application_not_found'')
    (expect (find (\<lambda>r. res_id r = rsrc \<and> res_zone r = z \<and> res_archived r = None) (resources (store w))) (err 404 ''resource_not_found'') (\<lambda>r.
     reject (res_identifier r = controlAudience) (err 403 ''control_resource_not_grantable'')
    (reject (\<not> scopesAllowed scopes (res_scopes r)) (err 403 ''grant_scopes_exceed_resource'')
    (let (i, w1) = fresh_id e w;
         row = \<lparr>dg_id = i, dg_zone = z, dg_app = app, dg_user = user, dg_resource = rsrc, dg_scopes = scopes, dg_status = AActive,
                dg_created_by = Some (at_actor ab), dg_created_via = at_via ab, dg_updated_by = None, dg_updated_via = False,
                dg_created = now e, dg_updated = now e\<rparr>
     in reject (list_ex (\<lambda>g. dg_id g = i) (delegated_grants w1)) internal_error
          (Inr (row, w1\<lparr>delegated_grants := delegated_grants w1 @ [row]\<rparr>)))))))"

definition create_grant :: "(string \<Rightarrow> bool) \<Rightarrow> env \<Rightarrow> string \<Rightarrow> api_request \<Rightarrow> zone \<Rightarrow> world \<Rightarrow> reply \<times> world" where
  "create_grant pattern e controlAudience rq z w =
    (case ebind (parseParams [z]) (\<lambda>_. reject (\<not> zoneExists w z) (err 404 ''zone_not_found'')
           (expect (GrantBody (ap_body rq)) invalid_body (\<lambda>b.
            ebind (resolveAttribution pattern rq w (Some z)) (\<lambda>ab.
            ebind (createDelegatedGrant e controlAudience z b ab w) (\<lambda>(row, w1). Inr (send 201 (grant_json row), w1)))))) of
       Inl r \<Rightarrow> (r, w) | Inr rw \<Rightarrow> rw)"

definition grant_event :: "zone \<Rightarrow> string \<Rightarrow> string \<Rightarrow> string \<Rightarrow> event_entry" where
  "grant_event z i rid record = (SessionsRevoke, [(''zone_id'', SVStr z), (''session_id'', SVStr record), (''reason'', SVStr ''grant_revoked''),
     (''grant_id'', SVStr i)], Some rid)"

text \<open>The rows are enqueued one by one; a batch draws the same identifiers in the same order.\<close>

definition revoke_grant_tx :: "env \<Rightarrow> api_request \<Rightarrow> attribution \<Rightarrow> zone \<Rightarrow> string \<Rightarrow> world \<Rightarrow> reply + (reply \<times> world)" where
  "revoke_grant_tx e rq ab z i w =
    expect (find (\<lambda>g. dg_id g = i \<and> dg_zone g = z) (delegated_grants w)) (err 404 ''grant_not_found'') (\<lambda>g.
     let gs = map (\<lambda>g. if dg_id g = i \<and> dg_zone g = z then g\<lparr>dg_status := ARevoked, dg_updated_by := Some (at_actor ab),
                dg_updated_via := at_via ab, dg_updated := now e\<rparr> else g) (delegated_grants w);
         (ids, rs) = revoke_pages e ''grant_revoked'' z (dg_user g) (authorities (store w))
     in ebind (enqueue_events e (map (grant_event z i (ap_id rq)) ids) (w\<lparr>delegated_grants := gs, store := (store w)\<lparr>authorities := rs\<rparr>\<rparr>)) (\<lambda>w1.
        Inr (send 204 JNull, w1)))"

definition revoke_grant :: "(string \<Rightarrow> bool) \<Rightarrow> env \<Rightarrow> api_request \<Rightarrow> zone \<Rightarrow> string \<Rightarrow> world \<Rightarrow> reply \<times> world" where
  "revoke_grant pattern e rq z i w =
    (case ebind (parseParams [z, i]) (\<lambda>_. resolveAttribution pattern rq w (Some z)) of
       Inl r \<Rightarrow> (r, w)
     | Inr ab \<Rightarrow> withTransaction (revoke_grant_tx e rq ab z i) w)"

section \<open>Jobs\<close>

definition GC_BATCH_SIZE :: nat where "GC_BATCH_SIZE = 500"
definition REAP_BATCH_SIZE :: nat where "REAP_BATCH_SIZE = 500"

text \<open>Both jobs do nothing when another instance holds their lock.\<close>

definition gc_due :: "env \<Rightarrow> application \<Rightarrow> bool" where
  "gc_due e a = (a_method a = Dcr \<and> a_archived a = None \<and> (case a_expires a of None \<Rightarrow> False | Some t \<Rightarrow> t < now e - 24 * 3600 * 1000))"

definition runDCRGC :: "env \<Rightarrow> bool \<Rightarrow> db \<Rightarrow> nat \<times> db" where
  "runDCRGC e locked d =
    (if \<not> locked then (0, d)
     else let ids = map a_id (take GC_BATCH_SIZE (sort_key (\<lambda>a. the (a_expires a)) (filter (gc_due e) (applications d)))); hit = (\<lambda>a. a_id a \<in> set ids)
          in (length (filter hit (applications d)), d\<lparr>applications := map (\<lambda>a. if hit a then a\<lparr>a_archived := Some (now e)\<rparr> else a) (applications d)\<rparr>))"

definition reap_due :: "env \<Rightarrow> zone_row list \<Rightarrow> authority \<Rightarrow> bool" where
  "reap_due e zs a = (r_status a = AActive \<and> (r_expires a < now e \<or> \<not> list_ex (\<lambda>z. zn_id z = r_zone a) zs))"

definition runSessionsReap :: "env \<Rightarrow> bool \<Rightarrow> zone_row list \<Rightarrow> db \<Rightarrow> nat \<times> db" where
  "runSessionsReap e locked zs d =
    (if \<not> locked then (0, d)
     else let ids = map r_id (take REAP_BATCH_SIZE (sort_key r_created (filter (reap_due e zs) (authorities d)))); hit = (\<lambda>a. r_id a \<in> set ids)
          in (length (filter hit (authorities d)), d\<lparr>authorities := map (\<lambda>a. if hit a then a\<lparr>r_status := AExpired\<rparr> else a) (authorities d)\<rparr>))"

section \<open>What the loops compute\<close>

lemma revoke_page_facts:
  assumes "revoke_page e reason z u rs = (ids, rs')"
  shows "map (\<lambda>a. (r_id a, r_zone a, r_subject a)) rs' = map (\<lambda>a. (r_id a, r_zone a, r_subject a)) rs"
    and "a \<in> set rs' \<Longrightarrow> subject_active z u a \<Longrightarrow> a \<in> set rs"
    and "a \<in> set rs \<Longrightarrow> subject_active z u a \<Longrightarrow> r_id a \<in> set ids \<or> a \<in> set rs'"
    and "length ids < SESSION_REVOKE_BATCH \<Longrightarrow> a \<in> set rs' \<Longrightarrow> \<not> subject_active z u a"
proof -
  define act where "act = sort_key r_created (filter (subject_active z u) rs)"
  define page where "page = map r_id (take SESSION_REVOKE_BATCH act)"
  let ?f = "\<lambda>a. if r_id a \<in> set page then revoked_record e reason a else a"
  have r: "ids = map r_id (filter (\<lambda>a. r_id a \<in> set page) rs)" "rs' = map ?f rs"
    using assms unfolding revoke_page_def Let_def page_def act_def by simp_all
  show "map (\<lambda>a. (r_id a, r_zone a, r_subject a)) rs' = map (\<lambda>a. (r_id a, r_zone a, r_subject a)) rs"
    by (simp add: r(2) revoked_record_def)
  show rest: "a \<in> set rs' \<Longrightarrow> subject_active z u a \<Longrightarrow> a \<in> set rs" for a
    by (auto simp: r(2) subject_active_def revoked_record_def split: if_splits)
  show "a \<in> set rs \<Longrightarrow> subject_active z u a \<Longrightarrow> r_id a \<in> set ids \<or> a \<in> set rs'" for a
    by (auto simp: r image_iff)
  assume less: "length ids < SESSION_REVOKE_BATCH" and a: "a \<in> set rs'"
  show "\<not> subject_active z u a"
  proof
    assume active: "subject_active z u a"
    let ?T = "take SESSION_REVOKE_BATCH act"
    have "mset ?T \<subseteq># mset act" using mset_subset_eq_add_left [of "mset ?T" "mset (drop SESSION_REVOKE_BATCH act)"]
      by (simp add: mset_append [symmetric] del: mset_append)
    also have "mset act = mset (filter (subject_active z u) rs)" by (simp add: act_def)
    also have "\<dots> \<subseteq># mset rs" by simp
    finally have "filter_mset (\<lambda>a. r_id a \<in> set page) (mset ?T) \<subseteq># filter_mset (\<lambda>a. r_id a \<in> set page) (mset rs)"
      by (rule multiset_filter_mono)
    moreover have "filter_mset (\<lambda>a. r_id a \<in> set page) (mset ?T) = mset ?T"
      by (subst mset_filter [symmetric]) (simp add: page_def)
    ultimately have "mset ?T \<subseteq># mset (filter (\<lambda>a. r_id a \<in> set page) rs)" by simp
    from size_mset_mono [OF this] have "length ?T \<le> length ids" unfolding r(1) size_mset length_map .
    then have "?T = act" using less by simp
    moreover have "a \<in> set act" using rest [OF a active] active by (simp add: act_def)
    ultimately have "r_id a \<in> set page" by (simp add: page_def)
    then show False using a active by (auto simp: r(2) subject_active_def revoked_record_def split: if_splits)
  qed
qed

lemma revoke_pages_facts:
  assumes "revoke_pages e reason z u rs = (ids, rs')"
  shows "map (\<lambda>a. (r_id a, r_zone a, r_subject a)) rs' = map (\<lambda>a. (r_id a, r_zone a, r_subject a)) rs"
    and "a \<in> set rs' \<Longrightarrow> \<not> subject_active z u a"
    and "a \<in> set rs \<Longrightarrow> subject_active z u a \<Longrightarrow> r_id a \<in> set ids"
proof -
  have "map (\<lambda>a. (r_id a, r_zone a, r_subject a)) rs' = map (\<lambda>a. (r_id a, r_zone a, r_subject a)) rs \<and>
      (\<forall>a\<in>set rs'. \<not> subject_active z u a) \<and> (\<forall>a\<in>set rs. subject_active z u a \<longrightarrow> r_id a \<in> set ids)"
    using assms
  proof (induction e reason z u rs arbitrary: ids rs' rule: revoke_pages.induct)
    case (1 e reason z u rs)
    obtain is1 rs1 where p: "revoke_page e reason z u rs = (is1, rs1)" by (cases "revoke_page e reason z u rs")
    note P = revoke_page_facts [OF p]
    show ?case
    proof (cases "length is1 < SESSION_REVOKE_BATCH")
      case True
      then have "ids = is1" "rs' = rs1" using "1.prems" p by (simp_all add: revoke_pages.simps)
      then show ?thesis using P(1,3,4) True by blast
    next
      case False
      obtain is2 rs2 where q: "revoke_pages e reason z u rs1 = (is2, rs2)" by (cases "revoke_pages e reason z u rs1")
      then have "ids = is1 @ is2" "rs' = rs2" using "1.prems" p False by (simp_all add: revoke_pages.simps [of e reason z u rs])
      then show ?thesis using "1.IH" [OF p [symmetric] refl False q] P(1,3) by auto
    qed
  qed
  then show "map (\<lambda>a. (r_id a, r_zone a, r_subject a)) rs' = map (\<lambda>a. (r_id a, r_zone a, r_subject a)) rs"
    "a \<in> set rs' \<Longrightarrow> \<not> subject_active z u a" "a \<in> set rs \<Longrightarrow> subject_active z u a \<Longrightarrow> r_id a \<in> set ids" by blast+
qed

lemma grow_iff:
  assumes "\<And>xs y. y \<in> set (step xs) \<longleftrightarrow> (\<exists>x\<in>set xs. R x y)" "\<And>x y. R x y \<Longrightarrow> y \<in> set table"
    and "set front \<subseteq> set seen" "\<And>x y. x \<in> set seen \<Longrightarrow> x \<notin> set front \<Longrightarrow> R x y \<Longrightarrow> y \<in> set seen"
  shows "x \<in> set (grow step table front seen) \<longleftrightarrow> (\<exists>s\<in>set seen. R\<^sup>*\<^sup>* s x)"
  using assms
proof (induction step table front seen rule: grow.induct)
  case (1 step table front seen)
  note step = "1.prems"(1) and tab = "1.prems"(2) and sub = "1.prems"(3) and closed = "1.prems"(4)
  define fresh where "fresh = filter (\<lambda>i. i \<in> set table \<and> i \<notin> set seen) (uniq (step front))"
  have new: "y \<in> set seen \<or> y \<in> set fresh" if "x \<in> set seen" "R x y" for x y
    using closed [OF that(1) _ that(2)] tab [OF that(2)] step [of y front] that by (auto simp: fresh_def)
  have src: "\<exists>x\<in>set seen. R x y" if "y \<in> set fresh" for y
    using that step sub by (auto simp: fresh_def)
  show ?case
  proof (cases "fresh = []")
    case True
    then have g: "grow step table front seen = seen" by (simp add: grow.simps [of step table front] fresh_def)
    have "y \<in> set seen" if "R\<^sup>*\<^sup>* s y" "s \<in> set seen" for s y
      using that by (induction rule: rtranclp_induct) (use new True in auto)
    then show ?thesis unfolding g by blast
  next
    case False
    then have g: "grow step table front seen = grow step table fresh (seen @ fresh)"
      by (subst grow.simps) (simp add: fresh_def Let_def)
    have "x \<in> set (grow step table fresh (seen @ fresh)) \<longleftrightarrow> (\<exists>s\<in>set (seen @ fresh). R\<^sup>*\<^sup>* s x)"
      by (rule "1.IH" [OF fresh_def False step tab]) (use new in auto)
    moreover have "(\<exists>s\<in>set (seen @ fresh). R\<^sup>*\<^sup>* s x) \<longleftrightarrow> (\<exists>s\<in>set seen. R\<^sup>*\<^sup>* s x)"
      using src by (auto intro: converse_rtranclp_into_rtranclp)
    ultimately show ?thesis unfolding g by simp
  qed
qed

lemma session_closure_iff:
  assumes "\<And>r. r \<in> set roots \<Longrightarrow> in_subtree d z live_status roots r"
  shows "x \<in> set (session_closure d z roots) \<longleftrightarrow> in_subtree d z live_status roots x"
proof -
  define R where "R p i \<longleftrightarrow> (\<exists>s\<in>set (sessions d). s_id s = i \<and> s_parent s = Some p \<and> s_zone s = z \<and> live_status (s_status s))" for p i
  have "x \<in> set (session_closure d z roots) \<longleftrightarrow> (\<exists>r\<in>set roots. R\<^sup>*\<^sup>* r x)"
    unfolding session_closure_def by (rule grow_iff) (auto simp: set_children R_def)
  also have "\<dots> \<longleftrightarrow> in_subtree d z live_status roots x"
  proof
    assume "\<exists>r\<in>set roots. R\<^sup>*\<^sup>* r x"
    then obtain r where r: "R\<^sup>*\<^sup>* r x" "r \<in> set roots" by blast
    then show "in_subtree d z live_status roots x"
      by (induction rule: rtranclp_induct) (auto simp: R_def intro: assms in_subtree.child)
  next
    assume "in_subtree d z live_status roots x"
    then show "\<exists>r\<in>set roots. R\<^sup>*\<^sup>* r x"
    proof induction
      case (child t s)
      then have "R t (s_id s)" by (auto simp: R_def)
      then show ?case using child.IH by (auto intro: rtranclp.rtrancl_into_rtrancl)
    qed auto
  qed
  finally show ?thesis .
qed

section \<open>The cascade on a well-formed store\<close>

lemma subtree_member:
  assumes "session_inv d" "in_subtree d z live_status roots (s_id s)" "s \<in> set (sessions d)"
  shows "live s" "s_zone s = z"
proof -
  from assms(2) obtain t where "t \<in> set (sessions d)" "s_id t = s_id s" "s_zone t = z" "live_status (s_status t)"
    by (cases rule: in_subtree.cases) auto
  moreover from this have "t = s" using session_id_unique [of "sessions d" t s] assms(1,3) by (simp add: session_inv_def)
  ultimately show "live s" "s_zone s = z" by (simp_all add: live_def)
qed

lemma session_inv_end:
  assumes inv: "session_inv d" and S: "sessions d' = map (\<lambda>s. if s_zone s = z \<and> s_id s \<in> set ids then ended_session e s else s) (sessions d)"
    and ids: "\<And>x. x \<in> set ids \<longleftrightarrow> in_subtree d z live_status roots x"
  shows "session_inv d'"
proof -
  let ?f = "\<lambda>s. if s_zone s = z \<and> s_id s \<in> set ids then ended_session e s else s"
  have lv: "live (?f s) \<longleftrightarrow> live s \<and> \<not> (s_zone s = z \<and> s_id s \<in> set ids)" for s
    by (auto simp: ended_session_def live_def live_status_def)
  show ?thesis
  proof (rule session_inv_map [OF inv S])
    fix s assume s: "s \<in> set (sessions d)"
    show "same_place s (?f s)" by (simp add: same_place_def ended_session_def)
    show "session_fields_ok (?f s)" using session_inv_ok [OF inv s]
      by (auto simp: ended_session_def session_ok_def session_fields_ok_def live_status_def split: lifecycle.splits)
    show "live (?f s) \<Longrightarrow> live s" using lv by blast
    fix q assume q: "q \<in> set (sessions d)" "s_parent s = Some (s_id q)" "s_zone q = s_zone s" "live q" and l: "live s" "live (?f s)"
    have "in_subtree d z live_status roots (s_id s)" if "s_zone q = z" "s_id q \<in> set ids"
      using that q(3) l(1) by (intro in_subtree.child [OF _ s q(2)]) (auto simp: ids live_def)
    then show "live (?f q)" using q l lv ids by auto
  next
    fix s assume s: "s \<in> set (sessions d)" "live (?f s)"
    have "length (filter (\<lambda>t. s_parent t = Some (s_id s) \<and> live (?f t)) (sessions d)) \<le> length (live_children (sessions d) (s_id s))"
      unfolding live_children_def by (rule length_filter_mono) (use lv in auto)
    moreover have "s_child_count (?f s) = s_child_count s" by (simp add: ended_session_def)
    ultimately show "int (length (filter (\<lambda>t. s_parent t = Some (s_id s) \<and> live (?f t)) (sessions d))) \<le> s_child_count (?f s)
        \<and> s_child_count (?f s) \<le> s_child_count s"
      using session_inv_ok [OF inv s(1)] s(2) lv by (auto simp: session_ok_def)
  qed
qed

lemma end_closure_facts:
  assumes ok: "store_ok d" and c: "end_closure e z roots d = (ss, gs, d')"
    and roots: "\<And>r. r \<in> set roots \<Longrightarrow> in_subtree d z live_status roots r"
  shows "calm d d'" "authorities d' = authorities d"
    and "ss = filter (\<lambda>s. in_subtree d z live_status roots (s_id s)) (sessions d)"
    and "gs = filter (touches z (map s_id ss)) (edges d)"
    and "sessions d' = map (\<lambda>s. if in_subtree d z live_status roots (s_id s) then ended_session e s else s) (sessions d)"
    and "edges d' = map (\<lambda>g. if touches z (map s_id ss) g then revoked_edge e g else g) (edges d)"
proof -
  note inv = store_okD(1) [OF ok]
  define ids where "ids = session_closure d z roots"
  have mem: "x \<in> set ids \<longleftrightarrow> in_subtree d z live_status roots x" for x unfolding ids_def by (rule session_closure_iff [OF roots])
  have hit: "(s_zone s = z \<and> s_id s \<in> set ids) \<longleftrightarrow> in_subtree d z live_status roots (s_id s)" if "s \<in> set (sessions d)" for s
    using subtree_member(2) [OF inv _ that] mem by auto
  have S0: "sessions d' = map (\<lambda>s. if s_zone s = z \<and> s_id s \<in> set ids then ended_session e s else s) (sessions d)"
    and ss0: "ss = filter (\<lambda>s. s_zone s = z \<and> s_id s \<in> set ids) (sessions d)"
    and gs: "gs = filter (touches z (map s_id ss)) (edges d)"
    and E: "edges d' = map (\<lambda>g. if touches z (map s_id ss) g then revoked_edge e g else g) (edges d)"
    and fr: "authorities d' = authorities d" "outbox d' = outbox d" "invocations d' = invocations d" "epochs d' = epochs d"
  proof -
    define d1 where "d1 = d\<lparr>sessions := map (\<lambda>s. if s_zone s = z \<and> s_id s \<in> set ids then ended_session e s else s) (sessions d)\<rparr>"
    define ss1 where "ss1 = filter (\<lambda>s. s_zone s = z \<and> s_id s \<in> set ids) (sessions d)"
    have es: "end_sessions e z ids d = (ss1, d1)" by (simp add: end_sessions_def d1_def ss1_def)
    obtain gs1 d2 where ee: "end_edges e z (map s_id ss1) d1 = (gs1, d2)" by (cases "end_edges e z (map s_id ss1) d1")
    have r: "ss = ss1" "gs = gs1" "d' = d2" using c by (simp_all add: end_closure_def ids_def [symmetric] es ee)
    have t: "touches z [] g = False" for g by (simp add: touches_def)
    have e: "gs1 = filter (touches z (map s_id ss1)) (edges d1)"
      "d2 = d1\<lparr>edges := map (\<lambda>g. if touches z (map s_id ss1) g then revoked_edge e g else g) (edges d1)\<rparr>"
      using ee by (cases "ss1 = []"; simp add: end_edges_def t)+
    show "sessions d' = map (\<lambda>s. if s_zone s = z \<and> s_id s \<in> set ids then ended_session e s else s) (sessions d)"
      "ss = filter (\<lambda>s. s_zone s = z \<and> s_id s \<in> set ids) (sessions d)" "gs = filter (touches z (map s_id ss)) (edges d)"
      "edges d' = map (\<lambda>g. if touches z (map s_id ss) g then revoked_edge e g else g) (edges d)"
      "authorities d' = authorities d" "outbox d' = outbox d" "invocations d' = invocations d" "epochs d' = epochs d"
      by (simp_all add: r e) (simp_all add: d1_def ss1_def)
  qed
  show "ss = filter (\<lambda>s. in_subtree d z live_status roots (s_id s)) (sessions d)" unfolding ss0 by (rule filter_cong) (simp_all add: hit)
  show "sessions d' = map (\<lambda>s. if in_subtree d z live_status roots (s_id s) then ended_session e s else s) (sessions d)"
    unfolding S0 by (rule map_cong) (simp_all add: hit)
  show "gs = filter (touches z (map s_id ss)) (edges d)" "authorities d' = authorities d"
    "edges d' = map (\<lambda>g. if touches z (map s_id ss) g then revoked_edge e g else g) (edges d)" by (fact gs fr E)+
  show "calm d d'"
    by (rule ending_calm [OF ok session_inv_end [OF inv S0 mem] S0 _ _ _ _ E, where ids = ids])
      (use store_okD(5,6) [OF ok] in \<open>auto simp: ended_session_def live_def live_status_def ss0 fr epoch_of_def outbox_keys_def\<close>)
qed

lemma governed_roots: "r \<in> set (governed_ids d z u) \<Longrightarrow> in_subtree d z live_status (governed_ids d z u) r"
  by (auto simp: governed_ids_def governed_def intro!: in_subtree.root)

lemma subtree_row:
  assumes "in_subtree d z ok roots x"
  obtains s where "s \<in> set (sessions d)" "s_id s = x"
  using assms by (cases rule: in_subtree.cases) auto

text \<open>The sessions below the roots have ended with every delegation that touches them.\<close>

definition closed_below :: "db \<Rightarrow> zone \<Rightarrow> string list \<Rightarrow> db \<Rightarrow> bool" where
  "closed_below d z roots d' \<longleftrightarrow>
     (\<forall>s\<in>set (sessions d'). in_subtree d z live_status roots (s_id s) \<longrightarrow> s_status s = STerminated) \<and>
     (\<forall>g\<in>set (edges d'). e_zone g = z \<and> e_status g = EActive \<longrightarrow>
        \<not> in_subtree d z live_status roots (e_source g) \<and> \<not> in_subtree d z live_status roots (e_target g))"

text \<open>The anchors of what ends: sessions, their authority records, and delegations.\<close>

definition closure_anchor :: "db \<Rightarrow> zone \<Rightarrow> string list \<Rightarrow> string \<Rightarrow> bool" where
  "closure_anchor d z roots a \<longleftrightarrow>
     (\<exists>s\<in>set (sessions d). in_subtree d z live_status roots (s_id s) \<and> (a = s_id s \<or> a = s_subject s)) \<or>
     (\<exists>g\<in>set (edges d). e_zone g = z \<and> e_status g = EActive \<and> a = e_id g \<and>
        (in_subtree d z live_status roots (e_source g) \<or> in_subtree d z live_status roots (e_target g)))"

lemma closure_cong:
  assumes "sessions d1 = sessions d" "edges d1 = edges d"
  shows "closed_below d1 z roots = closed_below d z roots" "closure_anchor d1 z roots = closure_anchor d z roots"
  unfolding closed_below_def closure_anchor_def in_subtree_cong [OF assms(1)] assms by simp_all

lemma end_closure_closes:
  assumes "store_ok d" "end_closure e z roots d = (ss, gs, d')" "\<And>r. r \<in> set roots \<Longrightarrow> in_subtree d z live_status roots r"
  shows "closed_below d z roots d'"
    and "closure_anchor d z roots a \<Longrightarrow> (\<exists>s\<in>set ss. a = s_id s \<or> a = s_subject s) \<or> (\<exists>g\<in>set gs. a = e_id g)"
proof -
  define sub where "sub = in_subtree d z live_status roots"
  note E = end_closure_facts [OF assms, folded sub_def]
  have mem: "x \<in> set (map s_id ss) \<longleftrightarrow> sub x" for x
    using subtree_row [of d z live_status roots x] E(3) by (auto simp: sub_def)
  have touch: "touches z (map s_id ss) g \<longleftrightarrow> e_zone g = z \<and> e_status g = EActive \<and> (sub (e_source g) \<or> sub (e_target g))" for g
    unfolding touches_def mem by simp
  show "closed_below d z roots d'" unfolding closed_below_def sub_def [symmetric]
  proof (intro conjI ballI impI; (elim conjE)?)
    fix s assume "s \<in> set (sessions d')" "sub (s_id s)"
    then show "s_status s = STerminated" using E(5) by (auto simp: ended_session_def)
  next
    fix g assume "g \<in> set (edges d')" "e_zone g = z" "e_status g = EActive"
    then show "\<not> sub (e_source g)" "\<not> sub (e_target g)"
      using revoked_map_active [of g "touches z (map s_id ss)" e "edges d"] E(6) touch [of g] by simp_all
  qed
  assume "closure_anchor d z roots a"
  then show "(\<exists>s\<in>set ss. a = s_id s \<or> a = s_subject s) \<or> (\<exists>g\<in>set gs. a = e_id g)"
    unfolding closure_anchor_def sub_def [symmetric]
  proof (elim disjE bexE conjE)
    fix g assume "g \<in> set (edges d)" "e_zone g = z" "e_status g = EActive" "a = e_id g" "sub (e_source g)"
    then show ?thesis using E(4) touch by auto
  next
    fix g assume "g \<in> set (edges d)" "e_zone g = z" "e_status g = EActive" "a = e_id g" "sub (e_target g)"
    then show ?thesis using E(4) touch by auto
  qed (use E(3) in auto)
qed

section \<open>What a revoked subject leaves\<close>

lemma enqueue_events_Inr:
  assumes "enqueue_events e entries w = Inr w'"
  shows "\<exists>n rows. w' = w\<lparr>event_outbox := event_outbox w @ rows, store := (store w)\<lparr>uuids := n\<rparr>\<rparr>"
    and "(stream, p, rid) \<in> set entries \<Longrightarrow> \<exists>row\<in>set (event_outbox w'). ev_stream row = stream \<and> ev_payload row = p"
proof -
  define ids where "ids = map (uuidv7 e) [uuids (store w)..<uuids (store w) + length entries]"
  have w': "w' = w\<lparr>event_outbox := event_outbox w @ map2 (event_row_of e) ids entries, store := (store w)\<lparr>uuids := uuids (store w) + length entries\<rparr>\<rparr>"
    using assms unfolding enqueue_events_def enqueueOutboxBatch_def Let_def ids_def by (auto simp: ebind_Inr reject_Inr)
  show "\<exists>n rows. w' = w\<lparr>event_outbox := event_outbox w @ rows, store := (store w)\<lparr>uuids := n\<rparr>\<rparr>" unfolding w' by blast
  assume "(stream, p, rid) \<in> set entries"
  then obtain k where k: "k < length entries" "entries ! k = (stream, p, rid)" by (auto simp: in_set_conv_nth)
  have "length (map2 (event_row_of e) ids entries) = length entries" by (simp add: ids_def)
  moreover have "map2 (event_row_of e) ids entries ! k = event_row_of e (ids ! k) (stream, p, rid)" using k by (simp add: ids_def)
  ultimately have row: "event_row_of e (ids ! k) (stream, p, rid) \<in> set (map2 (event_row_of e) ids entries)"
    using k(1) nth_mem [of k "map2 (event_row_of e) ids entries"] by simp
  have "event_row_of e (ids ! k) (stream, p, rid) \<in> set (event_outbox w')" unfolding w' using row by (simp del: set_map)
  moreover have "ev_stream (event_row_of e (ids ! k) (stream, p, rid)) = stream" "ev_payload (event_row_of e (ids ! k) (stream, p, rid)) = p"
    by (simp_all add: event_row_of_def)
  ultimately show "\<exists>row\<in>set (event_outbox w'). ev_stream row = stream \<and> ev_payload row = p" by blast
qed

lemma audit_event_Inr:
  "audit_event e rec w = Inr w' \<Longrightarrow> \<exists>n rows. w' = w\<lparr>store := (store w)\<lparr>uuids := n\<rparr>, admin_audit_events := rows\<rparr>"
  by (auto simp: audit_event_def fresh_id_def ebind_Inr Let_def)

lemma calm_uuids: "calm d d' \<Longrightarrow> calm d (d'\<lparr>uuids := n\<rparr>)"
  by (rule calm_trans, assumption, rule calm_frame)
    (auto simp: calm_def epoch_of_def dest: store_okD(5,6))

lemma governed_records:
  assumes "map (\<lambda>a. (r_id a, r_zone a, r_subject a)) rs = map (\<lambda>a. (r_id a, r_zone a, r_subject a)) (authorities d)"
  shows "governed (d\<lparr>authorities := rs\<rparr>) z u s = governed d z u s"
proof -
  have l: "list_ex (\<lambda>a. r_id a = i \<and> r_zone a = z \<and> r_subject a = Some u) xs =
      ((i, z, Some u) \<in> set (map (\<lambda>a. (r_id a, r_zone a, r_subject a)) xs))" for xs i
    by (auto simp: list_ex_iff)
  have "authorities (d\<lparr>authorities := rs\<rparr>) = rs" by simp
  then show ?thesis by (simp only: governed_def l assms)
qed

definition announced :: "event_row list \<Rightarrow> string \<Rightarrow> bool" where
  "announced rows a = list_ex (\<lambda>row. ev_stream row = REVOCATION_STREAM \<and> event_names row a) rows"

definition revokes_anchor :: "string \<Rightarrow> event_entry \<Rightarrow> bool" where
  "revokes_anchor a entry = (case entry of (stream, p, rid) \<Rightarrow>
     stream = REVOCATION_STREAM \<and> distinct (map fst p) \<and> list_ex (\<lambda>k. map_of p k = Some (SVStr a)) anchor_fields)"

lemma fold_update_other:
  "k \<notin> fst ` set p \<Longrightarrow> map_of (fold (\<lambda>(k, v) m. AList.update k v m) p m) k = map_of m k"
  by (induction p arbitrary: m) (auto simp: update_conv')

lemma fold_update_lookup:
  assumes "distinct (map fst p)" "map_of p k = Some v"
  shows "map_of (fold (\<lambda>(k, v) m. AList.update k v m) p m) k = Some v"
  using assms by (induction p arbitrary: m) (auto simp: update_conv' fold_update_other split: if_splits)

lemma revokes_anchor_row: "revokes_anchor a (ev_stream row, ev_payload row, rid) \<Longrightarrow> ev_stream row = REVOCATION_STREAM \<and> event_names row a"
  by (auto simp: revokes_anchor_def event_names_def event_values_def list_ex_iff intro: fold_update_lookup)

lemma revokes_events:
  "revokes_anchor i (record_event z reason rid i)"
  "revokes_anchor (e_id g) (edge_event z reason rid g)"
  "a = s_id s \<or> a = s_subject s \<Longrightarrow> \<exists>entry\<in>set (session_events z reason rid s). revokes_anchor a entry"
  by (auto simp: revokes_anchor_def record_event_def edge_event_def session_events_def anchor_fields_def SessionsRevoke_def REVOCATION_STREAM_def)

lemma cascade_announced:
  assumes "enqueue_events e (cascade_events z reason rid ids ss gs) w = Inr w'"
    and "a \<in> set ids \<or> (\<exists>s\<in>set ss. a = s_id s \<or> a = s_subject s) \<or> (\<exists>g\<in>set gs. a = e_id g)"
  shows "announced (event_outbox w') a"
proof -
  have "\<exists>entry\<in>set (cascade_events z reason rid ids ss gs). revokes_anchor a entry"
    using assms(2)
  proof (elim disjE bexE)
    assume "a \<in> set ids"
    then show ?thesis by (intro bexI [where x = "record_event z reason rid a"] revokes_events(1)) (simp add: cascade_events_def)
  next
    fix g assume "g \<in> set gs" "a = e_id g"
    then show ?thesis unfolding \<open>a = e_id g\<close> by (intro bexI [where x = "edge_event z reason rid g"] revokes_events(2)) (simp add: cascade_events_def)
  qed (use revokes_events(3) [of a _ z reason rid] in \<open>fastforce simp: cascade_events_def\<close>)+
  then obtain stream p rid' where en: "(stream, p, rid') \<in> set (cascade_events z reason rid ids ss gs)" "revokes_anchor a (stream, p, rid')"
    by (metis prod_cases3)
  from enqueue_events_Inr(2) [OF assms(1) en(1)] obtain row where "row \<in> set (event_outbox w')" "ev_stream row = stream" "ev_payload row = p" by blast
  then show ?thesis using en(2) revokes_anchor_row [of a row] unfolding announced_def list_ex_iff by blast
qed

lemma revoke_connections_facts:
  assumes "revoke_connections e z u cs = (l, cs')" "c \<in> set cs'" "pc_zone c = z" "pc_subject c = u"
  shows "pc_status c \<noteq> AActive"
proof -
  define f where "f c = (if pc_zone c = z \<and> pc_subject c = u \<and> pc_status c = AActive then c\<lparr>pc_status := ARevoked, pc_updated := now e\<rparr> else c)" for c :: connection
  have "cs' = map f cs" using assms(1) unfolding revoke_connections_def Let_def f_def by simp
  with assms(2) have "c \<in> f ` set cs" by simp
  then obtain b where "c = f b" ..
  then show ?thesis using assms(3,4) by (auto simp: f_def split: if_splits)
qed

lemma revoke_subject_Inr:
  assumes "revoke_subject_tx e rq z u reason w = Inr (r, w')"
  obtains ids rs ss gs d2 l cs w1 n rows where "revoke_pages e ''subject_revoked'' z u (authorities (store w)) = (ids, rs)"
    "end_closure e z (governed_ids ((store w)\<lparr>authorities := rs\<rparr>) z u) ((store w)\<lparr>authorities := rs\<rparr>) = (ss, gs, d2)"
    "revoke_connections e z u (provider_connections w) = (l, cs)"
    "enqueue_events e (cascade_events z reason (ap_id rq) ids ss gs) (w\<lparr>store := d2, provider_connections := cs\<rparr>) = Inr w1"
    "w' = w1\<lparr>store := (store w1)\<lparr>uuids := n\<rparr>, admin_audit_events := rows\<rparr>"
  using assms unfolding revoke_subject_tx_def Let_def
  by (auto simp: reject_Inr ebind_Inr split: prod.splits dest!: audit_event_Inr)

lemma revoke_subject_facts:
  assumes ok: "store_ok (store w)" and tx: "revoke_subject_tx e rq z u reason w = Inr (r, w')"
  shows "calm (store w) (store w')"
    and "a \<in> set (authorities (store w')) \<Longrightarrow> \<not> subject_active z u a"
    and "closed_below (store w) z (governed_ids (store w) z u) (store w')"
    and "s \<in> set (sessions (store w')) \<Longrightarrow> \<not> governed (store w') z u s"
    and "c \<in> set (provider_connections w') \<Longrightarrow> pc_zone c = z \<Longrightarrow> pc_subject c = u \<Longrightarrow> pc_status c \<noteq> AActive"
    and "a \<in> set (authorities (store w)) \<Longrightarrow> subject_active z u a \<Longrightarrow> announced (event_outbox w') (r_id a)"
    and "closure_anchor (store w) z (governed_ids (store w) z u) x \<Longrightarrow> announced (event_outbox w') x"
proof -
  let ?d = "store w"
  from tx obtain ids rs ss gs d2 l cs w1 n rows where P: "revoke_pages e ''subject_revoked'' z u (authorities ?d) = (ids, rs)"
    and C: "end_closure e z (governed_ids (?d\<lparr>authorities := rs\<rparr>) z u) (?d\<lparr>authorities := rs\<rparr>) = (ss, gs, d2)"
    and L: "revoke_connections e z u (provider_connections w) = (l, cs)"
    and Q: "enqueue_events e (cascade_events z reason (ap_id rq) ids ss gs) (w\<lparr>store := d2, provider_connections := cs\<rparr>) = Inr w1"
    and w': "w' = w1\<lparr>store := (store w1)\<lparr>uuids := n\<rparr>, admin_audit_events := rows\<rparr>" by (rule revoke_subject_Inr) (rule that)
  let ?d1 = "?d\<lparr>authorities := rs\<rparr>"
  from enqueue_events_Inr(1) [OF Q] obtain m evs where w1: "w1 = w\<lparr>provider_connections := cs, event_outbox := event_outbox w @ evs, store := d2\<lparr>uuids := m\<rparr>\<rparr>"
    by auto
  have st: "store w' = d2\<lparr>uuids := n\<rparr>" "event_outbox w' = event_outbox w1" "provider_connections w' = cs" by (simp_all add: w' w1)
  note pages = revoke_pages_facts [OF P]
  have gov: "governed ?d1 z u = governed ?d z u" by (rule ext) (rule governed_records [OF pages(1)])
  then have gids: "governed_ids ?d1 z u = governed_ids ?d z u" by (simp add: governed_ids_def)
  have c1: "calm ?d ?d1" by (rule calm_frame [OF ok]) (use store_okD(5,6) [OF ok] in \<open>simp_all add: outbox_keys_def epoch_of_def\<close>)
  note E = end_closure_facts [OF calm_ok [OF c1] C governed_roots] and X = end_closure_closes [OF calm_ok [OF c1] C governed_roots]
  have cong: "closed_below ?d1 z = closed_below ?d z" "closure_anchor ?d1 z = closure_anchor ?d z"
    by (rule ext, rule closure_cong; simp)+
  show "calm ?d (store w')" unfolding st by (rule calm_uuids [OF calm_trans [OF c1 E(1)]])
  show "a \<in> set (authorities (store w')) \<Longrightarrow> \<not> subject_active z u a" using pages(2) E(2) by (simp add: st)
  show closed: "closed_below ?d z (governed_ids ?d z u) (store w')" using X(1) unfolding cong gids by (simp add: st closed_below_def)
  show "s \<in> set (sessions (store w')) \<Longrightarrow> \<not> governed (store w') z u s"
  proof
    assume s: "s \<in> set (sessions (store w'))" and g: "governed (store w') z u s"
    then have g': "governed ?d z u s" "live_status (s_status s)" using E(2) gov by (simp_all add: governed_def st fun_eq_iff)
    then have ns: "\<not> in_subtree ?d z live_status (governed_ids ?d z u) (s_id s)"
      using closed s by (auto simp: closed_below_def live_status_def)
    have "\<exists>t\<in>set (sessions ?d). s = (if in_subtree ?d1 z live_status (governed_ids ?d1 z u) (s_id t) then ended_session e t else t)"
      using s E(5) by (auto simp: st)
    then have "s \<in> set (sessions ?d)" using g'(2) by (auto simp: ended_session_def live_status_def split: if_splits)
    then show False using g' ns governed_roots [of "s_id s" ?d z u] by (simp add: governed_ids_def)
  qed
  show "c \<in> set (provider_connections w') \<Longrightarrow> pc_zone c = z \<Longrightarrow> pc_subject c = u \<Longrightarrow> pc_status c \<noteq> AActive"
    using revoke_connections_facts [OF L] by (simp add: st)
  show "a \<in> set (authorities ?d) \<Longrightarrow> subject_active z u a \<Longrightarrow> announced (event_outbox w') (r_id a)"
    unfolding st using cascade_announced [OF Q] pages(3) by blast
  show "closure_anchor ?d z (governed_ids ?d z u) x \<Longrightarrow> announced (event_outbox w') x"
    unfolding st using cascade_announced [OF Q] X(2) [unfolded cong gids] by blast
qed

section \<open>Every route and job keeps the store\<close>

lemma withTransaction_calm:
  assumes "withTransaction f w = (r, w')" "store_ok (store w)" "\<And>r' w''. f w = Inr (r', w'') \<Longrightarrow> calm (store w) (store w'')"
  shows "calm (store w) (store w')"
  using assms by (auto simp: withTransaction_def split: sum.splits)

lemma revoke_subject_calm:
  assumes "store_ok (store w)" "revoke_subject e rq z w = (r, w')"
  shows "calm (store w) (store w')"
  using assms withTransaction_calm [OF _ assms(1) revoke_subject_facts(1) [OF assms(1)]]
  by (auto simp: revoke_subject_def split: sum.splits prod.splits)

text \<open>The tables the coordinator only reads.\<close>

lemma calm_reads:
  assumes "store_ok d" "calm d (d\<lparr>uuids := n\<rparr>)"
  shows "calm d (d\<lparr>authorities := rs, uuids := n\<rparr>)" "calm d (d\<lparr>applications := as\<rparr>)" "calm d (d\<lparr>authorities := rs\<rparr>)"
  by (rule calm_frame [OF assms(1)]; use store_okD(5,6) [OF assms(1)] in \<open>simp add: outbox_keys_def epoch_of_def\<close>)+

lemma create_grant_calm:
  assumes "store_ok (store w)" "create_grant pattern e controlAudience rq z w = (r, w')"
  shows "calm (store w) (store w')"
proof -
  have "store w' = store w \<or> (\<exists>n. store w' = (store w)\<lparr>uuids := n\<rparr>)"
    using assms(2) unfolding create_grant_def createDelegatedGrant_def fresh_id_def Let_def
    by (auto simp: ebind_Inr reject_Inr expect_Inr split: sum.splits prod.splits)
  then show ?thesis using calm_uuids [OF calm_refl [OF assms(1)]] assms(1) by auto
qed

lemma revoke_grant_tx_facts:
  assumes "store_ok (store w)" "revoke_grant_tx e rq ab z i w = Inr (r, w')"
  obtains g ids rs where "g \<in> set (delegated_grants w)" "dg_id g = i" "dg_zone g = z"
    "revoke_pages e ''grant_revoked'' z (dg_user g) (authorities (store w)) = (ids, rs)" "authorities (store w') = rs"
    "sessions (store w') = sessions (store w)" "calm (store w) (store w')"
proof -
  from assms(2) obtain g where g: "find (\<lambda>g. dg_id g = i \<and> dg_zone g = z) (delegated_grants w) = Some g"
    by (auto simp: revoke_grant_tx_def expect_Inr)
  obtain ids rs where p: "revoke_pages e ''grant_revoked'' z (dg_user g) (authorities (store w)) = (ids, rs)"
    by (cases "revoke_pages e ''grant_revoked'' z (dg_user g) (authorities (store w))")
  define w0 where "w0 = w\<lparr>delegated_grants := map (\<lambda>g. if dg_id g = i \<and> dg_zone g = z then g\<lparr>dg_status := ARevoked,
    dg_updated_by := Some (at_actor ab), dg_updated_via := at_via ab, dg_updated := now e\<rparr> else g) (delegated_grants w),
    store := (store w)\<lparr>authorities := rs\<rparr>\<rparr>"
  have q: "enqueue_events e (map (grant_event z i (ap_id rq)) ids) w0 = Inr w'"
    using assms(2) g p unfolding revoke_grant_tx_def Let_def w0_def by (simp add: expect_def ebind_Inr)
  have w0: "store w0 = (store w)\<lparr>authorities := rs\<rparr>" by (simp add: w0_def)
  from enqueue_events_Inr(1) [OF q] obtain n where st: "store w' = (store w)\<lparr>authorities := rs, uuids := n\<rparr>" using w0 by auto
  note c = calm_reads(1) [OF assms(1) calm_uuids [OF calm_refl [OF assms(1)]]]
  show ?thesis by (rule that [OF _ _ _ p]) (use g st c in \<open>auto dest: find_SomeD\<close>)
qed

lemma revoke_grant_calm:
  assumes "store_ok (store w)" "revoke_grant pattern e rq z i w = (r, w')"
  shows "calm (store w) (store w')"
proof (cases "ebind (parseParams [z, i]) (\<lambda>_. resolveAttribution pattern rq w (Some z))")
  case (Inr ab)
  then have "withTransaction (revoke_grant_tx e rq ab z i) w = (r, w')" using assms(2) by (simp add: revoke_grant_def)
  then show ?thesis by (rule withTransaction_calm [OF _ assms(1)]) (erule revoke_grant_tx_facts [OF assms(1)])
qed (use assms in \<open>simp add: revoke_grant_def\<close>)

lemma jobs_calm:
  assumes "store_ok d"
  shows "calm d (snd (runDCRGC e locked d))" "calm d (snd (runSessionsReap e locked zs d))"
  using calm_reads(2,3) [OF assms calm_uuids [OF calm_refl [OF assms]]] assms by (auto simp: runDCRGC_def runSessionsReap_def Let_def)

text \<open>A grant stays within its resource, which is not the control resource, and names a usable application of the zone.\<close>

lemma created_grant_bounded:
  assumes "createDelegatedGrant e controlAudience z (app, user, rsrc, scopes) ab w = Inr (g, w')"
  shows "g \<in> set (delegated_grants w') \<and> dg_status g = AActive \<and> dg_scopes g = scopes \<and> dg_user g = user \<and>
    (\<exists>a\<in>set (applications (store w)). a_id a = dg_app g \<and> a_zone a = z \<and> usable_application e a) \<and>
    (\<exists>r\<in>set (resources (store w)). res_id r = dg_resource g \<and> res_zone r = z \<and> res_archived r = None \<and>
       res_identifier r \<noteq> controlAudience \<and> scopesAllowed (dg_scopes g) (res_scopes r))"
  using assms unfolding createDelegatedGrant_def fresh_id_def Let_def
  by (auto simp: reject_Inr expect_Inr list_ex_iff dest!: find_SomeD)

text \<open>Revoking a grant ends the user's authority records, but the sessions that ride on them stay as they are.\<close>

lemma revoked_grant_records:
  assumes "store_ok (store w)" "revoke_grant_tx e rq ab z i w = Inr (r, w')"
  shows "\<exists>g\<in>set (delegated_grants w). dg_id g = i \<and> dg_zone g = z \<and>
    (\<forall>a\<in>set (authorities (store w')). \<not> subject_active z (dg_user g) a) \<and> sessions (store w') = sessions (store w)"
  using revoke_grant_tx_facts [OF assms] revoke_pages_facts(2) by metis

section \<open>The kill switch\<close>

lemma errs_enqueue_events [intro!]: "errs (enqueue_events e entries w)"
  unfolding enqueue_events_def enqueueOutboxBatch_def Let_def by (auto simp: errs_def ebind_Inl reject_Inl split: prod.splits)

lemma errs_audit_event [intro!]: "errs (audit_event e rec w)"
  unfolding audit_event_def insertAdminAuditRecord_def fresh_id_def Let_def by (auto simp: errs_def ebind_Inl reject_Inl)

lemma withTransaction_success:
  assumes "withTransaction f w = (r, w')" "errs (f w)" "is_success r"
  shows "f w = Inr (r, w')"
  using assms by (auto simp: withTransaction_def is_success_def errs_def split: sum.splits)

lemma revoke_subject_success:
  assumes "revoke_subject e rq z w = (r, w')" "is_success r" "RevokeBody (ap_body rq) = Some (u, reason)"
  shows "\<exists>t. revoke_subject_tx e rq z u t w = Inr (r, w')"
proof -
  define t where "t = (case reason of None \<Rightarrow> ''subject_revoked'' | Some t \<Rightarrow> t)"
  have er: "errs (revoke_subject_tx e rq z u t w)"
    unfolding revoke_subject_tx_def Let_def by (auto split: prod.splits)
  have "parseParams [z] = Inr ()"
  proof (cases "parseParams [z]")
    case (Inl q)
    then show ?thesis using assms(1,2) errs_parseParams [of "[z]"] by (simp add: revoke_subject_def ebind_def is_success_def)
  qed simp
  then have "withTransaction (revoke_subject_tx e rq z u t) w = (r, w')"
    using assms(1,3) by (simp add: revoke_subject_def ebind_def expect_def t_def)
  from withTransaction_success [OF this er assms(2)] show ?thesis by blast
qed

text \<open>
  C12: the kill switch cuts a subject off. After a successful call no authority record of the subject is active,
  every session that rides on one of them has ended with the sessions below it, no active
  delegation touches these, no connection of the subject is active, every record, session and
  delegation that ended is announced in the outbox, and the coordinator's store is well-formed.
\<close>

theorem subject_kill_switch:
  assumes "revoke_subject e rq z w = (r, w')" "is_success r" "RevokeBody (ap_body rq) = Some (u, reason)" "store_ok (store w)"
  shows "store_ok (store w') \<and> \<not> (\<exists>a\<in>set (authorities (store w')). subject_active z u a) \<and>
    \<not> (\<exists>s\<in>set (sessions (store w')). governed (store w') z u s) \<and> closed_below (store w) z (governed_ids (store w) z u) (store w') \<and>
    \<not> (\<exists>c\<in>set (provider_connections w'). pc_zone c = z \<and> pc_subject c = u \<and> pc_status c = AActive) \<and>
    (\<forall>a\<in>set (authorities (store w)). subject_active z u a \<longrightarrow> announced (event_outbox w') (r_id a)) \<and>
    (\<forall>a. closure_anchor (store w) z (governed_ids (store w) z u) a \<longrightarrow> announced (event_outbox w') a)"
proof -
  obtain t where tx: "revoke_subject_tx e rq z u t w = Inr (r, w')" using revoke_subject_success [OF assms(1-3)] by blast
  note F = revoke_subject_facts [OF assms(4) tx]
  show ?thesis using calm_ok [OF F(1)] F(2-7) by blast
qed

text \<open>A world in which the authority record of four sessions belongs to one subject.\<close>

definition sample_world :: world where
  "sample_world = \<lparr>store = sample_db\<lparr>authorities := map (\<lambda>a. a\<lparr>r_subject := Some ''alice''\<rparr>) (authorities sample_db)\<rparr>, zone_rows = [],
     event_outbox = [], delegated_grants = [], provider_connections = [], admin_audit_events = []\<rparr>"

definition sample_request :: "json \<Rightarrow> api_request" where
  "sample_request body = \<lparr>ap_id = ''q1'', ap_method = ''POST'', ap_url = ''/v1/zones/z1/subjects/revoke'', ap_actor = None, ap_account = None,
     ap_authorizedBy = None, ap_createdVia = None, ap_body = Some body\<rparr>"

definition sample_kill :: "reply \<times> world" where
  "sample_kill = revoke_subject (sample_env 5000) (sample_request (JObj [(''subject_id'', JStr ''alice'')])) ''z1'' sample_world"

lemma sample_kill_code: "code (fst sample_kill) = 200"
  by code_simp

lemma sample_kill_ok: "is_success (fst sample_kill)"
  by (simp add: is_success_def sample_kill_code)

lemma sample_world_ok: "store_ok (store sample_world)"
  by code_simp

lemma sample_governed:
  "RevokeBody (Some (JObj [(''subject_id'', JStr ''alice'')])) = Some (''alice'', None)"
  "governed_ids (store sample_world) ''z1'' ''alice'' = [''d'', ''a'', ''b'', ''c'']"
  by code_simp+

theorem subject_kill_switch_witness:
  "code (fst sample_kill) = 200 \<and> \<not> (\<exists>a\<in>set (authorities (store (snd sample_kill))). subject_active ''z1'' ''alice'' a) \<and>
    announced (event_outbox (snd sample_kill)) ''c'' \<and> announced (event_outbox (snd sample_kill)) ''g1''"
proof -
  let ?d = "store sample_world" and ?roots = "governed_ids (store sample_world) ''z1'' ''alice''"
  have k: "revoke_subject (sample_env 5000) (sample_request (JObj [(''subject_id'', JStr ''alice'')])) ''z1'' sample_world = (fst sample_kill, snd sample_kill)"
    by (simp add: sample_kill_def)
  have b: "RevokeBody (ap_body (sample_request (JObj [(''subject_id'', JStr ''alice'')]))) = Some (''alice'', None)"
    using sample_governed(1) by (simp add: sample_request_def)
  have sub: "in_subtree ?d ''z1'' live_status ?roots x" if "x \<in> {''d'', ''a'', ''b'', ''c''}" for x
    using that by (intro governed_roots) (auto simp: sample_governed(2))
  have "closure_anchor ?d ''z1'' ?roots ''c''" using sub [of "''c''"]
    by (auto simp: closure_anchor_def sample_world_def sample_db_def sample_session_def)
  moreover have "closure_anchor ?d ''z1'' ?roots ''g1''" using sub [of "''d''"]
    by (auto simp: closure_anchor_def sample_world_def sample_db_def sample_edge_def)
  ultimately show ?thesis using subject_kill_switch [OF k sample_kill_ok b sample_world_ok] sample_kill_code by blast
qed

end
