(* ===== verification/Zones.thy ===== *)
theory Zones
  imports ControlPlane
begin

text \<open>
  The zone routes of the control plane, \<open>apps/api/src/routes/zones.ts\<close>: creating a zone with a derived
  slug, patching, archiving, and the shutdown of dynamic client registration, which ends the
  registered identities through the same cascade as the kill switch. The patch builder
  (\<open>routes/patch.ts\<close>) is modelled by its effect: an assignment for every field the body has. The list
  route and the reply to a database without the expected tables are left out, and the attribution
  columns of applications are not part of the store.
\<close>

section \<open>Bodies\<close>

definition ZONE_NAME_MAX :: nat where
  "ZONE_NAME_MAX = 120"

definition z_strict :: "string list \<Rightarrow> json option \<Rightarrow> (string \<times> json) list option" where
  "z_strict ks body = (case body of Some (JObj ob) \<Rightarrow> if list_all (\<lambda>(k, v). k \<in> set ks) ob then Some ob else None | _ \<Rightarrow> None)"

definition zone_name :: "json \<Rightarrow> string option" where
  "zone_name j = (case z_string j of
     Some s \<Rightarrow> if trim s \<noteq> [] \<and> length (trim s) \<le> ZONE_NAME_MAX then Some (trim s) else None | None \<Rightarrow> None)"

definition slug_char :: "char \<Rightarrow> bool" where
  "slug_char c = (let n = (of_char c :: nat) in (97 \<le> n \<and> n \<le> 122) \<or> (48 \<le> n \<and> n \<le> 57))"

definition zone_slug :: "json \<Rightarrow> string option" where
  "zone_slug j = (case z_nonempty j of
     Some s \<Rightarrow> if list_all (\<lambda>c. slug_char c \<or> c = CHR ''-'') s then Some s else None | None \<Rightarrow> None)"

definition ZoneCreateBody :: "json option \<Rightarrow> (string \<times> string option \<times> bool option) option" where
  "ZoneCreateBody body = do {
     ob \<leftarrow> z_strict [''name'', ''slug'', ''dcr_enabled''] body;
     nm \<leftarrow> z_field zone_name (jget ob ''name'');
     slug \<leftarrow> z_optional zone_slug (jget ob ''slug'');
     dcr \<leftarrow> z_optional z_bool (jget ob ''dcr_enabled'');
     Some (nm, slug, dcr) }"

datatype dcr_shutdown = KeepLive | RevokeLive

record zone_patch =
  zp_name :: "string option"
  zp_slug :: "string option"
  zp_dcr :: "bool option"
  zp_shutdown :: "dcr_shutdown option"
  zp_badge :: "bool option"
  zp_governed :: "bool option"

definition ZoneUpdateBody :: "json option \<Rightarrow> zone_patch option" where
  "ZoneUpdateBody body = do {
     ob \<leftarrow> z_strict [''name'', ''slug'', ''dcr_enabled'', ''dcr_shutdown'', ''operator_coauthor_badge'', ''operator_governed''] body;
     nm \<leftarrow> z_optional zone_name (jget ob ''name'');
     slug \<leftarrow> z_optional zone_slug (jget ob ''slug'');
     dcr \<leftarrow> z_optional z_bool (jget ob ''dcr_enabled'');
     shut \<leftarrow> z_optional (z_enum [(''keep_live'', KeepLive), (''revoke_live'', RevokeLive)]) (jget ob ''dcr_shutdown'');
     badge \<leftarrow> z_optional z_bool (jget ob ''operator_coauthor_badge'');
     gov \<leftarrow> z_optional z_bool (jget ob ''operator_governed'');
     Some \<lparr>zp_name = nm, zp_slug = slug, zp_dcr = dcr, zp_shutdown = shut, zp_badge = badge, zp_governed = gov\<rparr> }"

definition zone_json :: "zone_row \<Rightarrow> json" where
  "zone_json r = JObj [(''id'', JStr (zn_id r)), (''name'', JStr (zn_name r)), (''slug'', JStr (zn_slug r)), (''dcr_enabled'', JBool (zn_dcr r)),
     (''operator_coauthor_badge'', JBool (zn_badge r)), (''operator_governed'', JBool (zn_governed r)),
     (''created_by'', jopt JStr (zn_created_by r)), (''created_via_operator'', JBool (zn_created_via r)),
     (''updated_by'', jopt JStr (zn_updated_by r)), (''updated_via_operator'', JBool (zn_updated_via r)),
     (''created_at'', jtime (zn_created r)), (''updated_at'', jtime (zn_updated r))]"

section \<open>Creating a zone\<close>

text \<open>Runs of other characters become one dash; dashes at the ends are dropped.\<close>

fun dashed :: "bool \<Rightarrow> string \<Rightarrow> string" where
  "dashed run [] = []"
| "dashed run (c # cs) = (if slug_char c then c # dashed False cs else if run then dashed True cs else CHR ''-'' # dashed True cs)"

definition slugify :: "string \<Rightarrow> string" where
  "slugify nm = (let t = rev (dropWhile (\<lambda>c. c = CHR ''-'') (rev (dropWhile (\<lambda>c. c = CHR ''-'') (dashed False (to_lower nm))))) in
     if t = [] then ''zone'' else t)"

definition zoneSlugExists :: "zone_row list \<Rightarrow> string \<Rightarrow> bool" where
  "zoneSlugExists rows slug = list_ex (\<lambda>r. zn_slug r = slug) rows"

definition nextZoneSlug :: "zone_row list \<Rightarrow> string \<Rightarrow> string \<Rightarrow> string" where
  "nextZoneSlug rows nm fresh =
    (let base = slugify nm in
     case find (\<lambda>s. \<not> zoneSlugExists rows s) (map (\<lambda>k. if k = 1 then base else base @ ''-'' @ show_nat k) [1..<1000]) of
       Some s \<Rightarrow> s
     | None \<Rightarrow> base @ ''-'' @ filter (\<lambda>c. c \<noteq> CHR ''-'') fresh)"

text \<open>
  One attempt: the identifier, the slug, and the insert, which fails on either key. \<open>rivals\<close> are the zones
  other requests create between the probe and the insert. The identifier of the last-resort slug is drawn only when it is used;
  drawing it always only skips an identifier.
\<close>

definition zone_attempt :: "env \<Rightarrow> zone_row list \<Rightarrow> string \<times> string option \<times> bool option \<Rightarrow> string option \<Rightarrow> attribution \<Rightarrow> world \<Rightarrow>
    ((bool + zone_row) \<times> world) option" where
  "zone_attempt e rivals input owner ab w = (case input of (nm, slug, dcr) \<Rightarrow>
     case mintZoneId (uuidv7 e) (uuids (store w)) of None \<Rightarrow> None
     | Some (i, n) \<Rightarrow>
        let s = (case slug of Some t \<Rightarrow> t | None \<Rightarrow> nextZoneSlug (zone_rows w) nm (uuidv7 e n));
            rows = zone_rows w @ rivals;
            row = \<lparr>zn_id = i, zn_name = nm, zn_slug = s, zn_dcr = (dcr = Some True), zn_owner = owner, zn_badge = True, zn_governed = False,
                   zn_archived = None, zn_created_by = Some (at_actor ab), zn_created_via = at_via ab, zn_updated_by = None,
                   zn_updated_via = False, zn_created = now e, zn_updated = now e\<rparr>;
            w1 = w\<lparr>store := (store w)\<lparr>uuids := Suc n\<rparr>, zone_rows := rows\<rparr>
        in if list_ex (\<lambda>r. zn_id r = i) rows then Some (Inl False, w1)
           else if zoneSlugExists rows s then Some (Inl True, w1)
           else Some (Inr row, w1\<lparr>zone_rows := rows @ [row]\<rparr>))"

text \<open>A derived slug that lost the race is derived once more; \<open>Inl True\<close> is the slug conflict.\<close>

definition createZoneRecord :: "env \<Rightarrow> (nat \<Rightarrow> zone_row list) \<Rightarrow> string \<times> string option \<times> bool option \<Rightarrow> string option \<Rightarrow> attribution \<Rightarrow> world \<Rightarrow>
    ((bool + zone_row) \<times> world) option" where
  "createZoneRecord e rivals input owner ab w =
    (case zone_attempt e (rivals 0) input owner ab w of
       Some (Inl True, w1) \<Rightarrow> if fst (snd input) = None then zone_attempt e (rivals 1) input owner ab w1 else Some (Inl True, w1)
     | r \<Rightarrow> r)"

definition create_zone :: "(string \<Rightarrow> bool) \<Rightarrow> env \<Rightarrow> (nat \<Rightarrow> zone_row list) \<Rightarrow> api_request \<Rightarrow> world \<Rightarrow> (reply \<times> world) option" where
  "create_zone pattern e rivals rq w =
    (case expect (ZoneCreateBody (ap_body rq)) (err 400 ''invalid_zone'') (\<lambda>b.
          ebind (assertReservedNamespace ZoneName (Some (fst b)) (ap_actor rq)) (\<lambda>_.
          ebind (assertReservedNamespace ZoneSlug (fst (snd b)) (ap_actor rq)) (\<lambda>_.
          ebind (resolveAttribution pattern rq w None) (\<lambda>ab. Inr (b, ab))))) of
       Inl r \<Rightarrow> Some (r, w)
     | Inr (b, ab) \<Rightarrow>
        (case createZoneRecord e rivals b (ap_account rq) ab w of
           None \<Rightarrow> None
         | Some (Inl conflict, w1) \<Rightarrow> Some (if conflict then err 409 ''zone_slug_conflict'' else internal_error, w1)
         | Some (Inr row, w1) \<Rightarrow> Some (send 201 (zone_json row), w1)))"

section \<open>Reading, patching and archiving a zone\<close>

definition find_zone :: "world \<Rightarrow> string \<Rightarrow> zone_row option" where
  "find_zone w i = find (\<lambda>r. zn_id r = i \<and> zn_archived r = None) (zone_rows w)"

definition get_zone :: "string \<Rightarrow> world \<Rightarrow> reply" where
  "get_zone i w = (case ebind (parseParams [i]) (\<lambda>_. expect (find_zone w i) (err 404 ''zone_not_found'') Inr) of
     Inl r \<Rightarrow> r | Inr row \<Rightarrow> send 200 (zone_json row))"

definition live_dcr :: "env \<Rightarrow> zone \<Rightarrow> application \<Rightarrow> bool" where
  "live_dcr e z a = (a_zone a = z \<and> a_method a = Dcr \<and> a_archived a = None \<and> (case a_expires a of None \<Rightarrow> False | Some t \<Rightarrow> now e < t))"

text \<open>In table order: the order matters to no caller.\<close>

definition liveDcrApplications :: "env \<Rightarrow> zone \<Rightarrow> db \<Rightarrow> string list" where
  "liveDcrApplications e z d = map a_id (filter (live_dcr e z) (applications d))"

definition dcr_status :: "env \<Rightarrow> string \<Rightarrow> world \<Rightarrow> reply" where
  "dcr_status e i w = (case ebind (parseParams [i]) (\<lambda>_. expect (find_zone w i) (err 404 ''zone_not_found'') Inr) of
     Inl r \<Rightarrow> r
   | Inr row \<Rightarrow> send 200 (JObj [(''id'', JStr i), (''dcr_enabled'', JBool (zn_dcr row)),
       (''live_dcr_applications'', JInt (int (length (liveDcrApplications e i (store w)))))]))"

definition given :: "'a option \<Rightarrow> 'a \<Rightarrow> 'a" where
  "given v old = (case v of None \<Rightarrow> old | Some x \<Rightarrow> x)"

definition patched :: "env \<Rightarrow> zone_patch \<Rightarrow> attribution \<Rightarrow> zone_row \<Rightarrow> zone_row" where
  "patched e p ab r =
    r\<lparr>zn_name := given (zp_name p) (zn_name r), zn_slug := given (zp_slug p) (zn_slug r), zn_dcr := given (zp_dcr p) (zn_dcr r),
       zn_badge := given (zp_badge p) (zn_badge r), zn_governed := given (zp_governed p) (zn_governed r),
       zn_updated_by := Some (at_actor ab), zn_updated_via := at_via ab, zn_updated := now e\<rparr>"

text \<open>The update of one row; it fails when another zone has the slug.\<close>

definition update_zone :: "(zone_row \<Rightarrow> zone_row) \<Rightarrow> string \<Rightarrow> world \<Rightarrow> reply + (zone_row option \<times> world)" where
  "update_zone f i w =
    (let rows = map (\<lambda>r. if zn_id r = i \<and> zn_archived r = None then f r else r) (zone_rows w) in
     reject (\<not> distinct (map zn_slug rows)) internal_error (Inr (map_option f (find_zone w i), w\<lparr>zone_rows := rows\<rparr>)))"

definition no_fields :: "zone_patch \<Rightarrow> bool" where
  "no_fields p = (zp_name p = None \<and> zp_slug p = None \<and> zp_dcr p = None \<and> zp_badge p = None \<and> zp_governed p = None)"

definition patchZone :: "env \<Rightarrow> string \<Rightarrow> zone_patch \<Rightarrow> attribution \<Rightarrow> world \<Rightarrow> reply + (reply \<times> world)" where
  "patchZone e i p ab w =
     reject (no_fields p) (err 400 ''no_fields'')
    (ebind (update_zone (patched e p ab) i w) (\<lambda>(row, w1).
     expect row (err 404 ''zone_not_found'') (\<lambda>row. Inr (send 200 (zone_json row), w1))))"

section \<open>Shutting down dynamic registration\<close>

definition archive_apps :: "env \<Rightarrow> zone \<Rightarrow> string list \<Rightarrow> db \<Rightarrow> nat \<times> db" where
  "archive_apps e z ids d =
    (let hit = (\<lambda>a. a_zone a = z \<and> a_id a \<in> set ids \<and> a_archived a = None) in
     (length (filter hit (applications d)), d\<lparr>applications := map (\<lambda>a. if hit a then a\<lparr>a_archived := Some (now e)\<rparr> else a) (applications d)\<rparr>))"

definition app_records :: "db \<Rightarrow> zone \<Rightarrow> string list \<Rightarrow> string list" where
  "app_records d z ids = map r_id (filter (\<lambda>a. r_zone a = z \<and> r_type a = ''application'' \<and> r_status a = AActive \<and>
     (\<exists>i\<in>set ids. r_subject a = Some i)) (authorities d))"

definition revoke_tree :: "env \<Rightarrow> zone \<Rightarrow> string list \<Rightarrow> db \<Rightarrow> string list \<times> db" where
  "revoke_tree e z ids d =
    (let roots = app_records d z ids; tree = grow (active_records d z) (map r_id (authorities d)) roots roots;
         hit = (\<lambda>a. r_zone a = z \<and> r_id a \<in> set tree)
     in (map r_id (filter hit (authorities d)),
         d\<lparr>authorities := map (\<lambda>a. if hit a then revoked_record e ''dcr_shutdown'' a else a) (authorities d)\<rparr>))"

definition app_sessions :: "db \<Rightarrow> zone \<Rightarrow> string list \<Rightarrow> string list" where
  "app_sessions d z ids = map s_id (filter (\<lambda>s. s_zone s = z \<and> s_app s \<in> set ids \<and> live_status (s_status s)) (sessions d))"

type_synonym dcr_counts = "nat \<times> nat \<times> nat \<times> nat"

definition revokeDcrIdentities :: "env \<Rightarrow> zone \<Rightarrow> string list \<Rightarrow> string \<Rightarrow> world \<Rightarrow> reply + (dcr_counts \<times> world)" where
  "revokeDcrIdentities e z ids rid w =
    (if ids = [] then Inr ((0, 0, 0, 0), w)
     else let (n, d1) = archive_apps e z ids (store w);
              (rs, d2) = revoke_tree e z ids d1;
              (ss, gs, d3) = end_closure e z (app_sessions d2 z ids) d2
          in ebind (enqueue_events e (cascade_events z ''dcr_shutdown'' rid rs ss gs) (w\<lparr>store := d3\<rparr>)) (\<lambda>w1.
             Inr ((n, length rs, length ss, length gs), w1)))"

definition shutdown_mode :: "bool \<Rightarrow> dcr_shutdown option \<Rightarrow> string" where
  "shutdown_mode none shut = (if none then ''no_live'' else if shut = Some RevokeLive then ''revoke_live'' else ''keep_live'')"

definition auditDcrShutdown :: "env \<Rightarrow> api_request \<Rightarrow> zone \<Rightarrow> string \<Rightarrow> nat \<Rightarrow> dcr_counts \<Rightarrow> world \<Rightarrow> reply + world" where
  "auditDcrShutdown e rq z mode lv counts w = (case counts of (n, m, k, l) \<Rightarrow> audit_event e
    \<lparr>aa_request = ap_id rq, aa_actor = map_option am_id (ap_actor rq), aa_name = map_option am_name (ap_actor rq),
     aa_scope = map_option am_scope (ap_actor rq), aa_action = ''DCR shutdown '' @ mode, aa_method = ''PATCH'',
     aa_path = ''/v1/zones/'' @ z, aa_zone = Some z, aa_type = Some ''zones'', aa_entity = Some z, aa_status = 200,
     aa_payload = Some [(''dcr_registration_disabled'', JBool True), (''dcr_shutdown_mode'', JStr mode), (''live_dcr_applications'', JInt (int lv)),
       (''revoked_applications'', JInt (int n)), (''revoked_authority_records'', JInt (int m)), (''terminated_sessions'', JInt (int k)),
       (''revoked_delegations'', JInt (int l))]\<rparr> w)"

definition dcr_shutdown_tx :: "env \<Rightarrow> api_request \<Rightarrow> string \<Rightarrow> zone_patch \<Rightarrow> attribution \<Rightarrow> world \<Rightarrow> reply + (reply \<times> world)" where
  "dcr_shutdown_tx e rq i p ab w =
    expect (find_zone w i) (err 404 ''zone_not_found'') (\<lambda>old.
     let apps = (if zn_dcr old \<or> zp_shutdown p \<noteq> None then liveDcrApplications e i (store w) else []) in
     reject (apps \<noteq> [] \<and> zp_shutdown p = None) (err 409 ''dcr_shutdown_required'')
    (ebind (update_zone (patched e (p\<lparr>zp_badge := None, zp_governed := None\<rparr>) ab) i w) (\<lambda>(row, w1).
     ebind (if zp_shutdown p = Some RevokeLive then revokeDcrIdentities e i apps (ap_id rq) w1 else Inr ((0, 0, 0, 0), w1)) (\<lambda>(counts, w2).
     ebind (if zn_dcr old \<or> zp_shutdown p \<noteq> None then auditDcrShutdown e rq i (shutdown_mode (apps = []) (zp_shutdown p)) (length apps) counts w2
            else Inr w2) (\<lambda>w3.
     expect row internal_error (\<lambda>row. Inr (send 200 (zone_json row), w3)))))))"

definition patch_zone :: "(string \<Rightarrow> bool) \<Rightarrow> env \<Rightarrow> api_request \<Rightarrow> string \<Rightarrow> world \<Rightarrow> reply \<times> world" where
  "patch_zone pattern e rq i w =
    (case ebind (parseParams [i]) (\<lambda>_. expect (ZoneUpdateBody (ap_body rq)) (err 400 ''invalid_zone'') (\<lambda>p.
          ebind (assertReservedNamespace ZoneName (zp_name p) (ap_actor rq)) (\<lambda>_.
          ebind (assertReservedNamespace ZoneSlug (zp_slug p) (ap_actor rq)) (\<lambda>_.
          reject (zp_shutdown p \<noteq> None \<and> zp_dcr p \<noteq> Some False) (err 400 ''dcr_shutdown_not_applicable'')
         (ebind (resolveAttribution pattern rq w (Some i)) (\<lambda>ab. Inr (p, ab))))))) of
       Inl r \<Rightarrow> (r, w)
     | Inr (p, ab) \<Rightarrow> withTransaction (if zp_dcr p = Some False then dcr_shutdown_tx e rq i p ab else patchZone e i p ab) w)"

definition archived_zone :: "env \<Rightarrow> attribution \<Rightarrow> zone_row \<Rightarrow> zone_row" where
  "archived_zone e ab r = r\<lparr>zn_archived := Some (now e), zn_updated := now e, zn_updated_by := Some (at_actor ab), zn_updated_via := at_via ab\<rparr>"

definition delete_zone :: "(string \<Rightarrow> bool) \<Rightarrow> env \<Rightarrow> api_request \<Rightarrow> string \<Rightarrow> world \<Rightarrow> reply \<times> world" where
  "delete_zone pattern e rq i w =
    (case ebind (parseParams [i]) (\<lambda>_. ebind (resolveAttribution pattern rq w (Some i)) (\<lambda>ab.
          ebind (update_zone (archived_zone e ab) i w) (\<lambda>(row, w1). expect row (err 404 ''zone_not_found'') (\<lambda>_. Inr (send 204 JNull, w1))))) of
       Inl r \<Rightarrow> (r, w) | Inr rw \<Rightarrow> rw)"

section \<open>Minting\<close>

text \<open>The loop ends as soon as the generator yields an identifier that is not reserved.\<close>

lemma mint_returns:
  assumes "generate m \<noteq> OSS_ORG_ID" "n \<le> m"
  shows "\<exists>i k. mintZoneId generate n = Some (i, k) \<and> i \<noteq> OSS_ORG_ID \<and> k \<le> Suc m"
  using assms(2)
proof (induction n rule: inc_induct)
  case base
  then show ?case using assms(1) by (simp add: mintZoneId.simps [of generate m])
next
  case (step n)
  then show ?case by (cases "generate n = OSS_ORG_ID") (auto simp: mintZoneId.simps [of generate n])
qed

section \<open>What a shutdown leaves\<close>

text \<open>Active records below another record of the zone.\<close>

definition record_below :: "db \<Rightarrow> zone \<Rightarrow> string \<Rightarrow> string \<Rightarrow> bool" where
  "record_below d z p i \<longleftrightarrow> (\<exists>a\<in>set (authorities d). r_id a = i \<and> r_zone a = z \<and> r_status a = AActive \<and> r_parent a = Some p)"

definition record_tree :: "db \<Rightarrow> zone \<Rightarrow> string list \<Rightarrow> string \<Rightarrow> bool" where
  "record_tree d z ids i \<longleftrightarrow> (\<exists>r\<in>set (app_records d z ids). (record_below d z)\<^sup>*\<^sup>* r i)"

lemma revoke_tree_facts:
  assumes "revoke_tree e z ids d = (rs, d')"
  shows "\<exists>as. d' = d\<lparr>authorities := as\<rparr>"
    and "a \<in> set (authorities d') \<Longrightarrow> r_zone a = z \<Longrightarrow> record_tree d z ids (r_id a) \<Longrightarrow> r_status a = ARevoked"
    and "a \<in> set (authorities d) \<Longrightarrow> r_zone a = z \<Longrightarrow> record_tree d z ids (r_id a) \<Longrightarrow> r_id a \<in> set rs"
proof -
  define tree where "tree = grow (active_records d z) (map r_id (authorities d)) (app_records d z ids) (app_records d z ids)"
  define f where "f a = (if r_zone a = z \<and> r_id a \<in> set tree then revoked_record e ''dcr_shutdown'' a else a)" for a
  have r: "rs = map r_id (filter (\<lambda>a. r_zone a = z \<and> r_id a \<in> set tree) (authorities d))" "d' = d\<lparr>authorities := map f (authorities d)\<rparr>"
    using assms unfolding revoke_tree_def Let_def tree_def f_def by simp_all
  have mem: "i \<in> set tree \<longleftrightarrow> record_tree d z ids i" for i
    unfolding tree_def record_tree_def by (rule grow_iff) (auto simp: active_records_def record_below_def)
  show "\<exists>as. d' = d\<lparr>authorities := as\<rparr>" using r(2) by blast
  show "a \<in> set (authorities d) \<Longrightarrow> r_zone a = z \<Longrightarrow> record_tree d z ids (r_id a) \<Longrightarrow> r_id a \<in> set rs" by (auto simp: r(1) mem)
  assume "a \<in> set (authorities d')" "r_zone a = z" "record_tree d z ids (r_id a)"
  then obtain b where "a = f b" "r_zone a = z" "r_id a \<in> set tree" using mem by (auto simp: r(2))
  then show "r_status a = ARevoked" by (auto simp: f_def revoked_record_def split: if_splits)
qed

lemma app_roots: "r \<in> set (app_sessions d z ids) \<Longrightarrow> in_subtree d z live_status (app_sessions d z ids) r"
  by (auto simp: app_sessions_def intro!: in_subtree.root)

lemma archive_apps_facts:
  assumes "archive_apps e z ids d = (n, d')"
  shows "\<exists>as. d' = d\<lparr>applications := as\<rparr>" "a \<in> set (applications d') \<Longrightarrow> a_zone a = z \<Longrightarrow> a_id a \<in> set ids \<Longrightarrow> a_archived a \<noteq> None"
proof -
  define f where "f a = (if a_zone a = z \<and> a_id a \<in> set ids \<and> a_archived a = None then a\<lparr>a_archived := Some (now e)\<rparr> else a)" for a :: application
  have d': "d' = d\<lparr>applications := map f (applications d)\<rparr>" using assms unfolding archive_apps_def Let_def f_def by simp
  then show "\<exists>as. d' = d\<lparr>applications := as\<rparr>" by blast
  assume "a \<in> set (applications d')" "a_zone a = z" "a_id a \<in> set ids"
  then obtain b where "a = f b" "a_zone a = z" "a_id a \<in> set ids" by (auto simp: d')
  then show "a_archived a \<noteq> None" by (auto simp: f_def split: if_splits)
qed

lemma end_closure_apps: "end_closure e z roots d = (ss, gs, d') \<Longrightarrow> applications d' = applications d"
  unfolding end_closure_def end_sessions_def end_edges_def Let_def by (simp split: prod.splits if_splits) (elim conjE, hypsubst, simp)+

lemma no_roots: "\<not> in_subtree d z ok [] x"
proof
  assume "in_subtree d z ok [] x"
  then show False by induction auto
qed

lemma no_roots_closure: "closed_below d z [] d'" "\<not> closure_anchor d z [] x"
  by (simp_all add: closed_below_def closure_anchor_def no_roots)

lemma revokeDcr_facts:
  assumes ok: "store_ok (store w)" and r: "revokeDcrIdentities e z ids rid w = Inr (counts, w')"
  shows "calm (store w) (store w')" "zone_rows w' = zone_rows w" "admin_audit_events w' = admin_audit_events w"
    "delegated_grants w' = delegated_grants w"
    and "a \<in> set (applications (store w')) \<Longrightarrow> a_zone a = z \<Longrightarrow> a_id a \<in> set ids \<Longrightarrow> a_archived a \<noteq> None"
    and "q \<in> set (authorities (store w')) \<Longrightarrow> r_zone q = z \<Longrightarrow> record_tree (store w) z ids (r_id q) \<Longrightarrow> r_status q = ARevoked"
    and "closed_below (store w) z (app_sessions (store w) z ids) (store w')"
    and "q \<in> set (authorities (store w)) \<Longrightarrow> r_zone q = z \<Longrightarrow> record_tree (store w) z ids (r_id q) \<Longrightarrow> announced (event_outbox w') (r_id q)"
    and "closure_anchor (store w) z (app_sessions (store w) z ids) x \<Longrightarrow> announced (event_outbox w') x"
proof -
  let ?d = "store w"
  have "calm ?d (store w') \<and> zone_rows w' = zone_rows w \<and> admin_audit_events w' = admin_audit_events w \<and> delegated_grants w' = delegated_grants w \<and>
      (\<forall>a\<in>set (applications (store w')). a_zone a = z \<and> a_id a \<in> set ids \<longrightarrow> a_archived a \<noteq> None) \<and>
      (\<forall>q\<in>set (authorities (store w')). r_zone q = z \<and> record_tree ?d z ids (r_id q) \<longrightarrow> r_status q = ARevoked) \<and>
      closed_below ?d z (app_sessions ?d z ids) (store w') \<and>
      (\<forall>q\<in>set (authorities ?d). r_zone q = z \<and> record_tree ?d z ids (r_id q) \<longrightarrow> announced (event_outbox w') (r_id q)) \<and>
      (\<forall>x. closure_anchor ?d z (app_sessions ?d z ids) x \<longrightarrow> announced (event_outbox w') x)"
  proof (cases "ids = []")
    case True
    then have "w' = w" "app_sessions ?d z ids = []" "\<not> record_tree ?d z ids i" for i
      using r by (simp_all add: revokeDcrIdentities_def app_sessions_def record_tree_def app_records_def)
    then show ?thesis using True ok no_roots_closure by simp
  next
    case False
    obtain n d1 where A: "archive_apps e z ids ?d = (n, d1)" by (cases "archive_apps e z ids ?d")
    obtain rs d2 where R: "revoke_tree e z ids d1 = (rs, d2)" by (cases "revoke_tree e z ids d1")
    obtain ss gs d3 where C: "end_closure e z (app_sessions d2 z ids) d2 = (ss, gs, d3)" by (cases "end_closure e z (app_sessions d2 z ids) d2") auto
    have Q: "enqueue_events e (cascade_events z ''dcr_shutdown'' rid rs ss gs) (w\<lparr>store := d3\<rparr>) = Inr w'"
      using r False by (auto simp: revokeDcrIdentities_def A R C ebind_Inr)
    obtain as where d1: "d1 = ?d\<lparr>applications := as\<rparr>" using archive_apps_facts(1) [OF A] by blast
    obtain bs where d2: "d2 = ?d\<lparr>applications := as, authorities := bs\<rparr>" using revoke_tree_facts(1) [OF R] d1 by auto
    from enqueue_events_Inr(1) [OF Q] obtain m evs where w': "w' = w\<lparr>event_outbox := event_outbox w @ evs, store := d3\<lparr>uuids := m\<rparr>\<rparr>" by auto
    have c2: "calm ?d d2" unfolding d2
      by (rule calm_frame [OF ok]) (use store_okD(5,6) [OF ok] in \<open>simp_all add: outbox_keys_def epoch_of_def\<close>)
    have apps: "app_sessions d2 z ids = app_sessions ?d z ids" by (simp add: d2 app_sessions_def)
    have "record_below d1 z = record_below ?d z" by (simp add: d1 record_below_def fun_eq_iff)
    moreover have "app_records d1 z ids = app_records ?d z ids" by (simp add: d1 app_records_def)
    ultimately have tree: "record_tree d1 z ids = record_tree ?d z ids" by (simp add: record_tree_def [abs_def])
    have cong: "closed_below d2 z = closed_below ?d z" "closure_anchor d2 z = closure_anchor ?d z"
      by (rule ext, rule closure_cong; simp add: d2)+
    note E = end_closure_facts [OF calm_ok [OF c2] C app_roots] and X = end_closure_closes [OF calm_ok [OF c2] C app_roots, unfolded cong apps]
    have d3: "authorities d3 = authorities d2" "applications d3 = applications d2" using E(2) end_closure_apps [OF C] by simp_all
    have "calm ?d (store w')" unfolding w' using calm_uuids [OF calm_trans [OF c2 E(1)]] by simp
    moreover have "\<forall>a\<in>set (applications (store w')). a_zone a = z \<and> a_id a \<in> set ids \<longrightarrow> a_archived a \<noteq> None"
      using archive_apps_facts(2) [OF A] by (simp add: w' d3 d2 d1)
    moreover have "\<forall>q\<in>set (authorities (store w')). r_zone q = z \<and> record_tree ?d z ids (r_id q) \<longrightarrow> r_status q = ARevoked"
      using revoke_tree_facts(2) [OF R] by (simp add: w' d3 tree)
    moreover have "closed_below ?d z (app_sessions ?d z ids) (store w')" using X(1) by (simp add: w' closed_below_def)
    moreover have "\<forall>q\<in>set (authorities ?d). r_zone q = z \<and> record_tree ?d z ids (r_id q) \<longrightarrow> announced (event_outbox w') (r_id q)"
    proof -
      have "authorities d1 = authorities ?d" by (simp add: d1)
      then show ?thesis using revoke_tree_facts(3) [OF R, unfolded tree] cascade_announced [OF Q] by simp
    qed
    moreover have "\<forall>x. closure_anchor ?d z (app_sessions ?d z ids) x \<longrightarrow> announced (event_outbox w') x"
      using X(2) cascade_announced [OF Q] by blast
    ultimately show ?thesis by (simp add: w')
  qed
  then show "calm ?d (store w')" "zone_rows w' = zone_rows w" "admin_audit_events w' = admin_audit_events w" "delegated_grants w' = delegated_grants w"
    "a \<in> set (applications (store w')) \<Longrightarrow> a_zone a = z \<Longrightarrow> a_id a \<in> set ids \<Longrightarrow> a_archived a \<noteq> None"
    "q \<in> set (authorities (store w')) \<Longrightarrow> r_zone q = z \<Longrightarrow> record_tree ?d z ids (r_id q) \<Longrightarrow> r_status q = ARevoked"
    "closed_below ?d z (app_sessions ?d z ids) (store w')"
    "q \<in> set (authorities ?d) \<Longrightarrow> r_zone q = z \<Longrightarrow> record_tree ?d z ids (r_id q) \<Longrightarrow> announced (event_outbox w') (r_id q)"
    "closure_anchor ?d z (app_sessions ?d z ids) x \<Longrightarrow> announced (event_outbox w') x" by blast+
qed

section \<open>The routes on a well-formed store\<close>

lemma update_zone_Inr:
  assumes "update_zone f i w = Inr (row, w')"
  shows "w' = w\<lparr>zone_rows := map (\<lambda>r. if zn_id r = i \<and> zn_archived r = None then f r else r) (zone_rows w)\<rparr>"
    "row = map_option f (find_zone w i)" "distinct (map zn_slug (zone_rows w'))"
  using assms by (auto simp: update_zone_def Let_def reject_Inr)

lemma dcr_shutdown_Inr:
  assumes "dcr_shutdown_tx e rq i p ab w = Inr (r, w')"
  obtains old row w1 counts w2 where "find_zone w i = Some old"
    "zn_dcr old \<Longrightarrow> zp_shutdown p = None \<Longrightarrow> liveDcrApplications e i (store w) = []"
    "update_zone (patched e (p\<lparr>zp_badge := None, zp_governed := None\<rparr>) ab) i w = Inr (row, w1)"
    "zp_shutdown p = Some RevokeLive \<Longrightarrow> revokeDcrIdentities e i (liveDcrApplications e i (store w)) (ap_id rq) w1 = Inr (counts, w2)"
    "zp_shutdown p \<noteq> Some RevokeLive \<Longrightarrow> w2 = w1"
    "w' = w2 \<or> (\<exists>rec. audit_event e rec w2 = Inr w')"
proof -
  from assms obtain old where old: "find_zone w i = Some old" by (auto simp: dcr_shutdown_tx_def expect_Inr)
  let ?apps = "if zn_dcr old \<or> zp_shutdown p \<noteq> None then liveDcrApplications e i (store w) else []"
  from assms old obtain row w1 where u: "update_zone (patched e (p\<lparr>zp_badge := None, zp_governed := None\<rparr>) ab) i w = Inr (row, w1)"
    by (auto simp: dcr_shutdown_tx_def expect_def Let_def reject_Inr ebind_Inr)
  from assms old u obtain counts w2 where v: "(if zp_shutdown p = Some RevokeLive then revokeDcrIdentities e i ?apps (ap_id rq) w1 else Inr ((0, 0, 0, 0), w1)) = Inr (counts, w2)"
    and nl: "\<not> (?apps \<noteq> [] \<and> zp_shutdown p = None)"
    and x: "ebind (if zn_dcr old \<or> zp_shutdown p \<noteq> None then auditDcrShutdown e rq i (shutdown_mode (?apps = []) (zp_shutdown p)) (length ?apps) counts w2
            else Inr w2) (\<lambda>w3. expect row internal_error (\<lambda>row. Inr (send 200 (zone_json row), w3))) = Inr (r, w')"
    unfolding dcr_shutdown_tx_def Let_def by (simp add: expect_def [of "Some old"] reject_Inr ebind_Inr [of "Inr _"]) (auto simp: ebind_Inr)
  have "w' = w2 \<or> (\<exists>rec. audit_event e rec w2 = Inr w')"
    using x by (auto simp: ebind_Inr expect_Inr auditDcrShutdown_def split: if_splits prod.splits)
  then show thesis using that [OF old _ u, of counts w2] v nl by (auto split: if_splits)
qed

lemma dcr_shutdown_store:
  assumes ok: "store_ok (store w)" and tx: "dcr_shutdown_tx e rq i p ab w = Inr (r, w')"
  shows "calm (store w) (store w')" "zp_dcr p = Some False \<Longrightarrow> row \<in> set (zone_rows w') \<Longrightarrow> zn_id row = i \<Longrightarrow> zn_archived row = None \<Longrightarrow> \<not> zn_dcr row"
proof -
  from tx obtain old row0 w1 counts w2 where "find_zone w i = Some old"
      "zn_dcr old \<Longrightarrow> zp_shutdown p = None \<Longrightarrow> liveDcrApplications e i (store w) = []"
    and u: "update_zone (patched e (p\<lparr>zp_badge := None, zp_governed := None\<rparr>) ab) i w = Inr (row0, w1)"
    and v: "zp_shutdown p = Some RevokeLive \<Longrightarrow> revokeDcrIdentities e i (liveDcrApplications e i (store w)) (ap_id rq) w1 = Inr (counts, w2)"
      "zp_shutdown p \<noteq> Some RevokeLive \<Longrightarrow> w2 = w1"
    and x: "w' = w2 \<or> (\<exists>rec. audit_event e rec w2 = Inr w')" by (rule dcr_shutdown_Inr) (rule that)
  have s1: "store w1 = store w" using update_zone_Inr(1) [OF u] by simp
  have c2: "calm (store w1) (store w2)" "zone_rows w2 = zone_rows w1"
  proof -
    have ok1: "store_ok (store w1)" using ok s1 by simp
    have "calm (store w1) (store w2) \<and> zone_rows w2 = zone_rows w1"
    proof (cases "zp_shutdown p = Some RevokeLive")
      case True
      then show ?thesis using revokeDcr_facts(1,2) [OF ok1 v(1) [OF True]] by simp
    qed (use v(2) ok1 in simp)
    then show "calm (store w1) (store w2)" "zone_rows w2 = zone_rows w1" by simp_all
  qed
  have c3: "calm (store w2) (store w')" "zone_rows w' = zone_rows w2"
    using x calm_uuids [OF calm_refl [OF calm_ok [OF c2(1)]]] calm_ok [OF c2(1)] by (auto dest!: audit_event_Inr)
  show "calm (store w) (store w')" using calm_trans [OF c2(1) c3(1)] s1 by simp
  let ?f = "patched e (p\<lparr>zp_badge := None, zp_governed := None\<rparr>) ab"
  assume dcr: "zp_dcr p = Some False" and "row \<in> set (zone_rows w')" and row: "zn_id row = i" "zn_archived row = None"
  then have "row \<in> (\<lambda>r. if zn_id r = i \<and> zn_archived r = None then ?f r else r) ` set (zone_rows w)"
    using c2(2) c3(2) update_zone_Inr(1) [OF u] by simp
  then obtain b where b: "row = (if zn_id b = i \<and> zn_archived b = None then ?f b else b)" ..
  then have "zn_id b = i \<and> zn_archived b = None" using row by (cases "zn_id b = i \<and> zn_archived b = None") simp_all
  then have "row = ?f b" using b by simp
  then show "\<not> zn_dcr row" using dcr by (simp add: patched_def given_def)
qed

lemma errs_update_zone [intro!]: "errs (update_zone f i w)"
  unfolding update_zone_def Let_def by auto

lemma errs_revokeDcr [intro!]: "errs (revokeDcrIdentities e z ids rid w)"
  unfolding revokeDcrIdentities_def Let_def by (auto split: prod.splits)

lemma errs_dcr_tx: "errs (dcr_shutdown_tx e rq i p ab w)"
  unfolding dcr_shutdown_tx_def Let_def auditDcrShutdown_def by (auto split: prod.splits)

lemma errs_patchZone: "errs (patchZone e i p ab w)"
  unfolding patchZone_def by (auto split: prod.splits)

lemma errs_reserved [intro!]: "errs (assertReservedNamespace t v a)"
  unfolding assertReservedNamespace_def by (auto split: option.splits)

lemma errs_attribution [intro!]: "errs (resolveAttribution pattern rq w z)"
  unfolding resolveAttribution_def resolveCreatedBy_def by (auto split: option.splits)

lemma patch_zone_success:
  assumes "patch_zone pattern e rq i w = (r, w')" "is_success r" "ZoneUpdateBody (ap_body rq) = Some p"
  shows "\<exists>ab. (if zp_dcr p = Some False then dcr_shutdown_tx e rq i p ab w else patchZone e i p ab w) = Inr (r, w')"
proof -
  define m where "m = ebind (parseParams [i]) (\<lambda>_. expect (ZoneUpdateBody (ap_body rq)) (err 400 ''invalid_zone'') (\<lambda>p.
          ebind (assertReservedNamespace ZoneName (zp_name p) (ap_actor rq)) (\<lambda>_.
          ebind (assertReservedNamespace ZoneSlug (zp_slug p) (ap_actor rq)) (\<lambda>_.
          reject (zp_shutdown p \<noteq> None \<and> zp_dcr p \<noteq> Some False) (err 400 ''dcr_shutdown_not_applicable'')
         (ebind (resolveAttribution pattern rq w (Some i)) (\<lambda>ab. Inr (p, ab)))))))"
  have eq: "patch_zone pattern e rq i w = (case m of Inl r \<Rightarrow> (r, w)
     | Inr (p, ab) \<Rightarrow> withTransaction (if zp_dcr p = Some False then dcr_shutdown_tx e rq i p ab else patchZone e i p ab) w)"
    unfolding patch_zone_def m_def ..
  have er: "errs m" unfolding m_def by (intro errs_ebind errs_expect errs_reject errs_parseParams errs_reserved errs_attribution errs_Inr) simp_all
  show ?thesis
  proof (cases m)
    case (Inl q)
    then show ?thesis using assms(1,2) er eq by (simp add: is_success_def)
  next
    case (Inr pa)
    then obtain ab where "pa = (p, ab)" using assms(3) by (auto simp: m_def ebind_Inr expect_Inr reject_Inr)
    then have "withTransaction (if zp_dcr p = Some False then dcr_shutdown_tx e rq i p ab else patchZone e i p ab) w = (r, w')"
      using assms(1) Inr eq by simp
    from withTransaction_success [OF this _ assms(2)] show ?thesis using errs_dcr_tx errs_patchZone by (auto split: if_splits)
  qed
qed

text \<open>
  C13: shutting down dynamic registration with \<open>revoke_live\<close> ends every registered identity. After a successful
  patch the zone no longer admits registrations, none of its registered applications is live, every authority record of one
  of them has been revoked with the records below it, their sessions have ended with the sessions
  and delegations that hang on them, all of it is announced, and the coordinator's store is well-formed.
\<close>

theorem dcr_shutdown_ends:
  assumes "patch_zone pattern e rq z w = (r, w')" "is_success r" "ZoneUpdateBody (ap_body rq) = Some p"
    and "zp_dcr p = Some False" "zp_shutdown p = Some RevokeLive" "store_ok (store w)"
  defines "apps \<equiv> liveDcrApplications e z (store w)"
  shows "store_ok (store w') \<and> \<not> (\<exists>row\<in>set (zone_rows w'). zn_id row = z \<and> zn_archived row = None \<and> zn_dcr row) \<and>
    \<not> (\<exists>a\<in>set (applications (store w')). a_zone a = z \<and> a_id a \<in> set apps \<and> a_archived a = None) \<and>
    (\<forall>q\<in>set (authorities (store w')). r_zone q = z \<and> record_tree (store w) z apps (r_id q) \<longrightarrow> r_status q = ARevoked) \<and>
    closed_below (store w) z (app_sessions (store w) z apps) (store w') \<and>
    (\<forall>q\<in>set (authorities (store w)). r_zone q = z \<and> record_tree (store w) z apps (r_id q) \<longrightarrow> announced (event_outbox w') (r_id q)) \<and>
    (\<forall>a. closure_anchor (store w) z (app_sessions (store w) z apps) a \<longrightarrow> announced (event_outbox w') a)"
proof -
  obtain ab where tx: "dcr_shutdown_tx e rq z p ab w = Inr (r, w')" using patch_zone_success [OF assms(1-3)] assms(4) by auto
  from tx obtain old row w1 counts w2 where "find_zone w z = Some old"
      "zn_dcr old \<Longrightarrow> zp_shutdown p = None \<Longrightarrow> liveDcrApplications e z (store w) = []"
    and u: "update_zone (patched e (p\<lparr>zp_badge := None, zp_governed := None\<rparr>) ab) z w = Inr (row, w1)"
    and v: "zp_shutdown p = Some RevokeLive \<Longrightarrow> revokeDcrIdentities e z (liveDcrApplications e z (store w)) (ap_id rq) w1 = Inr (counts, w2)"
      "zp_shutdown p \<noteq> Some RevokeLive \<Longrightarrow> w2 = w1"
    and x: "w' = w2 \<or> (\<exists>rec. audit_event e rec w2 = Inr w')" by (rule dcr_shutdown_Inr) (rule that)
  have s1: "store w1 = store w" using update_zone_Inr(1) [OF u] by simp
  have R: "revokeDcrIdentities e z apps (ap_id rq) w1 = Inr (counts, w2)" using v assms(5) by (simp add: apps_def)
  obtain n where st: "store w' = (store w2)\<lparr>uuids := n\<rparr>" "event_outbox w' = event_outbox w2"
    using x
  proof (elim disjE exE)
    fix rec assume "audit_event e rec w2 = Inr w'"
    from audit_event_Inr [OF this] show thesis by (elim exE) (rule that, simp_all)
  qed (rule that [of "uuids (store w2)"], simp_all)
  note S = dcr_shutdown_store [OF assms(6) tx] and F = revokeDcr_facts [OF _ R, unfolded s1, OF assms(6)]
  have "closed_below (store w) z (app_sessions (store w) z apps) (store w')" using F(7) by (simp add: st closed_below_def)
  moreover have "\<not> (\<exists>a\<in>set (applications (store w')). a_zone a = z \<and> a_id a \<in> set apps \<and> a_archived a = None)"
    using F(5) unfolding st by auto
  moreover have "\<forall>q\<in>set (authorities (store w')). r_zone q = z \<and> record_tree (store w) z apps (r_id q) \<longrightarrow> r_status q = ARevoked"
    using F(6) unfolding st by auto
  ultimately show ?thesis using calm_ok [OF S(1)] S(2) [OF assms(4)] F(8,9) unfolding st(2) by (intro conjI) blast+
qed

text \<open>A zone with one registered application, its record and its session.\<close>

definition dcr_world :: world where
  "dcr_world = sample_world\<lparr>store := (store sample_world)\<lparr>sessions := [sample_session ''d'' None 0 0], edges := [],
       applications := [\<lparr>a_id = ''app'', a_zone = ''z1'', a_method = Dcr, a_expires = Some 9000, a_archived = None\<rparr>],
       authorities := [\<lparr>r_id = ''ar1'', r_zone = ''z1'', r_type = ''application'', r_subject = Some ''app'', r_parent = None, r_status = AActive,
         r_expires = 9000, r_created = 0, r_revoked = None, r_reason = None\<rparr>]\<rparr>,
     zone_rows := [\<lparr>zn_id = ''z1'', zn_name = ''Zone'', zn_slug = ''zone'', zn_dcr = True, zn_owner = None, zn_badge = True, zn_governed = False,
       zn_archived = None, zn_created_by = None, zn_created_via = False, zn_updated_by = None, zn_updated_via = False, zn_created = 0, zn_updated = 0\<rparr>]\<rparr>"

definition dcr_request :: api_request where
  "dcr_request = sample_request (JObj [(''dcr_enabled'', JBool False), (''dcr_shutdown'', JStr ''revoke_live'')])\<lparr>ap_account := Some ''acc''\<rparr>"

definition dcr_patch :: zone_patch where
  "dcr_patch = \<lparr>zp_name = None, zp_slug = None, zp_dcr = Some False, zp_shutdown = Some RevokeLive, zp_badge = None, zp_governed = None\<rparr>"

definition dcr_done :: "reply \<times> world" where
  "dcr_done = patch_zone (\<lambda>_. False) (sample_env 5000) dcr_request ''z1'' dcr_world"

lemma dcr_done_code: "code (fst dcr_done) = 200"
  by code_simp

lemma dcr_done_ok:
  "ZoneUpdateBody (ap_body dcr_request) = Some dcr_patch" "store_ok (store dcr_world)"
  "liveDcrApplications (sample_env 5000) ''z1'' (store dcr_world) = [''app'']"
  "app_sessions (store dcr_world) ''z1'' [''app''] = [''d'']"
  by code_simp+

theorem dcr_shutdown_ends_witness:
  "code (fst dcr_done) = 200 \<and> \<not> (\<exists>row\<in>set (zone_rows (snd dcr_done)). zn_id row = ''z1'' \<and> zn_archived row = None \<and> zn_dcr row) \<and>
    announced (event_outbox (snd dcr_done)) ''ar1'' \<and> announced (event_outbox (snd dcr_done)) ''d''"
proof -
  let ?d = "store dcr_world" and ?apps = "liveDcrApplications (sample_env 5000) ''z1'' (store dcr_world)"
  let ?roots = "app_sessions (store dcr_world) ''z1'' ?apps"
  have k: "patch_zone (\<lambda>_. False) (sample_env 5000) dcr_request ''z1'' dcr_world = (fst dcr_done, snd dcr_done)" by (simp add: dcr_done_def)
  have s: "is_success (fst dcr_done)" by (simp add: is_success_def dcr_done_code)
  have p: "zp_dcr dcr_patch = Some False" "zp_shutdown dcr_patch = Some RevokeLive" by (simp_all add: dcr_patch_def)
  have sub: "in_subtree ?d ''z1'' live_status ?roots ''d''" by (rule app_roots) (simp add: dcr_done_ok(3,4))
  have "closure_anchor ?d ''z1'' ?roots ''d''" using sub
    by (auto simp: closure_anchor_def dcr_world_def sample_session_def)
  moreover have "closure_anchor ?d ''z1'' ?roots ''ar1''" using sub
    by (auto simp: closure_anchor_def dcr_world_def sample_session_def)
  ultimately show ?thesis using dcr_shutdown_ends [OF k s dcr_done_ok(1) p dcr_done_ok(2)] dcr_done_code by blast
qed

section \<open>The table of zones\<close>

definition zones_ok :: "zone_row list \<Rightarrow> bool" where
  "zones_ok rows \<longleftrightarrow> distinct (map zn_id rows) \<and> distinct (map zn_slug rows) \<and> OSS_ORG_ID \<notin> set (map zn_id rows)"

lemma mint_unreserved:
  assumes "mintZoneId generate n = Some (i, k)"
  shows "i \<noteq> OSS_ORG_ID"
proof -
  have "mintZoneId generate n = Some y \<Longrightarrow> fst y \<noteq> OSS_ORG_ID" for y
    by (rule mintZoneId.raw_induct [of "\<lambda>g n y. fst y \<noteq> OSS_ORG_ID"]) (auto split: if_splits)
  then show ?thesis using assms by fastforce
qed

lemma zone_attempt_ok:
  assumes a: "zone_attempt e rivals input owner ab w = Some (x, w')" and ok: "zones_ok (zone_rows w @ rivals)"
  shows "zones_ok (zone_rows w')" "\<exists>n rows. w' = w\<lparr>store := (store w)\<lparr>uuids := n\<rparr>, zone_rows := rows\<rparr>"
    and "x = Inr row \<Longrightarrow> zone_rows w' = zone_rows w @ rivals @ [row] \<and> zn_name row = fst input \<and> (fst (snd input) \<noteq> None \<longrightarrow> zn_slug row = the (fst (snd input)))"
    and "x = Inl b \<Longrightarrow> zone_rows w' = zone_rows w @ rivals"
proof -
  obtain nm slug dcr where i: "input = (nm, slug, dcr)" by (cases input)
  from a obtain j n where m: "mintZoneId (uuidv7 e) (uuids (store w)) = Some (j, n)" by (auto simp: zone_attempt_def i split: option.splits)
  define s where "s = (case slug of Some t \<Rightarrow> t | None \<Rightarrow> nextZoneSlug (zone_rows w) nm (uuidv7 e n))"
  define row0 where "row0 = \<lparr>zn_id = j, zn_name = nm, zn_slug = s, zn_dcr = (dcr = Some True), zn_owner = owner, zn_badge = True, zn_governed = False,
     zn_archived = None, zn_created_by = Some (at_actor ab), zn_created_via = at_via ab, zn_updated_by = None,
     zn_updated_via = False, zn_created = now e, zn_updated = now e\<rparr>"
  let ?rows = "zone_rows w @ rivals"
  define w1 where "w1 = w\<lparr>store := (store w)\<lparr>uuids := Suc n\<rparr>, zone_rows := ?rows\<rparr>"
  have e: "zone_attempt e rivals input owner ab w = (if list_ex (\<lambda>r. zn_id r = j) ?rows then Some (Inl False, w1)
      else if zoneSlugExists ?rows s then Some (Inl True, w1) else Some (Inr row0, w1\<lparr>zone_rows := ?rows @ [row0]\<rparr>))"
    unfolding zone_attempt_def i by (simp add: m Let_def s_def row0_def w1_def)
  consider "x = Inl False" "w' = w1" | "x = Inl True" "w' = w1"
    | "x = Inr row0" "w' = w1\<lparr>zone_rows := ?rows @ [row0]\<rparr>" "\<not> list_ex (\<lambda>r. zn_id r = j) ?rows" "\<not> zoneSlugExists ?rows s"
    using a unfolding e by (auto split: if_splits)
  then have "zones_ok (zone_rows w') \<and> (\<exists>n rows. w' = w\<lparr>store := (store w)\<lparr>uuids := n\<rparr>, zone_rows := rows\<rparr>) \<and>
      (x = Inr row \<longrightarrow> zone_rows w' = zone_rows w @ rivals @ [row] \<and> zn_name row = nm \<and> (slug \<noteq> None \<longrightarrow> zn_slug row = the slug)) \<and>
      (x = Inl b \<longrightarrow> zone_rows w' = zone_rows w @ rivals)"
  proof cases
    case 3
    have "zones_ok (?rows @ [row0])" using ok 3(3,4) mint_unreserved [OF m] by (auto simp: zones_ok_def row0_def zoneSlugExists_def list_ex_iff)
    moreover have "row0 = row \<Longrightarrow> zn_name row = nm \<and> (slug \<noteq> None \<longrightarrow> zn_slug row = the slug)" by (auto simp: row0_def s_def)
    ultimately show ?thesis using 3(1,2) by (auto simp: w1_def)
  qed (use ok in \<open>auto simp: w1_def\<close>)
  then show "zones_ok (zone_rows w')" "\<exists>n rows. w' = w\<lparr>store := (store w)\<lparr>uuids := n\<rparr>, zone_rows := rows\<rparr>"
    "x = Inr row \<Longrightarrow> zone_rows w' = zone_rows w @ rivals @ [row] \<and> zn_name row = fst input \<and> (fst (snd input) \<noteq> None \<longrightarrow> zn_slug row = the (fst (snd input)))"
    "x = Inl b \<Longrightarrow> zone_rows w' = zone_rows w @ rivals" by (simp_all add: i)
qed

lemma zones_ok_prefix: "zones_ok (xs @ ys) \<Longrightarrow> zones_ok xs"
  by (auto simp: zones_ok_def)

lemma createZone_ok:
  assumes c: "createZoneRecord e rivals input owner ab w = Some (x, w')" and ok: "zones_ok (zone_rows w @ rivals 0 @ rivals 1)"
  shows "zones_ok (zone_rows w')" "\<exists>n rows. w' = w\<lparr>store := (store w)\<lparr>uuids := n\<rparr>, zone_rows := rows\<rparr>"
    and "x = Inr row \<Longrightarrow> row \<in> set (zone_rows w') \<and> zn_name row = fst input \<and> (fst (snd input) \<noteq> None \<longrightarrow> zn_slug row = the (fst (snd input)))"
proof -
  have ok0: "zones_ok (zone_rows w @ rivals 0)" using zones_ok_prefix [of "zone_rows w @ rivals 0" "rivals 1"] ok by simp
  obtain y w1 where y: "zone_attempt e (rivals 0) input owner ab w = Some (y, w1)"
    using c by (cases "zone_attempt e (rivals 0) input owner ab w") (auto simp: createZoneRecord_def)
  note Y = zone_attempt_ok [OF y ok0]
  have "zones_ok (zone_rows w') \<and> (\<exists>n rows. w' = w\<lparr>store := (store w)\<lparr>uuids := n\<rparr>, zone_rows := rows\<rparr>) \<and>
      (x = Inr row \<longrightarrow> row \<in> set (zone_rows w') \<and> zn_name row = fst input \<and> (fst (snd input) \<noteq> None \<longrightarrow> zn_slug row = the (fst (snd input))))"
  proof (cases "y = Inl True \<and> fst (snd input) = None")
    case True
    then have z: "zone_attempt e (rivals 1) input owner ab w1 = Some (x, w')" using c by (simp add: createZoneRecord_def y)
    have "zones_ok (zone_rows w1 @ rivals 1)" using Y(4) True ok by simp
    note Z = zone_attempt_ok [OF z this]
    obtain n rows n' rows' where u: "w1 = w\<lparr>store := (store w)\<lparr>uuids := n\<rparr>, zone_rows := rows\<rparr>"
      "w' = w1\<lparr>store := (store w1)\<lparr>uuids := n'\<rparr>, zone_rows := rows'\<rparr>" using Y(2) Z(2) by blast
    have "w' = w\<lparr>store := (store w)\<lparr>uuids := n'\<rparr>, zone_rows := rows'\<rparr>" by (simp add: u)
    then have "\<exists>n rows. w' = w\<lparr>store := (store w)\<lparr>uuids := n\<rparr>, zone_rows := rows\<rparr>" by blast
    then show ?thesis using Z(1,3) by auto
  next
    case False
    then have "(x, w') = (y, w1)" using c by (auto simp: createZoneRecord_def y split: sum.splits bool.splits if_splits)
    then show ?thesis using Y(1-3) by auto
  qed
  then show "zones_ok (zone_rows w')" "\<exists>n rows. w' = w\<lparr>store := (store w)\<lparr>uuids := n\<rparr>, zone_rows := rows\<rparr>"
    "x = Inr row \<Longrightarrow> row \<in> set (zone_rows w') \<and> zn_name row = fst input \<and> (fst (snd input) \<noteq> None \<longrightarrow> zn_slug row = the (fst (snd input)))"
    by simp_all
qed

lemma create_zone_ok:
  assumes "create_zone pattern e rivals rq w = Some (r, w')" "zones_ok (zone_rows w @ rivals 0 @ rivals 1)"
  shows "zones_ok (zone_rows w')" "\<exists>n rows. w' = w\<lparr>store := (store w)\<lparr>uuids := n\<rparr>, zone_rows := rows\<rparr>"
proof -
  define m where "m = expect (ZoneCreateBody (ap_body rq)) (err 400 ''invalid_zone'') (\<lambda>b.
          ebind (assertReservedNamespace ZoneName (Some (fst b)) (ap_actor rq)) (\<lambda>_.
          ebind (assertReservedNamespace ZoneSlug (fst (snd b)) (ap_actor rq)) (\<lambda>_.
          ebind (resolveAttribution pattern rq w None) (\<lambda>ab. Inr (b, ab)))))"
  have eq: "create_zone pattern e rivals rq w = (case m of Inl r \<Rightarrow> Some (r, w) | Inr (b, ab) \<Rightarrow>
      (case createZoneRecord e rivals b (ap_account rq) ab w of None \<Rightarrow> None
       | Some (Inl conflict, w1) \<Rightarrow> Some (if conflict then err 409 ''zone_slug_conflict'' else internal_error, w1)
       | Some (Inr row, w1) \<Rightarrow> Some (send 201 (zone_json row), w1)))" unfolding create_zone_def m_def ..
  have "zones_ok (zone_rows w') \<and> (\<exists>n rows. w' = w\<lparr>store := (store w)\<lparr>uuids := n\<rparr>, zone_rows := rows\<rparr>)"
  proof (cases m)
    case (Inl q)
    then have "w' = w" using assms(1) eq by simp
    moreover have "w = w\<lparr>store := (store w)\<lparr>uuids := uuids (store w)\<rparr>, zone_rows := zone_rows w\<rparr>" by simp
    ultimately show ?thesis using zones_ok_prefix [OF assms(2)] by blast
  next
    case (Inr ba)
    then obtain b ab where "m = Inr (b, ab)" by (cases ba) simp
    then obtain x where "createZoneRecord e rivals b (ap_account rq) ab w = Some (x, w')"
      using assms(1) eq by (auto split: option.splits sum.splits)
    from createZone_ok(1,2) [OF this assms(2)] show ?thesis by blast
  qed
  then show "zones_ok (zone_rows w')" "\<exists>n rows. w' = w\<lparr>store := (store w)\<lparr>uuids := n\<rparr>, zone_rows := rows\<rparr>" by blast+
qed

text \<open>Updates in place keep the identifiers.\<close>

lemma update_zone_ok:
  assumes "update_zone f i w = Inr (row, w')" "zones_ok (zone_rows w)" "\<And>r. zn_id (f r) = zn_id r"
  shows "zones_ok (zone_rows w')"
proof -
  have "map zn_id (zone_rows w') = map zn_id (zone_rows w)" using assms(3) by (simp add: update_zone_Inr(1) [OF assms(1)])
  then show ?thesis using assms(2) update_zone_Inr(3) [OF assms(1)] by (simp add: zones_ok_def)
qed

lemma delete_zone_ok:
  assumes "delete_zone pattern e rq i w = (r, w')" "zones_ok (zone_rows w)"
  shows "zones_ok (zone_rows w')" "\<exists>rows. w' = w\<lparr>zone_rows := rows\<rparr>"
proof -
  have "w' = w \<or> (\<exists>ab row. update_zone (archived_zone e ab) i w = Inr (row, w'))"
    using assms(1) by (auto simp: delete_zone_def ebind_Inr expect_Inr split: sum.splits)
  then have "zones_ok (zone_rows w') \<and> (\<exists>rows. w' = w\<lparr>zone_rows := rows\<rparr>)"
  proof (elim disjE exE)
    assume "w' = w"
    then show ?thesis using assms(2) by (intro conjI exI [of _ "zone_rows w"]) simp_all
  next
    fix ab row assume u: "update_zone (archived_zone e ab) i w = Inr (row, w')"
    have "zones_ok (zone_rows w')" by (rule update_zone_ok [OF u assms(2)]) (simp add: archived_zone_def)
    then show ?thesis using update_zone_Inr(1) [OF u] by blast
  qed
  then show "zones_ok (zone_rows w')" "\<exists>rows. w' = w\<lparr>zone_rows := rows\<rparr>" by blast+
qed

text \<open>What a caller other than the platform may not use, and what the checks before the insert establish.\<close>

definition reserved :: "reserved_type \<Rightarrow> string \<Rightarrow> bool" where
  "reserved t s = starts_with (RESERVED_PREFIX t) (to_lower (trim s))"

definition provisions :: "api_request \<Rightarrow> bool" where
  "provisions rq = (case ap_actor rq of None \<Rightarrow> False | Some a \<Rightarrow> isInternalProvisioner a)"

lemma assertReserved_Inr: "assertReservedNamespace t (Some s) (ap_actor rq) = Inr () \<Longrightarrow> reserved t s \<Longrightarrow> provisions rq"
  by (auto simp: assertReservedNamespace_def reserved_def provisions_def expect_Inr eguard_def split: if_splits)

lemma created_row:
  assumes "create_zone pattern e rivals rq w = Some (r, w')" "code r = 201"
  obtains nm slug dcr ab row where "ZoneCreateBody (ap_body rq) = Some (nm, slug, dcr)"
    "createZoneRecord e rivals (nm, slug, dcr) (ap_account rq) ab w = Some (Inr row, w')"
    "reserved ZoneName nm \<Longrightarrow> provisions rq" "\<And>s. slug = Some s \<Longrightarrow> reserved ZoneSlug s \<Longrightarrow> provisions rq"
proof -
  define m where "m = expect (ZoneCreateBody (ap_body rq)) (err 400 ''invalid_zone'') (\<lambda>b.
          ebind (assertReservedNamespace ZoneName (Some (fst b)) (ap_actor rq)) (\<lambda>_.
          ebind (assertReservedNamespace ZoneSlug (fst (snd b)) (ap_actor rq)) (\<lambda>_.
          ebind (resolveAttribution pattern rq w None) (\<lambda>ab. Inr (b, ab)))))"
  have er: "errs m" unfolding m_def by (intro errs_ebind errs_expect errs_reserved errs_attribution errs_Inr) simp_all
  note eq = create_zone_def [of pattern e rivals rq w, folded m_def]
  obtain ba where "m = Inr ba" using assms er eq by (cases m) simp_all
  then obtain nm slug dcr ab where m: "m = Inr ((nm, slug, dcr), ab)" by (cases ba) auto
  then have b: "ZoneCreateBody (ap_body rq) = Some (nm, slug, dcr)" "assertReservedNamespace ZoneName (Some nm) (ap_actor rq) = Inr ()"
    "assertReservedNamespace ZoneSlug slug (ap_actor rq) = Inr ()" by (auto simp: m_def expect_Inr ebind_Inr)
  obtain row where c: "createZoneRecord e rivals (nm, slug, dcr) (ap_account rq) ab w = Some (Inr row, w')"
    using assms eq m by (auto split: option.splits sum.splits if_splits)
  show thesis by (rule that [OF b(1) c]) (use assertReserved_Inr b(2,3) in blast)+
qed

lemma starts_with_append [simp]: "starts_with p (p @ s)" "starts_with p p"
  by (simp_all add: starts_with_def)

lemma nextZoneSlug_base: "starts_with (slugify nm) (nextZoneSlug rows nm u)"
proof -
  define ks where "ks = [1..<1000::nat]"
  define f where "f k = (if k = 1 then slugify nm else slugify nm @ ''-'' @ show_nat k)" for k :: nat
  have "starts_with (slugify nm) s" if "find P (map f ks) = Some s" for P s
    using find_SomeD [OF that] by (auto simp: f_def)
  then show ?thesis unfolding nextZoneSlug_def Let_def ks_def [symmetric] f_def [symmetric] by (auto split: option.split)
qed

definition zone_as_asked :: "string \<Rightarrow> string option \<Rightarrow> bool option \<Rightarrow> string option \<Rightarrow> zone_row \<Rightarrow> bool" where
  "zone_as_asked nm slug dcr owner row \<longleftrightarrow> zn_name row = nm \<and> zn_owner row = owner \<and> zn_dcr row = (dcr = Some True) \<and> zn_archived row = None \<and>
     (case slug of Some s \<Rightarrow> zn_slug row = s | None \<Rightarrow> starts_with (slugify nm) (zn_slug row))"

lemma zone_attempt_row:
  assumes "zone_attempt e rivals (nm, slug, dcr) owner ab w = Some (Inr row, w')"
  shows "zone_as_asked nm slug dcr owner row"
proof -
  obtain j n where m: "mintZoneId (uuidv7 e) (uuids (store w)) = Some (j, n)" using assms by (auto simp: zone_attempt_def split: option.splits)
  then have "zn_slug row = (case slug of Some t \<Rightarrow> t | None \<Rightarrow> nextZoneSlug (zone_rows w) nm (uuidv7 e n))" "zn_owner row = owner" "zn_name row = nm"
    "zn_dcr row = (dcr = Some True)" "zn_archived row = None"
    using assms unfolding zone_attempt_def prod.case m option.case Let_def by (auto split: if_splits)
  then show ?thesis using nextZoneSlug_base by (simp add: zone_as_asked_def split: option.split)
qed

lemma createZone_row:
  assumes c: "createZoneRecord e rivals (nm, slug, dcr) owner ab w = Some (Inr row, w')" and ok: "zones_ok (zone_rows w @ rivals 0 @ rivals 1)"
  shows "zone_as_asked nm slug dcr owner row" "zone_rows w' = zone_rows w @ rivals 0 @ [row] \<or> zone_rows w' = zone_rows w @ rivals 0 @ rivals 1 @ [row]"
proof -
  have ok0: "zones_ok (zone_rows w @ rivals 0)" using zones_ok_prefix [of "zone_rows w @ rivals 0" "rivals 1"] ok by simp
  obtain y w1 where y: "zone_attempt e (rivals 0) (nm, slug, dcr) owner ab w = Some (y, w1)"
    using c by (cases "zone_attempt e (rivals 0) (nm, slug, dcr) owner ab w") (auto simp: createZoneRecord_def)
  note Y = zone_attempt_ok [OF y ok0]
  have "zone_as_asked nm slug dcr owner row \<and> (zone_rows w' = zone_rows w @ rivals 0 @ [row] \<or> zone_rows w' = zone_rows w @ rivals 0 @ rivals 1 @ [row])"
  proof (cases "y = Inl True \<and> slug = None")
    case True
    then have y': "zone_attempt e (rivals 0) (nm, None, dcr) owner ab w = Some (Inl True, w1)" and s: "slug = None" using y by simp_all
    have z: "zone_attempt e (rivals 1) (nm, slug, dcr) owner ab w1 = Some (Inr row, w')" using c y' unfolding s by (simp add: createZoneRecord_def)
    have r1: "zone_rows w1 = zone_rows w @ rivals 0" using Y(4) True by blast
    have "zones_ok (zone_rows w1 @ rivals 1)" using r1 ok by simp
    from zone_attempt_ok(3) [OF z this refl] show ?thesis using zone_attempt_row [OF z] r1 by simp
  next
    case False
    then have "y = Inr row" "w1 = w'" using c y by (auto simp: createZoneRecord_def split: sum.splits bool.splits if_splits)
    then show ?thesis using Y(3) [OF \<open>y = Inr row\<close>] zone_attempt_row [OF y [unfolded \<open>y = Inr row\<close>]] by simp
  qed
  then show "zone_as_asked nm slug dcr owner row" "zone_rows w' = zone_rows w @ rivals 0 @ [row] \<or> zone_rows w' = zone_rows w @ rivals 0 @ rivals 1 @ [row]"
    by blast+
qed

text \<open>
  C40: what creating a zone yields, also when other requests create zones at the same time (\<open>rivals\<close>, between the probe and the
  insert of either attempt). A reply 201 means that exactly one row was added beside theirs: with the name and owner of the request,
  dynamic registration as asked, and the slug of the request or one that begins with the slug form of the name. Identifiers and slugs of
  all zones stay unique and none has the identifier of the platform's organisation. A name or a sent slug with the reserved prefix is accepted
  only from the platform's own provisioner.
\<close>

theorem zone_created:
  assumes "create_zone pattern e rivals rq w = Some (r, w')" "code r = 201" "zones_ok (zone_rows w @ rivals 0 @ rivals 1)"
  shows "\<exists>nm slug dcr row. ZoneCreateBody (ap_body rq) = Some (nm, slug, dcr) \<and> zone_as_asked nm slug dcr (ap_account rq) row \<and>
    (zone_rows w' = zone_rows w @ rivals 0 @ [row] \<or> zone_rows w' = zone_rows w @ rivals 0 @ rivals 1 @ [row]) \<and> zones_ok (zone_rows w') \<and>
    (reserved ZoneName nm \<longrightarrow> provisions rq) \<and> (\<forall>s. slug = Some s \<and> reserved ZoneSlug s \<longrightarrow> provisions rq)"
proof -
  obtain nm slug dcr ab row where c: "ZoneCreateBody (ap_body rq) = Some (nm, slug, dcr)"
    "createZoneRecord e rivals (nm, slug, dcr) (ap_account rq) ab w = Some (Inr row, w')"
    "reserved ZoneName nm \<Longrightarrow> provisions rq" "\<And>s. slug = Some s \<Longrightarrow> reserved ZoneSlug s \<Longrightarrow> provisions rq"
    using created_row [OF assms(1,2)] by metis
  show ?thesis using createZone_row [OF c(2) assms(3)] create_zone_ok(1) [OF assms(1,3)] c by blast
qed

definition zone_request :: api_request where
  "zone_request = sample_request (JObj [(''name'', JStr ''Blue Team''), (''slug'', JStr ''blue'')])\<lparr>
     ap_actor := Some \<lparr>am_id = ''t1'', am_name = ''console'', am_scope = ''global'', am_zone = None, am_createdBy = Some ''console''\<rparr>\<rparr>"

definition zone_done :: "(reply \<times> world) option" where
  "zone_done = create_zone (\<lambda>_. False) (sample_env 0) (\<lambda>_. []) zone_request sample_world"

lemma zone_done_code: "map_option (\<lambda>x. code (fst x)) zone_done = Some 201"
  by code_simp

lemma zone_request_body: "ZoneCreateBody (ap_body zone_request) = Some (''Blue Team'', Some ''blue'', None)"
  by code_simp

theorem zone_created_witness:
  "\<exists>r w'. zone_done = Some (r, w') \<and> map zn_slug (zone_rows w') = [''blue''] \<and> zones_ok (zone_rows w')"
proof -
  obtain r w' where c: "zone_done = Some (r, w')" "code r = 201" using zone_done_code by (cases zone_done) auto
  have z: "zone_rows sample_world = []" by (simp add: sample_world_def)
  have "zones_ok (zone_rows sample_world @ [] @ [])" by (simp add: z zones_ok_def)
  from zone_created [OF c(1) [unfolded zone_done_def] c(2) this] obtain row where
    "zone_as_asked ''Blue Team'' (Some ''blue'') None (ap_account zone_request) row" "zone_rows w' = [row]" "zones_ok (zone_rows w')"
    unfolding zone_request_body z by auto
  then have "map zn_slug (zone_rows w') = [''blue'']" "zones_ok (zone_rows w')" by (simp_all add: zone_as_asked_def)
  then show ?thesis using c(1) by (intro exI conjI)
qed

end
