(* ===== verification/System.thy ===== *)
theory System
  imports Zones
begin

text \<open>
  The coordinator and the control plane over their shared database. A step is a step of the coordinator
  or a request or job of the control plane; the theory states when all tables are well-formed and shows
  that every step keeps them so.
\<close>

section \<open>Well-formed tables\<close>

definition tables_ok :: "env \<Rightarrow> world \<Rightarrow> bool" where
  "tables_ok e w \<longleftrightarrow> zones_ok (zone_rows w) \<and> distinct (map dg_id (delegated_grants w)) \<and> distinct (map ev_id (event_outbox w)) \<and>
     distinct (map av_id (admin_audit_events w)) \<and> chain_ok e (admin_audit_events w)"

definition world_ok :: "env \<Rightarrow> world \<Rightarrow> bool" where
  "world_ok e w \<longleftrightarrow> store_ok (store w) \<and> tables_ok e w"

lemma chain_ok_cong:
  assumes "sha256 e' = sha256 e"
  shows "chain_ok e' rows = chain_ok e rows"
proof -
  have h: "row_hash e' = row_hash e" using assms by (simp add: row_hash_def contentHash_def fun_eq_iff)
  have "linked e' p n rs = linked e p n rs" for p n rs by (induction rs arbitrary: p n) (simp_all add: h)
  then show ?thesis by (simp add: chain_ok_def)
qed

lemma insert_audit_ok:
  assumes "insertAdminAuditRecord e' key r i rows = Inr rows'" "sha256 e' = sha256 e" "chain_ok e rows" "distinct (map av_id rows)"
  shows "chain_ok e rows'" "distinct (map av_id rows')"
proof -
  note cong = chain_ok_cong [OF assms(2)]
  have "chain_ok e' rows" using assms(3) cong by blast
  then have "chain_ok e' rows'" using insert_linked [of e' rows "now e'" key r i rows'] assms(1) by simp
  then show "chain_ok e rows'" using cong by blast
  have "rows' = rows @ [audit_row_of e' key r i rows]" "\<not> list_ex (\<lambda>q. av_id q = i) rows"
    using assms(1) by (simp_all add: insertAdminAuditRecord_def reject_Inr)
  moreover have "av_id (audit_row_of e' key r i rows) = i" by (simp add: audit_row_of_def Let_def case_prod_unfold)
  ultimately show "distinct (map av_id rows')" using assms(4) by (auto simp: list_ex_iff)
qed

lemma audit_event_ok:
  assumes "audit_event e' rec w = Inr w'" "sha256 e' = sha256 e" "tables_ok e w"
  shows "tables_ok e w'"
proof -
  from assms(1) obtain i rows n where r: "insertAdminAuditRecord e' None rec i (admin_audit_events w) = Inr rows"
    "w' = w\<lparr>store := (store w)\<lparr>uuids := n\<rparr>, admin_audit_events := rows\<rparr>"
    by (auto simp: audit_event_def fresh_id_def ebind_Inr)
  then show ?thesis using assms(3) insert_audit_ok [OF r(1) assms(2)] by (simp add: tables_ok_def)
qed

lemma enqueue_events_ok:
  assumes "enqueue_events e' entries w = Inr w'" "tables_ok e w"
  shows "tables_ok e w'"
proof -
  define ids where "ids = map (uuidv7 e') [uuids (store w)..<uuids (store w) + length entries]"
  have q: "distinct ids" "\<not> list_ex (\<lambda>r. ev_id r \<in> set ids) (event_outbox w)"
    and w': "w' = w\<lparr>event_outbox := event_outbox w @ map2 (event_row_of e') ids entries, store := (store w)\<lparr>uuids := uuids (store w) + length entries\<rparr>\<rparr>"
    using assms(1) unfolding enqueue_events_def enqueueOutboxBatch_def Let_def ids_def by (auto simp: ebind_Inr reject_Inr)
  have "length ids = length entries" by (simp add: ids_def)
  then have "map ev_id (map2 (event_row_of e') ids entries) = ids"
    by (induction ids entries rule: list_induct2) (auto simp: event_row_of_def split: prod.splits)
  then have "distinct (map ev_id (event_outbox w'))" using q assms(2) by (auto simp: w' tables_ok_def list_ex_iff)
  then show ?thesis using assms(2) by (simp add: w' tables_ok_def)
qed

lemma withTransaction_ok:
  assumes "withTransaction f w = (r, w')" "tables_ok e w" "\<And>r' w''. f w = Inr (r', w'') \<Longrightarrow> tables_ok e w''"
  shows "tables_ok e w'"
  using assms by (auto simp: withTransaction_def split: sum.splits)

section \<open>The routes and jobs of the control plane\<close>

lemma revoke_subject_tables:
  assumes "revoke_subject e' rq z w = (r, w')" "sha256 e' = sha256 e" "tables_ok e w"
  shows "tables_ok e w'"
proof -
  have "tables_ok e w''" if tx: "revoke_subject_tx e' rq z u reason w = Inr (r', w'')" for u reason r' w''
  proof -
    from tx obtain d2 cs entries w1 rec where q: "enqueue_events e' entries (w\<lparr>store := d2, provider_connections := cs\<rparr>) = Inr w1" "audit_event e' rec w1 = Inr w''"
      unfolding revoke_subject_tx_def Let_def by (auto simp: reject_Inr ebind_Inr split: prod.splits)
    have "tables_ok e (w\<lparr>store := d2, provider_connections := cs\<rparr>)" using assms(3) by (simp add: tables_ok_def)
    then show ?thesis using audit_event_ok [OF q(2) assms(2)] enqueue_events_ok [OF q(1)] by blast
  qed
  then show ?thesis using assms(1,3) withTransaction_ok [OF _ assms(3)] by (auto simp: revoke_subject_def split: sum.splits prod.splits)
qed

lemma create_grant_tables:
  assumes "create_grant pattern e' controlAudience rq z w = (r, w')" "tables_ok e w"
  shows "tables_ok e w'"
proof -
  have c: "\<exists>n. w'' = w\<lparr>store := (store w)\<lparr>uuids := n\<rparr>, delegated_grants := delegated_grants w @ [g]\<rparr> \<and> dg_id g \<notin> dg_id ` set (delegated_grants w)"
    if "createDelegatedGrant e' controlAudience z b ab w = Inr (g, w'')" for b ab g w''
    using that unfolding createDelegatedGrant_def fresh_id_def Let_def
    by (auto simp: reject_Inr expect_Inr list_ex_iff split: prod.splits)
  have "w' = w \<or> (\<exists>b ab g. createDelegatedGrant e' controlAudience z b ab w = Inr (g, w'))"
    using assms(1) unfolding create_grant_def by (auto simp: ebind_Inr reject_Inr expect_Inr split: sum.splits)
  then show ?thesis using assms(2) by (auto simp: tables_ok_def dest!: c)
qed

lemma revoke_grant_tables:
  assumes "revoke_grant pattern e' rq z i w = (r, w')" "tables_ok e w"
  shows "tables_ok e w'"
proof -
  have "tables_ok e w''" if tx: "revoke_grant_tx e' rq ab z i w = Inr (r', w'')" for ab r' w''
  proof -
    define f where "f g = (if dg_id g = i \<and> dg_zone g = z then g\<lparr>dg_status := ARevoked, dg_updated_by := Some (at_actor ab),
      dg_updated_via := at_via ab, dg_updated := now e'\<rparr> else g)" for g :: grant_row
    from tx obtain g where g: "find (\<lambda>g. dg_id g = i \<and> dg_zone g = z) (delegated_grants w) = Some g" by (auto simp: revoke_grant_tx_def expect_Inr)
    obtain ids rs where p: "revoke_pages e' ''grant_revoked'' z (dg_user g) (authorities (store w)) = (ids, rs)"
      by (cases "revoke_pages e' ''grant_revoked'' z (dg_user g) (authorities (store w))")
    have q: "enqueue_events e' (map (grant_event z i (ap_id rq)) ids)
        (w\<lparr>delegated_grants := map f (delegated_grants w), store := (store w)\<lparr>authorities := rs\<rparr>\<rparr>) = Inr w''"
      using tx g p unfolding revoke_grant_tx_def Let_def f_def by (simp add: expect_def ebind_Inr)
    have "map dg_id (map f (delegated_grants w)) = map dg_id (delegated_grants w)" by (simp add: f_def)
    then have "tables_ok e (w\<lparr>delegated_grants := map f (delegated_grants w), store := (store w)\<lparr>authorities := rs\<rparr>\<rparr>)"
      using assms(2) by (simp add: tables_ok_def del: map_map)
    then show ?thesis by (rule enqueue_events_ok [OF q])
  qed
  then show ?thesis using assms withTransaction_ok [OF _ assms(2)] by (auto simp: revoke_grant_def split: sum.splits)
qed

lemma revokeDcr_tables:
  assumes "revokeDcrIdentities e' z ids rid w = Inr (counts, w')" "tables_ok e w"
  shows "tables_ok e w'"
proof (cases "ids = []")
  case False
  then obtain d entries where q: "enqueue_events e' entries (w\<lparr>store := d\<rparr>) = Inr w'"
    using assms(1) by (auto simp: revokeDcrIdentities_def Let_def ebind_Inr split: prod.splits)
  have "tables_ok e (w\<lparr>store := d\<rparr>)" using assms(2) by (simp add: tables_ok_def)
  then show ?thesis by (rule enqueue_events_ok [OF q])
qed (use assms in \<open>simp add: revokeDcrIdentities_def\<close>)

lemma update_zone_tables:
  assumes "update_zone f i w = Inr (row, w')" "tables_ok e w" "\<And>r. zn_id (f r) = zn_id r"
  shows "tables_ok e w'"
proof -
  have "zones_ok (zone_rows w')" by (rule update_zone_ok [OF assms(1) _ assms(3)]) (use assms(2) in \<open>simp add: tables_ok_def\<close>)
  then show ?thesis using assms(2) update_zone_Inr(1) [OF assms(1)] by (simp add: tables_ok_def)
qed

lemma patched_id: "zn_id (patched e' p ab r) = zn_id r"
  by (simp add: patched_def)

lemma dcr_shutdown_tables:
  assumes "dcr_shutdown_tx e' rq i p ab w = Inr (r, w')" "sha256 e' = sha256 e" "tables_ok e w"
  shows "tables_ok e w'"
proof -
  from assms(1) obtain old row w1 counts w2 where "find_zone w i = Some old"
      "zn_dcr old \<Longrightarrow> zp_shutdown p = None \<Longrightarrow> liveDcrApplications e' i (store w) = []"
    and u: "update_zone (patched e' (p\<lparr>zp_badge := None, zp_governed := None\<rparr>) ab) i w = Inr (row, w1)"
    and v: "zp_shutdown p = Some RevokeLive \<Longrightarrow> revokeDcrIdentities e' i (liveDcrApplications e' i (store w)) (ap_id rq) w1 = Inr (counts, w2)"
      "zp_shutdown p \<noteq> Some RevokeLive \<Longrightarrow> w2 = w1"
    and x: "w' = w2 \<or> (\<exists>rec. audit_event e' rec w2 = Inr w')" by (rule dcr_shutdown_Inr) (rule that)
  have "tables_ok e w1" by (rule update_zone_tables [OF u assms(3) patched_id])
  then have "tables_ok e w2" using revokeDcr_tables [OF v(1)] v(2) by blast
  then show ?thesis using x audit_event_ok [OF _ assms(2)] by blast
qed

lemma patchZone_Inr:
  assumes "patchZone e' i p ab w = Inr (r, w')"
  shows "\<exists>row. update_zone (patched e' p ab) i w = Inr (row, w')"
  using assms by (auto simp: patchZone_def reject_Inr ebind_Inr expect_Inr)

lemma patch_zone_sound:
  assumes "patch_zone pattern e' rq i w = (r, w')" "sha256 e' = sha256 e" "world_ok e w"
  shows "calm (store w) (store w') \<and> tables_ok e w'"
proof -
  have ok: "store_ok (store w)" "tables_ok e w" using assms(3) by (simp_all add: world_ok_def)
  have D: "calm (store w) (store w'') \<and> tables_ok e w''" if t: "dcr_shutdown_tx e' rq i p ab w = Inr (r', w'')" for p ab r' w''
    using dcr_shutdown_store(1) [OF ok(1) t] dcr_shutdown_tables [OF t assms(2) ok(2)] by simp
  have P: "calm (store w) (store w'') \<and> tables_ok e w''" if t: "patchZone e' i p ab w = Inr (r', w'')" for p ab r' w''
  proof -
    obtain row where u: "update_zone (patched e' p ab) i w = Inr (row, w'')" using patchZone_Inr [OF t] by blast
    have "store w'' = store w" using update_zone_Inr(1) [OF u] by simp
    then show ?thesis using ok(1) update_zone_tables [OF u ok(2) patched_id] by simp
  qed
  show ?thesis
    using assms(1) ok calm_refl [OF ok(1)] unfolding patch_zone_def
    by (auto simp: withTransaction_def split: sum.splits if_splits dest!: D P)
qed

lemma zone_routes_tables:
  "create_zone pattern e' rivals rq w = Some (r, w') \<Longrightarrow> tables_ok e w \<Longrightarrow> zones_ok (zone_rows w @ rivals 0 @ rivals 1) \<Longrightarrow>
     tables_ok e w' \<and> (\<exists>n. store w' = (store w)\<lparr>uuids := n\<rparr>)"
  "delete_zone pattern e' rq i w = (r, w') \<Longrightarrow> tables_ok e w \<Longrightarrow> tables_ok e w' \<and> store w' = store w"
proof -
  assume c: "create_zone pattern e' rivals rq w = Some (r, w')" "tables_ok e w" "zones_ok (zone_rows w @ rivals 0 @ rivals 1)"
  from create_zone_ok [OF c(1,3)] c(2) show "tables_ok e w' \<and> (\<exists>n. store w' = (store w)\<lparr>uuids := n\<rparr>)" by (auto simp: tables_ok_def)
next
  assume d: "delete_zone pattern e' rq i w = (r, w')" "tables_ok e w"
  then have "zones_ok (zone_rows w)" by (simp add: tables_ok_def)
  from delete_zone_ok [OF d(1) this] d(2) show "tables_ok e w' \<and> store w' = store w" by (auto simp: tables_ok_def)
qed

lemma tick_ids:
  assumes "tick hmac key e' batchSize lockSec worker maxAttempts xadd extra stop_at busy (rows, streams) = (rows', streams')"
  shows "map ev_id rows' = map ev_id rows"
proof -
  have d: "map ev_id (fst (dispatch hmac key e' maxAttempts xadd extra row s)) = map ev_id (fst s)" for row s
    by (cases s) (auto simp: dispatch_def Let_def dispatched_row_def failed_row_def split: xadd_outcome.splits)
  have f: "map ev_id (fst (fold (dispatch hmac key e' maxAttempts xadd extra) rs s)) = map ev_id (fst s)" for rs s
    by (induction rs arbitrary: s) (simp_all add: d)
  have c: "map ev_id (snd (claimBatch e' batchSize lockSec worker rows)) = map ev_id rows"
    by (simp add: claimBatch_def Let_def claimed_def)
  show ?thesis
  proof (cases busy)
    case False
    then have "rows' = fst (fold (dispatch hmac key e' maxAttempts xadd extra) (take stop_at (fst (claimBatch e' batchSize lockSec worker rows)))
        (snd (claimBatch e' batchSize lockSec worker rows), streams))"
      using assms by (simp add: tick_def case_prod_unfold Let_def)
    then show ?thesis by (simp only: f c fst_conv)
  qed (use assms in \<open>simp add: tick_def\<close>)
qed

lemma audited_rows:
  assumes "audited covered mutating (persist e' key up rec i) r rows = (r', rows')" "sha256 e' = sha256 e" "chain_ok e rows" "distinct (map av_id rows)"
  shows "chain_ok e rows' \<and> distinct (map av_id rows')"
proof -
  have p: "chain_ok e rs \<and> distinct (map av_id rs)" if "persist e' key up rec i rows = Some rs" for rs
    using that assms(3,4) insert_audit_ok [OF _ assms(2-4)] by (auto simp: persist_def split: option.splits if_splits sum.splits)
  show ?thesis using assms(1,3,4) p unfolding audited_def by (auto split: if_splits option.splits)
qed

section \<open>The system as a state machine\<close>

text \<open>
  The coordinator's steps, and the requests and jobs of the control plane that are modelled. Every
  request carries its own clock and identifiers; all use the same hash function as \<open>e\<close>. Zones that other requests create
  while one is being created are themselves admissible.
\<close>

inductive system_step :: "env \<Rightarrow> cfg \<Rightarrow> world \<Rightarrow> world \<Rightarrow> bool" for e c where
  coordinator: "coord_step c (store w) d \<Longrightarrow> system_step e c w (w\<lparr>store := d\<rparr>)"
| subject: "revoke_subject e' rq z w = (r, w') \<Longrightarrow> sha256 e' = sha256 e \<Longrightarrow> system_step e c w w'"
| grant: "create_grant pattern e' controlAudience rq z w = (r, w') \<Longrightarrow> system_step e c w w'"
| ungrant: "revoke_grant pattern e' rq z i w = (r, w') \<Longrightarrow> system_step e c w w'"
| zone: "create_zone pattern e' rivals rq w = Some (r, w') \<Longrightarrow> zones_ok (zone_rows w @ rivals 0 @ rivals 1) \<Longrightarrow> system_step e c w w'"
| rezone: "patch_zone pattern e' rq i w = (r, w') \<Longrightarrow> sha256 e' = sha256 e \<Longrightarrow> system_step e c w w'"
| unzone: "delete_zone pattern e' rq i w = (r, w') \<Longrightarrow> system_step e c w w'"
| collect: "runDCRGC e' locked (store w) = (n, d) \<Longrightarrow> system_step e c w (w\<lparr>store := d\<rparr>)"
| reap: "runSessionsReap e' locked (zone_rows w) (store w) = (n, d) \<Longrightarrow> system_step e c w (w\<lparr>store := d\<rparr>)"
| send_events: "tick hmac key e' batchSize lockSec worker maxAttempts xadd extra stop_at busy (event_outbox w, streams) = (rows, streams') \<Longrightarrow>
    system_step e c w (w\<lparr>event_outbox := rows\<rparr>)"
| audit_coordinator: "coordinator_audit e' key decode up rid req auth i r (admin_audit_events w) = (r', rows') \<Longrightarrow> sha256 e' = sha256 e \<Longrightarrow>
    system_step e c w (w\<lparr>admin_audit_events := rows'\<rparr>)"
| audit_api: "api_audit e' enabled key decode up rq response i r (admin_audit_events w) = (r', rows') \<Longrightarrow> sha256 e' = sha256 e \<Longrightarrow>
    system_step e c w (w\<lparr>admin_audit_events := rows'\<rparr>)"
| connect: "system_step e c w (w\<lparr>provider_connections := cs\<rparr>)"

lemma calm_step: "world_ok e w \<Longrightarrow> calm (store w) (store w') \<Longrightarrow> tables_ok e w' \<Longrightarrow> world_ok e w' \<and> settled (store w) (store w')"
  using calm_ok calm_settled by (auto simp: world_ok_def)

lemma system_step_sound:
  assumes ok: "world_ok e w" and step: "system_step e c w w'"
  shows "world_ok e w' \<and> settled (store w) (store w')"
proof -
  have st: "store_ok (store w)" and tb: "tables_ok e w" using ok by (simp_all add: world_ok_def)
  note calm0 = calm_refl [OF st]
  from step show ?thesis
  proof cases
    case (coordinator d)
    then show ?thesis using coord_step_sound [OF st, of c d] tb by (simp add: world_ok_def tables_ok_def)
  next
    case (subject e' rq z r)
    then show ?thesis using calm_step [OF ok revoke_subject_calm [OF st]] revoke_subject_tables [OF _ _ tb] by blast
  next
    case (grant pattern e' controlAudience rq z r)
    then show ?thesis using calm_step [OF ok create_grant_calm [OF st]] create_grant_tables [OF _ tb] by blast
  next
    case (ungrant pattern e' rq z i r)
    then show ?thesis using calm_step [OF ok revoke_grant_calm [OF st]] revoke_grant_tables [OF _ tb] by blast
  next
    case (zone pattern e' rivals rq r)
    from zone_routes_tables(1) [OF zone(1) tb zone(2)] obtain n where "tables_ok e w'" "store w' = (store w)\<lparr>uuids := n\<rparr>" by blast
    then show ?thesis using calm_step [OF ok, of w'] calm_uuids [OF calm0, of n] by simp
  next
    case (rezone pattern e' rq i r)
    then show ?thesis using calm_step [OF ok] patch_zone_sound [OF _ _ ok] by blast
  next
    case (unzone pattern e' rq i r)
    then show ?thesis using calm_step [OF ok, of w'] zone_routes_tables(2) [OF unzone(1) tb] calm0 by simp
  next
    case (collect e' locked n d)
    then show ?thesis using calm_step [OF ok, of w'] jobs_calm(1) [OF st, of e' locked] tb by (simp add: tables_ok_def)
  next
    case (reap e' locked n d)
    then show ?thesis using calm_step [OF ok, of w'] jobs_calm(2) [OF st, of e' locked "zone_rows w"] tb by (simp add: tables_ok_def)
  next
    case (send_events hmac key e' batchSize lockSec worker maxAttempts xadd extra stop_at busy streams rows streams')
    then show ?thesis using calm_step [OF ok, of w'] calm0 tick_ids [OF send_events(2)] tb by (simp add: tables_ok_def)
  next
    case (audit_coordinator e' key decode up rid req auth i r r' rows')
    then show ?thesis using calm_step [OF ok, of w'] calm0 tb audited_rows [of _ _ e' key up _ i r "admin_audit_events w" r' rows' e]
      unfolding coordinator_audit_def tables_ok_def by simp
  next
    case (audit_api e' enabled key decode up rq response i r r' rows')
    then show ?thesis using calm_step [OF ok, of w'] calm0 tb audited_rows [of _ _ e' key up _ i r "admin_audit_events w" r' rows' e]
      unfolding api_audit_def tables_ok_def by (simp split: if_splits)
  next
    case (connect cs)
    then show ?thesis using calm_step [OF ok, of w'] calm0 tb by (simp add: tables_ok_def)
  qed
qed

text \<open>
  C14: the database never leaves its well-formed states. Whatever the coordinator and the modelled part of the control plane do from a
  well-formed database, in any order, the database stays well-formed: the session trees, counters and limits, the
  delegations between live sessions, unique keys of sessions, delegations, invocations, grants, zones and events, and the audit chain of every zone. And no step from
  there brings an ended session or delegation back, or lowers a delegation epoch.
\<close>

theorem system_type_safe:
  assumes "world_ok e w" "(system_step e c)\<^sup>*\<^sup>* w w'"
  shows "world_ok e w' \<and> (\<forall>w''. system_step e c w' w'' \<longrightarrow> settled (store w') (store w''))"
proof -
  from assms(2,1) have "world_ok e w'" by (induction rule: rtranclp_induct) (use system_step_sound in blast)+
  then show ?thesis using system_step_sound by blast
qed

theorem system_type_safe_witness:
  "world_ok (sample_env 5000) (snd sample_kill) \<and>
   \<not> (\<exists>w''. system_step (sample_env 5000) sample_cfg (snd sample_kill) w'' \<and> \<not> settled (store (snd sample_kill)) (store w''))"
proof -
  have "tables_ok (sample_env 5000) sample_world" by (simp add: tables_ok_def sample_world_def zones_ok_def chain_ok_def zone_log_def)
  then have "world_ok (sample_env 5000) sample_world" using sample_world_ok by (simp add: world_ok_def)
  moreover have "system_step (sample_env 5000) sample_cfg sample_world (snd sample_kill)"
    by (rule system_step.subject [OF _ refl]) (simp add: sample_kill_def prod_eq_iff)
  ultimately show ?thesis using system_type_safe [OF _ r_into_rtranclp] by blast
qed

end
