(* ===== verification/Spec2Isabelle.thy ===== *)
theory Spec2Isabelle
  imports DelegationReads KeySets Receipts System
begin

text \<open>
  A verification development of the authority core of Caracal.

  \<^bold>\<open>The program.\<close> Caracal grants agents authority and takes it away. The coordinator
  (\<open>src/apps/coordinator\<close>) keeps sessions in trees, delegations between them, agent services and invocations in one
  database and announces every change through a transactional outbox. The control plane (\<open>src/apps/api\<close>) shares the
  database: it creates zones and grants, cuts subjects off and shuts registration down, with an outbox of its own. Publishers
  sign the outbox rows and add them to Redis streams. Resource servers verify mandates, consume the two
  revocation streams into a store and check each mandate against it (\<open>src/packages/identity\<close>, \<open>verify\<close>, \<open>revocation\<close>,
  \<open>backends/redis\<close>). Administrators' changes go into a hash-chained audit log (\<open>src/packages/adminAudit\<close>).

  \<^bold>\<open>Theories and sources.\<close>
  \<^item> \<open>Prelude\<close>: the parts of the JavaScript library and of PostgreSQL the sources use, the error type \<open>reply + 'a\<close>, shared lemmas.
  \<^item> \<open>Scope\<close> (\<open>core/scope.ts\<close>) with the locale \<open>narrowing_order\<close>; \<open>StreamSig\<close> (\<open>core/crypto.ts\<close>); \<open>Identity\<close>
    (\<open>identity/verify.ts\<close>); \<open>KeySets\<close> (\<open>identity/jwks.ts\<close>, the cache of signing keys).
  \<^item> \<open>CoordDb\<close>: the record \<open>db\<close> with one list of rows per table, the outbox (\<open>outbox.ts\<close>, locale
    \<open>first_writer_log\<close>), the delegation epochs, path parameters and error replies; \<open>Schema\<close>: readers for request bodies.
  \<^item> \<open>Idempotency\<close> (\<open>idempotency.ts\<close>) and \<open>Receipts\<close> (the life of a receipt among other requests).
  \<^item> \<open>Agents\<close> (\<open>routes/agents.ts\<close>: start, suspend, resume, terminate) and \<open>Paging\<close> (its reads).
  \<^item> \<open>EdgeGraph\<close>, \<open>Delegations\<close>, \<open>Narrowing\<close>, \<open>Revoke\<close>, \<open>DelegationReads\<close> (\<open>routes/delegations.ts\<close>: the graph statements,
    the create route, what it guarantees, the revoke route, the reads).
  \<^item> \<open>AgentServices\<close> (\<open>routes/agent-services.ts\<close>), \<open>Invocations\<close> (\<open>routes/invocations.ts\<close> and \<open>jobs/deadline-enforcer.ts\<close>),
    \<open>RateLimit\<close> (\<open>redis.ts\<close> and the limiters), \<open>CoordAuth\<close> (\<open>auth.ts\<close>).
  \<^item> \<open>Sweepers\<close> (\<open>jobs/ttl-sweeper.ts\<close>, \<open>service-lease-sweeper.ts\<close>, \<open>retention-cleaner.ts\<close>; locales \<open>zone_sweep\<close>,
    \<open>timed_sweep\<close>), \<open>OutboxJobs\<close> (\<open>jobs/outbox-publisher.ts\<close>, \<open>routes/outbox.ts\<close>, \<open>jobs/lifecycle-relay.ts\<close>, \<open>jobs/job.ts\<close>).
  \<^item> \<open>Coordinator\<close>: every writing route and job of the coordinator as one step relation \<open>coord_step\<close>.
  \<^item> \<open>Revocations\<close> (both revocation stores as interpretations of the locale \<open>revocation_store\<close>, and the stream consumers), \<open>Verifier\<close>
    (\<open>packages/verify\<close>, the FastMCP adapter), \<open>ApiOutbox\<close> (\<open>api/outbox.ts\<close>), \<open>Propagation\<close> (the locale \<open>announcer\<close>: what a row
    of either outbox does to a resource server).
  \<^item> \<open>AdminAudit\<close> (\<open>packages/adminAudit\<close> and the audit hooks of both services).
  \<^item> \<open>ControlPlane\<close> (\<open>api/routes/subjects.ts\<close>, \<open>grants.ts\<close>, \<open>attribution.ts\<close>, \<open>reserved-namespace.ts\<close>, \<open>jobs/dcr-gc.ts\<close>,
    \<open>jobs/sessions-reaper.ts\<close>), \<open>Zones\<close> (\<open>api/routes/zones.ts\<close>), \<open>System\<close>: both services over the shared database as one step
    relation \<open>system_step\<close>.

  A route is a function from its inputs and the store to a reply and the new store, its checks in the order of the source;
  each definition bears the name of the source function, or the name of the route where the source has an anonymous handler. The clock,
  fresh identifiers, hash functions and configuration are fields of \<open>env\<close> and \<open>cfg\<close>.

  \<^bold>\<open>What is shown.\<close> For the session tree: cascades settle exactly the subtree, starts respect all limits and inherit
  exactly the parent's live delegation, suspension is reversible, service sessions are fenced by their lease. For the graph:
  delegations only narrow, no create closes a short cycle, a revocation closes everything within ten edges and spares the rest.
  For the jobs: sweeps clear what is due, retention spares what is live, the outbox delivers at least once, the relay observes once.
  For access: who the bearer check, the mandate check and the key cache admit. For the control plane: what the kill switch, the
  registration shutdown and zone creation achieve. Across components: \<open>coord_step\<close> and \<open>system_step\<close> keep the database
  well-formed and never revive what has ended (theories \<open>Coordinator\<close>, \<open>System\<close>), and in this theory a
  termination, a subject's revocation and a delegation's revocation are followed from the route through outbox, signed message and
  consumer to the mandates a resource server then rejects.

  \<^bold>\<open>Bounds and fuel.\<close> Recursive statements over the session tree iterate with the number of sessions as fuel, which no chain of
  distinct rows exceeds; \<open>session_inv\<close> excludes cycles, and then the iteration is shown to end. Graph statements stop at ten
  edges as in the source. \<open>revoke_pages\<close>, \<open>grow\<close> and the other loops are total functions with termination proofs; \<open>mintZoneId\<close>
  may loop with a generator that repeats the reserved identifier and is an option-valued partial function.

  \<^bold>\<open>Idealisations.\<close> Transactions run one after another, so \<open>SKIP LOCKED\<close> skips nothing and serialization retries do
  not occur; only the race on derived zone slugs is modelled (\<open>rivals\<close>). Error replies keep the status and the \<open>error\<close> code. Streams
  are not trimmed (\<open>MAXLEN\<close>). The relay properties take Redis to answer; the resource-server properties do not. Strings are
  lists of 8-bit characters. The JWT and hashing libraries, URL parsing, form encoding, the collation of the host and Unicode patterns are
  parameters. Where a property needs the strength of a hash, it either concludes with an explicit collision or assumes
  that two given texts do not collide.

  \<^bold>\<open>What is not modelled.\<close> Timers, metrics, logging, start-up and connection pools; row-level security and the
  mutation gate of the control plane; its routes for applications, resources, providers and policies, its read routes for subjects, grants and
  zones, and the operator assistant; the SDKs, command-line programs, web and login apps; the services in Go and Python.
\<close>

section \<open>From the coordinator to a resource server\<close>

subsection \<open>Rows of the outbox\<close>

lemma lookup_row:
  "outbox_lookup d (t, k) = Some p \<Longrightarrow> \<exists>r\<in>set (outbox d). o_producer r = ''coordinator'' \<and> o_topic r = t \<and> o_key r = k \<and> o_payload r = p"
  by (auto simp: outbox_lookup_def dest: find_SomeD)

subsection \<open>A revocation event reaches the store\<close>

lemma revoke_event_names:
  assumes "o_payload row = revoke_event z s reason" "a \<in> {s_subject s, s_id s}"
  shows "row_names row a"
  using assms by (auto simp: row_names_def revoke_event_def anchor_fields_def)

lemma row_cuts_off:
  assumes "consumer_new REVOCATION_STREAM None key required = Some rc" "o_topic row = SessionsRevoke" "o_payload row = revoke_event z s reason"
    and "redis_anchor (s_id s)" "redis_anchor (s_subject s)" "epoch_values (fd_store f)"
    and "snd (revocation_message hmac rc up t m (streamFields hmac key row) f)"
    and "sorted (map fst evs)" "\<forall>ev\<in>set evs. t \<le> fst ev \<and> fst ev \<le> t'" "t \<le> t'" "t' < t + rs_defaultTtlMs (fd_store f)"
    and "dp_revocations deps = Some (redis_api up' t' (fd_store
         (feed_run hmac rc ic evs (fst (revocation_message hmac rc up t m (streamFields hmac key row) f)))))"
    and "authenticate ks jv nowMs token deps = Inr cl"
  shows "s_id s \<notin> set (claim_anchors cl) \<and> s_subject s \<notin> set (claim_anchors cl)"
proof -
  have st: "o_topic row = REVOCATION_STREAM" using assms(2) by (simp add: SessionsRevoke_def REVOCATION_STREAM_def)
  have "row_names row (s_id s)" "row_names row (s_subject s)" by (rule revoke_event_names [OF assms(3)], simp)+
  then show ?thesis using coordinator_rows.cuts_off [OF assms(1) st _ _ assms(6-13)] assms(4,5) by blast
qed

subsection \<open>Terminated sessions\<close>

text \<open>
  C5: termination reaches the resource servers. When a terminate succeeds, every session of the subtree
  whose authority record is neither shared with a live session outside it nor an application's own has a
  revocation event in the outbox. Once a resource server's consumer has processed the message the
  publisher makes of that row, whatever both consumers process afterwards and whether Redis
  answers or not, the server admits no mandate that carries the session or its
  authority record as an anchor, for the lifetime of the store's entries.
\<close>

theorem terminated_session_rejected:
  assumes "terminate_session e req z i query body d = (r, d')" "is_success r" "session_inv d"
    and "s \<in> set (sessions d)" "in_subtree d z live_status [i] (s_id s)"
    and "outbox_lookup d (SessionsRevoke, ''agent_terminate:'' @ s_id s) = None"
    and "\<not> (\<exists>t\<in>set (sessions d). s_zone t = z \<and> s_subject t = s_subject s \<and> \<not> in_subtree d z live_status [i] (s_id t) \<and> live t)"
    and "\<not> (\<exists>a\<in>set (authorities d). r_zone a = z \<and> r_id a = s_subject s \<and> r_type a = ''application'')"
    and "consumer_new REVOCATION_STREAM None key required = Some rc" "redis_anchor (s_id s)" "redis_anchor (s_subject s)"
  shows "\<exists>row\<in>set (outbox d'). o_topic row = SessionsRevoke \<and> o_key row = ''agent_terminate:'' @ s_id s \<and>
    (\<forall>hmac up t m f ic evs t' up' ks jv nowMs token deps cl.
       epoch_values (fd_store f) \<and> snd (revocation_message hmac rc up t m (streamFields hmac key row) f) \<and>
       sorted (map fst evs) \<and> (\<forall>ev\<in>set evs. t \<le> fst ev \<and> fst ev \<le> t') \<and> t \<le> t' \<and> t' < t + rs_defaultTtlMs (fd_store f) \<and>
       dp_revocations deps = Some (redis_api up' t' (fd_store
         (feed_run hmac rc ic evs (fst (revocation_message hmac rc up t m (streamFields hmac key row) f))))) \<and>
       authenticate ks jv nowMs token deps = Inr cl \<longrightarrow>
       s_id s \<notin> set (claim_anchors cl) \<and> s_subject s \<notin> set (claim_anchors cl))"
proof -
  from assms(1,2) obtain reason n where t: "terminateSubtree e z [i] reason STerminated d = Inr (n, d')"
    by (rule terminate_session_success) (rule that, assumption)
  from t obtain ids where tree: "tree d z live_status [i] = Some ids" by (rule terminateSubtree_Inr) (simp, rule that)
  note sub = tree_iff [OF tree]
  have "\<not> exempt d z ids (s_subject s)" using assms(7,8) by (auto simp: exempt_def list_ex_iff sub)
  then have "outbox_lookup d' (SessionsRevoke, ''agent_terminate:'' @ s_id s) = Some (revoke_event z s reason)"
    using terminate_revocations [OF assms(3) t not_Cons_self2 tree assms(4) _ assms(6)] assms(5) by (simp add: sub)
  from lookup_row [OF this] obtain row where row: "row \<in> set (outbox d')" "o_topic row = SessionsRevoke"
    "o_key row = ''agent_terminate:'' @ s_id s" "o_payload row = revoke_event z s reason" by blast
  show ?thesis
    by (intro bexI [OF _ row(1)] conjI row(2,3) allI impI; elim conjE)
      (use row_cuts_off [OF assms(9) row(2,4) assms(10,11)] in blast)+
qed

text \<open>A zone in which the terminated session is the only one of its authority record.\<close>

definition lone_db :: db where
  "lone_db = sample_db\<lparr>sessions := [sample_session ''a'' None 0 0], edges := []\<rparr>"

definition lone_terminated :: "reply \<times> db" where
  "lone_terminated = terminate_session (sample_env 1000) sample_auth ''z1'' ''a'' [] None lone_db"

definition plain_consumer :: consumer where
  "plain_consumer = \<lparr>cs_stream = REVOCATION_STREAM, cs_streamHmacKey = None, cs_requireSignature = False\<rparr>"

definition fresh_feed :: feed where
  "fresh_feed = \<lparr>fd_store = redis_store_new None None None [], fd_acked = [], fd_dead = []\<rparr>"

lemma lone_facts: "is_success (fst lone_terminated)" "session_inv lone_db" "in_subtree lone_db ''z1'' live_status [''a''] ''a''"
proof -
  show "is_success (fst lone_terminated)" "session_inv lone_db" by code_simp+
  show "in_subtree lone_db ''z1'' live_status [''a''] ''a''"
    using in_subtree.root [of "sample_session ''a'' None 0 0" lone_db "[''a'']" "''z1''" live_status]
    by (simp add: lone_db_def sample_session_def live_status_def)
qed

lemma mark_anchors_completes: "snd (mark_anchors working t as f)"
  by (induction as arbitrary: f) (auto simp: redis_markRevoked_def)

lemma message_completes: "snd (revocation_message hmac c working t m flds f)"
  by (simp add: revocation_message_def Let_def and_then_snd mark_anchors_completes consumer_ack_def deadLetter_def)

text \<open>A mandate of session \<open>a\<close>, and its check against a store at a time.\<close>

definition sample_mandate :: payload where
  "sample_mandate = [(''jti'', JStr ''j''), (''sub'', JStr ''u''), (''client_id'', JStr ''app''), (''sid'', JStr ''ar1''), (''root_sid'', JStr ''ar1''),
     (''use'', JStr ''resource''), (''sub_type'', JStr ''user''), (''iat'', JInt 0), (''exp'', JInt 900), (''scope'', JStr ''read''),
     (''zone_id'', JStr ''z1''), (''agent_session_id'', JStr ''a'')]"

definition sample_check :: "time \<Rightarrow> feed \<Rightarrow> auth_error + claims" where
  "sample_check t f = authenticate (\<lambda>iss z. Some ()) (\<lambda>token k iss aud. Some sample_mandate) 0 ''token''
     \<lparr>dp_config = example_config, dp_revocations = Some (redis_api working t (fd_store f))\<rparr>"

lemma sample_verify: "\<exists>cl. verify (\<lambda>iss z. Some ()) (\<lambda>token k iss aud. Some sample_mandate) ''token'' (resource_config example_config) = Inr cl \<and>
    c_sessionId cl = Some ''a'' \<and> c_expiresAt cl = 900 \<and> c_graphEpoch cl = None \<and> c_authorityRecordId cl = ''ar1''"
proof -
  have "case verify (\<lambda>iss z. Some ()) (\<lambda>token k iss aud. Some sample_mandate) ''token'' (resource_config example_config) of Inl x \<Rightarrow> False
    | Inr cl \<Rightarrow> c_sessionId cl = Some ''a'' \<and> c_expiresAt cl = 900 \<and> c_graphEpoch cl = None \<and> c_authorityRecordId cl = ''ar1''" by code_simp
  then show ?thesis by (auto split: sum.splits)
qed

lemma sample_check_Inr: "sample_check t f = Inr cl \<Longrightarrow> c_sessionId cl = Some ''a'' \<and> c_authorityRecordId cl = ''ar1''"
  using sample_verify by (auto simp: sample_check_def authenticate_Inr)

lemma sample_admitted: "\<exists>cl. sample_check 6 fresh_feed = Inr cl"
  using sample_verify
  by (auto simp: sample_check_def authenticate_Inr checkActiveAuthority_ok redis_api_def redis_isRevoked_def fresh_feed_def redis_store_new_def redis_get_def)

lemma sample_cut:
  assumes "\<forall>hmac up t m f ic evs t' up' ks jv nowMs token deps cl.
       epoch_values (fd_store f) \<and> snd (revocation_message hmac plain_consumer up t m (fl hmac) f) \<and>
       sorted (map fst evs) \<and> (\<forall>ev\<in>set evs. t \<le> fst ev \<and> fst ev \<le> t') \<and> t \<le> t' \<and> t' < t + rs_defaultTtlMs (fd_store f) \<and>
       dp_revocations deps = Some (redis_api up' t' (fd_store
         (feed_run hmac plain_consumer ic evs (fst (revocation_message hmac plain_consumer up t m (fl hmac) f))))) \<and>
       authenticate (ks :: string \<Rightarrow> string \<Rightarrow> unit option) jv nowMs token deps = Inr cl \<longrightarrow>
       ''a'' \<notin> set (claim_anchors cl) \<and> x \<notin> set (claim_anchors cl)"
  shows "\<not> (\<exists>cl. sample_check 6 (fst (revocation_message (\<lambda>k m. m) plain_consumer working 5 ''1-0'' (fl (\<lambda>k m. m)) fresh_feed)) = Inr cl)"
proof
  assume "\<exists>cl. sample_check 6 (fst (revocation_message (\<lambda>k m. m) plain_consumer working 5 ''1-0'' (fl (\<lambda>k m. m)) fresh_feed)) = Inr cl"
  then obtain cl where A: "sample_check 6 (fst (revocation_message (\<lambda>k m. m) plain_consumer working 5 ''1-0'' (fl (\<lambda>k m. m)) fresh_feed)) = Inr cl"
    by blast
  have inv: "epoch_values (fd_store fresh_feed)" "5 + rs_defaultTtlMs (fd_store fresh_feed) = 86400005"
    by (simp_all add: fresh_feed_def redis_store_new_def epoch_values_def DEFAULT_REVOCATION_TTL_MS_def)
  have "''a'' \<notin> set (claim_anchors cl)"
    by (rule conjunct1, rule assms [rule_format, where f = fresh_feed and hmac = "\<lambda>k m. m" and up = working and t = 5 and m = "''1-0''" and evs = "[]"
        and t' = 6 and up' = working and deps = "\<lparr>dp_config = example_config, dp_revocations = Some (redis_api working 6 (fd_store
          (fst (revocation_message (\<lambda>k m. m) plain_consumer working 5 ''1-0'' (fl (\<lambda>k m. m)) fresh_feed))))\<rparr>"], intro conjI,
      rule inv, rule message_completes, simp_all add: inv feed_run_def) (rule A [unfolded sample_check_def])
  then show False using sample_check_Inr [OF A] by (simp add: claim_anchors_mem)
qed

lemma lone_hyps:
  "sample_session ''a'' None 0 0 \<in> set (sessions lone_db)" "outbox_lookup lone_db tk = None"
  "\<not> (\<exists>t\<in>set (sessions lone_db). s_zone t = ''z1'' \<and> s_subject t = s_subject (sample_session ''a'' None 0 0) \<and> s_id t \<noteq> ''a'' \<and> live t)"
  "\<not> (\<exists>a\<in>set (authorities lone_db). r_zone a = ''z1'' \<and> r_id a = s_subject (sample_session ''a'' None 0 0) \<and> r_type a = ''application'')"
  "redis_anchor (s_id (sample_session ''a'' None 0 0))" "redis_anchor (s_subject (sample_session ''a'' None 0 0))"
  "consumer_new REVOCATION_STREAM None None None = Some plain_consumer" "s_id (sample_session ''a'' None 0 0) = ''a''"
  by (auto simp: sample_session_def lone_db_def sample_db_def empty_db_def outbox_lookup_def redis_anchor_def starts_with_def consumer_new_def plain_consumer_def)

theorem terminated_session_rejected_witness:
  "(\<exists>cl. sample_check 6 fresh_feed = Inr cl) \<and>
   (\<exists>row\<in>set (outbox (snd lone_terminated)). o_topic row = SessionsRevoke \<and>
     \<not> (\<exists>cl. sample_check 6 (fst (revocation_message (\<lambda>k m. m) plain_consumer working 5 ''1-0'' (streamFields (\<lambda>k m. m) None row) fresh_feed)) = Inr cl))"
proof (intro conjI sample_admitted)
  have eq: "terminate_session (sample_env 1000) sample_auth ''z1'' ''a'' [] None lone_db = (fst lone_terminated, snd lone_terminated)"
    by (simp add: lone_terminated_def)
  have h: "in_subtree lone_db ''z1'' live_status [''a''] (s_id (sample_session ''a'' None 0 0))"
    "\<not> (\<exists>t\<in>set (sessions lone_db). s_zone t = ''z1'' \<and> s_subject t = s_subject (sample_session ''a'' None 0 0) \<and> \<not> in_subtree lone_db ''z1'' live_status [''a''] (s_id t) \<and> live t)"
    using lone_facts(3) lone_hyps(3,8) by auto
  from terminated_session_rejected [OF eq lone_facts(1,2) lone_hyps(1) h(1) lone_hyps(2) h(2) lone_hyps(4,7,5,6)]
  show "\<exists>row\<in>set (outbox (snd lone_terminated)). o_topic row = SessionsRevoke \<and>
     \<not> (\<exists>cl. sample_check 6 (fst (revocation_message (\<lambda>k m. m) plain_consumer working 5 ''1-0'' (streamFields (\<lambda>k m. m) None row) fresh_feed)) = Inr cl)"
    unfolding lone_hyps(8) by (elim bexE conjE) (rule bexI, rule conjI, assumption, rule sample_cut [where fl = "\<lambda>hmac. streamFields hmac None _"])
qed

subsection \<open>Subjects cut off by the administrators\<close>

text \<open>
  C6: the kill switch reaches the resource servers. When the revocation of a subject succeeds, take any
  active authority record of the subject, or any session, record or active delegation of the
  session trees that ride on one. The API's outbox then holds a row for it on the revocation stream. Once a
  resource server's consumer has processed the message the API makes of that row, whatever
  both consumers process afterwards and whether Redis answers or not, the server admits no mandate that
  carries it as an anchor, for the lifetime of the store's entries.
\<close>

theorem revoked_subject_rejected:
  assumes "revoke_subject e rq z w = (r, w')" "is_success r" "RevokeBody (ap_body rq) = Some (u, reason)" "store_ok (store w)"
    and "(\<exists>q\<in>set (authorities (store w)). subject_active z u q \<and> a = r_id q) \<or> closure_anchor (store w) z (governed_ids (store w) z u) a"
    and "consumer_new REVOCATION_STREAM None key required = Some rc" "redis_anchor a"
  shows "\<exists>row\<in>set (event_outbox w'). ev_stream row = REVOCATION_STREAM \<and>
    (\<forall>hmac up t m f ic evs t' up' ks jv nowMs token deps cl.
       epoch_values (fd_store f) \<and> snd (revocation_message hmac rc up t m (event_fields hmac key row) f) \<and>
       sorted (map fst evs) \<and> (\<forall>ev\<in>set evs. t \<le> fst ev \<and> fst ev \<le> t') \<and> t \<le> t' \<and> t' < t + rs_defaultTtlMs (fd_store f) \<and>
       dp_revocations deps = Some (redis_api up' t' (fd_store
         (feed_run hmac rc ic evs (fst (revocation_message hmac rc up t m (event_fields hmac key row) f))))) \<and>
       authenticate ks jv nowMs token deps = Inr cl \<longrightarrow> a \<notin> set (claim_anchors cl))"
proof -
  obtain why where "revoke_subject_tx e rq z u why w = Inr (r, w')" using revoke_subject_success [OF assms(1-3)] by blast
  from revoke_subject_facts(6,7) [OF assms(4) this] have "announced (event_outbox w') a" using assms(5) by blast
  then obtain row where row: "row \<in> set (event_outbox w')" "ev_stream row = REVOCATION_STREAM" "event_names row a"
    by (auto simp: announced_def list_ex_iff)
  show ?thesis
    by (intro bexI [OF _ row(1)] conjI row(2) allI impI; elim conjE)
      (use api_rows.cuts_off [OF assms(6) row(2,3) assms(7)] in blast)
qed

theorem revoked_subject_rejected_witness:
  "(\<exists>cl. sample_check 6 fresh_feed = Inr cl) \<and>
   (\<exists>row\<in>set (event_outbox (snd sample_kill)). ev_stream row = REVOCATION_STREAM \<and>
     \<not> (\<exists>cl. sample_check 6 (fst (revocation_message (\<lambda>k m. m) plain_consumer working 5 ''1-0'' (event_fields (\<lambda>k m. m) None row) fresh_feed)) = Inr cl))"
proof (intro conjI sample_admitted)
  let ?b = "JObj [(''subject_id'', JStr ''alice'')]"
  have eq: "revoke_subject (sample_env 5000) (sample_request ?b) ''z1'' sample_world = (fst sample_kill, snd sample_kill)"
    by (simp add: sample_kill_def)
  have body: "RevokeBody (ap_body (sample_request ?b)) = Some (''alice'', None)" using sample_governed(1) by (simp add: sample_request_def)
  have "in_subtree (store sample_world) ''z1'' live_status (governed_ids (store sample_world) ''z1'' ''alice'') ''a''"
    by (rule governed_roots) (simp add: sample_governed(2))
  then have "closure_anchor (store sample_world) ''z1'' (governed_ids (store sample_world) ''z1'' ''alice'') ''a''"
    by (auto simp: closure_anchor_def sample_world_def sample_db_def sample_session_def)
  then have anchor: "(\<exists>q\<in>set (authorities (store sample_world)). subject_active ''z1'' ''alice'' q \<and> ''a'' = r_id q) \<or>
      closure_anchor (store sample_world) ''z1'' (governed_ids (store sample_world) ''z1'' ''alice'') ''a''" by (rule disjI2)
  have red: "redis_anchor ''a''" by (simp add: redis_anchor_def starts_with_def)
  from revoked_subject_rejected [OF eq sample_kill_ok body sample_world_ok anchor lone_hyps(7) red]
  show "\<exists>row\<in>set (event_outbox (snd sample_kill)). ev_stream row = REVOCATION_STREAM \<and>
     \<not> (\<exists>cl. sample_check 6 (fst (revocation_message (\<lambda>k m. m) plain_consumer working 5 ''1-0'' (event_fields (\<lambda>k m. m) None row) fresh_feed)) = Inr cl)"
    by (elim bexE conjE) (rule bexI, rule conjI, assumption,
      rule sample_cut [where fl = "\<lambda>hmac. event_fields hmac None _" and x = "''a''", unfolded conj_absorb])
qed

subsection \<open>Revoked delegations\<close>

text \<open>The store reports at least epoch \<open>n\<close> for the zone at every time up to \<open>x\<close>.\<close>

definition epoch_until :: "time \<Rightarrow> time \<Rightarrow> zone \<Rightarrow> int \<Rightarrow> redis_store \<Rightarrow> bool" where
  "epoch_until t x z n s \<longleftrightarrow> (\<forall>t'. t \<le> t' \<and> t' < x \<longrightarrow> n \<le> the (redis_currentDelegationEpoch working t' z s))"

lemma epoch_mark_keeps:
  assumes "redis_markDelegationEpoch up t z' n' None s = Some s'" "epoch_values s" "z \<noteq> []" "x \<le> t + rs_defaultTtlMs s" "epoch_until t x z n s"
  shows "epoch_until t x z n s'"
proof -
  note w = up_working(2) [OF assms(1)]
  consider "z \<noteq> z' \<or> n' \<le> the (redis_currentDelegationEpoch working t z' s)"
    | "z = z'" "the (redis_currentDelegationEpoch working t z s) < n'" "0 \<le> n'" "n' \<le> MAX_SAFE_INTEGER" | "\<not> (0 \<le> n' \<and> n' \<le> MAX_SAFE_INTEGER)"
    using not_le by blast
  then show ?thesis
  proof cases
    case 1
    then show ?thesis using redis_store.not_lowered [OF assms(2) w] assms(5) by (auto simp: epoch_until_def)
  next
    case 2
    have "n \<le> the (redis_currentDelegationEpoch working t' z s')" if "t \<le> t'" "t' < x" for t'
    proof -
      have "n \<le> the (redis_currentDelegationEpoch working t z s)" using assms(5) that by (auto simp: epoch_until_def)
      moreover have "the (redis_currentDelegationEpoch working t' z s') = n'"
        by (rule redis_store.raised [OF assms(2) w [folded 2(1)] assms(3) 2(3,4,2) that(1)]) (use that assms(4) in simp)
      ultimately show ?thesis using 2(2) by simp
    qed
    then show ?thesis by (simp add: epoch_until_def)
  next
    case 3
    then have "s' = s" using w by (auto simp: redis_markDelegationEpoch_def MAX_SAFE_INTEGER_def split: if_splits)
    then show ?thesis using assms(5) by simp
  qed
qed

lemma mark_anchors_epoch:
  assumes "\<forall>a\<in>set as. redis_anchor a" "epoch_values (fd_store f)" "epoch_until t x z n (fd_store f)"
  shows "epoch_until t x z n (fd_store (fst (mark_anchors up t as f)))"
  using assms
proof (induction as arbitrary: f)
  case (Cons a as)
  show ?case
  proof (cases "redis_markRevoked up t a None (fd_store f)")
    case None
    then show ?thesis using Cons.prems by simp
  next
    case (Some s)
    note w = up_working(1) [OF Some]
    have "epoch_until t x z n s"
      using redis_store.kept_epoch [OF Cons.prems(2) w] Cons.prems(1,3) by (auto simp: epoch_until_def)
    then show ?thesis using Cons.IH [of "f\<lparr>fd_store := s\<rparr>"] Cons.prems(1) redis_store.mark_inv [OF Cons.prems(2) w] Some by simp
  qed
qed simp

text \<open>Events whose revocation anchors are not themselves names of epoch keys.\<close>

fun plain_event :: "feed_event \<Rightarrow> bool" where
  "plain_event (Revocation i flds) = list_all redis_anchor (message_anchors (redis_fieldsToValues flds))"
| "plain_event (Invalidation i flds) = True"

lemma feed_step_epoch:
  assumes "plain_event ev" "epoch_values (fd_store f)" "z \<noteq> []" "x \<le> t + rs_defaultTtlMs (fd_store f)" "epoch_until t x z n (fd_store f)"
  shows "epoch_until t x z n (fd_store (feed_step hmac rc ic (t, up, ev) f))"
proof (cases ev)
  case (Revocation i flds)
  then show ?thesis using assms mark_anchors_epoch [of "message_anchors (redis_fieldsToValues flds)" f]
    by (simp add: revocation_message_def Let_def list_all_iff)
next
  case (Invalidation i flds)
  then show ?thesis using assms epoch_mark_keeps [OF _ assms(2-5)]
    by (simp add: invalidation_message_def Let_def split: option.split stream_value.split)
qed

lemma feed_run_epoch:
  assumes "sorted (map fst evs)" "\<forall>(t, up, ev)\<in>set evs. t0 \<le> t \<and> t \<le> t' \<and> plain_event ev" "epoch_values (fd_store f)"
    "z \<noteq> []" "x \<le> t0 + rs_defaultTtlMs (fd_store f)" "epoch_until t0 x z n (fd_store f)" "t0 \<le> t'"
  shows "epoch_until t' x z n (fd_store (feed_run hmac rc ic evs f))"
  using assms(1-3,5-7)
proof (induction evs arbitrary: t0 f)
  case Nil
  then show ?case by (auto simp: feed_run_def epoch_until_def)
next
  case (Cons e evs)
  obtain t up ev where e: "e = (t, up, ev)" by (cases e)
  let ?f = "feed_step hmac rc ic e f"
  have t: "t0 \<le> t" "plain_event ev" "t \<le> t'" using Cons.prems(2) by (auto simp: e)
  have k: "epoch_values (fd_store ?f)" "rs_defaultTtlMs (fd_store ?f) = rs_defaultTtlMs (fd_store f)"
    using feed_step_keeps [of e f hmac rc ic] Cons.prems(3) by (auto simp: keeps_def)
  have "epoch_until t x z n (fd_store f)" using Cons.prems(5) t by (auto simp: epoch_until_def)
  then have "epoch_until t x z n (fd_store ?f)"
    unfolding e by (rule feed_step_epoch [OF t(2) Cons.prems(3) assms(4), rotated]) (use Cons.prems(4) t in simp)
  then have "epoch_until t' x z n (fd_store (feed_run hmac rc ic evs ?f))"
    by (intro Cons.IH [of t]) (use Cons.prems k t in \<open>auto simp: e\<close>)
  then show ?case by (simp add: feed_run_def)
qed

lemma consumed_invalidation:
  assumes "consumer_new DELEGATION_INVALIDATION_STREAM None key required = Some ic" "o_topic row = DelegationsInvalidate"
    "o_payload row = JObj kvs" "distinct (map fst kvs)" "map_of kvs ''zone_id'' = Some (JStr z)" "map_of kvs ''epoch'' = Some (JInt n)"
    "z \<noteq> []" "0 \<le> n" "n \<le> MAX_SAFE_INTEGER" "epoch_values (fd_store f)" "the (redis_currentDelegationEpoch working t z (fd_store f)) < n"
    "snd (invalidation_message hmac ic up t m (streamFields hmac key row) f)"
  defines "f' \<equiv> fst (invalidation_message hmac ic up t m (streamFields hmac key row) f)"
  shows "epoch_until t (t + rs_defaultTtlMs (fd_store f)) z n (fd_store f') \<and> epoch_values (fd_store f') \<and>
    rs_defaultTtlMs (fd_store f') = rs_defaultTtlMs (fd_store f)"
proof -
  let ?vs = "redis_fieldsToValues (streamFields hmac key row)"
  have ok: "verifyStream hmac (cs_requireSignature ic) (cs_streamHmacKey ic) (cs_stream ic) ?vs"
    by (rule coordinator_rows.accepted [OF assms(1)]) (simp add: assms(2) DelegationsInvalidate_def DELEGATION_INVALIDATION_STREAM_def)
  have vs: "map_of ?vs ''zone_id'' = Some (SVStr z)" "map_of ?vs ''epoch'' = Some (SVStr (show_int n))"
    using message_lookup [OF assms(3,4) _ assms(5), of hmac key] message_lookup [OF assms(3,4) _ assms(6), of hmac key]
    by (simp_all add: STREAM_SIG_FIELD_def field_text_def)
  have "snd (case redis_markDelegationEpoch up t z n None (fd_store f) of None \<Rightarrow> (f, False) | Some s \<Rightarrow> (f\<lparr>fd_store := s\<rparr>, True))"
    using assms(12) ok vs assms(8) by (simp add: invalidation_message_def and_then_snd safe_number_show [OF assms(8,9)])
  then obtain s where s: "redis_markDelegationEpoch up t z n None (fd_store f) = Some s" by (auto split: option.splits)
  have st: "fd_store f' = s"
    using ok vs assms(8) s by (simp add: f'_def invalidation_message_def safe_number_show [OF assms(8,9)])
  note w = up_working(2) [OF s]
  show ?thesis unfolding st
    using redis_store.raised [OF assms(10) w assms(7-9,11)] redis_store.epoch_inv [OF assms(10) w] by (auto simp: epoch_until_def)
qed

lemma terminate_shape:
  assumes "terminateSubtree e z roots reason st d = Inr (n, d')" "roots \<noteq> []" "tree d z live_status roots = Some ids"
  defines "rows \<equiv> filter (\<lambda>s. s_id s \<in> set ids \<and> s_zone s = z) (sessions d)"
  shows "d' = d \<or> (\<exists>d2 ep d3. sessions d2 = terminate_rows e z ids roots reason st (sessions d) \<and> authorities d2 = authorities d \<and> outbox d3 = outbox d \<and>
    d' = enqueueMany e (map (revoke_edge_item z reason ep) (filter (touches z (terminated_ids d z ids)) (edges d)) @
      concat (map (terminate_items z reason (revocationExemptSessions d2 z rows)) rows)) d3)"
proof -
  let ?dead = "terminated_ids d z ids"
  define d2 where "d2 = d\<lparr>sessions := terminate_rows e z ids roots reason st (sessions d),
       edges := map (\<lambda>g. if touches z ?dead g then revoked_edge e g else g) (edges d)\<rparr>"
  define ed where "ed = (if filter (touches z ?dead) (edges d) \<noteq> [] then bumpDelegationEpoch z d2 else (0, d2))"
  have "d' = d \<or> d' = enqueueMany e (map (revoke_edge_item z reason (fst ed)) (filter (touches z ?dead) (edges d)) @
      concat (map (terminate_items z reason (revocationExemptSessions d2 z rows)) rows)) (snd ed)"
    using assms(1-3) unfolding terminateSubtree_def Let_def terminated_ids_def ed_def d2_def rows_def
    by (auto simp: case_prod_unfold simp del: filter_empty_conv split: if_splits)
  moreover have "outbox (snd ed) = outbox d" "sessions d2 = terminate_rows e z ids roots reason st (sessions d)" "authorities d2 = authorities d"
    by (simp_all add: ed_def d2_def)
  ultimately show ?thesis by blast
qed

lemma terminate_lookup_edge:
  assumes "terminateSubtree e z roots reason st d = Inr (n, d')" "\<forall>g\<in>set (edges d). e_id g = i \<longrightarrow> e_status g \<noteq> EActive"
    "outbox_lookup d (DelegationsInvalidate, ''edge_revoke:'' @ i) = None"
  shows "outbox_lookup d' (DelegationsInvalidate, ''edge_revoke:'' @ i) = None"
proof (cases "roots = []")
  case True
  then show ?thesis using assms(1,3) by (simp add: terminateSubtree_def)
next
  case False
  from assms(1) False obtain ids where tree: "tree d z live_status roots = Some ids" by (rule terminateSubtree_Inr) (rule that)
  show ?thesis
  proof (cases "d' = d")
    case False
    with terminate_shape [OF assms(1) \<open>roots \<noteq> []\<close> tree] obtain d2 ep d3 rows where "outbox d3 = outbox d"
      and d': "d' = enqueueMany e (map (revoke_edge_item z reason ep) (filter (touches z (terminated_ids d z ids)) (edges d)) @
        concat (map (terminate_items z reason (revocationExemptSessions d2 z rows)) rows)) d3" by blast
    then have "outbox_lookup d3 (DelegationsInvalidate, ''edge_revoke:'' @ i) = None" using assms(3) outbox_lookup_cong [of d3 d] by simp
    moreover have "(DelegationsInvalidate, ''edge_revoke:'' @ i, p) \<notin> set (map (revoke_edge_item z reason ep) (filter (touches z (terminated_ids d z ids)) (edges d)) @
        concat (map (terminate_items z reason (revocationExemptSessions d2 z rows)) rows))" for p
      using assms(2) by (auto simp: revoke_edge_item_def touches_def terminate_items_def DelegationsInvalidate_def SessionsRevoke_def AgentsLifecycle_def split: if_splits)
    ultimately show ?thesis unfolding d' using enqueueMany_present_iff by blast
  qed (use assms(3) in simp)
qed

lemma revoke_queues_epoch:
  assumes "revoke_delegation e req z i d = (r, d')" "is_success r" "edge_keys d"
    "outbox_lookup d (DelegationsInvalidate, ''edge_revoke:'' @ i) = None"
  shows "\<exists>n. outbox_lookup d' (DelegationsInvalidate, ''edge_revoke:'' @ i) = Some (revoke_root_event z i n (epoch_of d' z))"
proof -
  let ?ids = "affected_ids d z i" and ?key = "(DelegationsInvalidate, ''edge_revoke:'' @ i)"
  let ?rev = "filter (\<lambda>g. e_id g \<in> set ?ids) (edges d)"
  define d1 where "d1 = d\<lparr>edges := map (\<lambda>g. if e_id g \<in> set ?ids then revoked_edge e g else g) (edges d)\<rparr>"
  have "revoke_tx e req z i d = Inr (r, d')"
    by (rule parsed_success(1) [OF assms(1) [unfolded revoke_delegation_def] _ assms(2)]) simp
  then obtain n d2 where ne: "?rev \<noteq> []"
    and ts: "terminateSubtree e z (map s_id (revoke_targets d1 z ?rev)) ''delegation_revoked'' STerminated d1 = Inr (n, d2)"
    and d': "d' = enqueueMany e (fst (revoke_session_items z i (revoke_targets d1 z ?rev) []))
      (enqueue e DelegationsInvalidate (''edge_revoke:'' @ i) (revoke_root_event z i (length ?rev) (fst (bumpDelegationEpoch z d2)))
        (snd (bumpDelegationEpoch z d2)))"
    unfolding revoke_tx_def revoke_edges_def Let_def by (auto simp: d1_def case_prod_unfold simp del: filter_empty_conv)
  obtain h where h: "h \<in> set (edges d)" "e_id h \<in> set ?ids" using ne by (auto simp: filter_empty_conv)
  then obtain gs where gs: "walk d z active_edge gs" "e_id (hd gs) = i" using affected_ids_iff [OF assms(3) h(1)] by (auto simp: affected_def)
  then have "walk d z active_edge [hd gs]" "hd gs \<in> set (edges d)" by (auto simp: walk_def)
  then have "affected d z i (hd gs)" using gs(2) by (auto simp: affected_def MAX_DEPTH_def intro!: exI [of _ "[hd gs]"])
  then have "i \<in> set ?ids" using affected_ids_iff [OF assms(3) \<open>hd gs \<in> _\<close>] gs(2) by simp
  then have "\<forall>g\<in>set (edges d1). e_id g = i \<longrightarrow> e_status g \<noteq> EActive" by (auto simp: d1_def revoked_edge_def)
  moreover have "outbox_lookup d1 ?key = None" using assms(4) outbox_lookup_cong [of d1 d] by (simp add: d1_def)
  ultimately have "outbox_lookup d2 ?key = None" by (rule terminate_lookup_edge [OF ts])
  moreover have "epoch_of d' z = fst (bumpDelegationEpoch z d2)" by (simp add: d')
  ultimately show ?thesis unfolding d' by (intro exI enqueueMany_keeps) (simp add: enqueue_lookup)
qed

text \<open>
  C7: revoking a delegation makes older mandates stale everywhere. After a successful revoke the outbox
  holds an invalidation event with the zone's new epoch. Once a resource server's consumer has
  processed its message ahead of any newer one, whatever both consumers process afterwards and whether
  Redis answers or not, the server admits no mandate of the zone minted at an earlier epoch of the delegation
  graph, for the lifetime of the store's entries.
\<close>

theorem revoked_delegation_stale:
  assumes "revoke_delegation e req z i d = (r, d')" "is_success r" "edge_keys d" "z \<noteq> []" "0 \<le> epoch_of d' z" "epoch_of d' z \<le> MAX_SAFE_INTEGER"
    and "outbox_lookup d (DelegationsInvalidate, ''edge_revoke:'' @ i) = None"
    and "consumer_new DELEGATION_INVALIDATION_STREAM None key required = Some ic"
  shows "\<exists>row\<in>set (outbox d'). o_topic row = DelegationsInvalidate \<and>
    (\<forall>hmac up t m f rc evs t' up' ks jv nowMs token deps cl epoch.
       epoch_values (fd_store f) \<and> the (redis_currentDelegationEpoch working t z (fd_store f)) < epoch_of d' z \<and>
       snd (invalidation_message hmac ic up t m (streamFields hmac key row) f) \<and>
       sorted (map fst evs) \<and> (\<forall>(u, up, ev)\<in>set evs. t \<le> u \<and> u \<le> t' \<and> plain_event ev) \<and> t \<le> t' \<and> t' < t + rs_defaultTtlMs (fd_store f) \<and>
       dp_revocations deps = Some (redis_api up' t' (fd_store
         (feed_run hmac rc ic evs (fst (invalidation_message hmac ic up t m (streamFields hmac key row) f))))) \<and>
       authenticate ks jv nowMs token deps = Inr cl \<and> c_zoneId cl = z \<and> c_graphEpoch cl = Some epoch \<longrightarrow> epoch_of d' z \<le> epoch)"
proof -
  from revoke_queues_epoch [OF assms(1-3,7)] obtain n where
    "outbox_lookup d' (DelegationsInvalidate, ''edge_revoke:'' @ i) = Some (revoke_root_event z i n (epoch_of d' z))" by blast
  from lookup_row [OF this] obtain row where row: "row \<in> set (outbox d')" "o_topic row = DelegationsInvalidate"
    "o_payload row = revoke_root_event z i n (epoch_of d' z)" by blast
  note C = consumed_invalidation [OF assms(8) row(2) row(3) [unfolded revoke_root_event_def] _ _ _ assms(4-6)]
  show ?thesis
  proof (intro bexI [OF _ row(1)] conjI row(2) allI impI; elim conjE)
    fix hmac up t m f rc evs t' up' ks jv nowMs token deps cl epoch
    let ?f = "fst (invalidation_message hmac ic up t m (streamFields hmac key row) f)"
    assume A: "epoch_values (fd_store f)" "the (redis_currentDelegationEpoch working t z (fd_store f)) < epoch_of d' z"
        "snd (invalidation_message hmac ic up t m (streamFields hmac key row) f)"
      and B: "sorted (map fst evs)" "\<forall>(u, up, ev)\<in>set evs. t \<le> u \<and> u \<le> t' \<and> plain_event ev" "t \<le> t'" "t' < t + rs_defaultTtlMs (fd_store f)"
      and D: "dp_revocations deps = Some (redis_api up' t' (fd_store (feed_run hmac rc ic evs ?f)))"
        "authenticate ks jv nowMs token deps = Inr cl" "c_zoneId cl = z" "c_graphEpoch cl = Some epoch"
    have c: "epoch_until t (t + rs_defaultTtlMs (fd_store f)) z (epoch_of d' z) (fd_store ?f)" "epoch_values (fd_store ?f)"
      "rs_defaultTtlMs (fd_store ?f) = rs_defaultTtlMs (fd_store f)" using C [OF _ _ _ A] by auto
    have "epoch_until t' (t + rs_defaultTtlMs (fd_store f)) z (epoch_of d' z) (fd_store (feed_run hmac rc ic evs ?f))"
      by (rule feed_run_epoch [OF B(1,2) c(2) assms(4) _ c(1) B(3)]) (simp add: c(3))
    then have "epoch_of d' z \<le> the (redis_currentDelegationEpoch working t' z (fd_store (feed_run hmac rc ic evs ?f)))"
      using B(4) by (simp add: epoch_until_def)
    then show "epoch_of d' z \<le> epoch"
      using stale_not_admitted [OF D(2,1,4)] D(3) assms(6) by (cases "epoch < MAX_SAFE_INTEGER") auto
  qed
qed

definition stale_check :: "time \<Rightarrow> feed \<Rightarrow> auth_error + claims" where
  "stale_check t f = authenticate (\<lambda>iss z. Some ()) (\<lambda>token k iss aud. Some ((''delegation_graph_epoch'', JInt 0) # sample_mandate)) 0 ''token''
     \<lparr>dp_config = example_config, dp_revocations = Some (redis_api working t (fd_store f))\<rparr>"

definition epoch_consumer :: consumer where
  "epoch_consumer = \<lparr>cs_stream = DELEGATION_INVALIDATION_STREAM, cs_streamHmacKey = None, cs_requireSignature = False\<rparr>"

theorem revoked_delegation_stale_witness:
  "\<exists>row\<in>set (outbox (snd sample_revoked)). o_topic row = DelegationsInvalidate \<and>
     \<not> (\<exists>cl. stale_check 6 (fst (invalidation_message (\<lambda>k m. m) epoch_consumer working 5 ''1-0'' (streamFields (\<lambda>k m. m) None row) fresh_feed)) = Inr cl)"
proof -
  have keys: "edge_keys sample_db" by (simp add: edge_keys_def sample_db_def)
  have ep: "epoch_of (snd sample_revoked) ''z1'' = 1" by code_simp
  have h: "''z1'' \<noteq> []" "0 \<le> epoch_of (snd sample_revoked) ''z1''" "epoch_of (snd sample_revoked) ''z1'' \<le> MAX_SAFE_INTEGER"
    by (simp_all add: ep MAX_SAFE_INTEGER_def)
  have lk: "outbox_lookup sample_db (DelegationsInvalidate, ''edge_revoke:'' @ ''g1'') = None" by (simp add: sample_db_def empty_db_def outbox_lookup_def)
  have new: "consumer_new DELEGATION_INVALIDATION_STREAM None None None = Some epoch_consumer" by (simp add: consumer_new_def epoch_consumer_def)
  have cur: "the (redis_currentDelegationEpoch working t ''z1'' (fd_store fresh_feed)) = 0" for t
    by (simp add: redis_currentDelegationEpoch_def fresh_feed_def redis_store_new_def redis_get_def)
  have done': "snd (invalidation_message hmac ic working t m flds fresh_feed)" for hmac ic t m flds
    by (simp add: invalidation_message_def Let_def and_then_snd consumer_ack_def deadLetter_def redis_markDelegationEpoch_def split: option.split stream_value.split)
  have st: "c_zoneId cl = ''z1'' \<and> c_graphEpoch cl = Some 0" if "stale_check t f = Inr cl" for t f cl
  proof -
    have "case verify (\<lambda>iss z. Some ()) (\<lambda>token k iss aud. Some ((''delegation_graph_epoch'', JInt 0) # sample_mandate)) ''token'' (resource_config example_config) of
      Inl x \<Rightarrow> True | Inr cl \<Rightarrow> c_zoneId cl = ''z1'' \<and> c_graphEpoch cl = Some 0" by code_simp
    then show ?thesis using that by (auto simp: stale_check_def authenticate_Inr)
  qed
  have inv: "epoch_values (fd_store fresh_feed)" "5 + rs_defaultTtlMs (fd_store fresh_feed) = 86400005"
    by (simp_all add: fresh_feed_def redis_store_new_def epoch_values_def DEFAULT_REVOCATION_TTL_MS_def)
  from revoked_delegation_stale [OF sample_revoked_eq sample_revoked_ok keys h lk new]
  obtain row where row: "row \<in> set (outbox (snd sample_revoked))" "o_topic row = DelegationsInvalidate"
    and cut: "\<forall>hmac up t m f rc evs t' up' ks jv nowMs token deps cl epoch.
       epoch_values (fd_store f) \<and> the (redis_currentDelegationEpoch working t ''z1'' (fd_store f)) < 1 \<and>
       snd (invalidation_message hmac epoch_consumer up t m (streamFields hmac None row) f) \<and>
       sorted (map fst evs) \<and> (\<forall>(u, up, ev)\<in>set evs. t \<le> u \<and> u \<le> t' \<and> plain_event ev) \<and> t \<le> t' \<and> t' < t + rs_defaultTtlMs (fd_store f) \<and>
       dp_revocations deps = Some (redis_api up' t' (fd_store
         (feed_run hmac rc epoch_consumer evs (fst (invalidation_message hmac epoch_consumer up t m (streamFields hmac None row) f))))) \<and>
       authenticate (ks :: string \<Rightarrow> string \<Rightarrow> unit option) jv nowMs token deps = Inr cl \<and> c_zoneId cl = ''z1'' \<and> c_graphEpoch cl = Some epoch \<longrightarrow> 1 \<le> epoch"
    unfolding ep by (elim bexE conjE) (rule that)
  have False if A: "stale_check 6 (fst (invalidation_message (\<lambda>k m. m) epoch_consumer working 5 ''1-0'' (streamFields (\<lambda>k m. m) None row) fresh_feed)) = Inr cl" for cl
  proof -
    have "1 \<le> (0 :: int)"
      by (rule cut [rule_format, where f = fresh_feed and hmac = "\<lambda>k m. m" and up = working and t = 5 and m = "''1-0''" and evs = "[]"
        and t' = 6 and up' = working and deps = "\<lparr>dp_config = example_config, dp_revocations = Some (redis_api working 6 (fd_store
          (fst (invalidation_message (\<lambda>k m. m) epoch_consumer working 5 ''1-0'' (streamFields (\<lambda>k m. m) None row) fresh_feed))))\<rparr>" and cl = cl], intro conjI,
      rule inv, simp add: cur, rule done', simp_all add: inv feed_run_def st [OF A]) (rule A [unfolded stale_check_def])
    then show False by simp
  qed
  then show ?thesis using row by blast
qed

end
